(* ===== verification/Fffs_Prelude.thy ===== *)
theory Fffs_Prelude
  imports Main "HOL-Library.Word"
begin

unbundle bit_operations_syntax

text \<open>
  Shared vocabulary of the FASTFFS development: the machine types of the C sources, the
  status values of \<^verbatim>\<open>include/fastffs/fastffs.h\<close>, the state-and-status monad in
  which every operation is written, its weakest-precondition calculus, the little-endian
  loads and stores of \<^verbatim>\<open>src/fffs_internal.h\<close>, and list lemmas on byte buffers.

  An operation of type \<open>('s, 'a) op\<close> takes the state and yields \<open>None\<close> when the C code
  does not return, and otherwise a status with the state it leaves behind: \<open>Inl e\<close> is the
  early return of an error code \<open>e\<close>, \<open>Inr v\<close> is \<^verbatim>\<open>FFFS_OK\<close> together with the values of
  the out-parameters.  State changes made before an error return are kept.
\<close>

section \<open>Machine types and status values\<close>

type_synonym byte = "8 word"
type_synonym u8 = "8 word"
type_synonym u16 = "16 word"
type_synonym u32 = "32 word"

named_theorems wp_simps "one rule per monad combinator, rewriting wp and wlp"
named_theorems codec "encoding and decoding of on-flash records"

datatype fffs_error =
    FFFS_ERR_INVALID
  | FFFS_ERR_NOMEM
  | FFFS_ERR_RANGE
  | FFFS_ERR_NO_SPACE
  | FFFS_ERR_NOT_FOUND
  | FFFS_ERR_EXISTS
  | FFFS_ERR_NAME_TOO_LONG
  | FFFS_ERR_CORRUPT
  | FFFS_ERR_IO

fun fffs_error_code :: "fffs_error \<Rightarrow> int" where
  "fffs_error_code FFFS_ERR_INVALID = -1"
| "fffs_error_code FFFS_ERR_NOMEM = -2"
| "fffs_error_code FFFS_ERR_RANGE = -3"
| "fffs_error_code FFFS_ERR_NO_SPACE = -4"
| "fffs_error_code FFFS_ERR_NOT_FOUND = -5"
| "fffs_error_code FFFS_ERR_EXISTS = -6"
| "fffs_error_code FFFS_ERR_NAME_TOO_LONG = -7"
| "fffs_error_code FFFS_ERR_CORRUPT = -8"
| "fffs_error_code FFFS_ERR_IO = -9"

type_synonym 'a res = "fffs_error + 'a"

section \<open>The state and status monad\<close>

type_synonym ('s, 'a) op = "'s \<Rightarrow> ('a res \<times> 's) option"

definition ret :: "'a \<Rightarrow> ('s, 'a) op" where
  "ret v s = Some (Inr v, s)"

definition throw :: "fffs_error \<Rightarrow> ('s, 'a) op" where
  "throw e s = Some (Inl e, s)"

definition bindm :: "('s, 'a) op \<Rightarrow> ('a \<Rightarrow> ('s, 'b) op) \<Rightarrow> ('s, 'b) op" where
  "bindm m k s = (case m s of
     None \<Rightarrow> None
   | Some (r, s') \<Rightarrow> (case r of Inl e \<Rightarrow> Some (Inl e, s') | Inr v \<Rightarrow> k v s'))"

text \<open>\<open>seqm\<close> is the statement sequence \<^verbatim>\<open>err = f(); if (err != FFFS_OK) return err; ...\<close>.\<close>

definition seqm :: "('s, 'a) op \<Rightarrow> ('s, 'b) op \<Rightarrow> ('s, 'b) op" where
  "seqm m k = bindm m (\<lambda>_. k)"

text \<open>\<open>trym\<close> hands the status to the caller, for C code that inspects \<^verbatim>\<open>err\<close> itself.\<close>

definition trym :: "('s, 'a) op \<Rightarrow> ('s, 'a res) op" where
  "trym m s = (case m s of None \<Rightarrow> None | Some (r, s') \<Rightarrow> Some (Inr r, s'))"

definition getm :: "('s \<Rightarrow> 'a) \<Rightarrow> ('s, 'a) op" where
  "getm f s = Some (Inr (f s), s)"

definition modm :: "('s \<Rightarrow> 's) \<Rightarrow> ('s, unit) op" where
  "modm f s = Some (Inr (), f s)"

definition whenm :: "bool \<Rightarrow> ('s, unit) op \<Rightarrow> ('s, unit) op" where
  "whenm b m = (if b then m else ret ())"

definition of_res :: "'a res \<Rightarrow> ('s, 'a) op" where
  "of_res r s = Some (r, s)"

text \<open>Running the combinators on a state.\<close>

lemma bindm_getm: "bindm (getm f) k s = k (f s) s"
  by (simp add: bindm_def getm_def)

lemma bindm_ret: "bindm (ret v) k s = k v s"
  by (simp add: bindm_def ret_def)

lemma bindm_modm: "bindm (modm f) k s = k () (f s)"
  by (simp add: bindm_def modm_def)

section \<open>Weakest preconditions\<close>

text \<open>
  \<open>wp m Q s\<close>: run from \<open>s\<close>, the operation returns, and its status and final state satisfy
  \<open>Q\<close> (total correctness).  \<open>wlp m Q s\<close> is the partial variant: \<open>Q\<close> holds if it returns.
\<close>

definition wp :: "('s, 'a) op \<Rightarrow> ('a res \<Rightarrow> 's \<Rightarrow> bool) \<Rightarrow> 's \<Rightarrow> bool" where
  "wp m Q s = (case m s of None \<Rightarrow> False | Some (r, s') \<Rightarrow> Q r s')"

definition wlp :: "('s, 'a) op \<Rightarrow> ('a res \<Rightarrow> 's \<Rightarrow> bool) \<Rightarrow> 's \<Rightarrow> bool" where
  "wlp m Q s = (case m s of None \<Rightarrow> True | Some (r, s') \<Rightarrow> Q r s')"

lemma wp_ret [wp_simps]: "wp (ret v) Q s = Q (Inr v) s"
  by (simp add: wp_def ret_def)

lemma wp_throw [wp_simps]: "wp (throw e) Q s = Q (Inl e) s"
  by (simp add: wp_def throw_def)

lemma wp_getm [wp_simps]: "wp (getm f) Q s = Q (Inr (f s)) s"
  by (simp add: wp_def getm_def)

lemma wp_modm [wp_simps]: "wp (modm f) Q s = Q (Inr ()) (f s)"
  by (simp add: wp_def modm_def)

lemma wp_of_res [wp_simps]: "wp (of_res r) Q s = Q r s"
  by (simp add: wp_def of_res_def)

lemma wp_bindm [wp_simps]:
  "wp (bindm m k) Q s =
     wp m (\<lambda>r s'. case r of Inl e \<Rightarrow> Q (Inl e) s' | Inr v \<Rightarrow> wp (k v) Q s') s"
  by (simp add: wp_def bindm_def split: option.split sum.split)

lemma wp_seqm [wp_simps]:
  "wp (seqm m k) Q s =
     wp m (\<lambda>r s'. case r of Inl e \<Rightarrow> Q (Inl e) s' | Inr v \<Rightarrow> wp k Q s') s"
  by (simp add: seqm_def wp_bindm)

lemma wp_trym [wp_simps]: "wp (trym m) Q s = wp m (\<lambda>r s'. Q (Inr r) s') s"
  by (simp add: wp_def trym_def split: option.split)

lemma wp_whenm [wp_simps]: "wp (whenm b m) Q s = (if b then wp m Q s else Q (Inr ()) s)"
  by (simp add: whenm_def wp_ret)

lemma wlp_ret [wp_simps]: "wlp (ret v) Q s = Q (Inr v) s"
  by (simp add: wlp_def ret_def)

lemma wlp_throw [wp_simps]: "wlp (throw e) Q s = Q (Inl e) s"
  by (simp add: wlp_def throw_def)

lemma wlp_getm [wp_simps]: "wlp (getm f) Q s = Q (Inr (f s)) s"
  by (simp add: wlp_def getm_def)

lemma wlp_modm [wp_simps]: "wlp (modm f) Q s = Q (Inr ()) (f s)"
  by (simp add: wlp_def modm_def)

lemma wlp_of_res [wp_simps]: "wlp (of_res r) Q s = Q r s"
  by (simp add: wlp_def of_res_def)

lemma wlp_bindm [wp_simps]:
  "wlp (bindm m k) Q s =
     wlp m (\<lambda>r s'. case r of Inl e \<Rightarrow> Q (Inl e) s' | Inr v \<Rightarrow> wlp (k v) Q s') s"
  by (simp add: wlp_def bindm_def split: option.split sum.split)

lemma wlp_seqm [wp_simps]:
  "wlp (seqm m k) Q s =
     wlp m (\<lambda>r s'. case r of Inl e \<Rightarrow> Q (Inl e) s' | Inr v \<Rightarrow> wlp k Q s') s"
  by (simp add: seqm_def wlp_bindm)

lemma wlp_trym [wp_simps]: "wlp (trym m) Q s = wlp m (\<lambda>r s'. Q (Inr r) s') s"
  by (simp add: wlp_def trym_def split: option.split)

lemma wlp_whenm [wp_simps]: "wlp (whenm b m) Q s = (if b then wlp m Q s else Q (Inr ()) s)"
  by (simp add: whenm_def wlp_ret)

lemma wp_if [wp_simps]: "wp (if b then m else n) Q s = (if b then wp m Q s else wp n Q s)"
  and wlp_if [wp_simps]: "wlp (if b then m else n) Q s = (if b then wlp m Q s else wlp n Q s)"
  by simp_all

lemma wp_mono: "wp m Q s \<Longrightarrow> (\<And>r s'. Q r s' \<Longrightarrow> R r s') \<Longrightarrow> wp m R s"
  by (auto simp: wp_def split: option.splits)

lemma wlp_mono: "wlp m Q s \<Longrightarrow> (\<And>r s'. Q r s' \<Longrightarrow> R r s') \<Longrightarrow> wlp m R s"
  by (auto simp: wlp_def split: option.splits)

lemma wp_conj: "wp m Q s \<Longrightarrow> wlp m R s \<Longrightarrow> wp m (\<lambda>r s'. Q r s' \<and> R r s') s"
  by (auto simp: wp_def wlp_def split: option.splits)

lemma wp_imp_wlp: "wp m Q s \<Longrightarrow> wlp m Q s"
  by (auto simp: wp_def wlp_def split: option.splits)

text \<open>Unfolding one equation of a loop under \<open>wp\<close>.\<close>

lemma wp_eqI: "m s = m' s \<Longrightarrow> wp m' Q s \<Longrightarrow> wp m Q s"
  by (simp add: wp_def)

lemma wlp_eqI: "m s = m' s \<Longrightarrow> wlp m' Q s \<Longrightarrow> wlp m Q s"
  by (simp add: wlp_def)

lemma wpE:
  assumes "wp m Q s"
  obtains r s' where "m s = Some (r, s')" "Q r s'"
  using assms by (auto simp: wp_def split: option.splits)

lemma wp_iff: "wp m Q s \<longleftrightarrow> (\<exists>r s'. m s = Some (r, s') \<and> Q r s')"
  by (auto simp: wp_def split: option.splits)

lemma wlp_iff: "wlp m Q s \<longleftrightarrow> (\<forall>r s'. m s = Some (r, s') \<longrightarrow> Q r s')"
  by (auto simp: wlp_def split: option.splits)

section \<open>Monotonicity, for loops that may not return\<close>

lemma mono_bindm [partial_function_mono]:
  assumes "\<And>y s'. mono_option (\<lambda>f. C y f s')"
  shows "mono_option (\<lambda>f. bindm B (\<lambda>y. C y f) s)"
proof (rule monotoneI)
  fix f g :: "'c \<Rightarrow> 'd option"
  assume "fun_ord option_ord f g"
  then have le: "option_ord (C y f s') (C y g s')" for y s'
    by (rule monotoneD [OF assms])
  show "option_ord (bindm B (\<lambda>y. C y f) s) (bindm B (\<lambda>y. C y g) s)"
    using le by (cases "B s") (fastforce simp: bindm_def flat_ord_def split: sum.split)+
qed

lemma mono_seqm [partial_function_mono]:
  assumes "\<And>s'. mono_option (\<lambda>f. C f s')"
  shows "mono_option (\<lambda>f. seqm B (C f) s)"
  unfolding seqm_def using assms by (rule mono_bindm)

lemma mono_if_app [partial_function_mono]:
  assumes "mono_option (\<lambda>f. A f s)" and "mono_option (\<lambda>f. B f s)"
  shows "mono_option (\<lambda>f. (if c then A f else B f) s)"
  using assms by (cases c) simp_all

lemma mono_let_app [partial_function_mono]:
  assumes "\<And>x. mono_option (\<lambda>f. K f x s)"
  shows "mono_option (\<lambda>f. (let x = t in K f x) s)"
  using assms by (simp add: Let_def)

section \<open>Byte buffers\<close>

text \<open>\<open>sub_bytes off n xs\<close> is the \<open>n\<close> bytes of a buffer from offset \<open>off\<close>;
  \<open>put_bytes off bs xs\<close> is \<^verbatim>\<open>memcpy(xs + off, bs, sizeof bs)\<close>.\<close>

definition sub_bytes :: "nat \<Rightarrow> nat \<Rightarrow> 'a list \<Rightarrow> 'a list" where
  "sub_bytes off n xs = take n (drop off xs)"

definition put_bytes :: "nat \<Rightarrow> 'a list \<Rightarrow> 'a list \<Rightarrow> 'a list" where
  "put_bytes off bs xs = take off xs @ bs @ drop (off + length bs) xs"

lemma length_sub_bytes [simp]: "off + n \<le> length xs \<Longrightarrow> length (sub_bytes off n xs) = n"
  by (simp add: sub_bytes_def)

lemma nth_sub_bytes [simp]:
  "off + n \<le> length xs \<Longrightarrow> i < n \<Longrightarrow> sub_bytes off n xs ! i = xs ! (off + i)"
  by (simp add: sub_bytes_def)

lemma length_put_bytes [simp]:
  "off + length bs \<le> length xs \<Longrightarrow> length (put_bytes off bs xs) = length xs"
  by (simp add: put_bytes_def)

lemma nth_put_bytes:
  "off + length bs \<le> length xs \<Longrightarrow> i < length xs \<Longrightarrow>
     put_bytes off bs xs ! i = (if off \<le> i \<and> i < off + length bs then bs ! (i - off) else xs ! i)"
  by (auto simp: put_bytes_def nth_append min_def)

lemma sub_bytes_sub_bytes [simp]:
  "a + n \<le> m \<Longrightarrow> sub_bytes a n (sub_bytes off m xs) = sub_bytes (off + a) n xs"
  by (simp add: sub_bytes_def drop_take min_def add.commute)

lemma sub_bytes_0 [simp]: "sub_bytes 0 n xs = take n xs"
  by (simp add: sub_bytes_def)

lemma sub_bytes_append:
  "sub_bytes off (n + m) xs = sub_bytes off n xs @ sub_bytes (off + n) m xs"
proof -
  have "drop n (drop off xs) = drop (off + n) xs" by (simp add: add.commute)
  then show ?thesis by (simp add: sub_bytes_def take_add)
qed

lemma sub_bytes_replicate: "a + k \<le> n \<Longrightarrow> sub_bytes a k (replicate n x) = replicate k x"
  by (simp add: sub_bytes_def min_def)

lemma sub_bytes_part:
  "sub_bytes off n xs = replicate n x \<Longrightarrow> a + k \<le> n \<Longrightarrow> sub_bytes (off + a) k xs = replicate k x"
  using sub_bytes_sub_bytes [of a k n off xs] sub_bytes_replicate [of a k n x] by simp

text \<open>Programming NOR flash clears bits: every byte of the range becomes the conjunction of
  its old value and the programmed one.  Erasing sets every byte of the range to \<open>0xff\<close>.\<close>

definition nor_program :: "nat \<Rightarrow> byte list \<Rightarrow> byte list \<Rightarrow> byte list" where
  "nor_program off data mem =
     put_bytes off (map2 (\<lambda>a b. a AND b) (sub_bytes off (length data) mem) data) mem"

definition nor_erase :: "nat \<Rightarrow> nat \<Rightarrow> byte list \<Rightarrow> byte list" where
  "nor_erase off n mem = put_bytes off (replicate n 0xff) mem"

lemma length_nor_program [simp]:
  "off + length data \<le> length mem \<Longrightarrow> length (nor_program off data mem) = length mem"
  by (simp add: nor_program_def)

lemma nth_nor_program:
  "off + length data \<le> length mem \<Longrightarrow> i < length mem \<Longrightarrow>
     nor_program off data mem ! i =
       (if off \<le> i \<and> i < off + length data then mem ! i AND data ! (i - off) else mem ! i)"
  by (auto simp: nor_program_def nth_put_bytes)

lemma length_nor_erase [simp]:
  "off + n \<le> length mem \<Longrightarrow> length (nor_erase off n mem) = length mem"
  by (simp add: nor_erase_def)

lemma nth_nor_erase:
  "off + n \<le> length mem \<Longrightarrow> i < length mem \<Longrightarrow>
     nor_erase off n mem ! i = (if off \<le> i \<and> i < off + n then 0xff else mem ! i)"
  by (auto simp: nor_erase_def nth_put_bytes)

lemma byte_and_ff [simp]: "(x :: byte) AND 0xff = x" "(0xff :: byte) AND x = x"
proof -
  have *: "(0xff :: byte) = - 1" by simp
  show "x AND 0xff = x" "0xff AND x = x" by (simp_all only: * and.right_neutral and.left_neutral)
qed

lemma nor_program_Nil [simp]: "nor_program off [] mem = mem"
  by (simp add: nor_program_def put_bytes_def)

lemma nor_program_append:
  assumes "off + length xs + length ys \<le> length mem"
  shows "nor_program (off + length xs) ys (nor_program off xs mem) = nor_program off (xs @ ys) mem"
  using assms by (intro nth_equalityI) (auto simp: nth_nor_program nth_append)

text \<open>Padding with erased bytes on either side does not change what is programmed.\<close>

lemma nor_program_pad:
  assumes "off + (a + length xs + b) \<le> length mem"
  shows "nor_program off (replicate a 0xff @ xs @ replicate b 0xff) mem = nor_program (off + a) xs mem"
  using assms
  by (intro nth_equalityI) (auto simp: nth_nor_program nth_append)

lemma sub_bytes_nor_program_disjoint:
  assumes "off + length data \<le> length mem" and "a + n \<le> length mem"
    and "a + n \<le> off \<or> off + length data \<le> a"
  shows "sub_bytes a n (nor_program off data mem) = sub_bytes a n mem"
  using assms by (intro nth_equalityI) (auto simp: nth_nor_program)

lemma sub_bytes_nor_program_same:
  assumes "off + length data \<le> length mem"
  shows "sub_bytes off (length data) (nor_program off data mem) =
    map2 (\<lambda>a b. a AND b) (sub_bytes off (length data) mem) data"
  using assms by (intro nth_equalityI) (auto simp: nth_nor_program)

text \<open>Only the bytes from \<open>lo\<close> up to \<open>hi\<close> may differ.\<close>

definition only :: "nat \<Rightarrow> nat \<Rightarrow> byte list \<Rightarrow> byte list \<Rightarrow> bool" where
  "only lo hi m m' \<longleftrightarrow> length m' = length m \<and> (\<forall>i < length m. i < lo \<or> hi \<le> i \<longrightarrow> m' ! i = m ! i)"

lemma only_refl [simp]: "only lo hi m m"
  by (simp add: only_def)

lemma only_trans: "only lo hi m m1 \<Longrightarrow> only lo hi m1 m2 \<Longrightarrow> only lo hi m m2"
  by (simp add: only_def)

lemma only_mono: "only lo hi m m' \<Longrightarrow> lo' \<le> lo \<Longrightarrow> hi \<le> hi' \<Longrightarrow> only lo' hi' m m'"
  by (auto simp: only_def)

lemma only_program:
  "lo \<le> off \<Longrightarrow> off + length data \<le> hi \<Longrightarrow> off + length data \<le> length m \<Longrightarrow> only lo hi m (nor_program off data m)"
  by (auto simp: only_def nth_nor_program)

lemma map2_and_erased [simp]: "map2 (\<lambda>a b. a AND b) (replicate (length xs) (0xff :: byte)) xs = xs"
  by (intro nth_equalityI) auto

section \<open>Little-endian loads and stores\<close>

definition fffs_load_le16 :: "byte list \<Rightarrow> u16" where
  "fffs_load_le16 p = ucast (p ! 0) OR push_bit 8 (ucast (p ! 1))"

definition fffs_load_le32 :: "byte list \<Rightarrow> u32" where
  "fffs_load_le32 p = ucast (p ! 0) OR push_bit 8 (ucast (p ! 1)) OR
     push_bit 16 (ucast (p ! 2)) OR push_bit 24 (ucast (p ! 3))"

definition fffs_store_le16 :: "u16 \<Rightarrow> byte list" where
  "fffs_store_le16 v = [ucast v, ucast (drop_bit 8 v)]"

definition fffs_store_le32 :: "u32 \<Rightarrow> byte list" where
  "fffs_store_le32 v =
     [ucast v, ucast (drop_bit 8 v), ucast (drop_bit 16 v), ucast (drop_bit 24 v)]"

lemma length_store_le16 [simp]: "length (fffs_store_le16 v) = 2"
  and length_store_le32 [simp]: "length (fffs_store_le32 w) = 4"
  by (simp_all add: fffs_store_le16_def fffs_store_le32_def)

lemma load_store_le16 [codec]: "fffs_load_le16 (fffs_store_le16 v @ xs) = v"
  by (rule bit_word_eqI)
    (auto simp: fffs_load_le16_def fffs_store_le16_def bit_simps)

lemma store_load_le16: "length xs = 2 \<Longrightarrow> fffs_store_le16 (fffs_load_le16 xs) = xs"
proof -
  assume "length xs = 2"
  then obtain a b where xs: "xs = [a, b]" by (auto simp: numeral_eq_Suc length_Suc_conv)
  have "(ucast (fffs_load_le16 xs) :: byte) = a" "(ucast (drop_bit 8 (fffs_load_le16 xs)) :: byte) = b"
    by (rule bit_word_eqI; auto simp: xs fffs_load_le16_def bit_simps dest: bit_imp_le_length)+
  then show ?thesis by (simp add: fffs_store_le16_def xs)
qed

lemma store_ff: "fffs_store_le16 0xffff = [0xff, 0xff]" "fffs_store_le32 0xffffffff = [0xff, 0xff, 0xff, 0xff]"
  by (simp_all add: fffs_store_le16_def fffs_store_le32_def)

lemma load_store_le32 [codec]: "fffs_load_le32 (fffs_store_le32 v @ xs) = v"
proof (rule bit_word_eqI)
  fix n assume "n < LENGTH(32)"
  then consider "n < 8" | "8 \<le> n" "n < 16" | "16 \<le> n" "n < 24" | "24 \<le> n" "n < 32"
    by fastforce
  then show "bit (fffs_load_le32 (fffs_store_le32 v @ xs)) n = bit v n"
    by cases (auto simp: fffs_load_le32_def fffs_store_le32_def bit_simps)
qed

section \<open>Ranges of the fixed-width integers\<close>

lemma unat_u8_less [simp]: "unat (x :: u8) < 256"
  using unsigned_less [of x, where ?'a = nat] by simp

lemma unat_u16_less [simp]: "unat (x :: u16) < 65536"
  using unsigned_less [of x, where ?'a = nat] by simp

lemma unat_u32_less [simp]: "unat (x :: u32) < 4294967296"
  using unsigned_less [of x, where ?'a = nat] by simp

lemma unat_of_nat_u16 [simp]: "n < 65536 \<Longrightarrow> unat (of_nat n :: u16) = n"
  by (simp add: unat_of_nat)

lemma unat_of_nat_u32 [simp]: "n < 4294967296 \<Longrightarrow> unat (of_nat n :: u32) = n"
  by (simp add: unat_of_nat)

section \<open>Frames and termination\<close>

text \<open>\<open>keeps f m\<close>: whenever \<open>m\<close> returns, with whatever status, \<open>f\<close> of the state is unchanged.
  \<open>runs I m\<close>: from every state with \<open>I\<close> the operation returns, and \<open>I\<close> holds again.  Both are closed
  under the combinators.\<close>

definition keeps :: "('s \<Rightarrow> 'x) \<Rightarrow> ('s, 'a) op \<Rightarrow> bool" where
  "keeps f m \<longleftrightarrow> (\<forall>s r s'. m s = Some (r, s') \<longrightarrow> f s' = f s)"

definition runs :: "('s \<Rightarrow> bool) \<Rightarrow> ('s, 'a) op \<Rightarrow> bool" where
  "runs I m \<longleftrightarrow> (\<forall>s. I s \<longrightarrow> wp m (\<lambda>_. I) s)"

named_theorems frame "keeps and runs for the combinators and the operations"

lemma keepsD: "keeps f m \<Longrightarrow> m s = Some (r, s') \<Longrightarrow> f s' = f s"
  by (simp add: keeps_def)

lemma keeps_snd: "keeps f m \<Longrightarrow> m s = Some y \<Longrightarrow> f (snd y) = f s"
  by (cases y) (simp add: keeps_def)

lemma keepsI: "(\<And>s y. m s = Some y \<Longrightarrow> f (snd y) = f s) \<Longrightarrow> keeps f m"
  by (fastforce simp: keeps_def)

lemma runsD: "runs I m \<Longrightarrow> I s \<Longrightarrow> \<exists>r s'. m s = Some (r, s') \<and> I s'"
  by (simp add: runs_def wp_iff)

lemma keeps_base [frame]:
  "keeps f (ret v)" "keeps f (throw e)" "keeps f (getm g)" "keeps f (of_res x)"
  by (simp_all add: keeps_def ret_def throw_def getm_def of_res_def)

lemma keeps_modm [frame]: "(\<And>s. f (g s) = f s) \<Longrightarrow> keeps f (modm g)"
  by (simp add: keeps_def modm_def)

lemma keeps_bindm [frame]: "keeps f m \<Longrightarrow> (\<And>v. keeps f (k v)) \<Longrightarrow> keeps f (bindm m k)"
  by (fastforce simp: keeps_def bindm_def split: option.splits sum.splits)

lemma keeps_seqm [frame]: "keeps f m \<Longrightarrow> keeps f k \<Longrightarrow> keeps f (seqm m k)"
  by (simp add: seqm_def keeps_bindm)

lemma keeps_trym [frame]: "keeps f m \<Longrightarrow> keeps f (trym m)"
  by (fastforce simp: keeps_def trym_def split: option.splits)

lemma keeps_whenm [frame]: "(b \<Longrightarrow> keeps f m) \<Longrightarrow> keeps f (whenm b m)"
  by (simp add: whenm_def keeps_base)

lemma keeps_cases [frame]:
  "(b \<Longrightarrow> keeps f m) \<Longrightarrow> (\<not> b \<Longrightarrow> keeps f n) \<Longrightarrow> keeps f (if b then m else n)"
  "keeps f n \<Longrightarrow> (\<And>v. keeps f (k v)) \<Longrightarrow> keeps f (case_option n k x)"
  "(\<And>e. keeps f (g e)) \<Longrightarrow> (\<And>v. keeps f (h v)) \<Longrightarrow> keeps f (case_sum g h y)"
  "(\<And>a b. keeps f (j a b)) \<Longrightarrow> keeps f (case_prod j p)"
  "(\<And>a b. keeps f (j' a b y')) \<Longrightarrow> keeps f (case_prod j' p' y')"
  "(\<And>v. keeps f (l v)) \<Longrightarrow> keeps f (Let t l)"
  "keeps f n \<Longrightarrow> (\<And>i. keeps f (q i)) \<Longrightarrow> keeps f (case_nat n q w)"
  by (simp_all add: Let_def split: option.split sum.split prod.split nat.split)

lemma runs_base [frame]:
  "runs I (ret v)" "runs I (throw e)" "runs I (getm g)" "runs I (of_res x)"
  by (simp_all add: runs_def wp_simps)

lemma runs_modm [frame]: "(\<And>s. I s \<Longrightarrow> I (g s)) \<Longrightarrow> runs I (modm g)"
  by (simp add: runs_def wp_simps)

lemma runs_bindm [frame]: "runs I m \<Longrightarrow> (\<And>v. runs I (k v)) \<Longrightarrow> runs I (bindm m k)"
  by (fastforce simp: runs_def wp_simps split: sum.split elim: wp_mono)

lemma runs_seqm [frame]: "runs I m \<Longrightarrow> runs I k \<Longrightarrow> runs I (seqm m k)"
  by (simp add: seqm_def runs_bindm)

lemma runs_trym [frame]: "runs I m \<Longrightarrow> runs I (trym m)"
  by (simp add: runs_def wp_simps)

lemma runs_whenm [frame]: "(b \<Longrightarrow> runs I m) \<Longrightarrow> runs I (whenm b m)"
  by (simp add: whenm_def runs_base)

lemma runs_cases [frame]:
  "(b \<Longrightarrow> runs I m) \<Longrightarrow> (\<not> b \<Longrightarrow> runs I n) \<Longrightarrow> runs I (if b then m else n)"
  "runs I n \<Longrightarrow> (\<And>v. runs I (k v)) \<Longrightarrow> runs I (case_option n k x)"
  "(\<And>e. runs I (g e)) \<Longrightarrow> (\<And>v. runs I (h v)) \<Longrightarrow> runs I (case_sum g h y)"
  "(\<And>a b. runs I (j a b)) \<Longrightarrow> runs I (case_prod j p)"
  "(\<And>a b. runs I (j' a b y')) \<Longrightarrow> runs I (case_prod j' p' y')"
  "(\<And>v. runs I (l v)) \<Longrightarrow> runs I (Let t l)"
  "runs I n \<Longrightarrow> (\<And>i. runs I (q i)) \<Longrightarrow> runs I (case_nat n q w)"
  by (simp_all add: Let_def split: option.split sum.split prod.split nat.split)

text \<open>Reading the state first: the rest runs on that very state.\<close>

lemma keeps_getm_bind: "(\<And>s. keeps f (k (g s))) \<Longrightarrow> keeps f (bindm (getm g) k)"
  by (simp add: keeps_def bindm_getm)

lemma runs_at: "(\<And>s. I s \<Longrightarrow> wp m (\<lambda>_. I) s) \<Longrightarrow> runs I m"
  by (simp add: runs_def)

lemma runs_wp: "runs I m \<Longrightarrow> I s \<Longrightarrow> wp m (\<lambda>_. I) s"
  by (simp add: runs_def)

lemma runs_wp_result: "runs I m \<Longrightarrow> I s \<Longrightarrow> wp m (\<lambda>r s'. I s' \<and> m s = Some (r, s')) s"
  by (auto simp: runs_def wp_iff)

section \<open>Postconditions of success\<close>

text \<open>\<open>ensures Q m\<close>: whenever \<open>m\<close> returns successfully, from whatever state, \<open>Q\<close> holds of its value and
  final state.\<close>

definition ensures :: "('a \<Rightarrow> 's \<Rightarrow> bool) \<Rightarrow> ('s, 'a) op \<Rightarrow> bool" where
  "ensures Q m \<longleftrightarrow> (\<forall>s v s'. m s = Some (Inr v, s') \<longrightarrow> Q v s')"

named_theorems post "ensures for the combinators and the operations"

lemma ensuresI: "(\<And>s y v. m s = Some y \<Longrightarrow> fst y = Inr v \<Longrightarrow> Q v (snd y)) \<Longrightarrow> ensures Q m"
  by (fastforce simp: ensures_def)

lemma ensuresD: "ensures Q m \<Longrightarrow> m s = Some y \<Longrightarrow> fst y = Inr v \<Longrightarrow> Q v (snd y)"
  by (cases y) (simp add: ensures_def)

lemma ensures_ret [post]: "(\<And>s. Q v s) \<Longrightarrow> ensures Q (ret v)"
  by (simp add: ensures_def ret_def)

lemma ensures_throw [post]: "ensures Q (throw e)"
  by (simp add: ensures_def throw_def)

lemma ensures_modm [post]: "(\<And>s. Q () (g s)) \<Longrightarrow> ensures Q (modm g)"
  by (simp add: ensures_def modm_def)

lemma ensures_bindm [post]: "(\<And>v. ensures Q (k v)) \<Longrightarrow> ensures Q (bindm m k)"
  by (fastforce simp: ensures_def bindm_def split: option.splits sum.splits)

lemma ensures_mod_ret [post]: "(\<And>s. Q v (g s)) \<Longrightarrow> ensures Q (seqm (modm g) (ret v))"
  by (simp add: ensures_def seqm_def bindm_modm ret_def)

lemma ensures_seqm: "ensures Q k \<Longrightarrow> ensures Q (seqm m k)"
  by (simp add: seqm_def ensures_bindm)

lemma ensures_cases [post]:
  "(b \<Longrightarrow> ensures Q m) \<Longrightarrow> (\<not> b \<Longrightarrow> ensures Q n) \<Longrightarrow> ensures Q (if b then m else n)"
  "ensures Q n \<Longrightarrow> (\<And>v. ensures Q (k v)) \<Longrightarrow> ensures Q (case_option n k x)"
  "(\<And>e. ensures Q (g e)) \<Longrightarrow> (\<And>v. ensures Q (h v)) \<Longrightarrow> ensures Q (case_sum g h y)"
  "(\<And>a b. ensures Q (j a b)) \<Longrightarrow> ensures Q (case_prod j p)"
  by (simp_all split: option.split sum.split prod.split)

lemma ensures_if_done:
  assumes "ensures P m" "\<And>s. P True s \<Longrightarrow> Q () s" "ensures Q k"
  shows "ensures Q (bindm m (\<lambda>found. if found then ret () else k))"
  using assms by (fastforce simp: ensures_def bindm_def ret_def split: option.splits sum.splits if_splits)

end
