(* ===== verification/Fffs_State.thy ===== *)
theory Fffs_State
  imports Fffs_Prelude
begin

unbundle bit_operations_syntax

text \<open>
  The data model of FASTFFS: the compile-time options of
  \<^verbatim>\<open>include/fastffs/fffs_opts.h\<close> at their default values, the on-flash constants and the
  structures of \<^verbatim>\<open>include/fastffs/fastffs.h\<close> and \<^verbatim>\<open>src/fffs_internal.h\<close>, and the mirrored
  lifecycle bits of \<^verbatim>\<open>src/fffs_bitmirror.h\<close>.

  Conventions.  \<^verbatim>\<open>size_t\<close> is \<open>nat\<close>; fixed-width integers are words of that width.  A
  pointer argument is never NULL in the model, so the NULL guards of the C entry points have
  no counterpart; optional pointers are \<open>option\<close>.  Caller-owned file objects live in the
  store \<open>fs_files\<close>, addressed by \<open>nat\<close>; the intrusive list \<^verbatim>\<open>open_files\<close>/\<^verbatim>\<open>open_next\<close>
  is the list of addresses \<open>fs_open_files\<close>, first element first.  The backend's \<^verbatim>\<open>ctx\<close> is a
  value of type \<open>'c\<close> which the three backend functions thread through.
\<close>

section \<open>Options and constants\<close>

abbreviation (input) FFFS_INDEX_HASH_TABLE_SIZE_MAX :: nat where "FFFS_INDEX_HASH_TABLE_SIZE_MAX \<equiv> 16384"
abbreviation (input) FFFS_ALLOC_RECOVERY_LOOKAHEAD :: nat where "FFFS_ALLOC_RECOVERY_LOOKAHEAD \<equiv> 4"
abbreviation (input) FFFS_ALLOC_RESERVE_SECTORS :: nat where "FFFS_ALLOC_RESERVE_SECTORS \<equiv> 4"
abbreviation (input) FFFS_ALLOC_MIN_USABLE_FREE :: nat where "FFFS_ALLOC_MIN_USABLE_FREE \<equiv> 128"
abbreviation (input) FFFS_ALLOC_MAX_MD_RECORDS_PER_SECTOR :: nat
  where "FFFS_ALLOC_MAX_MD_RECORDS_PER_SECTOR \<equiv> 32"
abbreviation (input) FFFS_ALLOC_TARGET_DENSITY :: nat where "FFFS_ALLOC_TARGET_DENSITY \<equiv> 6"
abbreviation (input) FFFS_COMPACTION_CANDIDATE_COUNT :: nat where "FFFS_COMPACTION_CANDIDATE_COUNT \<equiv> 4"
abbreviation (input) FFFS_COMPACTION_RESERVE_SECTORS :: nat where "FFFS_COMPACTION_RESERVE_SECTORS \<equiv> 5"
abbreviation (input) FFFS_INDEX_COMPACT_OUTER_SCAN_SIZE :: nat
  where "FFFS_INDEX_COMPACT_OUTER_SCAN_SIZE \<equiv> 64"
abbreviation (input) FFFS_MD_PRELOAD_MAX :: nat where "FFFS_MD_PRELOAD_MAX \<equiv> 128"
abbreviation (input) FFFS_MIN_SCRATCH_SIZE :: nat where "FFFS_MIN_SCRATCH_SIZE \<equiv> 64"
abbreviation (input) FFFS_FILE_CACHE_SIZE :: nat where "FFFS_FILE_CACHE_SIZE \<equiv> 256"

abbreviation (input) FFFS_DEFAULT_SECTOR_SIZE :: nat where "FFFS_DEFAULT_SECTOR_SIZE \<equiv> 4096"
abbreviation (input) FFFS_DEFAULT_SECTOR_SHIFT :: nat where "FFFS_DEFAULT_SECTOR_SHIFT \<equiv> 4"
abbreviation (input) FFFS_MIN_SECTOR_SHIFT :: nat where "FFFS_MIN_SECTOR_SHIFT \<equiv> 0"
abbreviation (input) FFFS_MAX_SECTOR_SHIFT :: nat where "FFFS_MAX_SECTOR_SHIFT \<equiv> 15"
abbreviation (input) FFFS_DEFAULT_INDEX_SECTORS :: u8 where "FFFS_DEFAULT_INDEX_SECTORS \<equiv> 2"
abbreviation (input) FFFS_MAX_NAME :: nat where "FFFS_MAX_NAME \<equiv> 32"
abbreviation (input) FFFS_MAX_PROBE_DISTANCE :: nat where "FFFS_MAX_PROBE_DISTANCE \<equiv> 50"
abbreviation (input) FFFS_SLOT_COUNT :: nat where "FFFS_SLOT_COUNT \<equiv> 65536"

abbreviation (input) FFFS_HEADER_SIZE :: nat where "FFFS_HEADER_SIZE \<equiv> 8"
abbreviation (input) FFFS_MD_FILE_RECORD_SIZE :: nat where "FFFS_MD_FILE_RECORD_SIZE \<equiv> 16"
abbreviation (input) FFFS_SECTOR_FOOTER_SIZE :: nat where "FFFS_SECTOR_FOOTER_SIZE \<equiv> 10"
abbreviation (input) FFFS_INDEX_VERSION :: byte where "FFFS_INDEX_VERSION \<equiv> 1"
abbreviation (input) FFFS_INDEX_FLAG_VALID :: byte where "FFFS_INDEX_FLAG_VALID \<equiv> 0x80"
abbreviation (input) FFFS_INDEX_FLAG_TOMBSTONED :: byte where "FFFS_INDEX_FLAG_TOMBSTONED \<equiv> 0x40"
abbreviation (input) FFFS_INDEX_FLAG_MD_CRC_REQUIRED :: byte
  where "FFFS_INDEX_FLAG_MD_CRC_REQUIRED \<equiv> 0x20"
abbreviation (input) FFFS_INDEX_FLAGS_VALID :: byte where "FFFS_INDEX_FLAGS_VALID \<equiv> 0x7f"
abbreviation (input) FFFS_LIFECYCLE_VALID :: byte where "FFFS_LIFECYCLE_VALID \<equiv> 0x7e"
abbreviation (input) FFFS_LIFECYCLE_TOMBSTONED :: byte where "FFFS_LIFECYCLE_TOMBSTONED \<equiv> 0x3c"
abbreviation (input) FFFS_LIFECYCLE_FULL :: byte where "FFFS_LIFECYCLE_FULL \<equiv> 0x5a"
abbreviation (input) FFFS_MD_FLAGS_VALID :: byte where "FFFS_MD_FLAGS_VALID \<equiv> FFFS_LIFECYCLE_VALID"
abbreviation (input) FFFS_MD_FLAGS_TOMBSTONED :: byte
  where "FFFS_MD_FLAGS_TOMBSTONED \<equiv> FFFS_LIFECYCLE_TOMBSTONED"
abbreviation (input) FFFS_MD_TYPE_FILE_ROOT_V1 :: byte where "FFFS_MD_TYPE_FILE_ROOT_V1 \<equiv> 0x11"
abbreviation (input) FFFS_MD_TYPE_FILE_CONT_V1 :: byte where "FFFS_MD_TYPE_FILE_CONT_V1 \<equiv> 0x12"
abbreviation (input) FFFS_SECTOR_FLAGS_VALID :: byte where "FFFS_SECTOR_FLAGS_VALID \<equiv> FFFS_LIFECYCLE_VALID"
abbreviation (input) FFFS_SECTOR_FLAGS_TOMBSTONED :: byte
  where "FFFS_SECTOR_FLAGS_TOMBSTONED \<equiv> FFFS_LIFECYCLE_TOMBSTONED"
abbreviation (input) FFFS_SECTOR_FLAGS_FULL :: byte where "FFFS_SECTOR_FLAGS_FULL \<equiv> FFFS_LIFECYCLE_FULL"
abbreviation (input) FFFS_SECTOR_TYPE_FILE :: byte where "FFFS_SECTOR_TYPE_FILE \<equiv> 0x01"
abbreviation (input) FFFS_SECTORS_PER_FILE_Q8_ONE :: u32 where "FFFS_SECTORS_PER_FILE_Q8_ONE \<equiv> 256"

text \<open>The two magic strings: \<open>FFFS\<close> and \<open>FFSD\<close>.\<close>

abbreviation (input) FFFS_INDEX_MAGIC :: "byte list" where "FFFS_INDEX_MAGIC \<equiv> [0x46, 0x46, 0x46, 0x53]"
abbreviation (input) FFFS_SECTOR_MAGIC :: "byte list" where "FFFS_SECTOR_MAGIC \<equiv> [0x46, 0x46, 0x53, 0x44]"

abbreviation (input) FFFS_O_RDONLY :: u32 where "FFFS_O_RDONLY \<equiv> 0x01"
abbreviation (input) FFFS_O_WRONLY :: u32 where "FFFS_O_WRONLY \<equiv> 0x02"
abbreviation (input) FFFS_O_CREATE :: u32 where "FFFS_O_CREATE \<equiv> 0x04"
abbreviation (input) FFFS_O_TRUNC :: u32 where "FFFS_O_TRUNC \<equiv> 0x08"
abbreviation (input) FFFS_O_EXCL :: u32 where "FFFS_O_EXCL \<equiv> 0x10"

abbreviation (input) FFFS_FSINFO_REFRESH_COMMITTED :: u32 where "FFFS_FSINFO_REFRESH_COMMITTED \<equiv> 0x01"
abbreviation (input) FFFS_FSINFO_ESTIMATE_METADATA :: u32 where "FFFS_FSINFO_ESTIMATE_METADATA \<equiv> 0x02"
abbreviation (input) FFFS_FSINFO_REFRESH_IF_NEEDED :: u32 where "FFFS_FSINFO_REFRESH_IF_NEEDED \<equiv> 0x04"
abbreviation (input) FFFS_FSINFO_TOTAL_VALID :: u32 where "FFFS_FSINFO_TOTAL_VALID \<equiv> 0x01"
abbreviation (input) FFFS_FSINFO_COMMITTED_FILES_VALID :: u32
  where "FFFS_FSINFO_COMMITTED_FILES_VALID \<equiv> 0x02"
abbreviation (input) FFFS_FSINFO_COMMITTED_BYTES_VALID :: u32
  where "FFFS_FSINFO_COMMITTED_BYTES_VALID \<equiv> 0x04"
abbreviation (input) FFFS_FSINFO_PENDING_VALID :: u32 where "FFFS_FSINFO_PENDING_VALID \<equiv> 0x08"
abbreviation (input) FFFS_FSINFO_METADATA_ESTIMATE_VALID :: u32
  where "FFFS_FSINFO_METADATA_ESTIMATE_VALID \<equiv> 0x10"

datatype fffs_seek_whence = FFFS_SEEK_SET | FFFS_SEEK_CUR | FFFS_SEEK_END

datatype fffs_gc_action = FFFS_GC_IDLE | FFFS_GC_SCANNED | FFFS_GC_TOMBSTONED | FFFS_GC_ERASED

section \<open>Structures\<close>

record 'c fffs_backend =
  be_ctx :: 'c
  be_size :: nat
  be_program_granule :: nat
  be_read :: "'c \<Rightarrow> nat \<Rightarrow> nat \<Rightarrow> int \<times> byte list \<times> 'c"
  be_program :: "'c \<Rightarrow> nat \<Rightarrow> byte list \<Rightarrow> int \<times> 'c"
  be_erase :: "'c \<Rightarrow> nat \<Rightarrow> nat \<Rightarrow> int \<times> 'c"

record fffs_index_bucket =
  bucket_slot :: u16
  bucket_head :: u16

record fffs_md_walk =
  walk_cursor :: nat
  walk_claimed_data_end :: nat
  walk_live_bytes :: u32
  walk_sector :: u16
  walk_live_root_count :: u16
  walk_live_seen :: bool
  walk_live_root_seen :: bool
  walk_live_continuation_seen :: bool
  walk_open_seen :: bool
  walk_active :: bool

record fffs_compaction_candidate =
  cand_sector :: u16
  cand_trapped_reclaimable :: u16
  cand_live_root_count :: u16

record fffs_file =
  f_fs :: bool \<comment> \<open>\<^verbatim>\<open>file->fs\<close> is set\<close>
  f_flags :: u32
  f_slot :: u16
  f_head :: u16
  f_current :: u16
  f_data_offset :: u16
  f_current_data_len :: u16
  f_current_next :: u16
  f_current_write_offset :: u16
  f_current_metadata_offset :: u16
  f_root_payload_offset :: u16
  f_span_head :: u16
  f_span_len :: u16
  f_old_head :: u16
  f_old_next :: u16
  f_reserve_first :: u16
  f_reserve_count :: u16
  f_size :: u32
  f_pos :: u32
  f_current_data_pos :: u32
  f_cache_data_pos :: u32
  f_current_file_offset :: u32
  f_cache_len :: nat
  f_name :: "byte list"
  f_cache :: "byte list"
  f_current_needs_footer :: bool
  f_closed :: bool
  f_open_registered :: bool

record 'c fffs =
  fs_backend :: "'c fffs_backend"
  fs_files :: "nat \<Rightarrow> fffs_file"
  fs_open_files :: "nat list"
  fs_index_cache :: "fffs_index_bucket list"
  fs_index_heads :: "u16 list"
  fs_index_hash_table_size :: nat
  fs_scratch :: "byte list"
  fs_scratch_size :: nat
  fs_scratch_serial :: u32
  fs_alloc_map :: "u32 list option"
  fs_alloc_map_words :: nat
  fs_sector_size :: nat
  fs_sector_count :: nat
  fs_sector_shift :: u8
  fs_index_sectors :: u8
  fs_oldest_index_sector :: nat
  fs_index_sequence_count :: nat
  fs_active_index_sector :: nat
  fs_next_index_offset :: nat
  fs_active_index_serial :: u8
  fs_alloc_cursor :: nat
  fs_gc_cursor :: nat
  fs_compaction_reserve_count :: u16
  fs_compaction_reserve_sectors :: "u16 list"
  fs_gc_md :: fffs_md_walk
  fs_compaction_candidates :: "fffs_compaction_candidate list"
  fs_strict :: bool
  fs_next_sector_serial :: u32
  fs_fsinfo_valid_flags :: u32
  fs_committed_file_count :: u32
  fs_committed_data_bytes :: u32
  fs_avg_sectors_per_file_q8 :: u16

record fffs_stat =
  st_name :: "byte list"
  st_size :: u32

record fffs_format_options =
  fo_index_sectors :: u8
  fo_sector_size :: nat

record fffs_mount_options =
  mo_index_cache_size :: nat
  mo_index_hash_table_size :: nat
  mo_scratch :: "byte list"
  mo_scratch_size :: nat
  mo_strict :: bool
  mo_alloc_map :: "u32 list option"
  mo_alloc_map_words :: nat

record fffs_fsinfo =
  info_valid_flags :: u32
  info_total_bytes :: u32
  info_committed_file_count :: u32
  info_committed_data_bytes :: u32
  info_pending_file_count :: u32
  info_pending_data_bytes :: u32
  info_estimated_metadata_bytes :: u32

record fffs_dir =
  dir_pos :: nat
  dir_cursor_seq_pos :: nat
  dir_cursor_offset :: nat
  dir_scratch_serial :: u32
  dir_cached_seq_pos :: nat
  dir_cached_offset :: nat
  dir_cached_len :: nat
  dir_prefix_len :: nat
  dir_status :: "unit res"
  dir_prefix :: "byte list"
  dir_closed :: bool

record fffs_index_sequence =
  seq_index_sectors :: u8
  seq_sector_shift :: u8
  seq_active_serial :: u8
  seq_active_sector :: nat
  seq_oldest_sector :: nat
  seq_count :: nat

type_synonym ('c, 'a) fsop = "('c fffs, 'a) op"

text \<open>Zero initialisation \<^verbatim>\<open>(struct fffs_file){0}\<close> and its kin.\<close>

definition zero_file :: fffs_file where
  "zero_file = \<lparr> f_fs = False, f_flags = 0, f_slot = 0, f_head = 0, f_current = 0,
     f_data_offset = 0, f_current_data_len = 0, f_current_next = 0, f_current_write_offset = 0,
     f_current_metadata_offset = 0, f_root_payload_offset = 0, f_span_head = 0, f_span_len = 0,
     f_old_head = 0, f_old_next = 0, f_reserve_first = 0, f_reserve_count = 0, f_size = 0,
     f_pos = 0, f_current_data_pos = 0, f_cache_data_pos = 0, f_current_file_offset = 0,
     f_cache_len = 0, f_name = [], f_cache = replicate FFFS_FILE_CACHE_SIZE 0,
     f_current_needs_footer = False, f_closed = False, f_open_registered = False \<rparr>"

definition zero_walk :: fffs_md_walk where
  "zero_walk = \<lparr> walk_cursor = 0, walk_claimed_data_end = 0, walk_live_bytes = 0,
     walk_sector = 0, walk_live_root_count = 0, walk_live_seen = False,
     walk_live_root_seen = False, walk_live_continuation_seen = False, walk_open_seen = False,
     walk_active = False \<rparr>"

definition zero_candidate :: fffs_compaction_candidate where
  "zero_candidate = \<lparr> cand_sector = 0, cand_trapped_reclaimable = 0, cand_live_root_count = 0 \<rparr>"

definition zero_bucket :: fffs_index_bucket where
  "zero_bucket = \<lparr> bucket_slot = 0, bucket_head = 0 \<rparr>"

text \<open>\<open>zero_fs be\<close> is a zeroed \<^verbatim>\<open>struct fffs\<close>.  The backend value stays attached: in C the
  flash lives behind the caller's \<^verbatim>\<open>ctx\<close> pointer and survives the zeroing.\<close>

definition zero_fs :: "'c fffs_backend \<Rightarrow> 'c fffs" where
  "zero_fs be = \<lparr> fs_backend = be, fs_files = (\<lambda>_. zero_file), fs_open_files = [],
     fs_index_cache = [], fs_index_heads = [], fs_index_hash_table_size = 0, fs_scratch = [],
     fs_scratch_size = 0, fs_scratch_serial = 0, fs_alloc_map = None, fs_alloc_map_words = 0,
     fs_sector_size = 0, fs_sector_count = 0, fs_sector_shift = 0, fs_index_sectors = 0,
     fs_oldest_index_sector = 0, fs_index_sequence_count = 0, fs_active_index_sector = 0,
     fs_next_index_offset = 0, fs_active_index_serial = 0, fs_alloc_cursor = 0, fs_gc_cursor = 0,
     fs_compaction_reserve_count = 0,
     fs_compaction_reserve_sectors = replicate FFFS_COMPACTION_RESERVE_SECTORS 0,
     fs_gc_md = zero_walk,
     fs_compaction_candidates = replicate FFFS_COMPACTION_CANDIDATE_COUNT zero_candidate,
     fs_strict = False, fs_next_sector_serial = 0, fs_fsinfo_valid_flags = 0,
     fs_committed_file_count = 0, fs_committed_data_bytes = 0, fs_avg_sectors_per_file_q8 = 0 \<rparr>"

text \<open>A backend whose calls all fail, for states whose flash is not looked at.\<close>

definition null_backend :: "unit fffs_backend" where
  "null_backend = \<lparr> be_ctx = (), be_size = 0, be_program_granule = 1,
     be_read = (\<lambda>_ _ _. (-1, [], ())), be_program = (\<lambda>_ _ _. (-1, ())),
     be_erase = (\<lambda>_ _ _. (-1, ())) \<rparr>"

section \<open>Mirrored lifecycle bits\<close>

datatype bitmirror_state =
  FFFS_BITMIRROR_SET | FFFS_BITMIRROR_CLEARED | FFFS_BITMIRROR_MIXED

definition fffs_bitmirror_state :: "u32 \<Rightarrow> u32 \<Rightarrow> bitmirror_state" where
  "fffs_bitmirror_state val msk =
     (let set = val AND msk in
      if msk \<noteq> 0 \<and> set = msk then FFFS_BITMIRROR_SET
      else if msk \<noteq> 0 \<and> set = 0 then FFFS_BITMIRROR_CLEARED
      else FFFS_BITMIRROR_MIXED)"

definition fffs_lifecycle_valid_pair :: "byte \<Rightarrow> bitmirror_state" where
  "fffs_lifecycle_valid_pair state = fffs_bitmirror_state (ucast state) 0x81"

definition fffs_lifecycle_tombstone_pair :: "byte \<Rightarrow> bitmirror_state" where
  "fffs_lifecycle_tombstone_pair state = fffs_bitmirror_state (ucast state) 0x42"

definition fffs_lifecycle_hint_pair :: "byte \<Rightarrow> bitmirror_state" where
  "fffs_lifecycle_hint_pair state = fffs_bitmirror_state (ucast state) 0x24"

definition fffs_lifecycle_is_live :: "bitmirror_state \<Rightarrow> bitmirror_state \<Rightarrow> bool" where
  "fffs_lifecycle_is_live valid_bits tombstone_bits \<longleftrightarrow>
     valid_bits = FFFS_BITMIRROR_CLEARED \<and> tombstone_bits = FFFS_BITMIRROR_SET"

text \<open>The two derived readings of a state byte the sources use over and over.\<close>

definition state_live :: "byte \<Rightarrow> bool" where
  "state_live st =
     fffs_lifecycle_is_live (fffs_lifecycle_valid_pair st) (fffs_lifecycle_tombstone_pair st)"

definition state_tombstoned :: "byte \<Rightarrow> bool" where
  "state_tombstoned st \<longleftrightarrow> fffs_lifecycle_valid_pair st \<noteq> FFFS_BITMIRROR_MIXED \<and>
     fffs_lifecycle_tombstone_pair st = FFFS_BITMIRROR_CLEARED"

section \<open>The state byte, bit by bit\<close>

lemma bitmirror_pair:
  fixes m :: u32
  assumes "m = push_bit a 1 OR push_bit b 1" "a < 8" "b < 8"
  shows "fffs_bitmirror_state (ucast (st :: byte)) m =
    (if bit st a \<and> bit st b then FFFS_BITMIRROR_SET
     else if \<not> bit st a \<and> \<not> bit st b then FFFS_BITMIRROR_CLEARED else FFFS_BITMIRROR_MIXED)"
proof -
  have bm: "bit m n \<longleftrightarrow> n = a \<or> n = b" for n
    using assms by (auto simp: bit_simps)
  then have nz: "m \<noteq> 0" by (metis bit_0_eq bot_apply bot_bool_def)
  have weq: "x = y \<longleftrightarrow> (\<forall>n<32. bit x n = bit y n)" for x y :: u32
    by (auto intro: bit_word_eqI)
  have lt: "a < 32" "b < 32" using assms by auto
  have set: "(ucast st AND m = m) \<longleftrightarrow> bit st a \<and> bit st b"
    unfolding weq by (simp add: bit_simps bm) (metis lt)
  have clr: "(ucast st AND m = 0) \<longleftrightarrow> \<not> bit st a \<and> \<not> bit st b"
    unfolding weq by (simp add: bit_simps bm) (metis lt)
  show ?thesis
    using nz by (simp add: fffs_bitmirror_state_def Let_def set clr)
qed

lemma state_live_iff: "state_live st \<longleftrightarrow> \<not> bit st 7 \<and> \<not> bit st 0 \<and> bit st 6 \<and> bit st 1"
  by (simp add: state_live_def fffs_lifecycle_is_live_def fffs_lifecycle_valid_pair_def
      fffs_lifecycle_tombstone_pair_def bitmirror_pair [of _ 7 0] bitmirror_pair [of _ 6 1])

lemma state_tombstoned_iff:
  "state_tombstoned st \<longleftrightarrow> (bit st 7 \<longleftrightarrow> bit st 0) \<and> \<not> bit st 6 \<and> \<not> bit st 1"
  by (simp add: state_tombstoned_def fffs_lifecycle_valid_pair_def
      fffs_lifecycle_tombstone_pair_def bitmirror_pair [of _ 7 0] bitmirror_pair [of _ 6 1])

lemma hint_cleared_iff:
  "fffs_lifecycle_hint_pair st = FFFS_BITMIRROR_CLEARED \<longleftrightarrow> \<not> bit st 5 \<and> \<not> bit st 2"
  by (simp add: fffs_lifecycle_hint_pair_def bitmirror_pair [of _ 5 2])

lemmas lifecycle_bits = state_live_iff state_tombstoned_iff hint_cleared_iff

end
