(* ===== verification/Fffs_Flash.thy ===== *)
theory Fffs_Flash
  imports Fffs_State
begin

unbundle bit_operations_syntax

text \<open>
  The flash boundary, \<^verbatim>\<open>src/fffs_flash.c\<close>: status mapping, backend validation, reads,
  programs, the aligned programming loop and the scratch serial.  The backend functions are
  parameters of the model; what the file system relies on is the interface
  \<open>flash_device\<close>: a byte memory that reads back what it holds, that programming can only
  clear bits of, and that erasing sets to \<open>0xff\<close>.  \<open>reliable_flash\<close> adds that operations
  within the device succeed.  Both are interpreted on the host emulator in
  \<^verbatim>\<open>Verify_Flash\<close>.
\<close>

section \<open>Operations\<close>

definition fffs_map_backend_status :: "int \<Rightarrow> unit res" where
  "fffs_map_backend_status status = (if status = 0 then Inr () else Inl FFFS_ERR_IO)"

definition fffs_valid_backend :: "'c fffs_backend \<Rightarrow> bool" where
  "fffs_valid_backend backend \<longleftrightarrow>
     be_size backend \<noteq> 0 \<and> be_program_granule backend \<noteq> 0 \<and>
     be_program_granule backend \<le> FFFS_FILE_CACHE_SIZE \<and>
     be_size backend mod be_program_granule backend = 0"

fun fffs_flash_bytes_erased :: "byte list \<Rightarrow> bool" where
  "fffs_flash_bytes_erased [] = True"
| "fffs_flash_bytes_erased (b # bs) = (if b \<noteq> 0xff then False else fffs_flash_bytes_erased bs)"

text \<open>The three calls through the backend's function pointers, with \<^verbatim>\<open>fffs_map_backend_status\<close>
  applied to their status.\<close>

definition backend_read :: "nat \<Rightarrow> nat \<Rightarrow> ('c fffs_backend, byte list) op" where
  "backend_read off n be =
     (case be_read be (be_ctx be) off n of
        (status, data, c') \<Rightarrow>
          Some (map_sum id (\<lambda>_. data) (fffs_map_backend_status status), be\<lparr>be_ctx := c'\<rparr>))"

definition backend_program :: "nat \<Rightarrow> byte list \<Rightarrow> ('c fffs_backend, unit) op" where
  "backend_program off data be =
     (case be_program be (be_ctx be) off data of
        (status, c') \<Rightarrow> Some (fffs_map_backend_status status, be\<lparr>be_ctx := c'\<rparr>))"

definition backend_erase :: "nat \<Rightarrow> nat \<Rightarrow> ('c fffs_backend, unit) op" where
  "backend_erase off n be =
     (case be_erase be (be_ctx be) off n of
        (status, c') \<Rightarrow> Some (fffs_map_backend_status status, be\<lparr>be_ctx := c'\<rparr>))"

text \<open>Running a backend operation on the backend embedded in the mounted file system.\<close>

definition on_backend :: "('c fffs_backend, 'a) op \<Rightarrow> ('c, 'a) fsop" where
  "on_backend m fs = (case m (fs_backend fs) of
     None \<Rightarrow> None
   | Some (r, be') \<Rightarrow> Some (r, fs\<lparr>fs_backend := be'\<rparr>))"

definition fffs_flash_read :: "nat \<Rightarrow> nat \<Rightarrow> ('c, byte list) fsop" where
  "fffs_flash_read offset sz = on_backend (backend_read offset sz)"

definition fffs_flash_program :: "nat \<Rightarrow> byte list \<Rightarrow> ('c, unit) fsop" where
  "fffs_flash_program offset buffer = on_backend (backend_program offset buffer)"

text \<open>\<^verbatim>\<open>fs->backend.erase\<close>, called directly by the index rotation and by the collector.\<close>

definition fs_backend_erase :: "nat \<Rightarrow> nat \<Rightarrow> ('c, unit) fsop" where
  "fs_backend_erase offset sz = on_backend (backend_erase offset sz)"

text \<open>The chunk loop of \<^verbatim>\<open>fffs_backend_program_aligned\<close>; \<open>src\<close> is what is left to program
  at absolute position \<open>pos\<close>.\<close>

partial_function (option) program_chunks ::
  "nat \<Rightarrow> byte list \<Rightarrow> 'c fffs_backend \<Rightarrow> (unit res \<times> 'c fffs_backend) option" where
  "program_chunks pos src be =
     (if src = [] then ret () be
      else
        let granule = be_program_granule be;
            base = pos - pos mod granule;
            in_chunk = pos - base;
            n = min (granule - in_chunk) (length src);
            chunk = put_bytes in_chunk (take n src) (replicate granule 0xff)
        in seqm (backend_program base chunk) (program_chunks (pos + n) (drop n src)) be)"

definition fffs_backend_program_aligned :: "nat \<Rightarrow> byte list \<Rightarrow> ('c fffs_backend, unit) op" where
  "fffs_backend_program_aligned offset buffer be =
     (if buffer = [] then ret () be
      else if offset mod be_program_granule be = 0 \<and> length buffer mod be_program_granule be = 0
      then backend_program offset buffer be
      else program_chunks offset buffer be)"

definition fffs_flash_program_aligned :: "nat \<Rightarrow> byte list \<Rightarrow> ('c, unit) fsop" where
  "fffs_flash_program_aligned offset buffer = on_backend (fffs_backend_program_aligned offset buffer)"

definition fffs_scratch_bump :: "'c fffs \<Rightarrow> 'c fffs" where
  "fffs_scratch_bump fs =
     (let s = fs_scratch_serial fs + 1 in fs\<lparr>fs_scratch_serial := (if s = 0 then 1 else s)\<rparr>)"

text \<open>\<^verbatim>\<open>fffs_flash_read(fs, off, fs->scratch, n)\<close>: the bytes also land in the scratch buffer.\<close>

definition read_scratch :: "nat \<Rightarrow> nat \<Rightarrow> ('c, byte list) fsop" where
  "read_scratch off n = bindm (fffs_flash_read off n) (\<lambda>data.
     seqm (modm (\<lambda>fs. fs\<lparr>fs_scratch := put_bytes 0 data (fs_scratch fs)\<rparr>)) (ret data))"

lemma be_ctx_upd_eq [simp]:
  "be\<lparr>be_ctx := c\<rparr> = be\<lparr>be_ctx := d\<rparr> \<longleftrightarrow> c = d" for be :: "'c fffs_backend"
proof
  assume "be\<lparr>be_ctx := c\<rparr> = be\<lparr>be_ctx := d\<rparr>"
  then have "be_ctx (be\<lparr>be_ctx := c\<rparr>) = be_ctx (be\<lparr>be_ctx := d\<rparr>)" by simp
  then show "c = d" by simp
qed simp

lemma bytes_erased_iff: "fffs_flash_bytes_erased bs \<longleftrightarrow> bs = replicate (length bs) 0xff"
  by (induction bs) auto

lemma bytes_erased_all: "fffs_flash_bytes_erased bs \<longleftrightarrow> (\<forall>b \<in> set bs. b = 0xff)"
  by (induction bs) auto

section \<open>The device interface\<close>

text \<open>\<open>torn_program off data mem mem'\<close>: the memory an interrupted program may leave behind.
  Outside the range nothing changes; inside, only bits that were to be cleared may have been.\<close>

definition torn_byte :: "byte \<Rightarrow> byte \<Rightarrow> byte \<Rightarrow> bool" where
  "torn_byte old new cur \<longleftrightarrow> cur AND old = cur \<and> (old AND new) AND cur = old AND new"

definition torn_program :: "nat \<Rightarrow> byte list \<Rightarrow> byte list \<Rightarrow> byte list \<Rightarrow> bool" where
  "torn_program off data mem mem' \<longleftrightarrow> length mem' = length mem \<and>
     (\<forall>i < length mem.
        if off \<le> i \<and> i < off + length data then torn_byte (mem ! i) (data ! (i - off)) (mem' ! i)
        else mem' ! i = mem ! i)"

definition torn_erase :: "nat \<Rightarrow> nat \<Rightarrow> byte list \<Rightarrow> byte list \<Rightarrow> bool" where
  "torn_erase off n mem mem' \<longleftrightarrow> length mem' = length mem \<and>
     (\<forall>i < length mem. \<not> (off \<le> i \<and> i < off + n) \<longrightarrow> mem' ! i = mem ! i)"

lemma torn_byte_self [simp]: "torn_byte old new old"
  by (simp add: torn_byte_def ac_simps)

lemma torn_byte_done [simp]: "torn_byte old new (old AND new)"
  by (simp add: torn_byte_def ac_simps)

lemma torn_byte_ff: "torn_byte old 0xff cur \<longleftrightarrow> cur = old"
  by (auto simp: torn_byte_def and.commute)

lemma torn_program_length: "torn_program off data mem mem' \<Longrightarrow> length mem' = length mem"
  by (simp add: torn_program_def)

lemma torn_program_self [simp]: "torn_program off data mem mem"
  by (simp add: torn_program_def)

lemma torn_program_done:
  "off + length data \<le> length mem \<Longrightarrow> torn_program off data mem (nor_program off data mem)"
  by (auto simp: torn_program_def nth_nor_program)

text \<open>Tearing a padded chunk tears only the bytes the chunk carries.\<close>

lemma torn_program_pad:
  assumes torn: "torn_program base (replicate a 0xff @ take n src @ replicate b 0xff) mem mem'"
    and n: "n \<le> length src"
  shows "torn_program (base + a) src mem mem'"
  unfolding torn_program_def
proof (intro conjI allI impI)
  show "length mem' = length mem" using torn by (rule torn_program_length)
next
  fix i assume i: "i < length mem"
  from n have len: "length (replicate a (0xff :: byte) @ take n src @ replicate b 0xff) = a + n + b"
    by simp
  from torn i have *: "if base \<le> i \<and> i < base + (a + n + b)
      then torn_byte (mem ! i) ((replicate a 0xff @ take n src @ replicate b 0xff) ! (i - base)) (mem' ! i)
      else mem' ! i = mem ! i"
    unfolding torn_program_def len by blast
  consider "base + a \<le> i" "i < base + a + n" | "i < base + a" | "base + a + n \<le> i"
    by linarith
  then show "if base + a \<le> i \<and> i < base + a + length src
      then torn_byte (mem ! i) (src ! (i - (base + a))) (mem' ! i) else mem' ! i = mem ! i"
  proof cases
    case 1
    then have "\<not> i - base < a" "i - base - a = i - (base + a)" "i - (base + a) < n" by auto
    with 1 * n show ?thesis by (simp add: nth_append)
  next
    case 2
    with * show ?thesis by (auto simp: nth_append torn_byte_ff split: if_splits)
  next
    case 3
    then have "mem' ! i = mem ! i"
      using * n by (auto simp: nth_append torn_byte_ff split: if_splits)
    with 3 n show ?thesis by simp
  qed
qed

lemma torn_program_step:
  assumes torn: "torn_program (off + n) (drop n src) (nor_program off (take n src) mem) mem'"
    and n: "n \<le> length src" "off + n \<le> length mem"
  shows "torn_program off src mem mem'"
  unfolding torn_program_def
proof (intro conjI allI impI)
  from n have len: "length (nor_program off (take n src) mem) = length mem" by simp
  with torn show "length mem' = length mem" by (simp add: torn_program_def)
  fix i assume i: "i < length mem"
  with n have nth: "nor_program off (take n src) mem ! i =
      (if off \<le> i \<and> i < off + n then mem ! i AND src ! (i - off) else mem ! i)"
    by (auto simp: nth_nor_program)
  from torn i have *: "if off + n \<le> i \<and> i < off + n + (length src - n)
      then torn_byte (nor_program off (take n src) mem ! i) (drop n src ! (i - (off + n))) (mem' ! i)
      else mem' ! i = nor_program off (take n src) mem ! i"
    by (simp add: torn_program_def len)
  show "if off \<le> i \<and> i < off + length src
      then torn_byte (mem ! i) (src ! (i - off)) (mem' ! i) else mem' ! i = mem ! i"
    using * n i by (auto simp: nth split: if_splits)
qed

locale flash_device =
  fixes rd :: "'c \<Rightarrow> nat \<Rightarrow> nat \<Rightarrow> int \<times> byte list \<times> 'c"
    and pg :: "'c \<Rightarrow> nat \<Rightarrow> byte list \<Rightarrow> int \<times> 'c"
    and er :: "'c \<Rightarrow> nat \<Rightarrow> nat \<Rightarrow> int \<times> 'c"
    and mem :: "'c \<Rightarrow> byte list"
    and ok :: "'c \<Rightarrow> bool"
  assumes rd_spec: "ok c \<Longrightarrow> rd c off n = (st, data, c') \<Longrightarrow>
      ok c' \<and> mem c' = mem c \<and>
      (st = 0 \<longrightarrow> off + n \<le> length (mem c) \<and> data = sub_bytes off n (mem c))"
    and pg_spec: "ok c \<Longrightarrow> pg c off data = (st, c') \<Longrightarrow>
      ok c' \<and> length (mem c') = length (mem c) \<and> torn_program off data (mem c) (mem c') \<and>
      (st = 0 \<longrightarrow> off + length data \<le> length (mem c) \<and> mem c' = nor_program off data (mem c))"
    and er_spec: "ok c \<Longrightarrow> er c off n = (st, c') \<Longrightarrow>
      ok c' \<and> length (mem c') = length (mem c) \<and> torn_erase off n (mem c) (mem c') \<and>
      (st = 0 \<longrightarrow> off + n \<le> length (mem c) \<and> mem c' = nor_erase off n (mem c))"
begin

definition uses :: "'c fffs_backend \<Rightarrow> bool" where
  "uses be \<longleftrightarrow> be_read be = rd \<and> be_program be = pg \<and> be_erase be = er \<and> ok (be_ctx be) \<and>
     be_size be = length (mem (be_ctx be)) \<and> fffs_valid_backend be"

definition bmem :: "'c fffs_backend \<Rightarrow> byte list" where
  "bmem be = mem (be_ctx be)"

lemma uses_upd [simp]:
  "uses be \<Longrightarrow> ok c \<Longrightarrow> length (mem c) = length (bmem be) \<Longrightarrow> uses (be\<lparr>be_ctx := c\<rparr>)"
  by (auto simp: uses_def bmem_def fffs_valid_backend_def)

lemma bmem_upd [simp]: "bmem (be\<lparr>be_ctx := c\<rparr>) = mem c"
  by (simp add: bmem_def)

lemma backend_read_wp:
  assumes "uses be"
    and "\<And>c. ok c \<Longrightarrow> mem c = bmem be \<Longrightarrow> off + n \<le> length (bmem be) \<Longrightarrow>
      Q (Inr (sub_bytes off n (bmem be))) (be\<lparr>be_ctx := c\<rparr>)"
    and "\<And>c. ok c \<Longrightarrow> mem c = bmem be \<Longrightarrow> Q (Inl FFFS_ERR_IO) (be\<lparr>be_ctx := c\<rparr>)"
  shows "wp (backend_read off n) Q be"
proof -
  obtain st data c' where rd: "rd (be_ctx be) off n = (st, data, c')"
    by (metis prod_cases3)
  from assms(1) have *: "be_read be = rd" "ok (be_ctx be)" by (auto simp: uses_def)
  from rd_spec [OF *(2) rd] assms(2,3) show ?thesis
    by (auto simp: wp_def backend_read_def * rd bmem_def fffs_map_backend_status_def)
qed

lemma backend_program_wp:
  assumes "uses be"
    and "\<And>c. ok c \<Longrightarrow> mem c = nor_program off data (bmem be) \<Longrightarrow>
      off + length data \<le> length (bmem be) \<Longrightarrow> Q (Inr ()) (be\<lparr>be_ctx := c\<rparr>)"
    and "\<And>c. ok c \<Longrightarrow> torn_program off data (bmem be) (mem c) \<Longrightarrow>
      Q (Inl FFFS_ERR_IO) (be\<lparr>be_ctx := c\<rparr>)"
  shows "wp (backend_program off data) Q be"
proof -
  obtain st c' where pg: "pg (be_ctx be) off data = (st, c')"
    by fastforce
  from assms(1) have *: "be_program be = pg" "ok (be_ctx be)" by (auto simp: uses_def)
  from pg_spec [OF *(2) pg] assms(2,3) show ?thesis
    by (auto simp: wp_def backend_program_def * pg bmem_def fffs_map_backend_status_def)
qed

lemma backend_erase_wp:
  assumes "uses be"
    and "\<And>c. ok c \<Longrightarrow> mem c = nor_erase off n (bmem be) \<Longrightarrow>
      off + n \<le> length (bmem be) \<Longrightarrow> Q (Inr ()) (be\<lparr>be_ctx := c\<rparr>)"
    and "\<And>c. ok c \<Longrightarrow> torn_erase off n (bmem be) (mem c) \<Longrightarrow>
      Q (Inl FFFS_ERR_IO) (be\<lparr>be_ctx := c\<rparr>)"
  shows "wp (backend_erase off n) Q be"
proof -
  obtain st c' where er: "er (be_ctx be) off n = (st, c')"
    by fastforce
  from assms(1) have *: "be_erase be = er" "ok (be_ctx be)" by (auto simp: uses_def)
  from er_spec [OF *(2) er] assms(2,3) show ?thesis
    by (auto simp: wp_def backend_erase_def * er bmem_def fffs_map_backend_status_def)
qed

text \<open>\<open>programmed pos src be r be'\<close>: what a program of \<open>src\<close> at \<open>pos\<close> with status \<open>r\<close> did.\<close>

definition programmed ::
  "nat \<Rightarrow> byte list \<Rightarrow> 'c fffs_backend \<Rightarrow> unit res \<Rightarrow> 'c fffs_backend \<Rightarrow> bool" where
  "programmed pos src be r be' \<longleftrightarrow> (\<exists>c. be' = be\<lparr>be_ctx := c\<rparr> \<and> ok c \<and>
    torn_program pos src (bmem be) (mem c) \<and>
    (case r of Inr _ \<Rightarrow> mem c = nor_program pos src (bmem be) \<and>
                 (src \<noteq> [] \<longrightarrow> pos + length src \<le> length (bmem be))
             | Inl e \<Rightarrow> e = FFFS_ERR_IO))"

lemma programmedE:
  assumes "programmed off data be r be'"
  obtains c where "r = Inr ()" "be' = be\<lparr>be_ctx := c\<rparr>" "ok c" "mem c = nor_program off data (bmem be)"
      "data \<noteq> [] \<longrightarrow> off + length data \<le> length (bmem be)"
    | c where "r = Inl FFFS_ERR_IO" "be' = be\<lparr>be_ctx := c\<rparr>" "ok c"
      "torn_program off data (bmem be) (mem c)"
  using assms by (cases r) (auto simp: programmed_def)

lemma programmed_step:
  assumes "programmed (pos + n) (drop n src) (be\<lparr>be_ctx := c\<rparr>) r be'"
    and c: "mem c = nor_program pos (take n src) (bmem be)"
    and n: "n \<le> length src" "pos + n \<le> length (bmem be)"
  shows "programmed pos src be r be'"
proof -
  from assms(1) show ?thesis
  proof (cases rule: programmedE)
    case (1 d)
    have range: "pos + length src \<le> length (bmem be)"
      using 1(5) n c by (cases "n < length src") auto
    then have d: "mem d = nor_program pos src (bmem be)"
      using 1(4) n c nor_program_append [of pos "take n src" "drop n src" "bmem be"] by simp
    with torn_program_done [OF range] show ?thesis
      unfolding programmed_def by (intro exI [of _ d]) (simp add: 1(1-3) range)
  next
    case (2 d)
    with torn_program_step [OF _ n, of "mem d"] c show ?thesis by (auto simp: programmed_def)
  qed
qed

text \<open>The chunk loop always returns, and its net effect is that of one program operation,
  whatever the granule.\<close>

lemma program_chunks_wp:
  assumes "uses be"
  shows "wp (program_chunks pos src) (programmed pos src be) be"
  using assms
proof (induction "length src" arbitrary: pos src be rule: less_induct)
  case less
  show ?case
  proof (cases "src = []")
    case True
    with less.prems show ?thesis
      by (subst program_chunks.simps [abs_def])
        (auto simp: wp_def ret_def uses_def bmem_def programmed_def intro!: exI [of _ "be_ctx be"])
  next
    case False
    define g where "g = be_program_granule be"
    define base where "base = pos - pos mod g"
    define a where "a = pos - base"
    define n where "n = min (g - a) (length src)"
    from less.prems have g: "0 < g" by (simp add: g_def uses_def fffs_valid_backend_def)
    have a: "a = pos mod g" "base + a = pos" by (simp_all add: a_def base_def)
    with g have n: "0 < n" "n \<le> length src" "a + n \<le> g"
      using False mod_less_divisor [OF g, of pos] by (auto simp: n_def)
    have chunk: "put_bytes a (take n src) (replicate g 0xff) =
        replicate a (0xff :: byte) @ take n src @ replicate (g - (a + n)) 0xff"
      using n by (simp add: put_bytes_def)
    have unfold: "program_chunks pos src be = seqm (backend_program base
        (replicate a 0xff @ take n src @ replicate (g - (a + n)) 0xff))
        (program_chunks (pos + n) (drop n src)) be"
      unfolding chunk [symmetric] using False
      by (subst program_chunks.simps) (simp add: Let_def g_def base_def a_def n_def)
    show ?thesis
    proof (rule wp_eqI, rule unfold, unfold wp_seqm, rule backend_program_wp [OF less.prems],
        goal_cases)
      case (1 c)
      have c: "mem c = nor_program pos (take n src) (bmem be)" and le: "pos + n \<le> length (bmem be)"
        using 1 n a by (auto simp: nor_program_pad)
      with less.prems \<open>ok c\<close> n have u: "uses (be\<lparr>be_ctx := c\<rparr>)" by simp
      from n False show ?case
        by (simp, intro wp_mono [OF less.hyps [OF _ u]] programmed_step [OF _ c n(2) le]) simp_all
    next
      case (2 c)
      with torn_program_pad [OF this(2) n(2)] a show ?case by (auto simp: programmed_def)
    qed
  qed
qed

lemma backend_program_aligned_wp:
  assumes "uses be"
  shows "wp (fffs_backend_program_aligned off data) (programmed off data be) be"
proof -
  consider "data = []" | "data \<noteq> []" "off mod be_program_granule be = 0 \<and> length data mod be_program_granule be = 0"
    | "data \<noteq> []" "\<not> (off mod be_program_granule be = 0 \<and> length data mod be_program_granule be = 0)"
    by blast
  then show ?thesis
  proof cases
    case 1
    with assms show ?thesis
      by (auto simp: wp_def fffs_backend_program_aligned_def ret_def programmed_def uses_def bmem_def
          intro!: exI [of _ "be_ctx be"])
  next
    case 2
    then have "fffs_backend_program_aligned off data be = backend_program off data be"
      by (simp add: fffs_backend_program_aligned_def)
    then show ?thesis
      by (rule wp_eqI, intro backend_program_wp [OF assms])
        (auto simp: programmed_def torn_program_done)
  next
    case 3
    then have "fffs_backend_program_aligned off data be = program_chunks off data be"
      by (auto simp: fffs_backend_program_aligned_def)
    then show ?thesis by (rule wp_eqI) (rule program_chunks_wp [OF assms])
  qed
qed

end

section \<open>The mounted file system on a device\<close>

text \<open>\<open>set_ctx c fs\<close> is \<open>fs\<close> with the contents of its device replaced.\<close>

definition set_ctx :: "'c \<Rightarrow> 'c fffs \<Rightarrow> 'c fffs" where
  "set_ctx c fs = fs\<lparr>fs_backend := (fs_backend fs)\<lparr>be_ctx := c\<rparr>\<rparr>"

lemma wp_on_backend [wp_simps]:
  "wp (on_backend m) Q fs = wp m (\<lambda>r be. Q r (fs\<lparr>fs_backend := be\<rparr>)) (fs_backend fs)"
  by (simp add: wp_def on_backend_def split: option.split)

lemma set_ctx_set_ctx [simp]: "set_ctx c (set_ctx d fs) = set_ctx c fs"
  by (simp add: set_ctx_def)

lemma set_ctx_fields [simp]:
  "fs_files (set_ctx c fs) = fs_files fs"
  "fs_open_files (set_ctx c fs) = fs_open_files fs"
  "fs_index_cache (set_ctx c fs) = fs_index_cache fs"
  "fs_index_heads (set_ctx c fs) = fs_index_heads fs"
  "fs_index_hash_table_size (set_ctx c fs) = fs_index_hash_table_size fs"
  "fs_scratch (set_ctx c fs) = fs_scratch fs"
  "fs_scratch_size (set_ctx c fs) = fs_scratch_size fs"
  "fs_scratch_serial (set_ctx c fs) = fs_scratch_serial fs"
  "fs_alloc_map (set_ctx c fs) = fs_alloc_map fs"
  "fs_sector_size (set_ctx c fs) = fs_sector_size fs"
  "fs_sector_count (set_ctx c fs) = fs_sector_count fs"
  "fs_sector_shift (set_ctx c fs) = fs_sector_shift fs"
  "fs_index_sectors (set_ctx c fs) = fs_index_sectors fs"
  "fs_oldest_index_sector (set_ctx c fs) = fs_oldest_index_sector fs"
  "fs_index_sequence_count (set_ctx c fs) = fs_index_sequence_count fs"
  "fs_active_index_sector (set_ctx c fs) = fs_active_index_sector fs"
  "fs_next_index_offset (set_ctx c fs) = fs_next_index_offset fs"
  "fs_active_index_serial (set_ctx c fs) = fs_active_index_serial fs"
  "fs_strict (set_ctx c fs) = fs_strict fs"
  "fs_next_sector_serial (set_ctx c fs) = fs_next_sector_serial fs"
  by (simp_all add: set_ctx_def)

context flash_device
begin

definition dev :: "'c fffs \<Rightarrow> bool" where
  "dev fs \<longleftrightarrow> uses (fs_backend fs)"

definition fmem :: "'c fffs \<Rightarrow> byte list" where
  "fmem fs = bmem (fs_backend fs)"

lemma dev_set_ctx [simp]:
  "dev fs \<Longrightarrow> ok c \<Longrightarrow> length (mem c) = length (fmem fs) \<Longrightarrow> dev (set_ctx c fs)"
  by (simp add: dev_def fmem_def set_ctx_def)

lemma fmem_set_ctx [simp]: "fmem (set_ctx c fs) = mem c"
  by (simp add: fmem_def set_ctx_def)

lemma flash_read_wp:
  assumes "dev fs"
    and "\<And>c. ok c \<Longrightarrow> mem c = fmem fs \<Longrightarrow> off + n \<le> length (fmem fs) \<Longrightarrow>
      Q (Inr (sub_bytes off n (fmem fs))) (set_ctx c fs)"
    and "\<And>c. ok c \<Longrightarrow> mem c = fmem fs \<Longrightarrow> Q (Inl FFFS_ERR_IO) (set_ctx c fs)"
  shows "wp (fffs_flash_read off n) Q fs"
  using assms unfolding fffs_flash_read_def wp_on_backend dev_def fmem_def set_ctx_def
  by (intro backend_read_wp) auto

lemma flash_program_aligned_wp:
  assumes "dev fs"
    and "\<And>c. ok c \<Longrightarrow> mem c = nor_program off data (fmem fs) \<Longrightarrow>
      (data \<noteq> [] \<longrightarrow> off + length data \<le> length (fmem fs)) \<Longrightarrow> Q (Inr ()) (set_ctx c fs)"
    and "\<And>c. ok c \<Longrightarrow> torn_program off data (fmem fs) (mem c) \<Longrightarrow>
      Q (Inl FFFS_ERR_IO) (set_ctx c fs)"
  shows "wp (fffs_flash_program_aligned off data) Q fs"
  using assms unfolding fffs_flash_program_aligned_def wp_on_backend dev_def fmem_def set_ctx_def
  by (intro wp_mono [OF backend_program_aligned_wp]) (auto elim!: programmedE)

lemma fs_backend_erase_wp:
  assumes "dev fs"
    and "\<And>c. ok c \<Longrightarrow> mem c = nor_erase off n (fmem fs) \<Longrightarrow> off + n \<le> length (fmem fs) \<Longrightarrow>
      Q (Inr ()) (set_ctx c fs)"
    and "\<And>c. ok c \<Longrightarrow> torn_erase off n (fmem fs) (mem c) \<Longrightarrow> Q (Inl FFFS_ERR_IO) (set_ctx c fs)"
  shows "wp (fs_backend_erase off n) Q fs"
  using assms unfolding fs_backend_erase_def wp_on_backend dev_def fmem_def set_ctx_def
  by (intro backend_erase_wp) auto

end

section \<open>Devices that do not fail\<close>

text \<open>\<open>good\<close> states of a device: operations inside the device succeed, aligned programs and
  block erases included, and the device stays good.  The program granule and the erase block of
  a device never change.\<close>

locale reliable_flash = flash_device rd pg er mem ok
  for rd :: "'c \<Rightarrow> nat \<Rightarrow> nat \<Rightarrow> int \<times> byte list \<times> 'c"
    and pg :: "'c \<Rightarrow> nat \<Rightarrow> byte list \<Rightarrow> int \<times> 'c"
    and er :: "'c \<Rightarrow> nat \<Rightarrow> nat \<Rightarrow> int \<times> 'c"
    and mem :: "'c \<Rightarrow> byte list"
    and ok :: "'c \<Rightarrow> bool" +
  fixes good :: "'c \<Rightarrow> bool"
    and granule :: "'c \<Rightarrow> nat"
    and blk :: "'c \<Rightarrow> nat"
  assumes rd_geo: "ok c \<Longrightarrow> rd c off n = (st, data, c') \<Longrightarrow> granule c' = granule c \<and> blk c' = blk c"
    and pg_geo: "ok c \<Longrightarrow> pg c off bytes = (st, c') \<Longrightarrow> granule c' = granule c \<and> blk c' = blk c"
    and er_geo: "ok c \<Longrightarrow> er c off n = (st, c') \<Longrightarrow> granule c' = granule c \<and> blk c' = blk c"
    and rd_good: "ok c \<Longrightarrow> good c \<Longrightarrow> rd c off n = (st, data, c') \<Longrightarrow>
      good c' \<and> (off + n \<le> length (mem c) \<longrightarrow> st = 0)"
    and pg_good: "ok c \<Longrightarrow> good c \<Longrightarrow> pg c off bytes = (st, c') \<Longrightarrow>
      good c' \<and> (off + length bytes \<le> length (mem c) \<longrightarrow> off mod granule c = 0 \<longrightarrow>
        length bytes mod granule c = 0 \<longrightarrow> st = 0)"
    and er_good: "ok c \<Longrightarrow> good c \<Longrightarrow> er c off n = (st, c') \<Longrightarrow>
      good c' \<and> (off + n \<le> length (mem c) \<longrightarrow> off mod blk c = 0 \<longrightarrow> n mod blk c = 0 \<longrightarrow> st = 0)"
begin

definition fuses :: "'c fffs_backend \<Rightarrow> bool" where
  "fuses be \<longleftrightarrow> uses be \<and> be_program_granule be = granule (be_ctx be)"

text \<open>\<open>bstp c be\<close>: \<open>c\<close> is a device state an operation on \<open>be\<close> may lead to.\<close>

definition bstp :: "'c \<Rightarrow> 'c fffs_backend \<Rightarrow> bool" where
  "bstp c be \<longleftrightarrow> ok c \<and> granule c = granule (be_ctx be) \<and> blk c = blk (be_ctx be) \<and>
     (good (be_ctx be) \<longrightarrow> good c)"

lemma fuses_uses: "fuses be \<Longrightarrow> uses be"
  by (simp add: fuses_def)

lemma fuses_upd:
  "fuses be \<Longrightarrow> bstp c be \<Longrightarrow> length (mem c) = length (bmem be) \<Longrightarrow> fuses (be\<lparr>be_ctx := c\<rparr>)"
  by (simp add: fuses_def bstp_def)

lemma bstp_self: "fuses be \<Longrightarrow> bstp (be_ctx be) be"
  by (simp add: bstp_def fuses_def uses_def)

lemma bstp_trans: "bstp c be \<Longrightarrow> bstp d (be\<lparr>be_ctx := c\<rparr>) \<Longrightarrow> bstp d be"
  by (simp add: bstp_def)

lemma backend_read_rule:
  assumes "fuses be"
    and "\<And>c. bstp c be \<Longrightarrow> mem c = bmem be \<Longrightarrow> off + n \<le> length (bmem be) \<Longrightarrow>
      Q (Inr (sub_bytes off n (bmem be))) (be\<lparr>be_ctx := c\<rparr>)"
    and "\<And>c. bstp c be \<Longrightarrow> mem c = bmem be \<Longrightarrow>
      \<not> (good (be_ctx be) \<and> off + n \<le> length (bmem be)) \<Longrightarrow> Q (Inl FFFS_ERR_IO) (be\<lparr>be_ctx := c\<rparr>)"
  shows "wp (backend_read off n) Q be"
proof -
  obtain st data c' where rd: "rd (be_ctx be) off n = (st, data, c')" by (metis prod_cases3)
  from assms(1) have *: "be_read be = rd" "ok (be_ctx be)" by (auto simp: fuses_def uses_def)
  from rd_spec [OF *(2) rd] rd_good [OF *(2) _ rd] rd_geo [OF *(2) rd] assms(2,3) show ?thesis
    by (auto simp: wp_def backend_read_def * rd bmem_def fffs_map_backend_status_def bstp_def)
qed

lemma backend_program_rule:
  assumes "fuses be"
    and "\<And>c. bstp c be \<Longrightarrow> mem c = nor_program off data (bmem be) \<Longrightarrow>
      off + length data \<le> length (bmem be) \<Longrightarrow> Q (Inr ()) (be\<lparr>be_ctx := c\<rparr>)"
    and "\<And>c. bstp c be \<Longrightarrow> torn_program off data (bmem be) (mem c) \<Longrightarrow>
      \<not> (good (be_ctx be) \<and> off + length data \<le> length (bmem be) \<and> off mod be_program_granule be = 0 \<and>
        length data mod be_program_granule be = 0) \<Longrightarrow> Q (Inl FFFS_ERR_IO) (be\<lparr>be_ctx := c\<rparr>)"
  shows "wp (backend_program off data) Q be"
proof -
  obtain st c' where pg: "pg (be_ctx be) off data = (st, c')" by fastforce
  from assms(1) have *: "be_program be = pg" "ok (be_ctx be)" "be_program_granule be = granule (be_ctx be)"
    by (auto simp: fuses_def uses_def)
  from pg_spec [OF *(2) pg] pg_good [OF *(2) _ pg] pg_geo [OF *(2) pg] assms(2,3) show ?thesis
    by (auto simp: wp_def backend_program_def * pg bmem_def fffs_map_backend_status_def bstp_def)
qed

lemma backend_erase_rule:
  assumes "fuses be"
    and "\<And>c. bstp c be \<Longrightarrow> mem c = nor_erase off n (bmem be) \<Longrightarrow>
      off + n \<le> length (bmem be) \<Longrightarrow> Q (Inr ()) (be\<lparr>be_ctx := c\<rparr>)"
    and "\<And>c. bstp c be \<Longrightarrow> torn_erase off n (bmem be) (mem c) \<Longrightarrow>
      \<not> (good (be_ctx be) \<and> off + n \<le> length (bmem be) \<and> off mod blk (be_ctx be) = 0 \<and>
        n mod blk (be_ctx be) = 0) \<Longrightarrow> Q (Inl FFFS_ERR_IO) (be\<lparr>be_ctx := c\<rparr>)"
  shows "wp (backend_erase off n) Q be"
proof -
  obtain st c' where er: "er (be_ctx be) off n = (st, c')" by fastforce
  from assms(1) have *: "be_erase be = er" "ok (be_ctx be)" by (auto simp: fuses_def uses_def)
  from er_spec [OF *(2) er] er_good [OF *(2) _ er] er_geo [OF *(2) er] assms(2,3) show ?thesis
    by (auto simp: wp_def backend_erase_def * er bmem_def fffs_map_backend_status_def bstp_def)
qed

text \<open>A chunk never sticks out of the device: its size is a multiple of the granule.\<close>

lemma chunk_fits:
  fixes g pos :: nat
  assumes "0 < g" "len mod g = 0" "pos < len"
  shows "pos - pos mod g + g \<le> len" "(pos - pos mod g) mod g = 0"
proof -
  from assms(2) obtain m where m: "len = g * m" by (auto dest: mod_0_imp_dvd)
  have "pos div g < m" using assms m by (simp add: div_less_iff_less_mult mult.commute)
  then have "g * Suc (pos div g) \<le> g * m" by (intro mult_le_mono2) simp
  then show "pos - pos mod g + g \<le> len" by (simp add: m minus_mod_eq_mult_div)
  show "(pos - pos mod g) mod g = 0" by (simp add: minus_mod_eq_mult_div)
qed

lemma program_chunks_reliable:
  assumes "fuses be"
  shows "wp (program_chunks pos src) (\<lambda>r be'. (\<exists>c. bstp c be \<and> be' = be\<lparr>be_ctx := c\<rparr>) \<and>
    (good (be_ctx be) \<and> pos + length src \<le> length (bmem be) \<longrightarrow> r = Inr ())) be"
  using assms
proof (induction "length src" arbitrary: pos src be rule: less_induct)
  case less
  show ?case
  proof (cases "src = []")
    case True
    with bstp_self [OF less.prems] show ?thesis
      by (subst program_chunks.simps [abs_def])
        (auto simp: wp_def ret_def intro!: exI [of _ "be_ctx be"])
  next
    case False
    define g where "g = be_program_granule be"
    define a where "a = pos - (pos - pos mod g)"
    define n where "n = min (g - a) (length src)"
    define chunk where "chunk = put_bytes a (take n src) (replicate g (0xff :: byte))"
    from less.prems have g: "0 < g" "length (bmem be) mod g = 0"
      by (auto simp: g_def fuses_def uses_def fffs_valid_backend_def bmem_def dest: sym)
    have "a = pos mod g" by (simp add: a_def)
    with g have n: "0 < n" "n \<le> length src" "a + n \<le> g"
      using False mod_less_divisor [OF g(1), of pos] by (auto simp: n_def)
    have len: "length chunk = g" using n by (simp add: chunk_def)
    have unfold: "program_chunks pos src be =
        seqm (backend_program (pos - pos mod g) chunk) (program_chunks (pos + n) (drop n src)) be"
      using False by (subst program_chunks.simps) (simp add: Let_def g_def a_def n_def chunk_def)
    show ?thesis
    proof (rule wp_eqI, rule unfold, unfold wp_seqm, rule backend_program_rule [OF less.prems], goal_cases)
      case (1 c)
      then have l: "length (mem c) = length (bmem be)" using len by simp
      from fuses_upd [OF less.prems 1(1) l] n False
      have "wp (program_chunks (pos + n) (drop n src)) (\<lambda>r be'.
        (\<exists>d. bstp d (be\<lparr>be_ctx := c\<rparr>) \<and> be' = be\<lparr>be_ctx := c\<rparr>\<lparr>be_ctx := d\<rparr>) \<and>
        (good (be_ctx (be\<lparr>be_ctx := c\<rparr>)) \<and> pos + n + length (drop n src) \<le> length (bmem (be\<lparr>be_ctx := c\<rparr>))
          \<longrightarrow> r = Inr ())) (be\<lparr>be_ctx := c\<rparr>)"
        by (intro less.hyps) auto
      then show ?case
        using 1(1) l n bstp_trans [OF 1(1)] by (auto elim!: wp_mono simp: bstp_def)
    next
      case (2 c)
      show ?case
        using 2(1,3) len g chunk_fits [OF g, of pos] False
        by (cases src) (auto simp: g_def [symmetric])
    qed
  qed
qed

lemma backend_program_aligned_rule:
  assumes "fuses be"
    and "\<And>c. bstp c be \<Longrightarrow> mem c = nor_program off data (bmem be) \<Longrightarrow>
      (data \<noteq> [] \<longrightarrow> off + length data \<le> length (bmem be)) \<Longrightarrow> Q (Inr ()) (be\<lparr>be_ctx := c\<rparr>)"
    and "\<And>c. bstp c be \<Longrightarrow> torn_program off data (bmem be) (mem c) \<Longrightarrow>
      \<not> (good (be_ctx be) \<and> off + length data \<le> length (bmem be)) \<Longrightarrow>
      Q (Inl FFFS_ERR_IO) (be\<lparr>be_ctx := c\<rparr>)"
  shows "wp (fffs_backend_program_aligned off data) Q be"
proof -
  have "wp (fffs_backend_program_aligned off data) (\<lambda>r be'. (\<exists>c. bstp c be \<and> be' = be\<lparr>be_ctx := c\<rparr>) \<and>
    (good (be_ctx be) \<and> off + length data \<le> length (bmem be) \<longrightarrow> r = Inr ())) be"
  proof (cases "data \<noteq> [] \<and> off mod be_program_granule be = 0 \<and> length data mod be_program_granule be = 0")
    case True
    then have "fffs_backend_program_aligned off data be = backend_program off data be"
      by (simp add: fffs_backend_program_aligned_def)
    then show ?thesis
      by (rule wp_eqI, intro backend_program_rule [OF assms(1)]) (use True in auto)
  next
    case False
    then have "fffs_backend_program_aligned off data be = program_chunks off data be"
      by (auto simp: fffs_backend_program_aligned_def program_chunks.simps)
    then show ?thesis by (rule wp_eqI) (rule program_chunks_reliable [OF assms(1)])
  qed
  from wp_conj [OF this wp_imp_wlp [OF backend_program_aligned_wp [OF fuses_uses [OF assms(1)]]]]
  show ?thesis
  proof (rule wp_mono)
    fix r be'
    assume *: "((\<exists>c. bstp c be \<and> be' = be\<lparr>be_ctx := c\<rparr>) \<and>
      (good (be_ctx be) \<and> off + length data \<le> length (bmem be) \<longrightarrow> r = Inr ())) \<and>
      programmed off data be r be'"
    then obtain c where c: "bstp c be" "be' = be\<lparr>be_ctx := c\<rparr>"
      "good (be_ctx be) \<and> off + length data \<le> length (bmem be) \<longrightarrow> r = Inr ()" by blast
    from * have "programmed off data be r be'" by blast
    then show "Q r be'"
      using assms(2) [OF c(1)] assms(3) [OF c(1)] c by (cases rule: programmedE) auto
  qed
qed

text \<open>A working device whose bytes are \<open>m\<close>.\<close>

definition shows_bytes :: "byte list \<Rightarrow> 'c fffs_backend \<Rightarrow> bool" where
  "shows_bytes m be \<longleftrightarrow> fuses be \<and> good (be_ctx be) \<and> bmem be = m"

lemma shows_read:
  assumes "shows_bytes m be" "off + n \<le> length m"
  shows "wp (backend_read off n) (\<lambda>r be'. r = Inr (sub_bytes off n m) \<and> shows_bytes m be') be"
  by (rule backend_read_rule) (use assms in \<open>auto simp: shows_bytes_def bstp_def bmem_def intro!: fuses_upd\<close>)

lemma shows_size: "shows_bytes m be \<Longrightarrow> be_size be = length m"
  by (simp add: shows_bytes_def fuses_def uses_def bmem_def)

text \<open>
  The mounted file system: \<open>fdev fs\<close> says that it runs on the device, \<open>healthy fs\<close> that the device
  is in a good state.  The rules give every outcome of an operation; the failing ones are excluded
  when the device is healthy and the range lies inside it.
\<close>

definition healthy :: "'c fffs \<Rightarrow> bool" where
  "healthy fs \<longleftrightarrow> good (be_ctx (fs_backend fs))"

definition fdev :: "'c fffs \<Rightarrow> bool" where
  "fdev fs \<longleftrightarrow> fuses (fs_backend fs)"

definition fblk :: "'c fffs \<Rightarrow> nat" where
  "fblk fs = blk (be_ctx (fs_backend fs))"

definition stp :: "'c \<Rightarrow> 'c fffs \<Rightarrow> bool" where
  "stp c fs \<longleftrightarrow> bstp c (fs_backend fs)"

lemma stp_healthy: "stp c fs \<Longrightarrow> healthy fs \<Longrightarrow> healthy (set_ctx c fs)"
  by (simp add: stp_def healthy_def bstp_def set_ctx_def)

lemma stp_fblk: "stp c fs \<Longrightarrow> fblk (set_ctx c fs) = fblk fs"
  by (simp add: stp_def fblk_def bstp_def set_ctx_def)

lemma fdev_set_ctx:
  "fdev fs \<Longrightarrow> stp c fs \<Longrightarrow> length (mem c) = length (fmem fs) \<Longrightarrow> fdev (set_ctx c fs)"
  by (simp add: fdev_def stp_def set_ctx_def fmem_def fuses_upd)

lemma set_ctx_self: "set_ctx (be_ctx (fs_backend fs)) fs = fs"
  by (simp add: set_ctx_def)

lemma stp_self: "fdev fs \<Longrightarrow> stp (be_ctx (fs_backend fs)) fs"
  by (simp add: stp_def fdev_def bstp_self)

lemma stp_trans: "stp c fs \<Longrightarrow> stp d (set_ctx c fs) \<Longrightarrow> stp d fs"
  by (simp add: stp_def set_ctx_def bstp_trans)

lemma fmem_self: "mem (be_ctx (fs_backend fs)) = fmem fs"
  by (simp add: fmem_def bmem_def)

lemma read_rule:
  assumes "fdev fs"
    and "\<And>c. stp c fs \<Longrightarrow> mem c = fmem fs \<Longrightarrow> off + n \<le> length (fmem fs) \<Longrightarrow>
      Q (Inr (sub_bytes off n (fmem fs))) (set_ctx c fs)"
    and "\<And>c. stp c fs \<Longrightarrow> mem c = fmem fs \<Longrightarrow> \<not> (healthy fs \<and> off + n \<le> length (fmem fs)) \<Longrightarrow>
      Q (Inl FFFS_ERR_IO) (set_ctx c fs)"
  shows "wp (fffs_flash_read off n) Q fs"
  using assms unfolding fffs_flash_read_def wp_on_backend fdev_def fmem_def set_ctx_def stp_def healthy_def
  by (intro backend_read_rule) auto

lemma program_rule:
  assumes "fdev fs"
    and "\<And>c. stp c fs \<Longrightarrow> mem c = nor_program off data (fmem fs) \<Longrightarrow>
      (data \<noteq> [] \<longrightarrow> off + length data \<le> length (fmem fs)) \<Longrightarrow> Q (Inr ()) (set_ctx c fs)"
    and "\<And>c. stp c fs \<Longrightarrow> torn_program off data (fmem fs) (mem c) \<Longrightarrow>
      \<not> (healthy fs \<and> off + length data \<le> length (fmem fs)) \<Longrightarrow> Q (Inl FFFS_ERR_IO) (set_ctx c fs)"
  shows "wp (fffs_flash_program_aligned off data) Q fs"
  using assms unfolding fffs_flash_program_aligned_def wp_on_backend fdev_def fmem_def set_ctx_def
    stp_def healthy_def
  by (intro backend_program_aligned_rule) auto

lemma erase_rule:
  assumes "fdev fs"
    and "\<And>c. stp c fs \<Longrightarrow> mem c = nor_erase off n (fmem fs) \<Longrightarrow> off + n \<le> length (fmem fs) \<Longrightarrow>
      Q (Inr ()) (set_ctx c fs)"
    and "\<And>c. stp c fs \<Longrightarrow> torn_erase off n (fmem fs) (mem c) \<Longrightarrow>
      \<not> (healthy fs \<and> off + n \<le> length (fmem fs) \<and> off mod fblk fs = 0 \<and> n mod fblk fs = 0) \<Longrightarrow>
      Q (Inl FFFS_ERR_IO) (set_ctx c fs)"
  shows "wp (fs_backend_erase off n) Q fs"
  using assms unfolding fs_backend_erase_def wp_on_backend fdev_def fmem_def set_ctx_def stp_def
    healthy_def fblk_def
  by (intro backend_erase_rule) auto

end

end
