(* ===== verification/Verify_Flash.thy ===== *)
theory Verify_Flash
  imports Fffs_Flash
begin

unbundle bit_operations_syntax

text \<open>
  The host NOR emulator, \<^verbatim>\<open>src/verify_flash.c\<close> on top of the block device
  \<^verbatim>\<open>tests/littlefs/bd/lfs_emubd.c\<close>, and the adapter \<^verbatim>\<open>src/fastffs_host.c\<close>: reads, programs and
  erases with operation counters, the operation log, virtual time and failure injection before,
  in the middle of (as a prefix or by clearing random bits) or after the operation.

  The block device is modelled as \<^verbatim>\<open>ffsv_flash_create\<close> configures it: no disk mirror, no sleeping,
  no power-loss emulation, bad blocks fail on erase.  Allocation always succeeds.  Call sites,
  labels of the log, are left out.  The fault sampler runs a caller's callback on copy-on-write
  clones with a sampled fault; a clone has no sampler, which is why \<open>ffsv_branch\<close>, an emulator without
  one, is the type the callback gets.  The other operations of the emulator are in
  \<^verbatim>\<open>Verify_Flash_Tools\<close>.

  The emulator satisfies the interface \<open>flash_device\<close> for every injected failure.
\<close>

section \<open>State\<close>

type_synonym u64 = "64 word"

abbreviation (input) FFSV_OK :: int where "FFSV_OK \<equiv> 0"
abbreviation (input) FFSV_ERR_INVALID :: int where "FFSV_ERR_INVALID \<equiv> -1"
abbreviation (input) FFSV_ERR_RANGE :: int where "FFSV_ERR_RANGE \<equiv> -3"
abbreviation (input) FFSV_ERR_ALIGNMENT :: int where "FFSV_ERR_ALIGNMENT \<equiv> -4"
abbreviation (input) FFSV_ERR_STAGED_BUSY :: int where "FFSV_ERR_STAGED_BUSY \<equiv> -7"
abbreviation (input) FFSV_ERR_INJECTED :: int where "FFSV_ERR_INJECTED \<equiv> -9"
abbreviation (input) FFSV_ERR_IO :: int where "FFSV_ERR_IO \<equiv> -10"

abbreviation (input) FFSV_NOR_PROGRAM_PAGE_SIZE :: nat where "FFSV_NOR_PROGRAM_PAGE_SIZE \<equiv> 256"

datatype ffsv_op_type =
    FFSV_OP_READ | FFSV_OP_PROGRAM | FFSV_OP_ERASE | FFSV_OP_BLANK_CHECK
  | FFSV_OP_STAGE_PROGRAM | FFSV_OP_COMMIT_STAGED | FFSV_OP_DROP_STAGED | FFSV_OP_CORRUPT

fun op_number :: "ffsv_op_type \<Rightarrow> nat" where
  "op_number FFSV_OP_READ = 0"
| "op_number FFSV_OP_PROGRAM = 1"
| "op_number FFSV_OP_ERASE = 2"
| "op_number FFSV_OP_BLANK_CHECK = 3"
| "op_number FFSV_OP_STAGE_PROGRAM = 4"
| "op_number FFSV_OP_COMMIT_STAGED = 5"
| "op_number FFSV_OP_DROP_STAGED = 6"
| "op_number FFSV_OP_CORRUPT = 7"

datatype ffsv_failure_phase = FFSV_FAIL_BEFORE | FFSV_FAIL_MIDDLE | FFSV_FAIL_AFTER

datatype ffsv_failure_write_mode = FFSV_FAIL_WRITE_PREFIX | FFSV_FAIL_WRITE_RANDOM_CLEAR

record ffsv_timing =
  read_fixed_ns :: u64
  read_per_byte_ns :: u64
  program_fixed_ns :: u64
  program_per_byte_ns :: u64
  erase_fixed_ns :: u64
  erase_per_byte_ns :: u64
  blank_check_fixed_ns :: u64
  blank_check_per_byte_ns :: u64

record ffsv_flash_config =
  cfg_total_size :: nat
  cfg_sector_size :: nat
  cfg_program_granule :: nat
  cfg_erased_value :: byte
  cfg_erase_cycles :: u32
  cfg_timing :: ffsv_timing
  cfg_max_log_entries :: nat

record ffsv_failure_injection =
  fi_enabled :: bool
  fi_sequence :: u64
  fi_op_mask :: u32
  fi_phase :: ffsv_failure_phase
  fi_write_mode :: ffsv_failure_write_mode
  fi_status :: int
  fi_partial_bytes :: nat
  fi_seed :: u32

record ffsv_op_record =
  rec_sequence :: u64
  rec_type :: ffsv_op_type
  rec_offset :: nat
  rec_size :: nat
  rec_sector :: nat
  rec_time_before_ns :: u64
  rec_time_after_ns :: u64
  rec_result :: int
  rec_injected :: bool
  rec_injected_phase :: ffsv_failure_phase
  rec_committed_bytes :: nat

record ffsv_op_counts =
  cnt_calls :: u64
  cnt_bytes :: u64

record ffsv_sector_counts =
  sc_read_calls :: u64
  sc_read_bytes :: u64
  sc_programmed_bytes :: u64
  sc_erased_bytes :: u64
  sc_blank_checked_bytes :: u64

record lfs_emubd_block =
  blk_wear :: u32
  blk_data :: "byte list"

record staged_mutation =
  sg_active :: bool
  sg_offset :: nat
  sg_size :: nat
  sg_data :: "byte list"

record ffsv_branch =
  fl_cfg :: ffsv_flash_config
  fl_blocks :: "lfs_emubd_block option list"
  fl_next_sequence :: u64
  fl_time_ns :: u64
  fl_failure :: ffsv_failure_injection
  fl_counts :: "ffsv_op_counts list"
  fl_sector_counts :: "ffsv_sector_counts list"
  fl_sector_count :: nat
  fl_log :: "ffsv_op_record list"
  fl_log_capacity :: nat
  fl_staged :: staged_mutation

text \<open>The overlay of a view is \<open>None\<close> for \<^verbatim>\<open>NULL\<close>; the callback closes over its user pointer.\<close>

record ffsv_image_view =
  iv_base :: "byte list"
  iv_size :: nat
  iv_overlay_offset :: nat
  iv_overlay :: "byte list option"
  iv_overlay_size :: nat

record ffsv_fault_case =
  fc_type :: ffsv_op_type
  fc_sequence :: u64
  fc_offset :: nat
  fc_size :: nat
  fc_permutation :: nat
  fc_seed :: u32
  fc_sampled_bits :: nat
  fc_branch :: ffsv_branch
  fc_view :: ffsv_image_view

record ffsv_fault_sampler =
  sp_enabled :: bool
  sp_op_mask :: u32
  sp_seed :: u32
  sp_permutations_per_op :: nat
  sp_max_bits_per_permutation :: nat
  sp_program_page_size :: nat
  sp_verify :: "(ffsv_fault_case \<Rightarrow> int) option"

record ffsv_flash = ffsv_branch +
  fl_sampler :: ffsv_fault_sampler

abbreviation fl_staged_active :: "ffsv_flash \<Rightarrow> bool" where
  "fl_staged_active flash \<equiv> sg_active (fl_staged flash)"

definition no_failure :: ffsv_failure_injection where
  "no_failure = \<lparr>fi_enabled = False, fi_sequence = 0, fi_op_mask = 0, fi_phase = FFSV_FAIL_BEFORE,
     fi_write_mode = FFSV_FAIL_WRITE_PREFIX, fi_status = 0, fi_partial_bytes = 0, fi_seed = 0\<rparr>"

definition no_staged :: staged_mutation where
  "no_staged = \<lparr>sg_active = False, sg_offset = 0, sg_size = 0, sg_data = []\<rparr>"

definition no_sampler :: ffsv_fault_sampler where
  "no_sampler = \<lparr>sp_enabled = False, sp_op_mask = 0, sp_seed = 0, sp_permutations_per_op = 0,
     sp_max_bits_per_permutation = 0, sp_program_page_size = 0, sp_verify = None\<rparr>"

section \<open>Operation bookkeeping\<close>

definition log_limit :: "ffsv_flash \<Rightarrow> nat" where
  "log_limit flash =
     (if cfg_max_log_entries (fl_cfg flash) \<noteq> 0 then cfg_max_log_entries (fl_cfg flash) else 4096)"

definition initial_log_capacity :: "nat \<Rightarrow> nat" where
  "initial_log_capacity limit = (if limit < 128 then limit else 128)"

definition checked_config :: "ffsv_flash_config \<Rightarrow> int" where
  "checked_config cfg =
     (if cfg_total_size cfg = 0 \<or> cfg_sector_size cfg = 0 \<or> cfg_program_granule cfg = 0
      then FFSV_ERR_INVALID
      else if cfg_total_size cfg mod cfg_sector_size cfg \<noteq> 0 \<or>
        cfg_sector_size cfg mod cfg_program_granule cfg \<noteq> 0 then FFSV_ERR_INVALID
      else FFSV_OK)"

definition check_range :: "ffsv_flash \<Rightarrow> nat \<Rightarrow> nat \<Rightarrow> int" where
  "check_range flash offset sz =
     (if offset > cfg_total_size (fl_cfg flash) \<or> sz > cfg_total_size (fl_cfg flash) - offset
      then FFSV_ERR_RANGE else FFSV_OK)"

definition check_alignment :: "nat \<Rightarrow> nat \<Rightarrow> nat \<Rightarrow> int" where
  "check_alignment offset sz granule =
     (if offset mod granule \<noteq> 0 \<or> sz mod granule \<noteq> 0 then FFSV_ERR_ALIGNMENT else FFSV_OK)"

definition sector_of :: "ffsv_flash \<Rightarrow> nat \<Rightarrow> nat" where
  "sector_of flash offset =
     (if offset \<ge> cfg_total_size (fl_cfg flash) then fl_sector_count flash
      else offset div cfg_sector_size (fl_cfg flash))"

definition op_matches :: "ffsv_flash \<Rightarrow> ffsv_op_type \<Rightarrow> u64 \<Rightarrow> bool" where
  "op_matches flash type sequence \<longleftrightarrow>
     fi_enabled (fl_failure flash) \<and> fi_sequence (fl_failure flash) = sequence \<and>
     fi_op_mask (fl_failure flash) AND push_bit (op_number type) 1 \<noteq> 0"

definition duration_for :: "ffsv_flash \<Rightarrow> ffsv_op_type \<Rightarrow> nat \<Rightarrow> u64" where
  "duration_for flash type sz =
     (let t = cfg_timing (fl_cfg flash) in
      case type of
        FFSV_OP_READ \<Rightarrow> read_fixed_ns t + read_per_byte_ns t * of_nat sz
      | FFSV_OP_PROGRAM \<Rightarrow> program_fixed_ns t + program_per_byte_ns t * of_nat sz
      | FFSV_OP_STAGE_PROGRAM \<Rightarrow> program_fixed_ns t + program_per_byte_ns t * of_nat sz
      | FFSV_OP_COMMIT_STAGED \<Rightarrow> program_fixed_ns t + program_per_byte_ns t * of_nat sz
      | FFSV_OP_ERASE \<Rightarrow> erase_fixed_ns t + erase_per_byte_ns t * of_nat sz
      | FFSV_OP_BLANK_CHECK \<Rightarrow> blank_check_fixed_ns t + blank_check_per_byte_ns t * of_nat sz
      | _ \<Rightarrow> 0)"

definition count_sector :: "ffsv_op_type \<Rightarrow> nat \<Rightarrow> ffsv_sector_counts \<Rightarrow> ffsv_sector_counts" where
  "count_sector type n c =
     (case type of
        FFSV_OP_READ \<Rightarrow> c\<lparr>sc_read_calls := sc_read_calls c + 1, sc_read_bytes := sc_read_bytes c + of_nat n\<rparr>
      | FFSV_OP_PROGRAM \<Rightarrow> c\<lparr>sc_programmed_bytes := sc_programmed_bytes c + of_nat n\<rparr>
      | FFSV_OP_STAGE_PROGRAM \<Rightarrow> c\<lparr>sc_programmed_bytes := sc_programmed_bytes c + of_nat n\<rparr>
      | FFSV_OP_COMMIT_STAGED \<Rightarrow> c\<lparr>sc_programmed_bytes := sc_programmed_bytes c + of_nat n\<rparr>
      | FFSV_OP_ERASE \<Rightarrow> c\<lparr>sc_erased_bytes := sc_erased_bytes c + of_nat n\<rparr>
      | FFSV_OP_BLANK_CHECK \<Rightarrow> c\<lparr>sc_blank_checked_bytes := sc_blank_checked_bytes c + of_nat n\<rparr>
      | _ \<Rightarrow> c)"

text \<open>The sectors \<^verbatim>\<open>add_sector_counts\<close> writes to, first to last.  A range that starts inside the
  device and ends outside it is refused by \<^verbatim>\<open>check_range\<close>, but its sectors are counted before the
  refusal: the list then holds sectors past the end of the counter array.\<close>

definition counted_sectors :: "ffsv_flash \<Rightarrow> nat \<Rightarrow> nat \<Rightarrow> nat list" where
  "counted_sectors flash offset sz =
     (let ss = cfg_sector_size (fl_cfg flash) in
      if sz = 0 \<or> offset \<ge> cfg_total_size (fl_cfg flash) then []
      else [offset div ss ..< Suc ((offset + sz - 1) div ss)])"

definition add_sector_counts :: "ffsv_op_type \<Rightarrow> nat \<Rightarrow> nat \<Rightarrow> ffsv_flash \<Rightarrow> ffsv_flash" where
  "add_sector_counts type offset sz flash =
     (let ss = cfg_sector_size (fl_cfg flash) in
      flash\<lparr>fl_sector_counts := fold (\<lambda>sector counts.
        let start = max offset (sector * ss); stop = min (offset + sz) (sector * ss + ss) in
        counts[sector := count_sector type (stop - start) (counts ! sector)])
      (counted_sectors flash offset sz) (fl_sector_counts flash)\<rparr>)"

text \<open>\<^verbatim>\<open>begin_op\<close>: the index of the log record, \<open>None\<close> when the log is full, and whether a failure
  is injected.\<close>

definition begin_op ::
  "ffsv_op_type \<Rightarrow> nat \<Rightarrow> nat \<Rightarrow> ffsv_flash \<Rightarrow> nat option \<times> bool \<times> ffsv_flash" where
  "begin_op type offset sz flash =
     (let sq = fl_next_sequence flash;
          inject = op_matches flash type sq;
          c = fl_counts flash ! op_number type;
          flash = add_sector_counts type offset sz
            (flash\<lparr>fl_next_sequence := sq + 1,
              fl_counts := (fl_counts flash)[op_number type :=
                c\<lparr>cnt_calls := cnt_calls c + 1, cnt_bytes := cnt_bytes c + of_nat sz\<rparr>]\<rparr>);
          limit = log_limit flash; capacity = fl_log_capacity flash;
          grown = (if capacity \<noteq> 0 then capacity * 2 else initial_log_capacity limit);
          new_capacity = (if length (fl_log flash) \<ge> capacity
            then (if grown < capacity \<or> grown > limit then limit else grown) else capacity)
      in if length (fl_log flash) \<ge> capacity \<and> capacity \<ge> limit then (None, inject, flash)
         else (Some (length (fl_log flash)), inject,
           flash\<lparr>fl_log_capacity := new_capacity, fl_log := fl_log flash @
             [\<lparr>rec_sequence = sq, rec_type = type, rec_offset = offset, rec_size = sz,
               rec_sector = sector_of flash offset, rec_time_before_ns = fl_time_ns flash,
               rec_time_after_ns = fl_time_ns flash, rec_result = FFSV_OK, rec_injected = inject,
               rec_injected_phase = (if inject then fi_phase (fl_failure flash) else FFSV_FAIL_BEFORE),
               rec_committed_bytes = 0\<rparr>]\<rparr>))"

definition finish_op ::
  "nat option \<Rightarrow> ffsv_op_type \<Rightarrow> nat \<Rightarrow> int \<Rightarrow> nat \<Rightarrow> ffsv_flash \<Rightarrow> int \<times> ffsv_flash" where
  "finish_op rec type sz result committed flash =
     (let flash = flash\<lparr>fl_time_ns := fl_time_ns flash + duration_for flash type sz\<rparr>
      in (result, case rec of
           None \<Rightarrow> flash
         | Some i \<Rightarrow> flash\<lparr>fl_log := (fl_log flash)[i := (fl_log flash ! i)
             \<lparr>rec_time_after_ns := fl_time_ns flash, rec_result := result,
              rec_committed_bytes := committed\<rparr>]\<rparr>))"

section \<open>Failure injection\<close>

definition injected_status :: "ffsv_flash \<Rightarrow> int" where
  "injected_status flash =
     (if fi_status (fl_failure flash) \<noteq> 0 then fi_status (fl_failure flash) else FFSV_ERR_INJECTED)"

definition injected_partial :: "ffsv_flash \<Rightarrow> nat \<Rightarrow> nat \<Rightarrow> nat" where
  "injected_partial flash sz granule =
     (let partial = (if fi_partial_bytes (fl_failure flash) \<noteq> 0
                     then fi_partial_bytes (fl_failure flash) else sz div 2);
          partial = (if granule > 1 then partial - partial mod granule else partial);
          partial = (if partial = 0 \<and> sz \<ge> granule then granule else partial)
      in if partial > sz then sz else partial)"

definition injected_program_partial :: "ffsv_flash \<Rightarrow> nat \<Rightarrow> nat \<Rightarrow> nat" where
  "injected_program_partial flash offset sz =
     (let granule = cfg_program_granule (fl_cfg flash); partial = injected_partial flash sz granule in
      if fi_write_mode (fl_failure flash) \<noteq> FFSV_FAIL_WRITE_RANDOM_CLEAR then partial
      else
        let page_remaining = FFSV_NOR_PROGRAM_PAGE_SIZE - offset mod FFSV_NOR_PROGRAM_PAGE_SIZE;
            partial = (if partial > page_remaining then page_remaining else partial)
        in if granule > 1 then partial - partial mod granule else partial)"

definition failure_seed :: "ffsv_flash \<Rightarrow> nat \<Rightarrow> nat \<Rightarrow> u32" where
  "failure_seed flash offset sz =
     (let f = fl_failure flash; seed = (if fi_seed f \<noteq> 0 then fi_seed f else 0x9e3779b9) in
      seed XOR ucast (fi_sequence f) XOR ucast (drop_bit 32 (fi_sequence f)) XOR
      of_nat offset * 0x85ebca6b XOR of_nat sz * 0xc2b2ae35)"

definition map_lfs_error :: "int \<Rightarrow> int" where
  "map_lfs_error err = (if err = 0 then FFSV_OK else FFSV_ERR_IO)"

section \<open>The block device\<close>

abbreviation (input) LFS_ERR_CORRUPT :: int where "LFS_ERR_CORRUPT \<equiv> -84"

text \<open>A block is allocated on its first change; until then it reads as erased.\<close>

definition lfs_emubd_mutblock :: "ffsv_flash \<Rightarrow> nat \<Rightarrow> lfs_emubd_block" where
  "lfs_emubd_mutblock flash block =
     (case fl_blocks flash ! block of
        Some b \<Rightarrow> b
      | None \<Rightarrow> \<lparr>blk_wear = 0,
          blk_data = replicate (cfg_sector_size (fl_cfg flash)) (cfg_erased_value (fl_cfg flash))\<rparr>)"

definition set_block :: "nat \<Rightarrow> lfs_emubd_block \<Rightarrow> ffsv_flash \<Rightarrow> ffsv_flash" where
  "set_block block b flash = flash\<lparr>fl_blocks := (fl_blocks flash)[block := Some b]\<rparr>"

definition lfs_emubd_read :: "ffsv_flash \<Rightarrow> nat \<Rightarrow> nat \<Rightarrow> nat \<Rightarrow> byte list" where
  "lfs_emubd_read flash block off sz = sub_bytes off sz (blk_data (lfs_emubd_mutblock flash block))"

definition lfs_emubd_prog :: "nat \<Rightarrow> nat \<Rightarrow> byte list \<Rightarrow> ffsv_flash \<Rightarrow> ffsv_flash" where
  "lfs_emubd_prog block off data flash =
     (let b = lfs_emubd_mutblock flash block in
      set_block block (b\<lparr>blk_data := nor_program off data (blk_data b)\<rparr>) flash)"

definition lfs_emubd_erase :: "nat \<Rightarrow> ffsv_flash \<Rightarrow> int \<times> ffsv_flash" where
  "lfs_emubd_erase block flash =
     (let b = lfs_emubd_mutblock flash block; cfg = fl_cfg flash;
          erased = replicate (cfg_sector_size cfg) (cfg_erased_value cfg)
      in if cfg_erase_cycles cfg \<noteq> 0
         then (if blk_wear b \<ge> cfg_erase_cycles cfg then (LFS_ERR_CORRUPT, set_block block b flash)
               else (0, set_block block (b\<lparr>blk_wear := blk_wear b + 1, blk_data := erased\<rparr>) flash))
         else (0, set_block block (b\<lparr>blk_data := erased\<rparr>) flash))"

definition lfs_emubd_prng_next :: "u32 \<Rightarrow> u32" where
  "lfs_emubd_prng_next state =
     (let x = (if state = 0 then 0x6d2b79f5 else state);
          x = x XOR push_bit 13 x;
          x = x XOR drop_bit 17 x
      in x XOR push_bit 5 x)"

text \<open>\<^verbatim>\<open>lfs_emubd_prog_random_clear\<close>: the candidate bits are those the program would clear; a
  shuffled candidate is dropped from the program when the generator says so, by setting its bit
  (and every bit that is already clear) in the programmed byte.\<close>

definition clear_candidates :: "byte list \<Rightarrow> byte list \<Rightarrow> nat list" where
  "clear_candidates old data =
     concat (map (\<lambda>i. let clearable = old ! i AND NOT (old ! i AND data ! i) in
       [i * 8 + k. k \<leftarrow> [0..<8], bit clearable k]) [0..<length data])"

fun random_clear_loop ::
  "byte list \<Rightarrow> nat \<Rightarrow> nat \<Rightarrow> u32 \<Rightarrow> nat list \<Rightarrow> byte list \<Rightarrow> byte list" where
  "random_clear_loop old i 0 rng cands prog = prog"
| "random_clear_loop old i (Suc left) rng cands prog =
     (let rng = lfs_emubd_prng_next rng;
          j = i + unat (rng mod of_nat (length cands - i));
          cands = cands[i := cands ! j, j := cands ! i];
          rng = lfs_emubd_prng_next rng
      in if rng AND 1 \<noteq> 0
         then let b = cands ! i div 8; msk = push_bit (cands ! i mod 8) 1;
                  target = (old ! b AND prog ! b) OR msk
              in random_clear_loop old (Suc i) left rng cands (prog[b := target OR NOT (old ! b)])
         else random_clear_loop old (Suc i) left rng cands prog)"

definition lfs_emubd_prog_random_clear ::
  "nat \<Rightarrow> nat \<Rightarrow> byte list \<Rightarrow> u32 \<Rightarrow> nat \<Rightarrow> ffsv_flash \<Rightarrow> ffsv_flash" where
  "lfs_emubd_prog_random_clear block off data seed max_bits flash =
     (let old = lfs_emubd_read flash block off (length data);
          cands = clear_candidates old data;
          selected = (if max_bits = 0 \<or> max_bits > length cands then length cands else max_bits)
      in lfs_emubd_prog block off (random_clear_loop old 0 selected seed cands data) flash)"


section \<open>Operations of the emulator\<close>

text \<open>The split of a byte range at sector borders, shared by all loops of the emulator: block,
  offset in the block, offset in the data, length.  \<^verbatim>\<open>checked_config\<close> makes the sector size
  nonzero; the guard on it makes the definition total.\<close>

function sector_pieces :: "nat \<Rightarrow> nat \<Rightarrow> nat \<Rightarrow> nat \<Rightarrow> (nat \<times> nat \<times> nat \<times> nat) list" where
  "sector_pieces ss offset data_offset sz =
     (if sz = 0 \<or> ss = 0 then []
      else let n = min (ss - offset mod ss) sz in
        (offset div ss, offset mod ss, data_offset, n) #
        sector_pieces ss (offset + n) (data_offset + n) (sz - n))"
  by auto
termination by (relation "measure (\<lambda>(ss, offset, d, sz). sz)") auto

declare sector_pieces.simps [simp del]

definition emu_program_range :: "nat \<Rightarrow> byte list \<Rightarrow> ffsv_flash \<Rightarrow> ffsv_flash" where
  "emu_program_range offset data flash =
     fold (\<lambda>(block, off, d, n). lfs_emubd_prog block off (sub_bytes d n data))
       (sector_pieces (cfg_sector_size (fl_cfg flash)) offset 0 (length data)) flash"

definition emu_program_random_clear :: "nat \<Rightarrow> byte list \<Rightarrow> ffsv_flash \<Rightarrow> ffsv_flash" where
  "emu_program_random_clear offset data flash =
     (let seed = failure_seed flash offset (length data) in
      fold (\<lambda>(block, off, d, n).
          lfs_emubd_prog_random_clear block off (sub_bytes d n data) (seed XOR of_nat d) 0)
        (sector_pieces (cfg_sector_size (fl_cfg flash)) offset 0 (length data)) flash)"

definition emu_program_injected_middle :: "nat \<Rightarrow> byte list \<Rightarrow> ffsv_flash \<Rightarrow> ffsv_flash" where
  "emu_program_injected_middle offset data flash =
     (let commit = injected_program_partial flash offset (length data) in
      if commit = 0 then flash
      else if fi_write_mode (fl_failure flash) = FFSV_FAIL_WRITE_RANDOM_CLEAR
      then emu_program_random_clear offset (take commit data) flash
      else emu_program_range offset (take commit data) flash)"

definition raw_erase_prefix :: "nat \<Rightarrow> nat \<Rightarrow> ffsv_flash \<Rightarrow> ffsv_flash" where
  "raw_erase_prefix offset sz flash =
     fold (\<lambda>(block, off, d, n) flash.
         let b = lfs_emubd_mutblock flash block in
         set_block block (b\<lparr>blk_data :=
           put_bytes off (replicate n (cfg_erased_value (fl_cfg flash))) (blk_data b)\<rparr>) flash)
       (sector_pieces (cfg_sector_size (fl_cfg flash)) offset 0 sz) flash"

text \<open>The number of bits \<^verbatim>\<open>lfs_emubd_prog_random_clear\<close> reports, and the erase that fills a block with noise.\<close>

definition lfs_emubd_sampled_bits :: "nat \<Rightarrow> nat \<Rightarrow> byte list \<Rightarrow> nat \<Rightarrow> ffsv_flash \<Rightarrow> nat" where
  "lfs_emubd_sampled_bits block off data max_bits flash =
     (let candidates = length (clear_candidates (lfs_emubd_read flash block off (length data)) data)
      in if max_bits = 0 \<or> max_bits > candidates then candidates else max_bits)"

fun random_bytes :: "nat \<Rightarrow> u32 \<Rightarrow> byte list" where
  "random_bytes 0 rng = []"
| "random_bytes (Suc n) rng = (let rng = lfs_emubd_prng_next rng in ucast rng # random_bytes n rng)"

definition lfs_emubd_erase_random :: "nat \<Rightarrow> u32 \<Rightarrow> ffsv_flash \<Rightarrow> ffsv_flash" where
  "lfs_emubd_erase_random block seed flash =
     (let b = lfs_emubd_mutblock flash block in
      set_block block (b\<lparr>blk_data := random_bytes (cfg_sector_size (fl_cfg flash)) seed\<rparr>) flash)"

text \<open>The image of the whole device, as \<^verbatim>\<open>refresh_image_cache\<close> assembles it.\<close>

definition ffsv_flash_image :: "ffsv_flash \<Rightarrow> byte list" where
  "ffsv_flash_image flash = concat (map (\<lambda>block. case fl_blocks flash ! block of
       Some b \<Rightarrow> blk_data b
     | None \<Rightarrow> replicate (cfg_sector_size (fl_cfg flash)) (cfg_erased_value (fl_cfg flash))) [0..<fl_sector_count flash])"

section \<open>The fault sampler\<close>

definition sampler_matches :: "ffsv_flash \<Rightarrow> ffsv_op_type \<Rightarrow> bool" where
  "sampler_matches flash type \<longleftrightarrow> sp_enabled (fl_sampler flash) \<and> sp_verify (fl_sampler flash) \<noteq> None \<and>
     sp_op_mask (fl_sampler flash) AND push_bit (op_number type) 1 \<noteq> 0"

definition sampler_seed :: "ffsv_flash \<Rightarrow> ffsv_op_type \<Rightarrow> u64 \<Rightarrow> nat \<Rightarrow> nat \<Rightarrow> nat \<Rightarrow> u32" where
  "sampler_seed flash type sequence offset sz permutation =
     (let seed = (if sp_seed (fl_sampler flash) \<noteq> 0 then sp_seed (fl_sampler flash) else 0x51f15eED) in
      seed XOR ucast sequence XOR ucast (drop_bit 32 sequence) XOR of_nat (op_number type) * 0x9e3779b9 XOR
      of_nat offset * 0x85ebca6b XOR of_nat sz * 0xc2b2ae35 XOR of_nat permutation * 0x27d4eb2d)"

definition emu_branch_create :: "ffsv_flash \<Rightarrow> ffsv_flash" where
  "emu_branch_create flash = \<lparr>fl_cfg = fl_cfg flash, fl_blocks = fl_blocks flash,
     fl_next_sequence = fl_next_sequence flash, fl_time_ns = fl_time_ns flash, fl_failure = no_failure,
     fl_counts = fl_counts flash, fl_sector_counts = fl_sector_counts flash,
     fl_sector_count = fl_sector_count flash, fl_log = [],
     fl_log_capacity = initial_log_capacity (log_limit flash), fl_staged = no_staged, fl_sampler = no_sampler\<rparr>"

definition run_fault_case :: "ffsv_flash \<Rightarrow> ffsv_flash \<Rightarrow> ffsv_op_type \<Rightarrow> u64 \<Rightarrow> nat \<Rightarrow> nat \<Rightarrow> nat \<Rightarrow> u32 \<Rightarrow> nat \<Rightarrow> int" where
  "run_fault_case flash branch type sequence offset sz permutation seed sampled_bits =
     the (sp_verify (fl_sampler flash)) \<lparr>fc_type = type, fc_sequence = sequence, fc_offset = offset, fc_size = sz,
       fc_permutation = permutation, fc_seed = seed, fc_sampled_bits = sampled_bits,
       fc_branch = ffsv_branch.truncate branch,
       fc_view = \<lparr>iv_base = ffsv_flash_image branch, iv_size = cfg_total_size (fl_cfg flash),
         iv_overlay_offset = 0, iv_overlay = None, iv_overlay_size = 0\<rparr>\<rparr>"

definition apply_program_fault_branch ::
  "nat \<Rightarrow> byte list \<Rightarrow> nat \<Rightarrow> nat \<Rightarrow> u32 \<Rightarrow> ffsv_flash \<Rightarrow> nat \<times> ffsv_flash" where
  "apply_program_fault_branch offset data page_size max_bits seed branch =
     (let ss = cfg_sector_size (fl_cfg branch); granule = cfg_program_granule (fl_cfg branch);
          page_remaining = page_size - offset mod page_size;
          fault_size = (if length data < page_remaining then length data else page_remaining);
          sector_remaining = ss - offset mod ss;
          fault_size = (if fault_size > sector_remaining then sector_remaining else fault_size);
          fault_size = (if granule > 1 then fault_size - fault_size mod granule else fault_size)
      in if fault_size = 0 then (0, branch)
         else (lfs_emubd_sampled_bits (offset div ss) (offset mod ss) (take fault_size data) max_bits branch,
           lfs_emubd_prog_random_clear (offset div ss) (offset mod ss) (take fault_size data) seed max_bits branch))"

definition apply_erase_fault_branch :: "nat \<Rightarrow> nat \<Rightarrow> u32 \<Rightarrow> ffsv_flash \<Rightarrow> ffsv_flash" where
  "apply_erase_fault_branch offset sz seed branch =
     (let ss = cfg_sector_size (fl_cfg branch) in
      fold (\<lambda>block. lfs_emubd_erase_random block (seed XOR of_nat block)) [offset div ss ..< (offset + sz) div ss] branch)"

fun program_fault_cases ::
  "ffsv_flash \<Rightarrow> ffsv_op_type \<Rightarrow> u64 \<Rightarrow> nat \<Rightarrow> byte list \<Rightarrow> nat \<Rightarrow> nat list \<Rightarrow> int" where
  "program_fault_cases flash type sequence offset data page_size [] = FFSV_OK"
| "program_fault_cases flash type sequence offset data page_size (p # ps) =
     (let seed = sampler_seed flash type sequence offset (length data) p in
      case apply_program_fault_branch offset data page_size (sp_max_bits_per_permutation (fl_sampler flash)) seed
        (emu_branch_create flash) of
        (sampled_bits, branch) \<Rightarrow>
          let err = run_fault_case flash branch type sequence offset (length data) p seed sampled_bits
          in if err \<noteq> 0 then err else program_fault_cases flash type sequence offset data page_size ps)"

definition run_program_fault_sampler :: "ffsv_flash \<Rightarrow> ffsv_op_type \<Rightarrow> u64 \<Rightarrow> nat \<Rightarrow> byte list \<Rightarrow> int" where
  "run_program_fault_sampler flash type sequence offset data =
     (if \<not> sampler_matches flash type then FFSV_OK
      else program_fault_cases flash type sequence offset data
        (if sp_program_page_size (fl_sampler flash) \<noteq> 0 then sp_program_page_size (fl_sampler flash)
         else FFSV_NOR_PROGRAM_PAGE_SIZE) [0..<sp_permutations_per_op (fl_sampler flash)])"

fun erase_fault_cases :: "ffsv_flash \<Rightarrow> u64 \<Rightarrow> nat \<Rightarrow> nat \<Rightarrow> nat list \<Rightarrow> int" where
  "erase_fault_cases flash sequence offset sz [] = FFSV_OK"
| "erase_fault_cases flash sequence offset sz (p # ps) =
     (let seed = sampler_seed flash FFSV_OP_ERASE sequence offset sz p;
          branch = apply_erase_fault_branch offset sz seed (emu_branch_create flash);
          err = run_fault_case flash branch FFSV_OP_ERASE sequence offset sz p seed (sz * 8)
      in if err \<noteq> 0 then err else erase_fault_cases flash sequence offset sz ps)"

definition run_erase_fault_sampler :: "ffsv_flash \<Rightarrow> u64 \<Rightarrow> nat \<Rightarrow> nat \<Rightarrow> int" where
  "run_erase_fault_sampler flash sequence offset sz =
     (if \<not> sampler_matches flash FFSV_OP_ERASE then FFSV_OK
      else erase_fault_cases flash sequence offset sz [0..<sp_permutations_per_op (fl_sampler flash)])"

section \<open>Reading, programming, erasing\<close>

fun erase_blocks :: "nat list \<Rightarrow> ffsv_flash \<Rightarrow> int \<times> ffsv_flash" where
  "erase_blocks [] flash = (0, flash)"
| "erase_blocks (block # blocks) flash =
     (case lfs_emubd_erase block flash of
        (err, flash) \<Rightarrow> if err \<noteq> 0 then (err, flash) else erase_blocks blocks flash)"

definition ffsv_flash_read :: "ffsv_flash \<Rightarrow> nat \<Rightarrow> nat \<Rightarrow> int \<times> byte list \<times> ffsv_flash" where
  "ffsv_flash_read flash offset sz =
     (let err = check_range flash offset sz in
      case begin_op FFSV_OP_READ offset sz flash of
        (rec, inject, flash) \<Rightarrow>
          let finish = (\<lambda>result data. case finish_op rec FFSV_OP_READ sz result 0 flash of
                (st, flash) \<Rightarrow> (st, data, flash));
              data = concat (map (\<lambda>(block, off, d, n). lfs_emubd_read flash block off n)
                (sector_pieces (cfg_sector_size (fl_cfg flash)) offset 0 sz))
          in if err \<noteq> 0 then finish err []
             else if inject \<and> fi_phase (fl_failure flash) = FFSV_FAIL_BEFORE
             then finish (injected_status flash) []
             else finish (if inject then injected_status flash else FFSV_OK) data)"

definition ffsv_flash_program :: "ffsv_flash \<Rightarrow> nat \<Rightarrow> byte list \<Rightarrow> int \<times> ffsv_flash" where
  "ffsv_flash_program flash offset data =
     (if fl_staged_active flash then (FFSV_ERR_STAGED_BUSY, flash)
      else
        let sz = length data; sq = fl_next_sequence flash;
            err = check_range flash offset sz;
            err = (if err = 0 then check_alignment offset sz (cfg_program_granule (fl_cfg flash)) else err)
        in case begin_op FFSV_OP_PROGRAM offset sz flash of
          (rec, inject, flash) \<Rightarrow>
            let finish = finish_op rec FFSV_OP_PROGRAM sz;
                phase = fi_phase (fl_failure flash);
                sampled = run_program_fault_sampler flash FFSV_OP_PROGRAM sq offset data
            in if err \<noteq> 0 then finish err 0 flash
               else if inject \<and> phase = FFSV_FAIL_BEFORE then finish (injected_status flash) 0 flash
               else if \<not> inject \<and> sampled \<noteq> 0 then finish sampled 0 flash
               else if inject \<and> phase = FFSV_FAIL_MIDDLE
               then finish (injected_status flash) (injected_program_partial flash offset sz)
                 (emu_program_injected_middle offset data flash)
               else finish (if inject then injected_status flash else FFSV_OK) sz
                 (emu_program_range offset data flash))"

definition ffsv_flash_erase :: "ffsv_flash \<Rightarrow> nat \<Rightarrow> nat \<Rightarrow> int \<times> ffsv_flash" where
  "ffsv_flash_erase flash offset sz =
     (let ss = cfg_sector_size (fl_cfg flash); sq = fl_next_sequence flash;
          err = check_range flash offset sz;
          err = (if err = 0 then check_alignment offset sz ss else err)
      in case begin_op FFSV_OP_ERASE offset sz flash of
        (rec, inject, flash) \<Rightarrow>
          let finish = finish_op rec FFSV_OP_ERASE sz;
              phase = fi_phase (fl_failure flash);
              sampled = run_erase_fault_sampler flash sq offset sz;
              commit = (if inject \<and> phase = FFSV_FAIL_MIDDLE then injected_partial flash sz ss else sz);
              result = (if inject \<and> phase \<noteq> FFSV_FAIL_BEFORE then injected_status flash else FFSV_OK)
          in if err \<noteq> 0 then finish err 0 flash
             else if inject \<and> phase = FFSV_FAIL_BEFORE then finish (injected_status flash) 0 flash
             else if \<not> inject \<and> sampled \<noteq> 0 then finish sampled 0 flash
             else if commit = sz
             then (case erase_blocks [offset div ss ..< (offset + sz) div ss] flash of
                 (err, flash) \<Rightarrow> if err \<noteq> 0 then finish (map_lfs_error err) 0 flash
                   else finish result commit flash)
             else if commit > 0 then finish result commit (raw_erase_prefix offset commit flash)
             else finish result commit flash)"

definition ffsv_flash_create :: "ffsv_flash_config \<Rightarrow> int + ffsv_flash" where
  "ffsv_flash_create cfg =
     (let err = checked_config cfg; count = cfg_total_size cfg div cfg_sector_size cfg;
          limit = (if cfg_max_log_entries cfg \<noteq> 0 then cfg_max_log_entries cfg else 4096) in
      if err \<noteq> 0 then Inl err
      else Inr \<lparr>fl_cfg = cfg\<lparr>cfg_max_log_entries := limit\<rparr>, fl_blocks = replicate count None,
        fl_next_sequence = 0, fl_time_ns = 0, fl_failure = no_failure,
        fl_counts = replicate 8 \<lparr>cnt_calls = 0, cnt_bytes = 0\<rparr>,
        fl_sector_counts = replicate count \<lparr>sc_read_calls = 0, sc_read_bytes = 0,
          sc_programmed_bytes = 0, sc_erased_bytes = 0, sc_blank_checked_bytes = 0\<rparr>,
        fl_sector_count = count, fl_log = [], fl_log_capacity = initial_log_capacity limit,
        fl_staged = no_staged, fl_sampler = no_sampler\<rparr>)"

definition ffsv_flash_set_failure :: "ffsv_failure_injection \<Rightarrow> ffsv_flash \<Rightarrow> ffsv_flash" where
  "ffsv_flash_set_failure failure flash = flash\<lparr>fl_failure := failure\<rparr>"

definition ffsv_flash_clear_failure :: "ffsv_flash \<Rightarrow> ffsv_flash" where
  "ffsv_flash_clear_failure flash = flash\<lparr>fl_failure := no_failure\<rparr>"

definition ffsv_flash_set_fault_sampler :: "ffsv_fault_sampler \<Rightarrow> ffsv_flash \<Rightarrow> ffsv_flash" where
  "ffsv_flash_set_fault_sampler sampler flash = flash\<lparr>fl_sampler := sampler\<rparr>"

definition ffsv_flash_clear_fault_sampler :: "ffsv_flash \<Rightarrow> ffsv_flash" where
  "ffsv_flash_clear_fault_sampler flash = flash\<lparr>fl_sampler := no_sampler\<rparr>"

definition fffs_host_backend_from_verify_flash :: "ffsv_flash \<Rightarrow> ffsv_flash fffs_backend" where
  "fffs_host_backend_from_verify_flash flash =
     \<lparr>be_ctx = flash, be_size = cfg_total_size (fl_cfg flash),
      be_program_granule = cfg_program_granule (fl_cfg flash),
      be_read = ffsv_flash_read, be_program = ffsv_flash_program, be_erase = ffsv_flash_erase\<rparr>"


section \<open>The memory an emulator holds\<close>

definition emu_ok :: "ffsv_flash \<Rightarrow> bool" where
  "emu_ok flash \<longleftrightarrow> checked_config (fl_cfg flash) = 0 \<and> cfg_erased_value (fl_cfg flash) = 0xff \<and>
     length (fl_blocks flash) = cfg_total_size (fl_cfg flash) div cfg_sector_size (fl_cfg flash) \<and>
     (\<forall>b. Some b \<in> set (fl_blocks flash) \<longrightarrow> length (blk_data b) = cfg_sector_size (fl_cfg flash))"

definition emu_mem :: "ffsv_flash \<Rightarrow> byte list" where
  "emu_mem flash = concat (map (\<lambda>i. blk_data (lfs_emubd_mutblock flash i)) [0..<length (fl_blocks flash)])"

lemma concat_uniform:
  assumes "\<And>xs. xs \<in> set xss \<Longrightarrow> length xs = k" "0 < k"
  shows "length (concat xss) = length xss * k"
    and "i < length xss * k \<Longrightarrow> concat xss ! i = xss ! (i div k) ! (i mod k)"
proof -
  from assms show len: "length (concat xss) = length xss * k"
    by (induction xss) auto
  show "concat xss ! i = xss ! (i div k) ! (i mod k)" if "i < length xss * k"
    using that assms
  proof (induction xss arbitrary: i)
    case (Cons xs xss)
    show ?case
    proof (cases "i < k")
      case True
      with Cons.prems show ?thesis by (simp add: nth_append)
    next
      case False
      with Cons.prems Cons.IH [of "i - k"] show ?thesis
        by (simp add: nth_append le_div_geq le_mod_geq)
    qed
  qed simp
qed

lemma emu_okD:
  assumes "emu_ok flash"
  shows "0 < cfg_sector_size (fl_cfg flash)" "0 < cfg_program_granule (fl_cfg flash)"
    "cfg_erased_value (fl_cfg flash) = 0xff"
    "length (fl_blocks flash) * cfg_sector_size (fl_cfg flash) = cfg_total_size (fl_cfg flash)"
    "i < length (fl_blocks flash) \<Longrightarrow>
      length (blk_data (lfs_emubd_mutblock flash i)) = cfg_sector_size (fl_cfg flash)"
  using assms
  by (auto simp: emu_ok_def checked_config_def lfs_emubd_mutblock_def in_set_conv_nth
      split: if_splits option.splits) (metis nth_mem)

lemma emu_mem_length: "emu_ok flash \<Longrightarrow> length (emu_mem flash) = cfg_total_size (fl_cfg flash)"
  unfolding emu_mem_def by (subst concat_uniform(1)) (auto simp: emu_okD)

lemma emu_mem_nth:
  assumes "emu_ok flash" "i < cfg_total_size (fl_cfg flash)"
  shows "emu_mem flash ! i =
    blk_data (lfs_emubd_mutblock flash (i div cfg_sector_size (fl_cfg flash))) ! (i mod cfg_sector_size (fl_cfg flash))"
proof -
  note f = emu_okD [OF assms(1)]
  have "i div cfg_sector_size (fl_cfg flash) < length (fl_blocks flash)"
    using assms(2) f(1) f(4) by (simp add: less_mult_imp_div_less)
  with assms f show ?thesis
    unfolding emu_mem_def by (subst concat_uniform(2)) auto
qed

text \<open>Replacing the contents of one block.\<close>

lemma set_block_simps [simp]:
  "fl_cfg (set_block blk b flash) = fl_cfg flash"
  "length (fl_blocks (set_block blk b flash)) = length (fl_blocks flash)"
  by (simp_all add: set_block_def)

lemma mutblock_set_block:
  "blk < length (fl_blocks flash) \<Longrightarrow>
     lfs_emubd_mutblock (set_block blk b flash) i = (if i = blk then b else lfs_emubd_mutblock flash i)"
  by (simp add: lfs_emubd_mutblock_def set_block_def nth_list_update split: option.split)

lemma emu_ok_set_block:
  "emu_ok flash \<Longrightarrow> length (blk_data b) = cfg_sector_size (fl_cfg flash) \<Longrightarrow>
     emu_ok (set_block blk b flash)"
  by (auto simp: emu_ok_def set_block_def dest!: set_update_subset_insert [THEN subsetD])

lemma set_block_mem:
  assumes ok: "emu_ok flash" and blk: "blk < length (fl_blocks flash)"
    and len: "length (blk_data b) = cfg_sector_size (fl_cfg flash)"
  shows "emu_mem (set_block blk b flash) =
    put_bytes (blk * cfg_sector_size (fl_cfg flash)) (blk_data b) (emu_mem flash)"
proof (rule nth_equalityI)
  let ?ss = "cfg_sector_size (fl_cfg flash)"
  note f = emu_okD [OF ok]
  have fit: "blk * ?ss + length (blk_data b) \<le> length (emu_mem flash)"
    using blk f(4) len mult_le_mono1 [of "Suc blk" "length (fl_blocks flash)" ?ss]
    by (simp add: emu_mem_length [OF ok])
  have ok': "emu_ok (set_block blk b flash)" by (rule emu_ok_set_block [OF ok len])
  show "length (emu_mem (set_block blk b flash)) = length (put_bytes (blk * ?ss) (blk_data b) (emu_mem flash))"
    using fit by (simp add: emu_mem_length [OF ok'] emu_mem_length [OF ok])
  fix i assume "i < length (emu_mem (set_block blk b flash))"
  then have i: "i < cfg_total_size (fl_cfg flash)" by (simp add: emu_mem_length [OF ok'])
  have "blk * ?ss \<le> i \<and> i < blk * ?ss + ?ss \<longleftrightarrow> i div ?ss = blk"
    using f(1) by (metis add.commute div_less_iff_less_mult div_nat_eqI dividend_less_div_times
        mult.commute mult_Suc times_div_less_eq_dividend)
  moreover have "i div ?ss = blk \<Longrightarrow> i - blk * ?ss = i mod ?ss"
    by (metis minus_div_mult_eq_mod)
  ultimately show "emu_mem (set_block blk b flash) ! i =
      put_bytes (blk * ?ss) (blk_data b) (emu_mem flash) ! i"
    using fit i len emu_mem_nth [OF ok i] emu_mem_nth [OF ok', of i]
    by (simp add: nth_put_bytes emu_mem_length [OF ok] mutblock_set_block [OF blk])
qed


section \<open>Loops over the sectors of a range\<close>

lemma piece_address:
  fixes ss offset sz count :: nat
  assumes "0 < ss" "offset + sz \<le> count * ss" "0 < sz"
  defines "n \<equiv> min (ss - offset mod ss) sz"
  shows "offset div ss * ss + offset mod ss = offset" "offset div ss < count" "0 < n" "n \<le> sz"
    "offset mod ss + n \<le> ss"
proof -
  show "offset div ss * ss + offset mod ss = offset" by simp
  have "offset < count * ss" using assms by linarith
  then show "offset div ss < count" by (simp add: less_mult_imp_div_less)
  show "0 < n" "n \<le> sz" "offset mod ss + n \<le> ss"
    using assms mod_less_divisor [OF assms(1), of offset] by (auto simp: n_def)
qed

lemma fold_pieces:
  assumes step: "\<And>flash blk off d n. emu_ok flash \<Longrightarrow> fl_cfg flash = cfg \<Longrightarrow> off + n \<le> cfg_sector_size cfg \<Longrightarrow>
      blk < length (fl_blocks flash) \<Longrightarrow> d + n \<le> len \<Longrightarrow>
      emu_ok (f (blk, off, d, n) flash) \<and> fl_cfg (f (blk, off, d, n) flash) = cfg \<and>
      R (blk * cfg_sector_size cfg + off) d n (emu_mem flash) (emu_mem (f (blk, off, d, n) flash))"
    and seq: "\<And>a d n k m m1 m2. R a d n m m1 \<Longrightarrow> R (a + n) (d + n) k m1 m2 \<Longrightarrow> length m1 = length m \<Longrightarrow>
      a + n + k \<le> length m \<Longrightarrow> d + n + k \<le> len \<Longrightarrow> R a d (n + k) m m2"
    and refl: "\<And>a d m. R a d 0 m m"
    and ok: "emu_ok flash" "fl_cfg flash = cfg" "offset + sz \<le> cfg_total_size cfg" "d + sz \<le> len"
  shows "let flash' = fold f (sector_pieces (cfg_sector_size cfg) offset d sz) flash in
    emu_ok flash' \<and> fl_cfg flash' = cfg \<and> R offset d sz (emu_mem flash) (emu_mem flash')"
  using ok
proof (induction "cfg_sector_size cfg" offset d sz arbitrary: flash rule: sector_pieces.induct)
  case (1 offset d sz)
  let ?ss = "cfg_sector_size cfg"
  note f = emu_okD [OF "1.prems"(1), unfolded "1.prems"(2)]
  show ?case
  proof (cases "sz = 0")
    case True
    with "1.prems" refl show ?thesis by (simp add: sector_pieces.simps)
  next
    case False
    define n where "n = min (?ss - offset mod ?ss) sz"
    define flash1 where "flash1 = f (offset div ?ss, offset mod ?ss, d, n) flash"
    note a = piece_address [OF f(1), of offset sz "length (fl_blocks flash)", folded n_def]
    have a': "offset div ?ss * ?ss + offset mod ?ss = offset" "offset div ?ss < length (fl_blocks flash)"
      "0 < n" "n \<le> sz" "offset mod ?ss + n \<le> ?ss"
      using a f(4) "1.prems"(3) False by auto
    have s1: "emu_ok flash1" "fl_cfg flash1 = cfg" "R offset d n (emu_mem flash) (emu_mem flash1)"
      using step [OF "1.prems"(1,2) a'(5) a'(2), of d] "1.prems"(4) a'(1,4)
      by (auto simp: flash1_def)
    have IH: "let flash' = fold f (sector_pieces ?ss (offset + n) (d + n) (sz - n)) flash1 in
      emu_ok flash' \<and> fl_cfg flash' = cfg \<and> R (offset + n) (d + n) (sz - n) (emu_mem flash1) (emu_mem flash')"
      using "1.hyps" [of n flash1] s1 False f(1) a'(4) "1.prems"(3,4) by (simp add: n_def)
    have "fold f (sector_pieces ?ss offset d sz) flash =
        fold f (sector_pieces ?ss (offset + n) (d + n) (sz - n)) flash1"
      using False f(1) by (subst sector_pieces.simps) (simp add: n_def flash1_def Let_def)
    with IH seq [OF s1(3), of "sz - n"] s1 a'(4) "1.prems" show ?thesis
      by (auto simp: Let_def emu_mem_length)
  qed
qed

lemma sub_bytes_take_drop:
  "d + n + k \<le> length data \<Longrightarrow> sub_bytes d (n + k) data = sub_bytes d n data @ sub_bytes (d + n) k data"
  by (rule sub_bytes_append)

lemma prog_piece:
  assumes ok: "emu_ok flash" and piece: "off + length data \<le> cfg_sector_size (fl_cfg flash)"
    "blk < length (fl_blocks flash)"
  shows "emu_ok (lfs_emubd_prog blk off data flash)"
    "fl_cfg (lfs_emubd_prog blk off data flash) = fl_cfg flash"
    "emu_mem (lfs_emubd_prog blk off data flash) =
      nor_program (blk * cfg_sector_size (fl_cfg flash) + off) data (emu_mem flash)"
proof -
  let ?ss = "cfg_sector_size (fl_cfg flash)" and ?b = "lfs_emubd_mutblock flash blk"
  note f = emu_okD [OF ok]
  note len = f(5) [OF piece(2)]
  have fit: "blk * ?ss + ?ss \<le> length (emu_mem flash)"
    using mult_le_mono1 [of "Suc blk" "length (fl_blocks flash)" ?ss] piece(2) f(4)
    by (simp add: emu_mem_length [OF ok])
  have blk: "blk_data ?b ! j = emu_mem flash ! (blk * ?ss + j)" if "j < ?ss" for j
    using that fit f(1) by (subst emu_mem_nth [OF ok]) (auto simp: emu_mem_length [OF ok])
  show "emu_ok (lfs_emubd_prog blk off data flash)"
    "fl_cfg (lfs_emubd_prog blk off data flash) = fl_cfg flash"
    using piece len by (simp_all add: lfs_emubd_prog_def Let_def emu_ok_set_block [OF ok])
  have "emu_mem (lfs_emubd_prog blk off data flash) =
      put_bytes (blk * ?ss) (nor_program off data (blk_data ?b)) (emu_mem flash)"
    using piece len by (simp add: lfs_emubd_prog_def Let_def set_block_mem [OF ok])
  also have "\<dots> = nor_program (blk * ?ss + off) data (emu_mem flash)"
    using piece fit len blk
    by (intro nth_equalityI) (auto simp: nth_put_bytes nth_nor_program)
  finally show "emu_mem (lfs_emubd_prog blk off data flash) = \<dots>" .
qed

lemma emu_program_range_mem:
  assumes ok: "emu_ok flash" "offset + length data \<le> cfg_total_size (fl_cfg flash)"
  shows "emu_ok (emu_program_range offset data flash)"
    "emu_mem (emu_program_range offset data flash) = nor_program offset data (emu_mem flash)"
    "fl_cfg (emu_program_range offset data flash) = fl_cfg flash"
proof -
  let ?R = "\<lambda>a d n m m'. a + n \<le> length m \<longrightarrow> m' = nor_program a (sub_bytes d n data) m"
  have "let flash' = emu_program_range offset data flash in
    emu_ok flash' \<and> fl_cfg flash' = fl_cfg flash \<and> ?R offset 0 (length data) (emu_mem flash) (emu_mem flash')"
    unfolding emu_program_range_def
  proof (rule fold_pieces [where len = "length data", OF _ _ _ ok(1) refl ok(2)], goal_cases)
    case (1 flash' blk off d n)
    then show ?case using prog_piece [OF 1(1), of off "sub_bytes d n data" blk] by simp
  next
    case (2 a d n k m m1 m2)
    then show ?case
      using nor_program_append [of a "sub_bytes d n data" "sub_bytes (d + n) k data" m]
      by (simp add: sub_bytes_append)
  qed (simp_all add: sub_bytes_def)
  with ok emu_mem_length [OF ok(1)] show
    "emu_ok (emu_program_range offset data flash)"
    "emu_mem (emu_program_range offset data flash) = nor_program offset data (emu_mem flash)"
    "fl_cfg (emu_program_range offset data flash) = fl_cfg flash"
    by (auto simp: Let_def)
qed


text \<open>Random clearing never clears a bit the program would have kept.\<close>

definition covers :: "byte list \<Rightarrow> byte list \<Rightarrow> byte list \<Rightarrow> bool" where
  "covers old data prog \<longleftrightarrow> length prog = length data \<and>
     (\<forall>k < length data. (old ! k AND data ! k) AND prog ! k = old ! k AND data ! k)"

lemma keep_bits:
  fixes old data prog msk :: byte
  assumes "(old AND data) AND prog = old AND data"
  shows "(old AND data) AND ((old AND prog OR msk) OR NOT old) = old AND data"
proof (rule bit_word_eqI)
  fix n
  from assms have "bit ((old AND data) AND prog) n = bit (old AND data) n" by simp
  then show "bit ((old AND data) AND ((old AND prog OR msk) OR NOT old)) n = bit (old AND data) n"
    by (auto simp: bit_simps)
qed

lemma covers_update:
  assumes "covers old data prog"
  shows "covers old data (prog[b := (old ! b AND prog ! b OR msk) OR NOT (old ! b)])"
  unfolding covers_def
proof (intro conjI allI impI)
  show "length (prog[b := (old ! b AND prog ! b OR msk) OR NOT (old ! b)]) = length data"
    using assms by (simp add: covers_def)
  fix k assume k: "k < length data"
  with assms have *: "(old ! k AND data ! k) AND prog ! k = old ! k AND data ! k" "k < length prog"
    by (auto simp: covers_def)
  show "(old ! k AND data ! k) AND prog[b := (old ! b AND prog ! b OR msk) OR NOT (old ! b)] ! k =
      old ! k AND data ! k"
  proof (cases "b = k")
    case True
    with * keep_bits [OF *(1)] show ?thesis by simp
  qed (use * in simp)
qed

lemma random_clear_covers:
  "covers old data prog \<Longrightarrow> covers old data (random_clear_loop old i left rng cands prog)"
proof (induction old i left rng cands prog rule: random_clear_loop.induct)
  case (2 old i left rng cands prog)
  from "2.IH" covers_update [OF "2.prems"] "2.prems" show ?case
    by (simp add: Let_def)
qed simp

lemma torn_byte_covers:
  assumes "(old AND new) AND prog = old AND new"
  shows "torn_byte old new (old AND prog)"
  unfolding torn_byte_def
proof
  show "(old AND prog) AND old = old AND prog" by (simp add: and.commute)
  have "(old AND new) AND (old AND prog) = (old AND new) AND prog"
    by (rule bit_word_eqI) (auto simp: bit_simps)
  with assms show "(old AND new) AND (old AND prog) = old AND new" by simp
qed

lemma covers_torn:
  assumes "covers (sub_bytes a (length data) m) data prog" "a + length data \<le> length m"
  shows "torn_program a data m (nor_program a prog m)"
  unfolding torn_program_def
proof (intro conjI allI impI)
  from assms(1) have len: "length prog = length data" by (simp add: covers_def)
  with assms(2) show "length (nor_program a prog m) = length m" by simp
  fix i assume i: "i < length m"
  show "if a \<le> i \<and> i < a + length data
    then torn_byte (m ! i) (data ! (i - a)) (nor_program a prog m ! i)
    else nor_program a prog m ! i = m ! i"
  proof (cases "a \<le> i \<and> i < a + length data")
    case True
    then have "i - a < length data" "a + (i - a) = i" by auto
    with assms have "(m ! i AND data ! (i - a)) AND prog ! (i - a) = m ! i AND data ! (i - a)"
      by (auto simp: covers_def dest!: spec [where x = "i - a"])
    with True assms(2) i len torn_byte_covers show ?thesis by (simp add: nth_nor_program)
  next
    case False
    with assms(2) i len show ?thesis by (auto simp: nth_nor_program)
  qed
qed


lemma torn_program_seq:
  assumes t1: "torn_program a xs m m1" and t2: "torn_program (a + length xs) ys m1 m2"
  shows "torn_program a (xs @ ys) m m2"
  unfolding torn_program_def
proof (intro conjI allI impI)
  from t1 t2 have len: "length m1 = length m" "length m2 = length m1"
    by (simp_all add: torn_program_length)
  then show "length m2 = length m" by simp
  fix i assume i: "i < length m"
  from t1 i have 1: "if a \<le> i \<and> i < a + length xs then torn_byte (m ! i) (xs ! (i - a)) (m1 ! i)
      else m1 ! i = m ! i" by (simp add: torn_program_def)
  from t2 i len have 2: "if a + length xs \<le> i \<and> i < a + length xs + length ys
      then torn_byte (m1 ! i) (ys ! (i - (a + length xs))) (m2 ! i) else m2 ! i = m1 ! i"
    by (simp add: torn_program_def)
  consider "i < a" | "a \<le> i" "i < a + length xs" | "a + length xs \<le> i" by linarith
  then show "if a \<le> i \<and> i < a + length (xs @ ys)
      then torn_byte (m ! i) ((xs @ ys) ! (i - a)) (m2 ! i) else m2 ! i = m ! i"
    using 1 2 by cases (auto simp: nth_append)
qed

lemma read_piece:
  assumes ok: "emu_ok flash" and piece: "off + n \<le> cfg_sector_size (fl_cfg flash)"
    "blk < length (fl_blocks flash)"
  shows "lfs_emubd_read flash blk off n =
      sub_bytes (blk * cfg_sector_size (fl_cfg flash) + off) n (emu_mem flash)"
    and "blk * cfg_sector_size (fl_cfg flash) + off + n \<le> length (emu_mem flash)"
proof -
  let ?ss = "cfg_sector_size (fl_cfg flash)"
  note f = emu_okD [OF ok]
  have "blk * ?ss + ?ss \<le> length (emu_mem flash)"
    using mult_le_mono1 [of "Suc blk" "length (fl_blocks flash)" ?ss] piece(2) f(4)
    by (simp add: emu_mem_length [OF ok])
  with piece show fit: "blk * ?ss + off + n \<le> length (emu_mem flash)" by linarith
  with piece f(5) [OF piece(2)] show "lfs_emubd_read flash blk off n =
      sub_bytes (blk * ?ss + off) n (emu_mem flash)"
    unfolding lfs_emubd_read_def
    by (intro nth_equalityI) (auto simp: emu_mem_nth [OF ok] emu_mem_length [OF ok] add.assoc)
qed

lemma random_clear_mem:
  assumes ok: "emu_ok flash" "offset + length data \<le> cfg_total_size (fl_cfg flash)"
  shows "emu_ok (emu_program_random_clear offset data flash)"
    "torn_program offset data (emu_mem flash) (emu_mem (emu_program_random_clear offset data flash))"
    "fl_cfg (emu_program_random_clear offset data flash) = fl_cfg flash"
proof -
  let ?R = "\<lambda>a d n m m'. a + n \<le> length m \<longrightarrow> torn_program a (sub_bytes d n data) m m'"
  have "let flash' = emu_program_random_clear offset data flash in
    emu_ok flash' \<and> fl_cfg flash' = fl_cfg flash \<and> ?R offset 0 (length data) (emu_mem flash) (emu_mem flash')"
    unfolding emu_program_random_clear_def Let_def [of "failure_seed flash offset (length data)"]
  proof (rule fold_pieces [where len = "length data", OF _ _ _ ok(1) refl ok(2)], goal_cases)
    case (1 flash' blk off d n)
    let ?d = "sub_bytes d n data"
    have n: "length ?d = n" using 1(5) by simp
    let ?old = "lfs_emubd_read flash' blk off n"
    have cov: "covers ?old ?d (random_clear_loop ?old 0 k seed cands ?d)" for k seed cands
      by (rule random_clear_covers) (auto simp: covers_def and.assoc)
    then have l: "length (random_clear_loop ?old 0 k seed cands ?d) = n" for k seed cands
      using n by (simp add: covers_def)
    note rp = read_piece [OF 1(1), unfolded 1(2), OF 1(3,4)]
    show ?case
      using prog_piece [OF 1(1), unfolded 1(2), of off _ blk] covers_torn [of _ ?d] cov rp 1(3,4) n l
      by (auto simp: lfs_emubd_prog_random_clear_def Let_def)
  next
    case (2 a d n k m m1 m2)
    then show ?case
      using torn_program_seq [of a "sub_bytes d n data" m m1 "sub_bytes (d + n) k data" m2]
      by (simp add: sub_bytes_append)
  qed (simp_all add: sub_bytes_def)
  with ok emu_mem_length [OF ok(1)] show "emu_ok (emu_program_random_clear offset data flash)"
    "torn_program offset data (emu_mem flash) (emu_mem (emu_program_random_clear offset data flash))"
    "fl_cfg (emu_program_random_clear offset data flash) = fl_cfg flash"
    by (auto simp: Let_def)
qed

lemma put_bytes_nested:
  assumes "base + k \<le> length m" "off + length xs \<le> k"
  shows "put_bytes base (put_bytes off xs (sub_bytes base k m)) m = put_bytes (base + off) xs m"
proof (rule nth_equalityI)
  show "length (put_bytes base (put_bytes off xs (sub_bytes base k m)) m) =
      length (put_bytes (base + off) xs m)"
    using assms by simp
  fix i assume "i < length (put_bytes base (put_bytes off xs (sub_bytes base k m)) m)"
  then have i: "i < length m" using assms by simp
  consider "i < base" | j where "i = base + j" "j < k" | "base + k \<le> i"
    by (metis add_less_cancel_left le_add_diff_inverse not_less)
  then show "put_bytes base (put_bytes off xs (sub_bytes base k m)) m ! i =
      put_bytes (base + off) xs m ! i"
    using i assms by cases (auto simp: nth_put_bytes)
qed

lemma raw_erase_prefix_mem:
  assumes ok: "emu_ok flash" "offset + sz \<le> cfg_total_size (fl_cfg flash)"
  shows "emu_ok (raw_erase_prefix offset sz flash)"
    "emu_mem (raw_erase_prefix offset sz flash) = nor_erase offset sz (emu_mem flash)"
    "fl_cfg (raw_erase_prefix offset sz flash) = fl_cfg flash"
proof -
  let ?R = "\<lambda>a d n m m'. a + n \<le> length m \<longrightarrow> m' = nor_erase a n m"
  have "let flash' = raw_erase_prefix offset sz flash in
    emu_ok flash' \<and> fl_cfg flash' = fl_cfg flash \<and> ?R offset 0 sz (emu_mem flash) (emu_mem flash')"
    unfolding raw_erase_prefix_def
  proof (rule fold_pieces [where len = sz, OF _ _ _ ok(1) refl ok(2)], goal_cases)
    case (1 flash' blk off d n)
    note f = emu_okD [OF 1(1), unfolded 1(2)]
    let ?ss = "cfg_sector_size (fl_cfg flash)" and ?d = "blk_data (lfs_emubd_mutblock flash' blk)"
    have data: "?d = sub_bytes (blk * ?ss) ?ss (emu_mem flash')"
      using read_piece(1) [OF 1(1), unfolded 1(2), of 0 ?ss blk] 1(4) f(5) by (simp add: lfs_emubd_read_def)
    have fit: "blk * ?ss + ?ss \<le> length (emu_mem flash')"
      using read_piece(2) [OF 1(1), unfolded 1(2), of 0 ?ss blk] 1(4) by simp
    show ?case
      using 1 f(3) f(5) fit put_bytes_nested [OF fit, of off "replicate n 0xff"]
      by (simp add: Let_def emu_ok_set_block set_block_mem nor_erase_def data)
  next
    case (2 a d n k m m1 m2)
    then show ?case by (auto simp: nth_nor_erase intro!: nth_equalityI)
  qed (simp_all add: nor_erase_def put_bytes_def)
  with ok emu_mem_length [OF ok(1)] show "emu_ok (raw_erase_prefix offset sz flash)"
    "emu_mem (raw_erase_prefix offset sz flash) = nor_erase offset sz (emu_mem flash)"
    "fl_cfg (raw_erase_prefix offset sz flash) = fl_cfg flash"
    by (auto simp: Let_def)
qed


lemma erase_piece:
  assumes ok: "emu_ok flash" and blk: "blk < length (fl_blocks flash)"
    and er: "lfs_emubd_erase blk flash = (err, flash')"
  shows "emu_ok flash' \<and> fl_cfg flash' = fl_cfg flash \<and> emu_mem flash' =
    (if err = 0 then nor_erase (blk * cfg_sector_size (fl_cfg flash)) (cfg_sector_size (fl_cfg flash))
       (emu_mem flash) else emu_mem flash)"
proof -
  let ?ss = "cfg_sector_size (fl_cfg flash)" and ?b = "lfs_emubd_mutblock flash blk"
  note f = emu_okD [OF ok]
  have data: "blk_data ?b = sub_bytes (blk * ?ss) ?ss (emu_mem flash)"
    using read_piece(1) [OF ok, of 0 ?ss blk] blk f(5) by (simp add: lfs_emubd_read_def)
  have fit: "blk * ?ss + ?ss \<le> length (emu_mem flash)"
    using read_piece(2) [OF ok, of 0 ?ss blk] blk by simp
  have same: "put_bytes (blk * ?ss) (blk_data ?b) (emu_mem flash) = emu_mem flash"
    using put_bytes_nested [OF fit, of 0 "[]"] by (simp add: data put_bytes_def)
  show ?thesis
    using er same blk f(3) f(5)
    by (auto simp: lfs_emubd_erase_def Let_def emu_ok_set_block [OF ok] set_block_mem [OF ok blk]
        nor_erase_def split: if_splits)
qed

lemma torn_erase_done: "off + n \<le> length mem \<Longrightarrow> torn_erase off n mem (nor_erase off n mem)"
  by (auto simp: torn_erase_def nth_nor_erase)

lemma torn_erase_self [simp]: "torn_erase off n mem mem"
  by (simp add: torn_erase_def)

lemma torn_erase_seq:
  assumes "torn_erase a n m m1" "torn_erase (a + n) k m1 m2"
  shows "torn_erase a (n + k) m m2"
proof -
  from assms have "length m1 = length m" by (simp add: torn_erase_def)
  with assms show ?thesis by (auto simp: torn_erase_def)
qed

lemma nor_erase_append:
  "a + n + k \<le> length m \<Longrightarrow> nor_erase (a + n) k (nor_erase a n m) = nor_erase a (n + k) m"
  by (intro nth_equalityI) (auto simp: nth_nor_erase)

lemma erase_blocks_mem:
  assumes "emu_ok flash" "blk + n \<le> length (fl_blocks flash)"
    and "erase_blocks [blk ..< blk + n] flash = (err, flash')"
  defines "ss \<equiv> cfg_sector_size (fl_cfg flash)"
  shows "emu_ok flash' \<and> fl_cfg flash' = fl_cfg flash \<and>
    torn_erase (blk * ss) (n * ss) (emu_mem flash) (emu_mem flash') \<and>
    (err = 0 \<longrightarrow> emu_mem flash' = nor_erase (blk * ss) (n * ss) (emu_mem flash))"
  using assms(1-3) unfolding ss_def
proof (induction n arbitrary: blk flash)
  case 0
  then show ?case by (simp add: nor_erase_def put_bytes_def)
next
  case (Suc n)
  let ?ss = "cfg_sector_size (fl_cfg flash)"
  obtain e flash1 where e: "lfs_emubd_erase blk flash = (e, flash1)" by fastforce
  have blk: "blk < length (fl_blocks flash)" using Suc.prems by simp
  note p = erase_piece [OF Suc.prems(1) blk e]
  have "blk * ?ss + Suc n * ?ss \<le> length (emu_mem flash)"
    using emu_okD(4) [OF Suc.prems(1)] mult_le_mono1 [OF Suc.prems(2), of ?ss]
    by (simp add: emu_mem_length [OF Suc.prems(1)] add_mult_distrib)
  then have fit: "blk * ?ss + ?ss + n * ?ss \<le> length (emu_mem flash)" by simp
  have blocks: "length (fl_blocks flash1) = length (fl_blocks flash)"
    using e by (auto simp: lfs_emubd_erase_def Let_def split: if_splits)
  have upt: "[blk ..< blk + Suc n] = blk # [Suc blk ..< Suc blk + n]" by (simp add: upt_rec)
  show ?case
  proof (cases "e = 0")
    case False
    with Suc.prems(3) p show ?thesis unfolding upt by (auto simp: e)
  next
    case True
    with Suc.prems(3) have "erase_blocks [Suc blk ..< Suc blk + n] flash1 = (err, flash')"
      unfolding upt by (simp add: e)
    with Suc.IH [of flash1 "Suc blk"] p Suc.prems(2) blocks have IH: "emu_ok flash'" "fl_cfg flash' = fl_cfg flash"
      "torn_erase (blk * ?ss + ?ss) (n * ?ss) (emu_mem flash1) (emu_mem flash')"
      "err = 0 \<longrightarrow> emu_mem flash' = nor_erase (blk * ?ss + ?ss) (n * ?ss) (emu_mem flash1)"
      by (auto simp: add.commute)
    with True p fit torn_erase_seq [OF _ IH(3), of "emu_mem flash"] torn_erase_done [of "blk * ?ss" ?ss "emu_mem flash"]
      nor_erase_append [OF fit] show ?thesis by (auto simp: add.commute)
  qed
qed

lemma read_pieces_mem:
  assumes "emu_ok flash" "offset + sz \<le> cfg_total_size (fl_cfg flash)"
  shows "concat (map (\<lambda>(block, off, d, n). lfs_emubd_read flash block off n)
      (sector_pieces (cfg_sector_size (fl_cfg flash)) offset d sz)) = sub_bytes offset sz (emu_mem flash)"
  using assms
proof (induction "cfg_sector_size (fl_cfg flash)" offset d sz rule: sector_pieces.induct)
  case (1 offset d sz)
  let ?ss = "cfg_sector_size (fl_cfg flash)"
  note f = emu_okD [OF "1.prems"(1)]
  show ?case
  proof (cases "sz = 0")
    case True
    then show ?thesis by (simp add: sector_pieces.simps sub_bytes_def)
  next
    case False
    define n where "n = min (?ss - offset mod ?ss) sz"
    have a: "offset div ?ss * ?ss + offset mod ?ss = offset" "offset div ?ss < length (fl_blocks flash)"
      "0 < n" "n \<le> sz" "offset mod ?ss + n \<le> ?ss"
      using piece_address [OF f(1), of offset sz "length (fl_blocks flash)", folded n_def]
        f(4) "1.prems"(2) False by auto
    have "sector_pieces ?ss offset d sz = (offset div ?ss, offset mod ?ss, d, n) #
        sector_pieces ?ss (offset + n) (d + n) (sz - n)"
      using False f(1) by (subst sector_pieces.simps) (simp add: n_def Let_def)
    with "1.hyps" [of n] False f(1) a "1.prems" read_piece(1) [OF "1.prems"(1) a(5,2)]
      sub_bytes_append [of offset n "sz - n" "emu_mem flash"] show ?thesis
      by (simp add: n_def)
  qed
qed


section \<open>The emulator is a flash device\<close>

text \<open>Bookkeeping touches neither the configuration, the blocks nor the injected failure.\<close>

definition same_flash :: "ffsv_flash \<Rightarrow> ffsv_flash \<Rightarrow> bool" where
  "same_flash f g \<longleftrightarrow> fl_cfg f = fl_cfg g \<and> fl_blocks f = fl_blocks g \<and> fl_failure f = fl_failure g"

lemma same_flash_ok: "same_flash f g \<Longrightarrow> emu_ok f = emu_ok g"
  by (simp add: same_flash_def emu_ok_def)

lemma same_flash_mem: "same_flash f g \<Longrightarrow> emu_mem f = emu_mem g"
  by (simp add: same_flash_def emu_mem_def lfs_emubd_mutblock_def cong: option.case_cong)

lemma begin_op_same: "begin_op type offset sz f = (rec, inject, g) \<Longrightarrow> same_flash g f"
  by (auto simp: begin_op_def Let_def same_flash_def add_sector_counts_def split: if_splits)

lemma finish_op_same: "finish_op rec type sz result n f = (st, g) \<Longrightarrow> st = result \<and> same_flash g f"
  by (auto simp: finish_op_def Let_def same_flash_def split: option.splits)

lemma injected_status_nonzero [simp]: "injected_status f \<noteq> 0"
  by (simp add: injected_status_def)

lemma check_range_iff: "check_range f off n = 0 \<longleftrightarrow> off + n \<le> cfg_total_size (fl_cfg f)"
  by (auto simp: check_range_def)

lemma torn_program_prefix:
  "torn_program off (take n data) m m' \<Longrightarrow> n \<le> length data \<Longrightarrow> torn_program off data m m'"
  using torn_program_pad [of off 0 n data 0 m m'] by simp

lemma injected_partial_le: "injected_partial f sz g \<le> sz"
  by (simp add: injected_partial_def Let_def)

lemma injected_program_partial_le: "injected_program_partial f off sz \<le> sz"
  using injected_partial_le [of f sz "cfg_program_granule (fl_cfg f)"]
  by (auto simp: injected_program_partial_def Let_def intro: le_trans [OF diff_le_self])

lemma injected_middle_mem:
  assumes ok: "emu_ok f" "off + length data \<le> cfg_total_size (fl_cfg f)"
  shows "emu_ok (emu_program_injected_middle off data f) \<and>
    torn_program off data (emu_mem f) (emu_mem (emu_program_injected_middle off data f)) \<and>
    fl_cfg (emu_program_injected_middle off data f) = fl_cfg f"
proof -
  let ?n = "injected_program_partial f off (length data)"
  note le = injected_program_partial_le [of f off "length data"]
  have fit: "off + length (take ?n data) \<le> cfg_total_size (fl_cfg f)" using ok(2) le by simp
  have "torn_program off (take ?n data) (emu_mem f) (nor_program off (take ?n data) (emu_mem f))"
    using fit by (intro torn_program_done) (simp add: emu_mem_length [OF ok(1)])
  with random_clear_mem [OF ok(1) fit] emu_program_range_mem [OF ok(1) fit] le
  show ?thesis
    using ok(1) by (auto simp: emu_program_injected_middle_def Let_def intro: torn_program_prefix)
qed

lemma emu_read_spec:
  assumes ok: "emu_ok f" and rd: "ffsv_flash_read f off n = (st, data, g)"
  shows "emu_ok g \<and> fl_cfg g = fl_cfg f \<and> emu_mem g = emu_mem f \<and>
    (st = 0 \<longrightarrow> off + n \<le> length (emu_mem f) \<and> data = sub_bytes off n (emu_mem f))"
proof -
  let ?ss = "cfg_sector_size (fl_cfg f)"
  obtain rec inject f1 where b: "begin_op FFSV_OP_READ off n f = (rec, inject, f1)" by (metis prod_cases3)
  note s1 = begin_op_same [OF b]
  have ok1: "emu_ok f1" and mem1: "emu_mem f1 = emu_mem f" and cfg: "fl_cfg f1 = fl_cfg f"
    using ok same_flash_ok [OF s1] same_flash_mem [OF s1] s1 by (simp_all add: same_flash_def)
  have "\<exists>result. finish_op rec FFSV_OP_READ n result 0 f1 = (st, g) \<and>
    (result = 0 \<longrightarrow> check_range f off n = 0 \<and>
      data = concat (map (\<lambda>(block, off, d, n). lfs_emubd_read f1 block off n)
        (sector_pieces ?ss off 0 n)))"
    using rd b unfolding ffsv_flash_read_def by (auto simp: Let_def cfg split: if_splits prod.splits)
  then have "same_flash g f1" "st = 0 \<longrightarrow> check_range f off n = 0 \<and>
      data = concat (map (\<lambda>(block, off, d, n). lfs_emubd_read f1 block off n)
        (sector_pieces ?ss off 0 n))"
    using finish_op_same [of rec FFSV_OP_READ n _ 0 f1] by auto
  with read_pieces_mem [OF ok1, of off n 0] same_flash_ok [of g f1] same_flash_mem [of g f1] ok1
  show ?thesis by (auto simp: check_range_iff cfg mem1 emu_mem_length [OF ok] same_flash_def)
qed

lemma emu_program_spec:
  assumes ok: "emu_ok f" and pg: "ffsv_flash_program f off data = (st, g)"
  shows "emu_ok g \<and> fl_cfg g = fl_cfg f \<and> length (emu_mem g) = length (emu_mem f) \<and>
    torn_program off data (emu_mem f) (emu_mem g) \<and>
    (st = 0 \<longrightarrow> off + length data \<le> length (emu_mem f) \<and> emu_mem g = nor_program off data (emu_mem f))"
proof (cases "fl_staged_active f")
  case True
  with pg ok show ?thesis by (simp add: ffsv_flash_program_def)
next
  case False
  obtain rec inject f1 where b: "begin_op FFSV_OP_PROGRAM off (length data) f = (rec, inject, f1)"
    by (metis prod_cases3)
  note s1 = begin_op_same [OF b]
  have ok1: "emu_ok f1" and mem1: "emu_mem f1 = emu_mem f" and cfg: "fl_cfg f1 = fl_cfg f"
    using ok same_flash_ok [OF s1] same_flash_mem [OF s1] s1 by (simp_all add: same_flash_def)
  show ?thesis
  proof (cases "off + length data \<le> cfg_total_size (fl_cfg f)")
    case out: False
    then have "check_range f off (length data) \<noteq> 0" by (simp add: check_range_iff)
    with pg False b have "\<exists>result. finish_op rec FFSV_OP_PROGRAM (length data) result 0 f1 = (st, g) \<and> result \<noteq> 0"
      by (auto simp: ffsv_flash_program_def Let_def split: if_splits)
    then have "st \<noteq> 0" "same_flash g f1" by (auto dest: finish_op_same)
    with same_flash_ok [of g f1] same_flash_mem [of g f1] ok1 mem1 cfg show ?thesis
      by (auto simp: same_flash_def)
  next
    case fit: True
    note mid = injected_middle_mem [OF ok1, of off data, unfolded cfg, OF fit]
    note range = emu_program_range_mem [OF ok1, of off data, unfolded cfg, OF fit]
    have fit': "off + length data \<le> length (emu_mem f)" using fit by (simp add: emu_mem_length [OF ok])
    have "\<exists>result n f2. finish_op rec FFSV_OP_PROGRAM (length data) result n f2 = (st, g) \<and>
      (f2 = f1 \<and> result \<noteq> 0 \<or> f2 = emu_program_injected_middle off data f1 \<and> result \<noteq> 0 \<or>
       f2 = emu_program_range off data f1)"
      using pg False b unfolding ffsv_flash_program_def
      by (auto simp: Let_def split: if_splits) (metis injected_status_nonzero)+
    then obtain f2 where f2: "same_flash g f2" "st = 0 \<Longrightarrow> f2 = emu_program_range off data f1"
      "f2 = f1 \<or> f2 = emu_program_injected_middle off data f1 \<or> f2 = emu_program_range off data f1"
      using finish_op_same [of rec FFSV_OP_PROGRAM "length data"] by blast
    from f2(3) have "emu_ok f2 \<and> fl_cfg f2 = fl_cfg f \<and> torn_program off data (emu_mem f) (emu_mem f2)"
      using mid range ok1 mem1 cfg torn_program_done [OF fit'] by auto
    with f2(1,2) range(2) fit' mem1 same_flash_ok [OF f2(1)] same_flash_mem [OF f2(1)] show ?thesis
      by (auto simp: same_flash_def dest: torn_program_length)
  qed
qed


lemma emu_erase_spec:
  assumes ok: "emu_ok f" and er: "ffsv_flash_erase f off n = (st, g)"
  shows "emu_ok g \<and> fl_cfg g = fl_cfg f \<and> length (emu_mem g) = length (emu_mem f) \<and> torn_erase off n (emu_mem f) (emu_mem g) \<and>
    (st = 0 \<longrightarrow> off + n \<le> length (emu_mem f) \<and> emu_mem g = nor_erase off n (emu_mem f))"
proof -
  let ?ss = "cfg_sector_size (fl_cfg f)"
  obtain rec inject f1 where b: "begin_op FFSV_OP_ERASE off n f = (rec, inject, f1)"
    by (metis prod_cases3)
  note s1 = begin_op_same [OF b]
  have ok1: "emu_ok f1" and mem1: "emu_mem f1 = emu_mem f" and cfg: "fl_cfg f1 = fl_cfg f"
    and blocks: "fl_blocks f1 = fl_blocks f"
    using ok same_flash_ok [OF s1] same_flash_mem [OF s1] s1 by (simp_all add: same_flash_def)
  show ?thesis
  proof (cases "off + n \<le> cfg_total_size (fl_cfg f) \<and> off mod ?ss = 0 \<and> n mod ?ss = 0")
    case False
    then have "(if check_range f off n = 0 then check_alignment off n ?ss else check_range f off n) \<noteq> 0"
      by (auto simp: check_range_iff check_alignment_def)
    with er b have "\<exists>result. finish_op rec FFSV_OP_ERASE n result 0 f1 = (st, g) \<and> result \<noteq> 0"
      by (auto simp: ffsv_flash_erase_def Let_def split: if_splits)
    then have "st \<noteq> 0" "same_flash g f1" by (auto dest: finish_op_same)
    with same_flash_ok [of g f1] same_flash_mem [of g f1] ok1 mem1 cfg show ?thesis
      by (auto simp: same_flash_def)
  next
    case fit: True
    then obtain a k where ak: "off = a * ?ss" "n = k * ?ss" by (metis mod_0_imp_dvd dvd_def mult.commute)
    have ss: "0 < ?ss" using emu_okD(1) [OF ok] .
    have range: "a + k \<le> length (fl_blocks f1)"
      using fit ak emu_okD(4) [OF ok] ss unfolding blocks
      by (metis add_mult_distrib mult_le_cancel2)
    obtain e f2 where e: "erase_blocks [off div ?ss ..< (off + n) div ?ss] f1 = (e, f2)" by fastforce
    with ak ss have "erase_blocks [a ..< a + k] f1 = (e, f2)"
      by (simp add: add_mult_distrib [symmetric])
    note eb = erase_blocks_mem [OF ok1 range this, unfolded cfg, folded ak]
    have pre: "emu_ok (raw_erase_prefix off c f1)"
      "emu_mem (raw_erase_prefix off c f1) = nor_erase off c (emu_mem f)"
      "fl_cfg (raw_erase_prefix off c f1) = fl_cfg f" if "c \<le> n" for c
      using raw_erase_prefix_mem [OF ok1, of off c] fit that cfg mem1 by auto
    have fit': "off + n \<le> length (emu_mem f)" using fit by (simp add: emu_mem_length [OF ok])
    have "\<exists>result c f3. finish_op rec FFSV_OP_ERASE n result c f3 = (st, g) \<and>
      (f3 = f1 \<and> result \<noteq> 0 \<or> f3 = f2 \<and> (result = 0 \<longrightarrow> e = 0) \<or>
       (\<exists>c \<le> n. f3 = raw_erase_prefix off c f1 \<and> result \<noteq> 0))"
      using er b unfolding ffsv_flash_erase_def
      by (auto simp: Let_def e cfg map_lfs_error_def split: if_splits)
        (metis injected_status_nonzero injected_partial_le neg_equal_0_iff_equal zero_neq_numeral)+
    then obtain result c f3 where fin: "finish_op rec FFSV_OP_ERASE n result c f3 = (st, g)"
      and f3': "f3 = f1 \<and> result \<noteq> 0 \<or> f3 = f2 \<and> (result = 0 \<longrightarrow> e = 0) \<or>
        (\<exists>c \<le> n. f3 = raw_erase_prefix off c f1 \<and> result \<noteq> 0)" by blast
    from finish_op_same [OF fin] f3' have f3: "same_flash g f3"
      "f3 = f1 \<and> st \<noteq> 0 \<or> f3 = f2 \<and> (st = 0 \<longrightarrow> e = 0) \<or> (\<exists>c \<le> n. f3 = raw_erase_prefix off c f1 \<and> st \<noteq> 0)"
      by simp_all
    have "torn_erase off n (emu_mem f) (nor_erase off c (emu_mem f))" if "c \<le> n" for c
      using that fit' by (auto simp: torn_erase_def nth_nor_erase)
    with f3(2) eb pre ok1 mem1 cfg fit'
    have "emu_ok f3 \<and> fl_cfg f3 = fl_cfg f \<and> torn_erase off n (emu_mem f) (emu_mem f3) \<and>
      (st = 0 \<longrightarrow> emu_mem f3 = nor_erase off n (emu_mem f))" by auto
    with f3(1) same_flash_ok [OF f3(1)] same_flash_mem [OF f3(1)] fit' show ?thesis
      by (auto simp: torn_erase_def same_flash_def)
  qed
qed

interpretation emu: flash_device ffsv_flash_read ffsv_flash_program ffsv_flash_erase emu_mem emu_ok
  by unfold_locales (use emu_read_spec emu_program_spec emu_erase_spec in blast)+


section \<open>An emulator without injected failures is reliable\<close>

definition emu_good :: "ffsv_flash \<Rightarrow> bool" where
  "emu_good f \<longleftrightarrow> emu_ok f \<and> \<not> fi_enabled (fl_failure f) \<and> \<not> fl_staged_active f \<and>
     \<not> sp_enabled (fl_sampler f) \<and> cfg_erase_cycles (fl_cfg f) = 0"

lemma sampler_off [simp]:
  "\<not> sp_enabled (fl_sampler f) \<Longrightarrow> run_program_fault_sampler f type sq off data = 0"
  "\<not> sp_enabled (fl_sampler f) \<Longrightarrow> run_erase_fault_sampler f sq off n = 0"
  by (simp_all add: run_program_fault_sampler_def run_erase_fault_sampler_def sampler_matches_def)

lemma begin_op_fields:
  "begin_op type offset sz f = (rec, inject, g) \<Longrightarrow> fl_staged_active g = fl_staged_active f \<and>
     fl_sampler g = fl_sampler f \<and> inject = op_matches f type (fl_next_sequence f)"
  by (auto simp: begin_op_def Let_def add_sector_counts_def split: if_splits)

lemma finish_op_fields:
  "finish_op rec type sz result n f = (st, g) \<Longrightarrow> fl_staged_active g = fl_staged_active f \<and>
     fl_sampler g = fl_sampler f"
  by (auto simp: finish_op_def Let_def split: option.splits)

lemma set_block_fields [simp]:
  "fl_failure (set_block blk b f) = fl_failure f"
  "fl_staged_active (set_block blk b f) = fl_staged_active f"
  "fl_sampler (set_block blk b f) = fl_sampler f"
  by (simp_all add: set_block_def)

lemma lfs_emubd_prog_fields [simp]:
  "fl_failure (lfs_emubd_prog blk off data f) = fl_failure f"
  "fl_staged_active (lfs_emubd_prog blk off data f) = fl_staged_active f"
  "fl_sampler (lfs_emubd_prog blk off data f) = fl_sampler f"
  by (simp_all add: lfs_emubd_prog_def Let_def)

lemma fold_fields:
  assumes "\<And>p f. fl_failure (h p f) = fl_failure f" "\<And>p f. fl_staged_active (h p f) = fl_staged_active f"
    "\<And>p f. fl_sampler (h p f) = fl_sampler f"
  shows "fl_failure (fold h ps f) = fl_failure f" "fl_staged_active (fold h ps f) = fl_staged_active f"
    "fl_sampler (fold h ps f) = fl_sampler f"
  by (induction ps arbitrary: f) (simp_all add: assms)

lemma emu_program_range_fields:
  "fl_failure (emu_program_range off data f) = fl_failure f"
  "fl_staged_active (emu_program_range off data f) = fl_staged_active f"
  "fl_sampler (emu_program_range off data f) = fl_sampler f"
  unfolding emu_program_range_def by (rule fold_fields; simp split: prod.split)+

lemma erase_blocks_fields:
  "erase_blocks blocks f = (err, g) \<Longrightarrow> cfg_erase_cycles (fl_cfg f) = 0 \<Longrightarrow>
     err = 0 \<and> fl_failure g = fl_failure f \<and> fl_staged_active g = fl_staged_active f \<and>
     fl_sampler g = fl_sampler f"
  by (induction blocks arbitrary: f) (auto simp: lfs_emubd_erase_def Let_def)

lemma emu_good_begin:
  assumes "emu_good f" "begin_op type offset sz f = (rec, inject, g)"
  shows "emu_good g \<and> \<not> inject \<and> fl_cfg g = fl_cfg f"
  using assms(1) begin_op_same [OF assms(2)] begin_op_fields [OF assms(2)]
    same_flash_ok [OF begin_op_same [OF assms(2)]]
  by (simp add: emu_good_def same_flash_def op_matches_def)

lemma emu_good_finish:
  assumes "emu_good f" "finish_op rec type sz result n f = (st, g)"
  shows "emu_good g \<and> st = result \<and> fl_cfg g = fl_cfg f"
  using assms(1) finish_op_same [OF assms(2)] finish_op_fields [OF assms(2)] same_flash_ok [of g f]
  by (auto simp: emu_good_def same_flash_def)

lemma emu_read_good:
  assumes good: "emu_good f" and rd: "ffsv_flash_read f off n = (st, data, g)"
  shows "emu_good g \<and> (off + n \<le> length (emu_mem f) \<longrightarrow> st = 0)"
proof -
  obtain rec inject f1 where b: "begin_op FFSV_OP_READ off n f = (rec, inject, f1)" by (metis prod_cases3)
  from good have ok: "emu_ok f" by (simp add: emu_good_def)
  have "\<exists>result. finish_op rec FFSV_OP_READ n result 0 f1 = (st, g) \<and>
      (off + n \<le> length (emu_mem f) \<longrightarrow> result = 0)"
    using rd b emu_good_begin [OF good b] check_range_iff [of f off n]
    by (auto simp: ffsv_flash_read_def Let_def emu_mem_length [OF ok] split: prod.splits if_splits)
  with emu_good_begin [OF good b] emu_good_finish [of f1 rec FFSV_OP_READ n] show ?thesis by blast
qed

lemma emu_program_good:
  assumes good: "emu_good f" and pg: "ffsv_flash_program f off data = (st, g)"
  shows "emu_good g \<and> (off + length data \<le> length (emu_mem f) \<longrightarrow>
    off mod cfg_program_granule (fl_cfg f) = 0 \<longrightarrow>
    length data mod cfg_program_granule (fl_cfg f) = 0 \<longrightarrow> st = 0)"
proof -
  obtain rec inject f1 where b: "begin_op FFSV_OP_PROGRAM off (length data) f = (rec, inject, f1)"
    by (metis prod_cases3)
  note g1 = emu_good_begin [OF good b]
  from good have ok: "emu_ok f" by (simp add: emu_good_def)
  let ?err = "if check_range f off (length data) = 0
    then check_alignment off (length data) (cfg_program_granule (fl_cfg f))
    else check_range f off (length data)"
  show ?thesis
  proof (cases "?err = 0")
    case True
    then have fit: "off + length data \<le> cfg_total_size (fl_cfg f)"
      by (simp add: check_range_iff split: if_splits)
    let ?f2 = "emu_program_range off data f1"
    have "emu_good ?f2"
      using g1 emu_program_range_mem [of f1 off data] fit
      by (auto simp: emu_good_def emu_program_range_fields)
    with emu_good_finish [of ?f2 rec FFSV_OP_PROGRAM "length data" 0 "length data" st g] g1 pg b good True
    show ?thesis by (auto simp: ffsv_flash_program_def Let_def emu_good_def split: if_splits)
  next
    case False
    with pg b good have "finish_op rec FFSV_OP_PROGRAM (length data) ?err 0 f1 = (st, g)"
      by (simp add: ffsv_flash_program_def Let_def emu_good_def)
    with emu_good_finish [of f1] g1 have "emu_good g" by blast
    with False show ?thesis
      by (auto simp: check_range_iff check_alignment_def emu_mem_length [OF ok])
  qed
qed

lemma emu_erase_good:
  assumes good: "emu_good f" and er: "ffsv_flash_erase f off n = (st, g)"
  shows "emu_good g \<and> (off + n \<le> length (emu_mem f) \<longrightarrow> off mod cfg_sector_size (fl_cfg f) = 0 \<longrightarrow>
    n mod cfg_sector_size (fl_cfg f) = 0 \<longrightarrow> st = 0)"
proof -
  let ?ss = "cfg_sector_size (fl_cfg f)"
  obtain rec inject f1 where b: "begin_op FFSV_OP_ERASE off n f = (rec, inject, f1)"
    by (metis prod_cases3)
  note g1 = emu_good_begin [OF good b]
  from good have ok: "emu_ok f" by (simp add: emu_good_def)
  let ?err = "if check_range f off n = 0 then check_alignment off n ?ss else check_range f off n"
  show ?thesis
  proof (cases "?err = 0")
    case True
    then have fit: "off + n \<le> cfg_total_size (fl_cfg f)" and al: "off mod ?ss = 0" "n mod ?ss = 0"
      by (auto simp: check_range_iff check_alignment_def split: if_splits)
    then obtain a k where ak: "off = a * ?ss" "n = k * ?ss"
      by (metis mod_0_imp_dvd dvd_def mult.commute)
    have ss: "0 < ?ss" using emu_okD(1) [OF ok] .
    have blocks: "fl_blocks f1 = fl_blocks f" using begin_op_same [OF b] by (simp add: same_flash_def)
    have range: "a + k \<le> length (fl_blocks f1)"
      using fit ak emu_okD(4) [OF ok] ss unfolding blocks by (metis add_mult_distrib mult_le_cancel2)
    obtain e f2 where e: "erase_blocks [off div ?ss ..< (off + n) div ?ss] f1 = (e, f2)" by fastforce
    with ak ss have "erase_blocks [a ..< a + k] f1 = (e, f2)" by (simp add: add_mult_distrib [symmetric])
    from erase_blocks_mem [OF _ range this] erase_blocks_fields [OF this] g1
    have "e = 0" "emu_good f2" by (auto simp: emu_good_def)
    with emu_good_finish [of f2 rec FFSV_OP_ERASE n 0 n st g] g1 er b good True e show ?thesis
      by (auto simp: ffsv_flash_erase_def Let_def emu_good_def split: if_splits)
  next
    case False
    with er b have "finish_op rec FFSV_OP_ERASE n ?err 0 f1 = (st, g)"
      by (simp add: ffsv_flash_erase_def Let_def)
    with emu_good_finish [of f1] g1 have "emu_good g" by blast
    with False show ?thesis
      by (auto simp: check_range_iff check_alignment_def emu_mem_length [OF ok])
  qed
qed

interpretation emu: reliable_flash ffsv_flash_read ffsv_flash_program ffsv_flash_erase emu_mem emu_ok
  emu_good "\<lambda>f. cfg_program_granule (fl_cfg f)" "\<lambda>f. cfg_sector_size (fl_cfg f)"
proof (unfold_locales, goal_cases)
  case (1 c off n st data c')
  from emu_read_spec [OF this] show ?case by simp
next
  case (2 c off bytes st c')
  from emu_program_spec [OF this] show ?case by simp
next
  case (3 c off n st c')
  from emu_erase_spec [OF this] show ?case by simp
next
  case (4 c off n st data c')
  with emu_read_good [OF 4(2,3)] show ?case by simp
next
  case (5 c off bytes st c')
  with emu_program_good [OF 5(2,3)] show ?case by simp
next
  case (6 c off n st c')
  with emu_erase_good [OF 6(2,3)] show ?case by simp
qed

section \<open>Properties\<close>

lemma concat_replicates: "concat (replicate n (replicate k x)) = replicate (n * k) x"
  by (induction n) (simp_all add: replicate_add)

lemma emu_create:
  assumes "ffsv_flash_create cfg = Inr f" "cfg_erased_value cfg = 0xff"
  shows "emu_ok f" "emu_mem f = replicate (cfg_total_size cfg) 0xff"
    "cfg_erase_cycles cfg = 0 \<Longrightarrow> emu_good f" "cfg_program_granule (fl_cfg f) = cfg_program_granule cfg"
    "cfg_total_size (fl_cfg f) = cfg_total_size cfg" "cfg_sector_size (fl_cfg f) = cfg_sector_size cfg"
proof -
  let ?n = "cfg_total_size cfg div cfg_sector_size cfg"
  from assms have chk: "checked_config cfg = 0" and blocks: "fl_blocks f = replicate ?n None"
    and c: "fl_cfg f = cfg\<lparr>cfg_max_log_entries := cfg_max_log_entries (fl_cfg f)\<rparr>"
    and rest: "fl_failure f = no_failure" "\<not> fl_staged_active f" "\<not> sp_enabled (fl_sampler f)"
    by (auto simp: ffsv_flash_create_def no_staged_def no_sampler_def Let_def split: if_splits)
  have [simp]: "cfg_program_granule (fl_cfg f) = cfg_program_granule cfg"
    "cfg_total_size (fl_cfg f) = cfg_total_size cfg" "cfg_sector_size (fl_cfg f) = cfg_sector_size cfg"
    "cfg_erased_value (fl_cfg f) = 0xff" "cfg_erase_cycles (fl_cfg f) = cfg_erase_cycles cfg"
    by (subst c, simp add: assms)+
  have mod: "?n * cfg_sector_size cfg = cfg_total_size cfg"
    using chk by (auto simp: checked_config_def split: if_splits)
  show ok: "emu_ok f"
    using chk assms(2)
    by (auto simp: emu_ok_def checked_config_def blocks in_set_replicate split: if_splits)
  have "emu_mem f = concat (replicate ?n (replicate (cfg_sector_size cfg) 0xff))"
    unfolding emu_mem_def blocks length_replicate
    by (intro arg_cong [where f = concat] nth_equalityI) (simp_all add: lfs_emubd_mutblock_def blocks)
  also have "\<dots> = replicate (?n * cfg_sector_size cfg) 0xff"
    by (rule concat_replicates)
  finally show "emu_mem f = replicate (cfg_total_size cfg) 0xff" by (simp add: mod)
  show "emu_good f" if "cfg_erase_cycles cfg = 0"
    using ok that rest by (simp add: emu_good_def no_failure_def)
  show "cfg_program_granule (fl_cfg f) = cfg_program_granule cfg"
    "cfg_total_size (fl_cfg f) = cfg_total_size cfg" "cfg_sector_size (fl_cfg f) = cfg_sector_size cfg"
    by simp_all
qed




text \<open>Concrete instances: four sectors of 256 bytes, programmed four bytes at a time.\<close>

definition example_config :: ffsv_flash_config where
  "example_config = \<lparr>cfg_total_size = 1024, cfg_sector_size = 256, cfg_program_granule = 4,
     cfg_erased_value = 0xff, cfg_erase_cycles = 0,
     cfg_timing = \<lparr>read_fixed_ns = 0, read_per_byte_ns = 0, program_fixed_ns = 0, program_per_byte_ns = 0,
       erase_fixed_ns = 0, erase_per_byte_ns = 0, blank_check_fixed_ns = 0, blank_check_per_byte_ns = 0\<rparr>,
     cfg_max_log_entries = 8\<rparr>"

definition example_flash :: ffsv_flash where
  "example_flash = (case ffsv_flash_create example_config of Inr f \<Rightarrow> f | Inl _ \<Rightarrow> undefined)"

abbreviation example_backend :: "ffsv_flash fffs_backend" where
  "example_backend \<equiv> fffs_host_backend_from_verify_flash example_flash"

lemma example_create: "ffsv_flash_create example_config = Inr example_flash"
  by (simp add: example_flash_def ffsv_flash_create_def checked_config_def example_config_def Let_def)

lemmas example_flash_facts =
  emu_create [OF example_create, unfolded example_config_def, simplified]

lemma example_backend_uses: "emu.fuses example_backend" "emu.uses example_backend"
  using example_flash_facts
  by (simp_all add: emu.fuses_def emu.uses_def fffs_host_backend_from_verify_flash_def
      fffs_valid_backend_def emu.bmem_def)

lemma example_backend_good: "emu_good (be_ctx example_backend)"
  using example_flash_facts by (simp add: fffs_host_backend_from_verify_flash_def)

lemma example_backend_mem: "emu.bmem example_backend = replicate 1024 0xff"
  using example_flash_facts by (simp add: emu.bmem_def fffs_host_backend_from_verify_flash_def)




end
