(* ===== verification/Fffs_Sector.thy ===== *)
theory Fffs_Sector
  imports Verify_Flash
begin

unbundle bit_operations_syntax

text \<open>
  Sector footers, \<^verbatim>\<open>src/fffs_sector.c\<close>, and the buffered sector reader,
  \<^verbatim>\<open>src/fffs_sector_reader.c\<close>.  A footer is the last ten bytes of a data sector: serial, type,
  lifecycle state, magic.  The state byte only ever loses bits: erased, valid, full, tombstoned.

  The reader's buffer is a local array of its caller, so the reader is a value that a successful
  view returns updated; callers abandon it when a view fails.
\<close>

section \<open>Footers\<close>

definition fffs_max_file_data_size :: "'c fffs \<Rightarrow> nat" where
  "fffs_max_file_data_size fs =
     (let raw = fs_sector_size fs - FFFS_SECTOR_FOOTER_SIZE - FFFS_MD_FILE_RECORD_SIZE;
          raw = (if raw > 65535 then 65535 else raw)
      in raw - raw mod be_program_granule (fs_backend fs))"

definition fffs_sector_footer_offset :: "'c fffs \<Rightarrow> u16 \<Rightarrow> nat" where
  "fffs_sector_footer_offset fs sector =
     unat sector * fs_sector_size fs + fs_sector_size fs - FFFS_SECTOR_FOOTER_SIZE"

definition fffs_sector_metadata_offset :: "'c fffs \<Rightarrow> u16 \<Rightarrow> nat" where
  "fffs_sector_metadata_offset fs sector =
     fffs_sector_footer_offset fs sector - FFFS_MD_FILE_RECORD_SIZE"

record fffs_sector_footer =
  ft_serial :: u32
  ft_type :: byte
  ft_state :: byte
  ft_erased :: bool
  ft_magic_valid :: bool
  ft_valid_bits :: bitmirror_state
  ft_tombstone_bits :: bitmirror_state
  ft_full_bits :: bitmirror_state

definition fffs_decode_sector_footer :: "byte list \<Rightarrow> fffs_sector_footer" where
  "fffs_decode_sector_footer footer =
     \<lparr>ft_serial = fffs_load_le32 footer,
      ft_type = footer ! 4,
      ft_state = footer ! 5,
      ft_erased = fffs_flash_bytes_erased (take FFFS_SECTOR_FOOTER_SIZE footer),
      ft_magic_valid = (sub_bytes 6 4 footer = FFFS_SECTOR_MAGIC),
      ft_valid_bits = fffs_lifecycle_valid_pair (footer ! 5),
      ft_tombstone_bits = fffs_lifecycle_tombstone_pair (footer ! 5),
      ft_full_bits = fffs_lifecycle_hint_pair (footer ! 5)\<rparr>"

definition fffs_encode_sector_footer :: "u32 \<Rightarrow> bool \<Rightarrow> byte list" where
  "fffs_encode_sector_footer serial valid =
     fffs_store_le32 serial @
     [FFFS_SECTOR_TYPE_FILE, if valid then FFFS_SECTOR_FLAGS_VALID else 0xff] @ FFFS_SECTOR_MAGIC"

section \<open>The sector reader\<close>

record fffs_sector_reader =
  rd_data :: "byte list"
  rd_capacity :: nat
  rd_sector :: u16
  rd_start :: nat
  rd_len :: nat
  rd_reverse :: bool

definition sector_reader :: "nat \<Rightarrow> bool \<Rightarrow> fffs_sector_reader" where
  "sector_reader capacity reverse =
     \<lparr>rd_data = [], rd_capacity = capacity, rd_sector = 0, rd_start = 0, rd_len = 0,
      rd_reverse = reverse\<rparr>"

definition fffs_sector_reader_view ::
  "fffs_sector_reader \<Rightarrow> u16 \<Rightarrow> nat \<Rightarrow> nat \<Rightarrow> ('c, byte list \<times> fffs_sector_reader) fsop" where
  "fffs_sector_reader_view reader sector offset sz = bindm (getm id) (\<lambda>fs.
     if unat sector \<ge> fs_sector_count fs \<or> offset > fs_sector_size fs \<or>
        sz > fs_sector_size fs - offset \<or> sz > rd_capacity reader
     then throw FFFS_ERR_INVALID
     else
       let reader = (if rd_sector reader \<noteq> sector
             then reader\<lparr>rd_sector := sector, rd_start := 0, rd_len := 0\<rparr> else reader)
       in if rd_len reader \<noteq> 0 \<and> offset \<ge> rd_start reader \<and> sz \<le> rd_len reader \<and>
             offset - rd_start reader \<le> rd_len reader - sz
          then ret (sub_bytes (offset - rd_start reader) sz (rd_data reader), reader)
          else
            let stop = offset + sz;
                len = (if rd_reverse reader then min (rd_capacity reader) stop
                       else min (rd_capacity reader) (fs_sector_size fs - offset));
                start = (if rd_reverse reader then stop - len else offset)
            in bindm (fffs_flash_read (unat (rd_sector reader) * fs_sector_size fs + start) len)
                 (\<lambda>data. ret (sub_bytes (offset - start) sz data,
                   reader\<lparr>rd_data := data, rd_start := start, rd_len := len\<rparr>)))"

section \<open>Operations on footers\<close>

definition fffs_read_sector_serial :: "u16 \<Rightarrow> ('c, u32) fsop" where
  "fffs_read_sector_serial sector = bindm (getm id) (\<lambda>fs.
     if unat sector < unat (fs_index_sectors fs) \<or> unat sector \<ge> fs_sector_count fs
     then throw FFFS_ERR_CORRUPT
     else
       bindm (fffs_sector_reader_view (sector_reader FFFS_SECTOR_FOOTER_SIZE True) sector
                (fs_sector_size fs - FFFS_SECTOR_FOOTER_SIZE) FFFS_SECTOR_FOOTER_SIZE)
         (\<lambda>(footer, _).
            let view = fffs_decode_sector_footer footer;
                live = fffs_lifecycle_is_live (ft_valid_bits view) (ft_tombstone_bits view);
                tombstoned = (ft_valid_bits view \<noteq> FFFS_BITMIRROR_MIXED \<and>
                  ft_tombstone_bits view = FFFS_BITMIRROR_CLEARED)
            in if ft_type view \<noteq> FFFS_SECTOR_TYPE_FILE \<or> \<not> ft_magic_valid view
               then throw FFFS_ERR_CORRUPT
               else if \<not> live \<and> \<not> tombstoned then throw FFFS_ERR_CORRUPT
               else ret (ft_serial view)))"

definition fffs_write_sector_footer :: "u16 \<Rightarrow> u32 \<Rightarrow> ('c, unit) fsop" where
  "fffs_write_sector_footer sector serial = bindm (getm id) (\<lambda>fs.
     seqm (fffs_flash_program_aligned (fffs_sector_footer_offset fs sector)
            (fffs_encode_sector_footer serial False))
       (fffs_flash_program_aligned (fffs_sector_footer_offset fs sector + 5)
            [FFFS_SECTOR_FLAGS_VALID]))"

definition fffs_tombstone_sector :: "u16 \<Rightarrow> ('c, unit) fsop" where
  "fffs_tombstone_sector sector = bindm (getm id) (\<lambda>fs.
     fffs_flash_program_aligned (fffs_sector_footer_offset fs sector + 4)
       [FFFS_SECTOR_TYPE_FILE, FFFS_SECTOR_FLAGS_TOMBSTONED, 0xff, 0xff])"

definition fffs_mark_sector_full :: "u16 \<Rightarrow> ('c, unit) fsop" where
  "fffs_mark_sector_full sector = bindm (getm id) (\<lambda>fs.
     fffs_flash_program_aligned (fffs_sector_footer_offset fs sector + 5) [FFFS_SECTOR_FLAGS_FULL])"

text \<open>What \<^verbatim>\<open>fffs_read_sector_serial\<close> makes of ten footer bytes.\<close>

definition footer_serial :: "byte list \<Rightarrow> u32 res" where
  "footer_serial footer =
     (let view = fffs_decode_sector_footer footer in
      if ft_type view \<noteq> FFFS_SECTOR_TYPE_FILE \<or> \<not> ft_magic_valid view then Inl FFFS_ERR_CORRUPT
      else if \<not> state_live (ft_state view) \<and> \<not> state_tombstoned (ft_state view)
      then Inl FFFS_ERR_CORRUPT else Inr (ft_serial view))"

section \<open>Decoding what was encoded\<close>

lemma length_store_le [simp]: "length (fffs_store_le32 v) = 4" "length (fffs_store_le16 w) = 2"
  by (simp_all add: fffs_store_le32_def fffs_store_le16_def)

lemma length_encode_footer [simp]: "length (fffs_encode_sector_footer serial valid) = 10"
  by (simp add: fffs_encode_sector_footer_def)

lemma load_le32_append: "4 \<le> length xs \<Longrightarrow> fffs_load_le32 (xs @ ys) = fffs_load_le32 xs"
  by (auto simp: fffs_load_le32_def nth_append)

lemma decode_encode_footer [codec]:
  "fffs_decode_sector_footer (fffs_encode_sector_footer serial valid) =
     \<lparr>ft_serial = serial, ft_type = FFFS_SECTOR_TYPE_FILE,
      ft_state = (if valid then FFFS_SECTOR_FLAGS_VALID else 0xff), ft_erased = False,
      ft_magic_valid = True,
      ft_valid_bits = (if valid then FFFS_BITMIRROR_CLEARED else FFFS_BITMIRROR_SET),
      ft_tombstone_bits = FFFS_BITMIRROR_SET, ft_full_bits = FFFS_BITMIRROR_SET\<rparr>"
proof -
  have 4: "(fffs_encode_sector_footer serial valid) ! 4 = FFFS_SECTOR_TYPE_FILE"
    "(fffs_encode_sector_footer serial valid) ! 5 = (if valid then FFFS_SECTOR_FLAGS_VALID else 0xff)"
    by (simp_all add: fffs_encode_sector_footer_def nth_append)
  have "fffs_load_le32 (fffs_encode_sector_footer serial valid) = serial"
    by (simp add: fffs_encode_sector_footer_def load_le32_append codec)
  moreover have "\<not> fffs_flash_bytes_erased (fffs_encode_sector_footer serial valid)"
    using 4(1) nth_mem [of 4 "fffs_encode_sector_footer serial valid"]
    by (auto simp: bytes_erased_all intro!: bexI [of _ 1])
  moreover have "sub_bytes 6 4 (fffs_encode_sector_footer serial valid) = FFFS_SECTOR_MAGIC"
    by (simp add: fffs_encode_sector_footer_def sub_bytes_def)
  ultimately show ?thesis
    by (simp add: fffs_decode_sector_footer_def 4 fffs_lifecycle_valid_pair_def
        fffs_lifecycle_tombstone_pair_def fffs_lifecycle_hint_pair_def fffs_bitmirror_state_def)
qed


section \<open>Two-step commit of a footer\<close>

text \<open>Footers that differ from an encoded one in the state byte only.\<close>

definition footer_with_state :: "u32 \<Rightarrow> byte \<Rightarrow> byte list" where
  "footer_with_state serial st = (fffs_encode_sector_footer serial True)[5 := st]"

lemma footer_with_state_eq:
  "footer_with_state serial st = fffs_store_le32 serial @ [FFFS_SECTOR_TYPE_FILE, st] @ FFFS_SECTOR_MAGIC"
  by (simp add: footer_with_state_def fffs_encode_sector_footer_def fffs_store_le32_def)

lemma encode_footer_state:
  "fffs_encode_sector_footer serial False = footer_with_state serial 0xff"
  "fffs_encode_sector_footer serial True = footer_with_state serial FFFS_SECTOR_FLAGS_VALID"
  by (simp_all add: footer_with_state_eq fffs_encode_sector_footer_def)

lemma length_footer_with_state [simp]: "length (footer_with_state serial st) = 10"
  by (simp add: footer_with_state_def)

lemma decode_footer_with_state [codec]:
  "ft_serial (fffs_decode_sector_footer (footer_with_state serial st)) = serial"
  "ft_type (fffs_decode_sector_footer (footer_with_state serial st)) = FFFS_SECTOR_TYPE_FILE"
  "ft_state (fffs_decode_sector_footer (footer_with_state serial st)) = st"
  "ft_magic_valid (fffs_decode_sector_footer (footer_with_state serial st))"
  "\<not> ft_erased (fffs_decode_sector_footer (footer_with_state serial st))"
  by (simp_all add: fffs_decode_sector_footer_def footer_with_state_eq load_le32_append codec
      nth_append sub_bytes_def bytes_erased_all)

lemma footer_serial_with_state:
  "footer_serial (footer_with_state serial st) =
     (if state_live st \<or> state_tombstoned st then Inr serial else Inl FFFS_ERR_CORRUPT)"
  by (simp add: footer_serial_def codec Let_def)

lemma footer_serial_ff:
  "footer ! 5 = 0xff \<Longrightarrow> footer_serial footer = Inl FFFS_ERR_CORRUPT"
  by (simp add: footer_serial_def fffs_decode_sector_footer_def Let_def state_live_def
      state_tombstoned_def fffs_lifecycle_is_live_def fffs_lifecycle_valid_pair_def
      fffs_lifecycle_tombstone_pair_def fffs_bitmirror_state_def)

lemma live_VALID [simp]: "state_live FFFS_SECTOR_FLAGS_VALID"
  by (simp add: state_live_def fffs_lifecycle_is_live_def fffs_lifecycle_valid_pair_def
      fffs_lifecycle_tombstone_pair_def fffs_bitmirror_state_def)

text \<open>Programming and tearing a range of erased bytes.\<close>

lemma program_erased:
  assumes "sub_bytes a (length data) m = replicate (length data) 0xff" "a + length data \<le> length m"
  shows "sub_bytes a (length data) (nor_program a data m) = data"
  using sub_bytes_nor_program_same [OF assms(2)] assms(1) by simp

lemma torn_sub_bytes:
  assumes "torn_program a data m m'" "a \<le> b" "b < a + length data" "b < length m"
  shows "torn_byte (m ! b) (data ! (b - a)) (m' ! b)"
  using assms by (auto simp: torn_program_def dest!: spec [of _ b])

lemma program_inside:
  assumes "b + length data \<le> n" "a + n \<le> length m"
  shows "sub_bytes a n (nor_program (a + b) data m) = nor_program b data (sub_bytes a n m)"
  using assms by (intro nth_equalityI) (auto simp: nth_nor_program nth_sub_bytes)

lemma torn_inside:
  assumes "torn_program (a + b) data m m'" "b + length data \<le> n" "a + n \<le> length m"
  shows "torn_program b data (sub_bytes a n m) (sub_bytes a n m')"
proof -
  from assms(1) have len: "length m' = length m" by (rule torn_program_length)
  show ?thesis
    unfolding torn_program_def
  proof (intro conjI allI impI)
    show "length (sub_bytes a n m') = length (sub_bytes a n m)" using assms(3) len by simp
    fix i assume "i < length (sub_bytes a n m)"
    with assms(3) have i: "i < n" "a + i < length m" by auto
    from assms(1) i(2) have "if a + b \<le> a + i \<and> a + i < a + b + length data
        then torn_byte (m ! (a + i)) (data ! (a + i - (a + b))) (m' ! (a + i)) else m' ! (a + i) = m ! (a + i)"
      unfolding torn_program_def by blast
    with i assms(2,3) len show "if b \<le> i \<and> i < b + length data
        then torn_byte (sub_bytes a n m ! i) (data ! (i - b)) (sub_bytes a n m' ! i)
        else sub_bytes a n m' ! i = sub_bytes a n m ! i" by (auto split: if_splits)
  qed
qed

lemma program_single:
  "k < length xs \<Longrightarrow> nor_program k [new] xs = xs[k := xs ! k AND new]"
  by (intro nth_equalityI) (auto simp: nth_nor_program nth_list_update)

lemma torn_single:
  assumes "torn_program k [new] xs ys" "k < length xs"
  shows "ys = xs[k := ys ! k]" "torn_byte (xs ! k) new (ys ! k)"
proof -
  from assms have len: "length ys = length xs" by (simp add: torn_program_def)
  show "torn_byte (xs ! k) new (ys ! k)"
    using torn_sub_bytes [OF assms(1), of k] assms(2) by simp
  show "ys = xs[k := ys ! k]"
  proof (rule nth_equalityI)
    fix i assume "i < length ys"
    then show "ys ! i = xs[k := ys ! k] ! i"
      using assms len unfolding torn_program_def by (auto simp: nth_list_update dest!: spec [of _ i])
  qed (simp add: len)
qed

lemma footer_state_nth [simp]: "footer_with_state serial st ! 5 = st"
  by (simp add: footer_with_state_eq nth_append)

lemma footer_state_update [simp]: "(footer_with_state serial st)[5 := st'] = footer_with_state serial st'"
  by (simp add: footer_with_state_def)

lemma torn_state_byte:
  "torn_program 5 [new] (footer_with_state serial old) footer \<Longrightarrow>
     \<exists>st. footer = footer_with_state serial st \<and> torn_byte old new st"
  using torn_single [of 5 new "footer_with_state serial old" footer] by (auto intro!: exI [of _ "footer ! 5"])

lemma program_state_byte:
  "nor_program 5 [new] (footer_with_state serial old) = footer_with_state serial (old AND new)"
  by (simp add: program_single)

section \<open>Rules on a device\<close>

definition data_sector :: "'c fffs \<Rightarrow> u16 \<Rightarrow> bool" where
  "data_sector fs sector \<longleftrightarrow>
     unat (fs_index_sectors fs) \<le> unat sector \<and> unat sector < fs_sector_count fs"

lemma data_sector_set_ctx [simp]: "data_sector (set_ctx c fs) = data_sector fs"
  by (simp add: data_sector_def fun_eq_iff)

context reliable_flash
begin

text \<open>\<open>geom fs\<close>: the sectors of the mounted file system tile the device.\<close>

definition geom :: "'c fffs \<Rightarrow> bool" where
  "geom fs \<longleftrightarrow> fdev fs \<and> 256 \<le> fs_sector_size fs \<and>
     fs_sector_count fs * fs_sector_size fs = length (fmem fs)"

lemma geom_fdev: "geom fs \<Longrightarrow> fdev fs"
  by (simp add: geom_def)

lemma geom_set_ctx:
  "geom fs \<Longrightarrow> stp c fs \<Longrightarrow> length (mem c) = length (fmem fs) \<Longrightarrow> geom (set_ctx c fs)"
  by (simp add: geom_def fdev_set_ctx)

lemma sector_fits:
  assumes "geom fs" "k < fs_sector_count fs" "off + n \<le> fs_sector_size fs"
  shows "k * fs_sector_size fs + off + n \<le> length (fmem fs)"
proof -
  have "Suc k * fs_sector_size fs \<le> fs_sector_count fs * fs_sector_size fs"
    using assms(2) by (intro mult_le_mono1) simp
  with assms show ?thesis by (simp add: geom_def)
qed

text \<open>A reader's window is a part of the sector it names.\<close>

definition coherent :: "'c fffs \<Rightarrow> fffs_sector_reader \<Rightarrow> bool" where
  "coherent fs reader \<longleftrightarrow> (rd_len reader \<noteq> 0 \<longrightarrow>
     rd_start reader + rd_len reader \<le> fs_sector_size fs \<and> unat (rd_sector reader) < fs_sector_count fs \<and>
     rd_data reader = sub_bytes (unat (rd_sector reader) * fs_sector_size fs + rd_start reader)
       (rd_len reader) (fmem fs))"

lemma coherent_fresh [simp]: "coherent fs (sector_reader cap reverse)"
  by (simp add: coherent_def sector_reader_def)

lemma coherent_set_ctx: "coherent fs reader \<Longrightarrow> mem c = fmem fs \<Longrightarrow> coherent (set_ctx c fs) reader"
  by (simp add: coherent_def)

text \<open>A view is what the flash holds, whether it comes from the window or from a read.\<close>

lemma reader_view_rule:
  assumes geom: "geom fs" and coh: "coherent fs reader"
    and arg: "unat sector < fs_sector_count fs" "offset + sz \<le> fs_sector_size fs" "sz \<le> rd_capacity reader"
    and ok: "\<And>c reader'. stp c fs \<Longrightarrow> mem c = fmem fs \<Longrightarrow> coherent (set_ctx c fs) reader' \<Longrightarrow>
      rd_sector reader' = sector \<Longrightarrow> rd_capacity reader' = rd_capacity reader \<Longrightarrow>
      Q (Inr (sub_bytes (unat sector * fs_sector_size fs + offset) sz (fmem fs), reader')) (set_ctx c fs)"
    and err: "\<And>c. stp c fs \<Longrightarrow> mem c = fmem fs \<Longrightarrow> \<not> healthy fs \<Longrightarrow> Q (Inl FFFS_ERR_IO) (set_ctx c fs)"
  shows "wp (fffs_sector_reader_view reader sector offset sz) Q fs"
proof -
  let ?ss = "fs_sector_size fs"
  define rd' where "rd' = (if rd_sector reader \<noteq> sector
    then reader\<lparr>rd_sector := sector, rd_start := 0, rd_len := 0\<rparr> else reader)"
  have rd': "rd_sector rd' = sector" "rd_capacity rd' = rd_capacity reader" "coherent fs rd'"
    "rd_reverse rd' = rd_reverse reader"
    using coh by (auto simp: rd'_def coherent_def)
  define len where "len = (if rd_reverse rd' then min (rd_capacity rd') (offset + sz)
    else min (rd_capacity rd') (?ss - offset))"
  define start where "start = (if rd_reverse rd' then offset + sz - len else offset)"
  have win: "start \<le> offset" "offset + sz \<le> start + len" "start + len \<le> ?ss"
    using arg(2,3) rd'(2) by (auto simp: start_def len_def)
  have fit: "unat sector * ?ss + start + len \<le> length (fmem fs)"
    using sector_fits [OF geom arg(1)] win(3) .
  have hit: "Q (Inr (sub_bytes (offset - rd_start rd') sz (rd_data rd'), rd')) fs"
    if "rd_len rd' \<noteq> 0" "offset \<ge> rd_start rd'" "sz \<le> rd_len rd'" "offset - rd_start rd' \<le> rd_len rd' - sz"
  proof -
    have "sub_bytes (offset - rd_start rd') sz (rd_data rd') =
        sub_bytes (unat sector * ?ss + offset) sz (fmem fs)"
      using that rd' by (auto simp: coherent_def)
    with ok [OF stp_self [OF geom_fdev [OF geom]] fmem_self, of rd'] rd' show ?thesis
      by (simp add: set_ctx_self)
  qed
  have miss: "wp (bindm (fffs_flash_read (unat (rd_sector rd') * ?ss + start) len)
      (\<lambda>data. ret (sub_bytes (offset - start) sz data,
        rd'\<lparr>rd_data := data, rd_start := start, rd_len := len\<rparr>))) Q fs"
    unfolding wp_bindm
  proof (rule read_rule [OF geom_fdev [OF geom]], goal_cases)
    case (1 c)
    have "coherent (set_ctx c fs) (rd'\<lparr>rd_data := sub_bytes (unat sector * ?ss + start) len (fmem fs),
        rd_start := start, rd_len := len\<rparr>)"
      using 1(2) rd' win arg by (simp add: coherent_def)
    with ok [OF 1(1,2) this] rd' win show ?case by (simp add: wp_simps add.assoc)
  next
    case (2 c)
    with fit rd' err [OF 2(1,2)] show ?case by simp
  qed
  have guard: "\<not> (unat sector \<ge> fs_sector_count fs \<or> offset > ?ss \<or> sz > ?ss - offset \<or> sz > rd_capacity reader)"
    using arg by auto
  have unfold: "fffs_sector_reader_view reader sector offset sz fs =
      (if rd_len rd' \<noteq> 0 \<and> offset \<ge> rd_start rd' \<and> sz \<le> rd_len rd' \<and>
          offset - rd_start rd' \<le> rd_len rd' - sz
       then ret (sub_bytes (offset - rd_start rd') sz (rd_data rd'), rd')
       else bindm (fffs_flash_read (unat (rd_sector rd') * ?ss + start) len)
         (\<lambda>data. ret (sub_bytes (offset - start) sz data,
           rd'\<lparr>rd_data := data, rd_start := start, rd_len := len\<rparr>))) fs"
    unfolding fffs_sector_reader_view_def bindm_getm id_apply if_not_P [OF guard] Let_def
      rd'_def [symmetric] len_def start_def by (rule refl)
  show ?thesis
    by (rule wp_eqI, rule unfold, unfold wp_if) (simp add: wp_ret hit miss)
qed

text \<open>Reading a serial: what the ten footer bytes say.\<close>

definition footer_bytes :: "'c fffs \<Rightarrow> u16 \<Rightarrow> byte list" where
  "footer_bytes fs sector = sub_bytes (fffs_sector_footer_offset fs sector) 10 (fmem fs)"

lemma footer_offset_set_ctx [simp]:
  "fffs_sector_footer_offset (set_ctx c fs) sector = fffs_sector_footer_offset fs sector"
  by (simp add: fffs_sector_footer_offset_def)

lemma footer_fits:
  assumes "geom fs" "unat sector < fs_sector_count fs"
  shows "fffs_sector_footer_offset fs sector + 10 \<le> length (fmem fs)"
  using sector_fits [OF assms, of "fs_sector_size fs - 10" 10] assms(1)
  by (simp add: geom_def fffs_sector_footer_offset_def)

lemma read_serial_rule:
  assumes geom: "geom fs" and sector: "data_sector fs sector"
    and "\<And>c. stp c fs \<Longrightarrow> mem c = fmem fs \<Longrightarrow>
      Q (footer_serial (footer_bytes fs sector)) (set_ctx c fs)"
    and "\<And>c. stp c fs \<Longrightarrow> mem c = fmem fs \<Longrightarrow> \<not> healthy fs \<Longrightarrow> Q (Inl FFFS_ERR_IO) (set_ctx c fs)"
  shows "wp (fffs_read_sector_serial sector) Q fs"
proof -
  have ss: "256 \<le> fs_sector_size fs" using geom by (simp add: geom_def)
  then have off: "unat sector * fs_sector_size fs + (fs_sector_size fs - 10) = fffs_sector_footer_offset fs sector"
    by (simp add: fffs_sector_footer_offset_def)
  have "fffs_read_sector_serial sector fs =
      bindm (fffs_sector_reader_view (sector_reader 10 True) sector (fs_sector_size fs - 10) 10)
        (\<lambda>(footer, _). of_res (footer_serial footer)) fs"
    using sector
    by (auto simp: fffs_read_sector_serial_def bindm_getm data_sector_def footer_serial_def Let_def
        state_live_def state_tombstoned_def fffs_decode_sector_footer_def of_res_def throw_def ret_def fun_eq_iff intro!: arg_cong2 [where f = "\<lambda>k. bindm _ k"])
  then show ?thesis
    by (rule wp_eqI, unfold wp_bindm, intro reader_view_rule [OF geom coherent_fresh])
      (use sector ss assms(3,4) in \<open>auto simp: data_sector_def sector_reader_def wp_simps off footer_bytes_def\<close>)
qed

lemma footer_bytes_set_ctx: "footer_bytes (set_ctx c fs) sector =
    sub_bytes (fffs_sector_footer_offset fs sector) 10 (mem c)"
  by (simp add: footer_bytes_def)

text \<open>Writing a footer over erased bytes: complete on success, and never misread after a failure.\<close>

definition wrote_footer :: "'c fffs \<Rightarrow> u16 \<Rightarrow> u32 \<Rightarrow> unit res \<Rightarrow> 'c fffs \<Rightarrow> bool" where
  "wrote_footer fs sector serial r fs' \<longleftrightarrow> (\<exists>c. fs' = set_ctx c fs \<and> stp c fs \<and>
     length (mem c) = length (fmem fs) \<and>
     (case r of Inr _ \<Rightarrow> footer_bytes fs' sector = footer_with_state serial FFFS_SECTOR_FLAGS_VALID
              | Inl e \<Rightarrow> e = FFFS_ERR_IO \<and> \<not> healthy fs \<and>
                  (footer_bytes fs' sector ! 5 = 0xff \<or>
                   (\<exists>st. footer_bytes fs' sector = footer_with_state serial st))))"

lemma write_footer_rule:
  assumes geom: "geom fs" and sector: "unat sector < fs_sector_count fs"
    and erased: "footer_bytes fs sector = replicate 10 0xff"
  shows "wp (fffs_write_sector_footer sector serial) (wrote_footer fs sector serial) fs"
proof -
  let ?o = "fffs_sector_footer_offset fs sector" and ?enc = "fffs_encode_sector_footer serial False"
  note fit = footer_fits [OF geom sector]
  have run: "fffs_write_sector_footer sector serial fs = seqm (fffs_flash_program_aligned ?o ?enc)
      (fffs_flash_program_aligned (?o + 5) [FFFS_SECTOR_FLAGS_VALID]) fs"
    by (simp add: fffs_write_sector_footer_def bindm_getm)
  show ?thesis
  proof (rule wp_eqI, rule run, unfold wp_seqm, rule program_rule [OF geom_fdev [OF geom]], goal_cases)
    case (1 c)
    let ?fs = "set_ctx c fs"
    have len: "length (mem c) = length (fmem fs)" using 1(2) fit by simp
    have g: "geom ?fs" by (rule geom_set_ctx [OF geom 1(1) len])
    have enc: "sub_bytes ?o 10 (mem c) = footer_with_state serial 0xff"
      using program_erased [of ?o ?enc "fmem fs"] erased fit 1(2)
      by (simp add: footer_bytes_def encode_footer_state)
    show ?case
    proof (simp, rule program_rule [OF geom_fdev [OF g]], goal_cases)
      case (1 d)
      with fit len have "length (mem d) = length (fmem fs)" by simp
      moreover have "sub_bytes ?o 10 (mem d) = footer_with_state serial FFFS_SECTOR_FLAGS_VALID"
        using 1(2) program_inside [of 5 "[FFFS_SECTOR_FLAGS_VALID]" 10 ?o "mem c"] fit len enc
        by (simp add: program_state_byte)
      ultimately show ?case
        using stp_trans [OF \<open>stp c fs\<close> 1(1)] by (auto simp: wrote_footer_def footer_bytes_set_ctx)
    next
      case (2 d)
      with len have ld: "length (mem d) = length (fmem fs)" by (auto dest: torn_program_length)
      have "\<exists>st. sub_bytes ?o 10 (mem d) = footer_with_state serial st"
        using torn_inside [of ?o 5 "[FFFS_SECTOR_FLAGS_VALID]" "mem c" "mem d" 10] 2(2) fit len enc
        by (auto dest: torn_state_byte)
      moreover have "\<not> healthy fs" using 2(3) fit len stp_healthy [OF \<open>stp c fs\<close>] by auto
      ultimately show ?case
        using stp_trans [OF \<open>stp c fs\<close> 2(1)] ld by (auto simp: wrote_footer_def footer_bytes_set_ctx)
    qed
  next
    case (2 c)
    then have len: "length (mem c) = length (fmem fs)" by (auto dest: torn_program_length)
    have "torn_byte (fmem fs ! (?o + 5)) (?enc ! 5) (mem c ! (?o + 5))"
      using torn_sub_bytes [OF 2(2), of "?o + 5"] fit by simp
    moreover have "?enc ! 5 = 0xff" "fmem fs ! (?o + 5) = 0xff"
      using erased nth_sub_bytes [of ?o 10 "fmem fs" 5] fit
      by (simp_all add: fffs_encode_sector_footer_def nth_append footer_bytes_def)
    ultimately have "mem c ! (?o + 5) = 0xff" by (simp add: torn_byte_ff)
    with 2 fit len show ?case by (auto simp: wrote_footer_def footer_bytes_set_ctx)
  qed
qed

text \<open>Programming the state byte of a complete footer: a fullness hint or a tombstone.\<close>

lemma state_byte_rule:
  assumes geom: "geom fs" and sector: "unat sector < fs_sector_count fs"
    and footer: "footer_bytes fs sector = footer_with_state serial old"
  shows "wp (fffs_flash_program_aligned (fffs_sector_footer_offset fs sector + 5) [new])
    (\<lambda>r fs'. \<exists>st. footer_bytes fs' sector = footer_with_state serial st \<and> torn_byte old new st \<and>
      (r = Inr () \<longrightarrow> st = old AND new) \<and> (healthy fs \<longrightarrow> r = Inr ())) fs"
proof (rule program_rule [OF geom_fdev [OF geom]], goal_cases)
  case (1 c)
  with footer footer_fits [OF geom sector]
    program_inside [of 5 "[new]" 10 "fffs_sector_footer_offset fs sector" "fmem fs"]
  show ?case by (auto simp: footer_bytes_set_ctx footer_bytes_def program_state_byte intro!: exI [of _ "old AND new"])
next
  case (2 c)
  with footer footer_fits [OF geom sector]
    torn_inside [of "fffs_sector_footer_offset fs sector" 5 "[new]" "fmem fs" "mem c" 10]
  show ?case by (auto simp: footer_bytes_set_ctx footer_bytes_def dest!: torn_state_byte)
qed

end


section \<open>Properties\<close>



text \<open>C8: however writing a sector footer over erased bytes is interrupted, a later read of the
  sector's serial gives either an error or exactly the serial that was being written: the state
  byte is programmed last, in an operation of its own.\<close>

theorem write_footer_crash_safe:
  assumes "emu.geom fs" and "data_sector fs sector"
    and "emu.footer_bytes fs sector = replicate 10 0xff"
  shows "wp (bindm (trym (fffs_write_sector_footer sector serial)) (\<lambda>_. fffs_read_sector_serial sector))
    (\<lambda>r fs'. r = Inr serial \<or> (\<exists>e. r = Inl e)) fs"
proof -
  have sector: "unat sector < fs_sector_count fs" using assms(2) by (simp add: data_sector_def)
  show ?thesis
    unfolding wp_bindm wp_trym
  proof (rule wp_mono [OF emu.write_footer_rule [OF assms(1) sector assms(3)]])
    fix r fs'
    assume "emu.wrote_footer fs sector serial r fs'"
    then obtain c where c: "fs' = set_ctx c fs" "emu.stp c fs"
      "length (emu_mem c) = length (emu.fmem fs)"
      "emu.footer_bytes fs' sector ! 5 = 0xff \<or> (\<exists>st. emu.footer_bytes fs' sector = footer_with_state serial st)"
      by (cases r) (auto simp: emu.wrote_footer_def)
    have "emu.geom fs'" using emu.geom_set_ctx [OF assms(1) c(2,3)] c(1) by simp
    then have "wp (fffs_read_sector_serial sector) (\<lambda>r fs'. r = Inr serial \<or> (\<exists>e. r = Inl e)) fs'"
      using assms(2) c
      by (intro emu.read_serial_rule)
        (auto simp: footer_serial_with_state footer_serial_ff split: if_splits)
    then show "case Inr r of Inl e \<Rightarrow> Inl e = Inr serial \<or> (\<exists>ea. Inl e = Inl ea)
        | Inr _ \<Rightarrow> wp (fffs_read_sector_serial sector) (\<lambda>r fs'. r = Inr serial \<or> (\<exists>e. r = Inl e)) fs'"
      by simp
  qed
qed

text \<open>Concrete instances: the four-sector emulator with two index sectors.\<close>

definition example_fs :: "ffsv_flash fffs" where
  "example_fs = (zero_fs example_backend)\<lparr>fs_sector_size := 256, fs_sector_count := 4,
     fs_index_sectors := 2\<rparr>"

lemma example_fs_mem: "emu.fmem example_fs = replicate 1024 0xff"
  by (simp add: example_fs_def emu.fmem_def zero_fs_def example_backend_mem)

lemma example_fs_geom: "emu.geom example_fs" "emu.healthy example_fs"
  using example_backend_uses example_backend_good example_fs_mem
  by (simp_all add: emu.geom_def emu.fdev_def emu.healthy_def example_fs_def zero_fs_def)

lemma example_fs_footer: "emu.footer_bytes example_fs 3 = replicate 10 0xff"
  unfolding emu.footer_bytes_def example_fs_mem
  by (simp add: fffs_sector_footer_offset_def example_fs_def sub_bytes_def)

lemma example_fs_sector: "data_sector example_fs 3"
  by (simp add: data_sector_def example_fs_def zero_fs_def)

theorem write_footer_crash_safe_witness:
  "wp (bindm (trym (fffs_write_sector_footer 3 17)) (\<lambda>_. fffs_read_sector_serial 3))
    (\<lambda>r fs'. r = Inr 17 \<or> (\<exists>e. r = Inl e)) example_fs"
  by (rule write_footer_crash_safe [OF example_fs_geom(1) example_fs_sector example_fs_footer])

end
