(* ===== verification/Fffs_Hash_Index.thy ===== *)
theory Fffs_Hash_Index
  imports Fffs_State
begin

unbundle bit_operations_syntax

text \<open>
  \<^verbatim>\<open>src/fffs_hashtable_index.c\<close> (\<^verbatim>\<open>FFFS_INDEX_CACHE_HASH_HEADS\<close>, the default build) and the
  slot table of \<^verbatim>\<open>src/fffs_ram_index.c\<close>: the RAM namespace caches that map a resolved slot to
  the head sector of its file.  The hash cache is an open-addressed table with linear probing
  and backward-shift deletion; slot 0 marks an empty bucket.

  Both refine a partial map from slots to heads (interface \<open>slot_cache\<close>).  Name resolution and
  directory iteration, which also read metadata, are in \<^verbatim>\<open>Fffs_Namespace\<close>.
\<close>

section \<open>The open-addressed table\<close>

definition is_power_of_two :: "nat \<Rightarrow> bool" where
  "is_power_of_two n \<longleftrightarrow> n \<noteq> 0 \<and> n AND (n - 1) = 0"

text \<open>\<open>n\<close> is \<^verbatim>\<open>fs->index_hash_table_size\<close>.  The difference of \<^verbatim>\<open>probe_distance\<close> wraps in
  \<^verbatim>\<open>size_t\<close>; masking it is masking the integer difference.\<close>

definition bucket_for :: "nat \<Rightarrow> u16 \<Rightarrow> nat" where
  "bucket_for n slot = unat slot AND (n - 1)"

definition probe_distance :: "nat \<Rightarrow> nat \<Rightarrow> nat \<Rightarrow> nat" where
  "probe_distance msk from to = nat ((int to - int from) AND int msk)"

fun find_slot_loop :: "nat \<Rightarrow> fffs_index_bucket list \<Rightarrow> u16 \<Rightarrow> nat \<Rightarrow> nat \<Rightarrow> (nat \<times> bool) res" where
  "find_slot_loop n table slot pos 0 = Inl FFFS_ERR_NO_SPACE"
| "find_slot_loop n table slot pos (Suc left) =
     (if bucket_slot (table ! pos) = 0 then Inr (pos, False)
      else if bucket_slot (table ! pos) = slot then Inr (pos, True)
      else find_slot_loop n table slot ((pos + 1) AND (n - 1)) left)"

definition find_slot_bucket :: "'c fffs \<Rightarrow> u16 \<Rightarrow> (nat \<times> bool) res" where
  "find_slot_bucket fs slot =
     (let n = fs_index_hash_table_size fs in
      if slot = 0 then Inl FFFS_ERR_INVALID
      else find_slot_loop n (fs_index_cache fs) slot (bucket_for n slot) n)"

partial_function (option) remove_loop ::
  "nat \<Rightarrow> fffs_index_bucket list \<Rightarrow> nat \<Rightarrow> nat \<Rightarrow> fffs_index_bucket list option" where
  "remove_loop n table hole idx =
     (if bucket_slot (table ! idx) = 0 then Some (table[hole := zero_bucket])
      else
        let home = bucket_for n (bucket_slot (table ! idx)) in
        if probe_distance (n - 1) home hole < probe_distance (n - 1) home idx
        then remove_loop n (table[hole := table ! idx]) idx ((idx + 1) AND (n - 1))
        else remove_loop n table hole ((idx + 1) AND (n - 1)))"

definition remove_bucket_at :: "nat \<Rightarrow> ('c, unit) fsop" where
  "remove_bucket_at remove_idx fs =
     (let n = fs_index_hash_table_size fs in
      case remove_loop n (fs_index_cache fs) remove_idx ((remove_idx + 1) AND (n - 1)) of
        None \<Rightarrow> None
      | Some table \<Rightarrow> Some (Inr (), fs\<lparr>fs_index_cache := table\<rparr>))"

definition fffs_index_cache_config_valid :: "nat \<Rightarrow> bool" where
  "fffs_index_cache_config_valid count \<longleftrightarrow>
     is_power_of_two count \<and> count \<le> FFFS_INDEX_HASH_TABLE_SIZE_MAX"

definition fffs_index_cache_required_size :: "nat \<Rightarrow> nat" where
  "fffs_index_cache_required_size count = 4 * count"

definition fffs_index_insert :: "u16 \<Rightarrow> u16 \<Rightarrow> ('c, unit) fsop" where
  "fffs_index_insert slot head = bindm (getm id) (\<lambda>fs.
     bindm (of_res (find_slot_bucket fs slot)) (\<lambda>(idx, found).
       modm (\<lambda>fs. fs\<lparr>fs_index_cache :=
         (fs_index_cache fs)[idx := \<lparr>bucket_slot = slot, bucket_head = head\<rparr>]\<rparr>)))"

definition fffs_index_remove :: "u16 \<Rightarrow> ('c, unit) fsop" where
  "fffs_index_remove slot = bindm (getm id) (\<lambda>fs.
     case find_slot_bucket fs slot of
       Inl e \<Rightarrow> if e \<noteq> FFFS_ERR_NO_SPACE then throw e else ret ()
     | Inr (idx, found) \<Rightarrow> if \<not> found then ret () else remove_bucket_at idx)"

definition fffs_index_set :: "u16 \<Rightarrow> u16 \<Rightarrow> ('c, unit) fsop" where
  "fffs_index_set slot head =
     (if head = 0 then fffs_index_remove slot else fffs_index_insert slot head)"

text \<open>\<^verbatim>\<open>*head, *found\<close>: \<open>None\<close> is not found.\<close>

definition fffs_index_head_for_slot :: "u16 \<Rightarrow> ('c, u16 option) fsop" where
  "fffs_index_head_for_slot slot = bindm (getm id) (\<lambda>fs.
     case find_slot_bucket fs slot of
       Inl e \<Rightarrow> if e \<noteq> FFFS_ERR_NO_SPACE then throw e else ret None
     | Inr (idx, found) \<Rightarrow>
         if \<not> found then ret None else ret (Some (bucket_head (fs_index_cache fs ! idx))))"

definition fffs_index_record_is_current :: "nat \<Rightarrow> nat \<Rightarrow> u16 \<Rightarrow> u16 \<Rightarrow> ('c, bool) fsop" where
  "fffs_index_record_is_current seq_pos offset slot head =
     bindm (fffs_index_head_for_slot slot) (\<lambda>cur. ret (cur = Some head))"

text \<open>\<^verbatim>\<open>fffs_index_iter_read\<close> on the iterator position; the next position with its slot and
  head, or \<open>None\<close> at the end of the table.\<close>

fun iter_read_loop :: "fffs_index_bucket list \<Rightarrow> nat \<Rightarrow> nat \<Rightarrow> (nat \<times> u16 \<times> u16) option" where
  "iter_read_loop table pos 0 = None"
| "iter_read_loop table pos (Suc left) =
     (if bucket_slot (table ! pos) = 0 then iter_read_loop table (Suc pos) left
      else Some (Suc pos, bucket_slot (table ! pos), bucket_head (table ! pos)))"

definition fffs_index_iter_read :: "'c fffs \<Rightarrow> nat \<Rightarrow> (nat \<times> u16 \<times> u16) option" where
  "fffs_index_iter_read fs pos =
     iter_read_loop (fs_index_cache fs) pos (fs_index_hash_table_size fs - pos)"

section \<open>Arithmetic of the probe sequence\<close>

lemma power_of_two_iff: "is_power_of_two n \<Longrightarrow> \<exists>k. n = 2 ^ k"
proof (induction n rule: less_induct)
  case (less n)
  show ?case
  proof (cases "even n")
    case True
    then obtain m where m: "n = 2 * m" by auto
    with less.prems have "m \<noteq> 0" by (auto simp: is_power_of_two_def)
    then have half: "(2 * m - 1) div 2 = m - 1" by arith
    have "n AND (n - 1) = 2 * (m AND (m - 1))"
      unfolding m by (subst and_rec) (simp only: half, simp)
    then have "is_power_of_two m"
      using less.prems \<open>m \<noteq> 0\<close> by (simp add: is_power_of_two_def)
    with less.IH [of m] m \<open>m \<noteq> 0\<close> obtain k where "m = 2 ^ k" by auto
    with m have "n = 2 ^ Suc k" by simp
    then show ?thesis ..
  next
    case False
    then obtain m where m: "n = 2 * m + 1" by (auto elim: oddE)
    have "n AND (n - 1) = 2 * m"
      using m by (subst and_rec) simp
    with less.prems m have "n = 2 ^ 0" by (simp add: is_power_of_two_def)
    then show ?thesis ..
  qed
qed

lemma and_size_mask: "is_power_of_two n \<Longrightarrow> x AND (n - 1) = x mod n"
proof -
  assume "is_power_of_two n"
  then obtain k where "n = 2 ^ k" using power_of_two_iff by blast
  then have "x AND (n - 1) = take_bit k x" by (simp add: take_bit_eq_mask mask_eq_exp_minus_1)
  with \<open>n = 2 ^ k\<close> show ?thesis by (simp add: take_bit_eq_mod)
qed

lemma power_of_two_pos: "is_power_of_two n \<Longrightarrow> 0 < n"
  by (simp add: is_power_of_two_def)

lemma bucket_for_less: "is_power_of_two n \<Longrightarrow> bucket_for n s < n"
  using power_of_two_pos by (simp only: bucket_for_def and_size_mask mod_less_divisor)

text \<open>\<open>dist n a b\<close>: how many steps forward from bucket \<open>a\<close> to bucket \<open>b\<close>.\<close>

definition dist :: "nat \<Rightarrow> nat \<Rightarrow> nat \<Rightarrow> nat" where
  "dist n a b = (if a \<le> b then b - a else b + n - a)"

lemma probe_distance_eq:
  assumes "is_power_of_two n" "a < n" "b < n"
  shows "probe_distance (n - 1) a b = dist n a b"
proof -
  obtain k where k: "n = 2 ^ k" using power_of_two_iff assms by blast
  have "int (n - 1) = mask k" by (simp add: k mask_eq_exp_minus_1 of_nat_diff)
  then have "(int b - int a) AND int (n - 1) = (int b - int a) mod int n"
    by (simp add: k flip: take_bit_eq_mask take_bit_eq_mod)
  also have "\<dots> = int (dist n a b)"
  proof (cases "a \<le> b")
    case True
    with assms show ?thesis by (simp add: dist_def of_nat_diff)
  next
    case False
    have "(int b - int a) mod int n = (int b - int a + int n) mod int n" by simp
    also have "\<dots> = int b - int a + int n"
      using False assms by (intro mod_pos_pos_trivial) auto
    finally show ?thesis using False assms by (simp add: dist_def of_nat_diff)
  qed
  finally show ?thesis by (simp add: probe_distance_def)
qed

text \<open>Positions as steps from a fixed bucket \<open>r\<close>: distances between other buckets are
  differences of these.\<close>

lemma dist_via:
  assumes "r < n" "a < n" "b < n"
  shows "dist n a b =
    (if dist n r a \<le> dist n r b then dist n r b - dist n r a else dist n r b + n - dist n r a)"
  using assms by (auto simp: dist_def)

lemma dist_less [simp]: "a < n \<Longrightarrow> b < n \<Longrightarrow> dist n a b < n"
  by (auto simp: dist_def)

lemma dist_self [simp]: "dist n a a = 0"
  by (simp add: dist_def)

lemma dist_step:
  assumes "a < n" "b < n" "Suc (dist n a b) < n"
  shows "dist n a ((b + 1) mod n) = Suc (dist n a b)"
  using assms by (cases "Suc b = n") (auto simp: dist_def split: if_splits)

lemma dist_inj: "r < n \<Longrightarrow> a < n \<Longrightarrow> b < n \<Longrightarrow> dist n r a = dist n r b \<Longrightarrow> a = b"
  by (auto simp: dist_def split: if_splits)

lemma dist_hit: "r < n \<Longrightarrow> k < n \<Longrightarrow> dist n r ((r + k) mod n) = k"
  by (auto simp: dist_def mod_if)

section \<open>The invariant and the map a table stands for\<close>

abbreviation full_bucket :: "fffs_index_bucket \<Rightarrow> bool" where
  "full_bucket b \<equiv> bucket_slot b \<noteq> 0"

text \<open>\<open>chain_ok\<close>: between the home bucket of an entry and the entry no bucket is empty.\<close>

definition chain_ok :: "nat \<Rightarrow> fffs_index_bucket list \<Rightarrow> bool" where
  "chain_ok n table \<longleftrightarrow> (\<forall>p < n. full_bucket (table ! p) \<longrightarrow>
     (\<forall>q < n. dist n (bucket_for n (bucket_slot (table ! p))) q <
              dist n (bucket_for n (bucket_slot (table ! p))) p \<longrightarrow> full_bucket (table ! q)))"

definition slots_distinct :: "nat \<Rightarrow> fffs_index_bucket list \<Rightarrow> bool" where
  "slots_distinct n table \<longleftrightarrow> (\<forall>p < n. \<forall>q < n. full_bucket (table ! p) \<longrightarrow>
     bucket_slot (table ! p) = bucket_slot (table ! q) \<longrightarrow> p = q)"

lemma chain_okD:
  "chain_ok n table \<Longrightarrow> p < n \<Longrightarrow> full_bucket (table ! p) \<Longrightarrow> q < n \<Longrightarrow>
     dist n (bucket_for n (bucket_slot (table ! p))) q <
     dist n (bucket_for n (bucket_slot (table ! p))) p \<Longrightarrow> full_bucket (table ! q)"
  unfolding chain_ok_def by blast

lemma slots_distinctD:
  "slots_distinct n table \<Longrightarrow> p < n \<Longrightarrow> q < n \<Longrightarrow> full_bucket (table ! p) \<Longrightarrow>
     bucket_slot (table ! p) = bucket_slot (table ! q) \<Longrightarrow> p = q"
  unfolding slots_distinct_def by blast

definition table_inv :: "nat \<Rightarrow> fffs_index_bucket list \<Rightarrow> bool" where
  "table_inv n table \<longleftrightarrow>
     is_power_of_two n \<and> length table = n \<and> chain_ok n table \<and> slots_distinct n table"

definition table_map :: "fffs_index_bucket list \<Rightarrow> u16 \<Rightarrow> u16 option" where
  "table_map table slot = (if slot = 0 then None else
     map_option bucket_head (find (\<lambda>b. bucket_slot b = slot) table))"

lemma table_map_Some:
  assumes "slots_distinct (length table) table"
  shows "table_map table slot = Some head \<longleftrightarrow> slot \<noteq> 0 \<and>
    (\<exists>p < length table. table ! p = \<lparr>bucket_slot = slot, bucket_head = head\<rparr>)"
  (is "_ \<longleftrightarrow> _ \<and> ?ex")
proof (cases "slot = 0")
  case False
  have "?ex" if "find (\<lambda>b. bucket_slot b = slot) table = Some b" "bucket_head b = head" for b
    using that by (auto simp: find_Some_iff)
  moreover have "\<exists>b. find (\<lambda>b. bucket_slot b = slot) table = Some b \<and> bucket_head b = head" if ?ex
  proof -
    from that obtain p where p: "p < length table"
      "table ! p = \<lparr>bucket_slot = slot, bucket_head = head\<rparr>" by blast
    then have "find (\<lambda>b. bucket_slot b = slot) table \<noteq> None"
      using nth_mem [of p table] by (auto simp: find_None_iff)
    then obtain b where b: "find (\<lambda>b. bucket_slot b = slot) table = Some b" by blast
    then obtain q where "q < length table" "table ! q = b" "bucket_slot b = slot"
      by (auto simp: find_Some_iff)
    with p assms False have "b = table ! p" by (auto simp: slots_distinct_def)
    with b p show ?thesis by simp
  qed
  ultimately show ?thesis using False by (auto simp: table_map_def)
qed (simp add: table_map_def)

lemma table_map_None:
  "table_map table slot = None \<longleftrightarrow> slot = 0 \<or> (\<forall>p < length table. bucket_slot (table ! p) \<noteq> slot)"
  by (auto simp: table_map_def find_None_iff in_set_conv_nth)

section \<open>Finding a slot\<close>

definition passed :: "nat \<Rightarrow> fffs_index_bucket list \<Rightarrow> u16 \<Rightarrow> nat \<Rightarrow> nat \<Rightarrow> bool" where
  "passed n table slot home k \<longleftrightarrow> (\<forall>q < n. dist n home q < k \<longrightarrow>
     full_bucket (table ! q) \<and> bucket_slot (table ! q) \<noteq> slot)"

lemma find_slot_loop_spec:
  assumes "is_power_of_two n" "home < n" "pos < n" "k + left = n"
    and "left \<noteq> 0 \<longrightarrow> dist n home pos = k" and "passed n table slot home k"
  shows "case find_slot_loop n table slot pos left of
      Inr (p, True) \<Rightarrow> p < n \<and> full_bucket (table ! p) \<and> bucket_slot (table ! p) = slot
    | Inr (p, False) \<Rightarrow> p < n \<and> \<not> full_bucket (table ! p) \<and> passed n table slot home (dist n home p)
    | Inl e \<Rightarrow> e = FFFS_ERR_NO_SPACE \<and> passed n table slot home n"
  using assms
proof (induction n table slot pos left arbitrary: k rule: find_slot_loop.induct)
  case (2 n table slot pos left)
  consider "bucket_slot (table ! pos) = 0" | "full_bucket (table ! pos)" "bucket_slot (table ! pos) = slot"
    | "full_bucket (table ! pos)" "bucket_slot (table ! pos) \<noteq> slot" by blast
  then show ?case
  proof cases
    case 3
    have p: "passed n table slot home (Suc k)"
      unfolding passed_def
    proof (intro allI impI)
      fix q assume q: "q < n" "dist n home q < Suc k"
      show "full_bucket (table ! q) \<and> bucket_slot (table ! q) \<noteq> slot"
      proof (cases "dist n home q < k")
        case True
        with q "2.prems"(6) show ?thesis unfolding passed_def by blast
      next
        case False
        with q(2) "2.prems"(5) have "dist n home q = dist n home pos" by linarith
        with dist_inj [OF "2.prems"(2) q(1) "2.prems"(3)] have "q = pos" by blast
        with 3 show ?thesis by simp
      qed
    qed
    have next_pos: "(pos + 1) AND (n - 1) = (pos + 1) mod n" "(pos + 1) mod n < n"
      using "2.prems"(1,3) by (simp_all only: and_size_mask mod_less_divisor)
    have "left \<noteq> 0 \<longrightarrow> dist n home ((pos + 1) mod n) = Suc k"
      using dist_step [of home n pos] "2.prems" by auto
    with "2.IH" [OF 3 _ _ _ _ _ p] "2.prems" 3 next_pos show ?thesis
      by simp
  next
    case 1
    with "2.prems" show ?thesis by simp
  next
    case 2
    with "2.prems" show ?thesis by simp
  qed
qed auto

lemma find_slot_cases:
  assumes inv: "table_inv n table" and "slot \<noteq> 0"
  obtains (found) p where "find_slot_loop n table slot (bucket_for n slot) n = Inr (p, True)" "p < n"
      "bucket_slot (table ! p) = slot" "table_map table slot = Some (bucket_head (table ! p))"
    | (free) p where "find_slot_loop n table slot (bucket_for n slot) n = Inr (p, False)" "p < n"
      "bucket_slot (table ! p) = 0" "table_map table slot = None"
      "passed n table slot (bucket_for n slot) (dist n (bucket_for n slot) p)"
    | (none) "find_slot_loop n table slot (bucket_for n slot) n = Inl FFFS_ERR_NO_SPACE"
      "table_map table slot = None" "\<forall>p < n. full_bucket (table ! p)"
proof -
  let ?h = "bucket_for n slot" and ?r = "find_slot_loop n table slot (bucket_for n slot) n"
  from inv have pow: "is_power_of_two n" and len: "length table = n"
    and chain: "chain_ok n table" and dst: "slots_distinct n table"
    by (auto simp: table_inv_def)
  note h = bucket_for_less [OF pow, of slot]
  have spec: "case ?r of
      Inr (p, True) \<Rightarrow> p < n \<and> full_bucket (table ! p) \<and> bucket_slot (table ! p) = slot
    | Inr (p, False) \<Rightarrow> p < n \<and> \<not> full_bucket (table ! p) \<and> passed n table slot ?h (dist n ?h p)
    | Inl e \<Rightarrow> e = FFFS_ERR_NO_SPACE \<and> passed n table slot ?h n"
    by (rule find_slot_loop_spec [OF pow h h, of 0]) (auto simp: passed_def)
  consider (T) p where "?r = Inr (p, True)" | (F) p where "?r = Inr (p, False)" | (E) e where "?r = Inl e"
    by (cases ?r) auto
  then show ?thesis
  proof cases
    case T
    with spec have p: "p < n" "bucket_slot (table ! p) = slot" by simp_all
    then have "table_map table slot = Some (bucket_head (table ! p))"
      using dst len assms(2) by (subst table_map_Some) (auto intro!: exI [of _ p])
    with T p that(1) show ?thesis by blast
  next
    case F
    with spec have p: "p < n" "\<not> full_bucket (table ! p)" "passed n table slot ?h (dist n ?h p)"
      by simp_all
    have "bucket_slot (table ! q) \<noteq> slot" if q: "q < n" for q
    proof
      assume eq: "bucket_slot (table ! q) = slot"
      with chain q assms(2) p have "\<not> dist n ?h p < dist n ?h q" by (auto simp: chain_ok_def)
      moreover have "\<not> dist n ?h q < dist n ?h p" using p(3) q eq by (auto simp: passed_def)
      ultimately have "p = q" using dist_inj [OF h p(1) q] by simp
      with p eq assms(2) show False by simp
    qed
    then have "table_map table slot = None" by (simp add: table_map_None len)
    with F p that(2) show ?thesis by simp
  next
    case E
    with spec have "e = FFFS_ERR_NO_SPACE"
      and *: "q < n \<Longrightarrow> full_bucket (table ! q) \<and> bucket_slot (table ! q) \<noteq> slot" for q
      using h by (auto simp: passed_def)
    with E that(3) show ?thesis by (simp add: table_map_None len)
  qed
qed

section \<open>Inserting\<close>

lemma find_list_update:
  "i < length xs \<Longrightarrow> \<not> P x \<Longrightarrow> \<not> P (xs ! i) \<Longrightarrow> find P (xs[i := x]) = find P xs"
  by (induction xs arbitrary: i) (auto split: nat.split)

lemma table_map_update:
  assumes "length table = n" "p < n" "slot \<noteq> 0"
    and "slots_distinct n (table[p := \<lparr>bucket_slot = slot, bucket_head = head\<rparr>])"
    and "bucket_slot (table ! p) = slot \<or> bucket_slot (table ! p) = 0"
  shows "table_map (table[p := \<lparr>bucket_slot = slot, bucket_head = head\<rparr>]) =
    (table_map table)(slot \<mapsto> head)"
proof (rule ext)
  fix s
  let ?b = "\<lparr>bucket_slot = slot, bucket_head = head\<rparr>"
  show "table_map (table[p := ?b]) s = ((table_map table)(slot \<mapsto> head)) s"
  proof (cases "s = slot")
    case True
    have "table_map (table[p := ?b]) slot = Some head"
      using assms(1-4) by (subst table_map_Some) (auto intro!: exI [of _ p])
    with True show ?thesis by simp
  next
    case False
    then show ?thesis
      using assms find_list_update [of p table "\<lambda>b. bucket_slot b = s" ?b]
      by (auto simp: table_map_def)
  qed
qed

lemma find_slot_place:
  assumes inv: "table_inv n table" and slot: "slot \<noteq> 0"
    and r: "find_slot_loop n table slot (bucket_for n slot) n = Inr (p, found)"
  shows "p < n" and "bucket_slot (table ! p) = slot \<or> bucket_slot (table ! p) = 0"
    and "q < n \<Longrightarrow> dist n (bucket_for n slot) q < dist n (bucket_for n slot) p \<Longrightarrow>
      full_bucket (table ! q)"
    and "q < n \<Longrightarrow> bucket_slot (table ! q) = slot \<Longrightarrow> q = p"
proof -
  from inv have len: "length table = n" and chain: "chain_ok n table"
    and dst: "slots_distinct n table" by (auto simp: table_inv_def)
  show "p < n" "bucket_slot (table ! p) = slot \<or> bucket_slot (table ! p) = 0"
    using r by (cases rule: find_slot_cases [OF inv slot]; simp)+
  show "full_bucket (table ! q)"
    if "q < n" "dist n (bucket_for n slot) q < dist n (bucket_for n slot) p"
  proof (cases rule: find_slot_cases [OF inv slot])
    case (1 p')
    with r have "bucket_slot (table ! p) = slot" "p < n" by simp_all
    with chain_okD [OF chain, of p q] that slot show ?thesis by simp
  next
    case (2 p')
    with r that show ?thesis unfolding passed_def by fastforce
  qed (use r in simp)
  show "q = p" if "q < n" "bucket_slot (table ! q) = slot"
  proof (cases rule: find_slot_cases [OF inv slot])
    case (1 p')
    with r have "bucket_slot (table ! p) = slot" "p < n" by simp_all
    with slots_distinctD [OF dst, of q p] that slot show ?thesis by simp
  next
    case (2 p')
    with that len slot show ?thesis by (auto simp: table_map_None)
  qed (use r in simp)
qed

lemma table_insert:
  fixes head :: u16
  assumes inv: "table_inv n table" and slot: "slot \<noteq> 0"
    and r: "find_slot_loop n table slot (bucket_for n slot) n = Inr (p, found)"
  defines "t' \<equiv> table[p := \<lparr>bucket_slot = slot, bucket_head = head\<rparr>]"
  shows "table_inv n t' \<and> table_map t' = (table_map table)(slot \<mapsto> head)"
proof -
  from inv have len: "length table = n" and chain: "chain_ok n table"
    and dst: "slots_distinct n table" by (auto simp: table_inv_def)
  note place = find_slot_place [OF inv slot r]
  have nth: "t' ! q = (if q = p then \<lparr>bucket_slot = slot, bucket_head = head\<rparr> else table ! q)" for q
    using place(1) len by (simp add: t'_def nth_list_update)
  have "chain_ok n t'"
    unfolding chain_ok_def
  proof (intro allI impI)
    fix x q
    assume *: "x < n" "full_bucket (t' ! x)" "q < n"
      "dist n (bucket_for n (bucket_slot (t' ! x))) q < dist n (bucket_for n (bucket_slot (t' ! x))) x"
    show "full_bucket (t' ! q)"
    proof (cases "x = p")
      case True
      with * place(3) slot show ?thesis by (simp add: nth)
    next
      case False
      with * chain_okD [OF chain, of x q] slot show ?thesis by (simp add: nth)
    qed
  qed
  moreover have d': "slots_distinct n t'"
    unfolding slots_distinct_def
  proof (intro allI impI)
    fix x q
    assume *: "x < n" "q < n" "full_bucket (t' ! x)" "bucket_slot (t' ! x) = bucket_slot (t' ! q)"
    show "x = q"
    proof (cases "x = p \<or> q = p")
      case True
      with *(4) place(4) [OF *(1)] place(4) [OF *(2)] show ?thesis
        by (auto simp: nth split: if_splits)
    next
      case False
      with * have "full_bucket (table ! x)" "bucket_slot (table ! x) = bucket_slot (table ! q)"
        by (simp_all add: nth)
      then show ?thesis by (rule slots_distinctD [OF dst *(1,2)])
    qed
  qed
  ultimately show ?thesis
    using inv table_map_update [OF len place(1) slot d' [unfolded t'_def] place(2)]
    by (simp add: table_inv_def t'_def)
qed

section \<open>Removing\<close>

text \<open>
  \<open>shifting\<close> is the loop invariant of the backward shift: \<open>r\<close> is the bucket being removed,
  \<open>e\<close> the first empty bucket after it; the hole and the index move from \<open>r\<close> towards \<open>e\<close>.
  The hole still holds a stale entry, so no bucket between \<open>r\<close> and \<open>e\<close> ever looks empty.
\<close>

definition shift_pos :: "nat \<Rightarrow> nat \<Rightarrow> nat \<Rightarrow> fffs_index_bucket list \<Rightarrow> nat \<Rightarrow> nat \<Rightarrow> bool" where
  "shift_pos n r e table hole idx \<longleftrightarrow>
     is_power_of_two n \<and> length table = n \<and> r < n \<and> e < n \<and> hole < n \<and> idx < n \<and>
     dist n r hole < dist n r idx \<and> dist n r idx \<le> dist n r e \<and>
     \<not> full_bucket (table ! e) \<and>
     (\<forall>q < n. dist n r q < dist n r e \<longrightarrow> full_bucket (table ! q))"

definition shift_chain :: "nat \<Rightarrow> fffs_index_bucket list \<Rightarrow> nat \<Rightarrow> bool" where
  "shift_chain n table hole \<longleftrightarrow>
     (\<forall>p < n. \<forall>q < n. p \<noteq> hole \<longrightarrow> full_bucket (table ! p) \<longrightarrow>
        dist n (bucket_for n (bucket_slot (table ! p))) q <
        dist n (bucket_for n (bucket_slot (table ! p))) p \<longrightarrow> full_bucket (table ! q))"

definition shift_gap :: "nat \<Rightarrow> nat \<Rightarrow> fffs_index_bucket list \<Rightarrow> nat \<Rightarrow> nat \<Rightarrow> bool" where
  "shift_gap n r table hole idx \<longleftrightarrow>
     (\<forall>p < n. dist n r hole < dist n r p \<longrightarrow> dist n r p < dist n r idx \<longrightarrow>
        \<not> dist n (bucket_for n (bucket_slot (table ! p))) hole <
          dist n (bucket_for n (bucket_slot (table ! p))) p)"

definition shift_distinct :: "nat \<Rightarrow> fffs_index_bucket list \<Rightarrow> nat \<Rightarrow> bool" where
  "shift_distinct n table hole \<longleftrightarrow>
     (\<forall>p < n. \<forall>q < n. p \<noteq> hole \<longrightarrow> q \<noteq> hole \<longrightarrow> full_bucket (table ! p) \<longrightarrow>
        bucket_slot (table ! p) = bucket_slot (table ! q) \<longrightarrow> p = q)"

text \<open>The entries a table holds when bucket \<open>hole\<close> is disregarded.\<close>

definition entries :: "nat \<Rightarrow> fffs_index_bucket list \<Rightarrow> nat \<Rightarrow> fffs_index_bucket set" where
  "entries n table hole = {b. full_bucket b \<and> (\<exists>p < n. p \<noteq> hole \<and> table ! p = b)}"

definition shifting ::
  "nat \<Rightarrow> fffs_index_bucket set \<Rightarrow> nat \<Rightarrow> nat \<Rightarrow> fffs_index_bucket list \<Rightarrow> nat \<Rightarrow> nat \<Rightarrow> bool" where
  "shifting n bs r e table hole idx \<longleftrightarrow>
     shift_pos n r e table hole idx \<and> shift_chain n table hole \<and> shift_gap n r table hole idx \<and>
     shift_distinct n table hole \<and> entries n table hole = bs"

lemma shift_posD:
  assumes "shift_pos n r e table hole idx"
  shows "is_power_of_two n" "length table = n" "r < n" "e < n" "hole < n" "idx < n"
    "dist n r hole < dist n r idx" "dist n r idx \<le> dist n r e" "\<not> full_bucket (table ! e)"
    "q < n \<Longrightarrow> dist n r q < dist n r e \<Longrightarrow> full_bucket (table ! q)"
  using assms by (auto simp: shift_pos_def)

lemma shift_chainD:
  "shift_chain n table hole \<Longrightarrow> p < n \<Longrightarrow> q < n \<Longrightarrow> p \<noteq> hole \<Longrightarrow> full_bucket (table ! p) \<Longrightarrow>
     dist n (bucket_for n (bucket_slot (table ! p))) q <
     dist n (bucket_for n (bucket_slot (table ! p))) p \<Longrightarrow> full_bucket (table ! q)"
  unfolding shift_chain_def by blast

lemma shift_gapD:
  "shift_gap n r table hole idx \<Longrightarrow> p < n \<Longrightarrow> dist n r hole < dist n r p \<Longrightarrow>
     dist n r p < dist n r idx \<Longrightarrow>
     \<not> dist n (bucket_for n (bucket_slot (table ! p))) hole <
       dist n (bucket_for n (bucket_slot (table ! p))) p"
  unfolding shift_gap_def by blast

lemma shift_distinctD:
  "shift_distinct n table hole \<Longrightarrow> p < n \<Longrightarrow> q < n \<Longrightarrow> p \<noteq> hole \<Longrightarrow> q \<noteq> hole \<Longrightarrow>
     full_bucket (table ! p) \<Longrightarrow> bucket_slot (table ! p) = bucket_slot (table ! q) \<Longrightarrow> p = q"
  unfolding shift_distinct_def by blast

text \<open>At the empty bucket the hole can be cleared: no probe sequence runs through it.\<close>

lemma hole_off_path:
  assumes pos: "shift_pos n r e table hole idx" and gap: "shift_gap n r table hole idx"
    and chain: "shift_chain n table hole" and empty: "\<not> full_bucket (table ! idx)"
    and p: "p < n" "p \<noteq> hole" "full_bucket (table ! p)"
  shows "\<not> dist n (bucket_for n (bucket_slot (table ! p))) hole <
    dist n (bucket_for n (bucket_slot (table ! p))) p"
proof
  let ?h = "bucket_for n (bucket_slot (table ! p))"
  note f = shift_posD [OF pos]
  assume less: "dist n ?h hole < dist n ?h p"
  have h: "?h < n" by (rule bucket_for_less [OF f(1)])
  have out: "\<not> (dist n r hole < dist n r p \<and> dist n r p < dist n r idx)"
    using shift_gapD [OF gap p(1)] less by blast
  have "p \<noteq> idx" using p(3) empty by blast
  then have "dist n r p \<noteq> dist n r idx" using dist_inj [OF f(3) p(1) f(6)] by blast
  moreover have "dist n r p \<noteq> dist n r hole" using dist_inj [OF f(3) p(1) f(5)] p(2) by blast
  ultimately have "dist n ?h idx < dist n ?h p"
    using less out f(7) dist_less [OF f(3) f(6)] dist_less [OF f(3) h] dist_less [OF f(3) p(1)]
    unfolding dist_via [OF f(3) h f(5)] dist_via [OF f(3) h p(1)] dist_via [OF f(3) h f(6)]
    by (auto split: if_splits)
  then show False using shift_chainD [OF chain p(1) f(6) p(2,3)] empty by blast
qed

lemma shifting_exit:
  assumes s: "shifting n bs r e table hole idx" and empty: "\<not> full_bucket (table ! idx)"
  defines "t' \<equiv> table[hole := zero_bucket]"
  shows "table_inv n t' \<and> entries n t' n = bs"
proof -
  from s have pos: "shift_pos n r e table hole idx" and gap: "shift_gap n r table hole idx"
    and chain: "shift_chain n table hole" and dst: "shift_distinct n table hole"
    and bs: "entries n table hole = bs" by (auto simp: shifting_def)
  note f = shift_posD [OF pos]
  have nth: "t' ! q = (if q = hole then zero_bucket else table ! q)" for q
    using f(2,5) by (simp add: t'_def nth_list_update)
  have zero: "bucket_slot zero_bucket = 0" by (simp add: zero_bucket_def)
  have "chain_ok n t'"
    unfolding chain_ok_def
  proof (intro allI impI)
    fix p q
    assume *: "p < n" "full_bucket (t' ! p)" "q < n"
      "dist n (bucket_for n (bucket_slot (t' ! p))) q < dist n (bucket_for n (bucket_slot (t' ! p))) p"
    then have p: "p \<noteq> hole" "full_bucket (table ! p)" by (auto simp: nth zero split: if_splits)
    with * shift_chainD [OF chain *(1,3) p] hole_off_path [OF pos gap chain empty *(1) p]
    show "full_bucket (t' ! q)" by (auto simp: nth)
  qed
  moreover have "slots_distinct n t'"
    unfolding slots_distinct_def
  proof (intro allI impI)
    fix p q
    assume *: "p < n" "q < n" "full_bucket (t' ! p)" "bucket_slot (t' ! p) = bucket_slot (t' ! q)"
    then have "p \<noteq> hole" "q \<noteq> hole" by (auto simp: nth zero split: if_splits)
    with * shift_distinctD [OF dst *(1,2)] show "p = q" by (simp add: nth)
  qed
  moreover have "entries n t' n = entries n table hole"
    by (auto simp: entries_def nth zero split: if_splits)
  ultimately show ?thesis
    using f(1,2) bs by (simp add: table_inv_def t'_def)
qed


text \<open>One round of the loop.\<close>

lemma shift_pos_step:
  assumes pos: "shift_pos n r e table hole idx" and full: "full_bucket (table ! idx)"
    and t': "t' = table \<or> t' = table[hole := table ! idx]" and hole': "hole' = hole \<or> hole' = idx"
  shows "shift_pos n r e t' hole' ((idx + 1) mod n)"
    and "dist n r ((idx + 1) mod n) = Suc (dist n r idx)"
proof -
  note f = shift_posD [OF pos]
  have "idx \<noteq> e" using full f(9) by blast
  then have "dist n r idx \<noteq> dist n r e" using dist_inj [OF f(3,6,4)] by blast
  with f(8) have less: "dist n r idx < dist n r e" by linarith
  with dist_less [OF f(3,4)] show step: "dist n r ((idx + 1) mod n) = Suc (dist n r idx)"
    by (intro dist_step [OF f(3,6)]) linarith
  have "hole \<noteq> e" using f(7,8) by auto
  moreover have "0 < n" using f(3) by linarith
  ultimately show "shift_pos n r e t' hole' ((idx + 1) mod n)"
    unfolding shift_pos_def step
    using f(1-9) t' hole' less full f(10) by (auto simp: nth_list_update split: if_splits)
qed

lemma shifting_move:
  assumes s: "shifting n bs r e table hole idx" and full: "full_bucket (table ! idx)"
    and closer: "dist n (bucket_for n (bucket_slot (table ! idx))) hole <
      dist n (bucket_for n (bucket_slot (table ! idx))) idx"
  defines "t' \<equiv> table[hole := table ! idx]"
  shows "shifting n bs r e t' idx ((idx + 1) mod n)"
proof -
  from s have pos: "shift_pos n r e table hole idx" and chain: "shift_chain n table hole"
    and dst: "shift_distinct n table hole" and bs: "entries n table hole = bs"
    by (auto simp: shifting_def)
  note f = shift_posD [OF pos]
  note step = shift_pos_step [OF pos full, of t' idx]
  have nth: "t' ! q = (if q = hole then table ! idx else table ! q)" for q
    using f(2,5) by (simp add: t'_def nth_list_update)
  have idx: "idx \<noteq> hole" using f(7) by auto
  have "shift_chain n t' idx"
    unfolding shift_chain_def
  proof (intro allI impI)
    fix p q
    assume *: "p < n" "q < n" "p \<noteq> idx" "full_bucket (t' ! p)"
      "dist n (bucket_for n (bucket_slot (t' ! p))) q < dist n (bucket_for n (bucket_slot (t' ! p))) p"
    show "full_bucket (t' ! q)"
    proof (cases "p = hole")
      case True
      with *(5) closer have "full_bucket (table ! q)"
        by (intro shift_chainD [OF chain f(6) *(2) idx full]) (simp add: nth)
      with full show ?thesis by (simp add: nth)
    next
      case False
      with *(4,5) have "full_bucket (table ! q)"
        by (intro shift_chainD [OF chain *(1,2)]) (simp_all add: nth)
      with full show ?thesis by (simp add: nth)
    qed
  qed
  moreover have "shift_gap n r t' idx ((idx + 1) mod n)"
    using step by (simp add: shift_gap_def t'_def)
  moreover have "shift_distinct n t' idx"
    unfolding shift_distinct_def
  proof (intro allI impI)
    fix p q
    assume *: "p < n" "q < n" "p \<noteq> idx" "q \<noteq> idx" "full_bucket (t' ! p)"
      "bucket_slot (t' ! p) = bucket_slot (t' ! q)"
    then show "p = q"
      using shift_distinctD [OF dst f(6) *(2) idx _ full] shift_distinctD [OF dst *(1) f(6) _ idx]
        shift_distinctD [OF dst *(1,2)] by (auto simp: nth split: if_splits)
  qed
  moreover have "entries n t' idx = entries n table hole"
  proof (rule set_eqI)
    fix b
    show "b \<in> entries n t' idx \<longleftrightarrow> b \<in> entries n table hole"
      unfolding entries_def mem_Collect_eq nth using idx f(5,6) full by metis
  qed
  ultimately show ?thesis
    using step bs by (simp add: shifting_def t'_def)
qed

lemma shifting_keep:
  assumes s: "shifting n bs r e table hole idx" and full: "full_bucket (table ! idx)"
    and away: "\<not> dist n (bucket_for n (bucket_slot (table ! idx))) hole <
      dist n (bucket_for n (bucket_slot (table ! idx))) idx"
  shows "shifting n bs r e table hole ((idx + 1) mod n)"
proof -
  from s have pos: "shift_pos n r e table hole idx" and gap: "shift_gap n r table hole idx"
    by (auto simp: shifting_def)
  note f = shift_posD [OF pos]
  note step = shift_pos_step [OF pos full, of table hole, simplified]
  have "shift_gap n r table hole ((idx + 1) mod n)"
    unfolding shift_gap_def
  proof (intro allI impI)
    fix p
    assume p: "p < n" "dist n r hole < dist n r p" "dist n r p < dist n r ((idx + 1) mod n)"
    then have "dist n r p < dist n r idx \<or> dist n r p = dist n r idx" using step by simp linarith
    with dist_inj [OF f(3) p(1) f(6)] have "dist n r p < dist n r idx \<or> p = idx" by blast
    with shift_gapD [OF gap p(1,2)] away
    show "\<not> dist n (bucket_for n (bucket_slot (table ! p))) hole <
        dist n (bucket_for n (bucket_slot (table ! p))) p" by blast
  qed
  with s step show ?thesis by (simp add: shifting_def)
qed

text \<open>The loop returns, and leaves a well-formed table without the removed entry.\<close>

lemma remove_loop_shifting:
  assumes "shifting n bs r e table hole idx"
  shows "\<exists>t'. remove_loop n table hole idx = Some t' \<and> table_inv n t' \<and> entries n t' n = bs"
  using assms
proof (induction "dist n r e - dist n r idx" arbitrary: table hole idx rule: less_induct)
  case less
  from less.prems have pos: "shift_pos n r e table hole idx" by (simp add: shifting_def)
  note f = shift_posD [OF pos]
  let ?h = "bucket_for n (bucket_slot (table ! idx))"
  have h: "?h < n" by (rule bucket_for_less [OF f(1)])
  note pd = probe_distance_eq [OF f(1) h f(5)] probe_distance_eq [OF f(1) h f(6)]
    and_size_mask [OF f(1)]
  show ?case
  proof (cases "full_bucket (table ! idx)")
    case False
    with shifting_exit [OF less.prems] show ?thesis
      by (subst remove_loop.simps) simp
  next
    case True
    then have "idx \<noteq> e" using f(9) by blast
    then have "dist n r idx \<noteq> dist n r e" using dist_inj [OF f(3,6,4)] by blast
    then have dec: "dist n r e - dist n r ((idx + 1) mod n) < dist n r e - dist n r idx"
      using shift_pos_step(2) [OF pos True, of table hole] f(8) by simp
    show ?thesis
    proof (cases "dist n ?h hole < dist n ?h idx")
      case closer: True
      with less.hyps [OF _ shifting_move [OF less.prems True closer]] dec True show ?thesis
        by (subst remove_loop.simps) (simp add: Let_def pd [unfolded One_nat_def])
    next
      case away: False
      with less.hyps [OF _ shifting_keep [OF less.prems True away]] dec True show ?thesis
        by (subst remove_loop.simps) (simp add: Let_def pd [unfolded One_nat_def])
    qed
  qed
qed

lemma shifting_start:
  assumes inv: "table_inv n table" and r: "r < n" "full_bucket (table ! r)"
    and empty: "\<exists>q < n. \<not> full_bucket (table ! q)"
  shows "\<exists>e. shifting n (entries n table r) r e table r ((r + 1) mod n)"
proof -
  from inv have pow: "is_power_of_two n" and len: "length table = n" and chain: "chain_ok n table"
    and dst: "slots_distinct n table" by (auto simp: table_inv_def)
  have "\<exists>e. (e < n \<and> \<not> full_bucket (table ! e)) \<and>
      (\<forall>q. q < n \<and> \<not> full_bucket (table ! q) \<longrightarrow> dist n r e \<le> dist n r q)"
    using empty ex_has_least_nat [of "\<lambda>q. q < n \<and> \<not> full_bucket (table ! q)"] by blast
  then obtain e where e: "e < n" "\<not> full_bucket (table ! e)"
    and least: "\<And>q. q < n \<Longrightarrow> \<not> full_bucket (table ! q) \<Longrightarrow> dist n r e \<le> dist n r q" by blast
  have "e \<noteq> r" using r e by blast
  then have pos: "0 < dist n r e" using dist_inj [OF r(1) r(1) e(1)] by auto
  with dist_less [OF r(1) e(1)] have step: "dist n r ((r + 1) mod n) = 1"
    using dist_step [OF r(1) r(1)] by simp
  have "full_bucket (table ! q)" if "q < n" "dist n r q < dist n r e" for q
    using least [of q] that by linarith
  with pow len r e pos have "shift_pos n r e table r ((r + 1) mod n)"
    unfolding shift_pos_def step by auto
  moreover have "shift_chain n table r" "shift_distinct n table r"
    using chain dst unfolding shift_chain_def shift_distinct_def chain_ok_def slots_distinct_def
    by blast+
  moreover have "shift_gap n r table r ((r + 1) mod n)"
    using step by (simp add: shift_gap_def)
  ultimately show ?thesis by (auto simp: shifting_def)
qed

lemma table_map_entries:
  assumes "table_inv n table"
  shows "table_map table slot = Some head \<longleftrightarrow>
    \<lparr>bucket_slot = slot, bucket_head = head\<rparr> \<in> entries n table n"
  using assms table_map_Some [of table slot head]
  by (auto simp: entries_def table_inv_def)

lemma table_remove:
  assumes inv: "table_inv n table" and r: "r < n" "bucket_slot (table ! r) = slot" "slot \<noteq> 0"
    and empty: "\<exists>q < n. \<not> full_bucket (table ! q)"
  shows "\<exists>t'. remove_loop n table r ((r + 1) AND (n - 1)) = Some t' \<and> table_inv n t' \<and>
    table_map t' = (table_map table)(slot := None)"
proof -
  from inv have pow: "is_power_of_two n" and dst: "slots_distinct n table"
    by (auto simp: table_inv_def)
  from shifting_start [OF inv r(1) _ empty] r(2,3) obtain e
    where "shifting n (entries n table r) r e table r ((r + 1) mod n)" by auto
  from remove_loop_shifting [OF this] obtain t' where
    t': "remove_loop n table r ((r + 1) mod n) = Some t'" "table_inv n t'"
      "entries n t' n = entries n table r" by blast
  have "b \<in> entries n table r \<longleftrightarrow> b \<in> entries n table n \<and> bucket_slot b \<noteq> slot" for b
    unfolding entries_def mem_Collect_eq using slots_distinctD [OF dst _ r(1)] r by (metis less_irrefl)
  then have "(table_map t' s = Some x) = (((table_map table)(slot := None)) s = Some x)" for s x
    using table_map_entries [OF t'(2)] table_map_entries [OF inv] t'(3) by auto
  then have "table_map t' = (table_map table)(slot := None)"
    by (intro ext) (metis not_None_eq)
  with t' and_size_mask [OF pow] show ?thesis by simp
qed


section \<open>The cache operations on a mounted file system\<close>

definition cache_inv :: "'c fffs \<Rightarrow> bool" where
  "cache_inv fs \<longleftrightarrow> table_inv (fs_index_hash_table_size fs) (fs_index_cache fs)"

definition cache_map :: "'c fffs \<Rightarrow> u16 \<Rightarrow> u16 option" where
  "cache_map fs = table_map (fs_index_cache fs)"

text \<open>All buckets hold an entry exactly when the map has as many keys as there are buckets.\<close>

lemma dom_table_map:
  "length table = n \<Longrightarrow> dom (table_map table) = (\<lambda>p. bucket_slot (table ! p)) ` {p. p < n \<and> full_bucket (table ! p)}"
proof -
  assume n: "length table = n"
  have "slot \<in> dom (table_map table) \<longleftrightarrow> slot \<noteq> 0 \<and> (\<exists>p < n. bucket_slot (table ! p) = slot)" for slot
    using table_map_None [of table slot] n by (auto simp: domIff)
  then show ?thesis by (intro set_eqI) auto
qed

lemma finite_dom_table_map [simp]: "finite (dom (table_map table))"
  by (simp add: dom_table_map)

lemma card_table_map:
  assumes "table_inv n table"
  shows "card (dom (table_map table)) = card {p. p < n \<and> full_bucket (table ! p)}"
  using assms dom_table_map [of table n]
  by (auto simp: table_inv_def card_image inj_on_def slots_distinct_def)

lemma room_empty_bucket:
  assumes "table_inv n table" "card (dom (table_map table)) < n"
  shows "\<exists>q < n. \<not> full_bucket (table ! q)"
proof (rule ccontr)
  assume "\<not> ?thesis"
  then have "{p. p < n \<and> full_bucket (table ! p)} = {..<n}" by auto
  with card_table_map [OF assms(1)] assms(2) show False by simp
qed

lemma find_slot_bucket_eq:
  "slot \<noteq> 0 \<Longrightarrow> find_slot_bucket fs slot = find_slot_loop (fs_index_hash_table_size fs)
     (fs_index_cache fs) slot (bucket_for (fs_index_hash_table_size fs) slot)
     (fs_index_hash_table_size fs)"
  by (simp add: find_slot_bucket_def Let_def)

lemma cache_head_for_slot:
  assumes "cache_inv fs" "slot \<noteq> 0"
  shows "fffs_index_head_for_slot slot fs = Some (Inr (cache_map fs slot), fs)"
  using assms unfolding cache_inv_def cache_map_def
  by (cases rule: find_slot_cases [OF assms(1) [unfolded cache_inv_def] assms(2)])
    (simp_all add: fffs_index_head_for_slot_def find_slot_bucket_eq bindm_def getm_def ret_def)

lemma cache_insert:
  assumes inv: "cache_inv fs" and slot: "slot \<noteq> 0"
    and room: "card (dom (cache_map fs)) < fs_index_hash_table_size fs \<or> slot \<in> dom (cache_map fs)"
  shows "\<exists>t. fffs_index_insert slot head fs = Some (Inr (), fs\<lparr>fs_index_cache := t\<rparr>) \<and>
    table_inv (fs_index_hash_table_size fs) t \<and> table_map t = (cache_map fs)(slot \<mapsto> head)"
proof -
  let ?n = "fs_index_hash_table_size fs" and ?t = "fs_index_cache fs"
  note inv' = inv [unfolded cache_inv_def]
  obtain p found where r: "find_slot_loop ?n ?t slot (bucket_for ?n slot) ?n = Inr (p, found)"
  proof (cases rule: find_slot_cases [OF inv' slot])
    case 3
    with room room_empty_bucket [OF inv'] have False by (auto simp: cache_map_def)
    then show ?thesis ..
  qed (use that in blast)+
  with table_insert [OF inv' slot r] find_slot_bucket_eq [OF slot, of fs] show ?thesis
    by (auto simp: fffs_index_insert_def bindm_def getm_def modm_def of_res_def cache_map_def)
qed

text \<open>A new slot does not fit into a full table: the insert reports it and changes nothing.\<close>

lemma cache_insert_full:
  assumes inv: "cache_inv fs" and slot: "slot \<noteq> 0" and fresh: "slot \<notin> dom (cache_map fs)"
    and full: "card (dom (cache_map fs)) = fs_index_hash_table_size fs"
  shows "fffs_index_insert slot head fs = Some (Inl FFFS_ERR_NO_SPACE, fs)"
proof (cases rule: find_slot_cases [OF inv [unfolded cache_inv_def] slot])
  case (2 p)
  let ?n = "fs_index_hash_table_size fs" and ?t = "fs_index_cache fs"
  have "{p. p < ?n \<and> full_bucket (?t ! p)} \<subset> {..<?n}" using 2 by auto
  from psubset_card_mono [OF _ this] card_table_map [OF inv [unfolded cache_inv_def]] full
  show ?thesis by (simp add: cache_map_def)
qed (use fresh find_slot_bucket_eq [OF slot, of fs] in
    \<open>auto simp: cache_map_def fffs_index_insert_def bindm_def getm_def of_res_def\<close>)

lemma cache_remove:
  assumes inv: "cache_inv fs" and slot: "slot \<noteq> 0"
    and room: "card (dom (cache_map fs)) < fs_index_hash_table_size fs"
  shows "\<exists>t. fffs_index_remove slot fs = Some (Inr (), fs\<lparr>fs_index_cache := t\<rparr>) \<and>
    table_inv (fs_index_hash_table_size fs) t \<and> table_map t = (cache_map fs)(slot := None)"
proof (cases rule: find_slot_cases [OF inv [unfolded cache_inv_def] slot])
  case (1 p)
  let ?n = "fs_index_hash_table_size fs" and ?t = "fs_index_cache fs"
  note inv' = inv [unfolded cache_inv_def]
  from table_remove [OF inv' 1(2,3) slot room_empty_bucket [OF inv']] room
  obtain t where "remove_loop ?n ?t p ((p + 1) AND (?n - 1)) = Some t" "table_inv ?n t"
    "table_map t = (table_map ?t)(slot := None)" by (auto simp: cache_map_def)
  with 1(1) find_slot_bucket_eq [OF slot, of fs] show ?thesis
    by (auto simp: fffs_index_remove_def remove_bucket_at_def bindm_def getm_def cache_map_def)
qed (use inv find_slot_bucket_eq [OF slot, of fs] in
    \<open>auto simp: cache_map_def cache_inv_def fffs_index_remove_def bindm_def getm_def ret_def
       fun_upd_idem intro!: exI [of _ "fs_index_cache fs"]\<close>)

text \<open>In a full table the shift loop meets no empty bucket and runs forever.\<close>

lemma remove_loop_full:
  assumes "remove_loop n table hole idx = Some t" and "is_power_of_two n" "length table = n"
    "hole < n" "idx < n"
  shows "\<exists>q < n. \<not> full_bucket (table ! q)"
  using assms
proof (induction rule: remove_loop.raw_induct [rotated 1, consumes 1])
  case (1 rl n table hole idx t)
  have step: "(idx + 1) AND (n - 1) < n"
    using "1.prems" by (simp only: and_size_mask mod_less_divisor power_of_two_pos)
  show ?case
  proof (rule ccontr)
    assume full: "\<not> ?case"
    then have *: "full_bucket (table ! idx)" "\<forall>q < n. full_bucket (table[hole := table ! idx] ! q)"
      using "1.prems" by (auto simp: nth_list_update)
    show False
      using "1.hyps" * full step "1.prems"
        "1.IH" [of n "table[hole := table ! idx]" idx "(idx + 1) AND (n - 1)" t]
        "1.IH" [of n table hole "(idx + 1) AND (n - 1)" t]
      by (auto simp: Let_def split: if_splits)
  qed
qed


section \<open>The full slot table\<close>

text \<open>\<^verbatim>\<open>src/fffs_ram_index.c\<close>, the alternative \<^verbatim>\<open>FFFS_INDEX_CACHE_FULL_SLOT_HEADS\<close>: the same
  function names in C, one head for each of the 65536 slots, 0 for none.\<close>

definition ram_index_cache_config_valid :: "nat \<Rightarrow> bool" where
  "ram_index_cache_config_valid count \<longleftrightarrow> count \<ge> FFFS_SLOT_COUNT"

definition ram_index_cache_required_size :: "nat \<Rightarrow> nat" where
  "ram_index_cache_required_size count = 2 * FFFS_SLOT_COUNT"

definition ram_index_insert :: "u16 \<Rightarrow> u16 \<Rightarrow> ('c, unit) fsop" where
  "ram_index_insert slot head =
     modm (\<lambda>fs. fs\<lparr>fs_index_heads := (fs_index_heads fs)[unat slot := head]\<rparr>)"

definition ram_index_remove :: "u16 \<Rightarrow> ('c, unit) fsop" where
  "ram_index_remove slot =
     modm (\<lambda>fs. fs\<lparr>fs_index_heads := (fs_index_heads fs)[unat slot := 0]\<rparr>)"

definition ram_index_set :: "u16 \<Rightarrow> u16 \<Rightarrow> ('c, unit) fsop" where
  "ram_index_set slot head = (if head = 0 then ram_index_remove slot else ram_index_insert slot head)"

definition ram_index_head_for_slot :: "u16 \<Rightarrow> ('c, u16 option) fsop" where
  "ram_index_head_for_slot slot = bindm (getm id) (\<lambda>fs.
     let head = fs_index_heads fs ! unat slot in ret (if head \<noteq> 0 then Some head else None))"

definition ram_index_record_is_current :: "nat \<Rightarrow> nat \<Rightarrow> u16 \<Rightarrow> u16 \<Rightarrow> ('c, bool) fsop" where
  "ram_index_record_is_current seq_pos offset slot head =
     bindm (ram_index_head_for_slot slot) (\<lambda>cur. ret (cur = Some head))"

fun ram_iter_read_loop :: "u16 list \<Rightarrow> nat \<Rightarrow> nat \<Rightarrow> (nat \<times> u16 \<times> u16) option" where
  "ram_iter_read_loop heads pos 0 = None"
| "ram_iter_read_loop heads pos (Suc left) =
     (if heads ! pos = 0 then ram_iter_read_loop heads (Suc pos) left
      else Some (Suc pos, of_nat pos, heads ! pos))"

definition ram_index_iter_read :: "'c fffs \<Rightarrow> nat \<Rightarrow> (nat \<times> u16 \<times> u16) option" where
  "ram_index_iter_read fs pos = ram_iter_read_loop (fs_index_heads fs) pos (FFFS_SLOT_COUNT - pos)"

definition ram_inv :: "'c fffs \<Rightarrow> bool" where
  "ram_inv fs \<longleftrightarrow> length (fs_index_heads fs) = FFFS_SLOT_COUNT"

definition ram_map :: "'c fffs \<Rightarrow> u16 \<Rightarrow> u16 option" where
  "ram_map fs slot = (let head = fs_index_heads fs ! unat slot in if head \<noteq> 0 then Some head else None)"

section \<open>The interface of a slot cache\<close>

text \<open>What the index log relies on.  \<open>cap\<close> is how many slots may be live at once: one less than
  the buckets of a hash table, because removal needs an empty bucket to stop at.\<close>

definition slot_upd :: "u16 \<times> u16 \<Rightarrow> (u16 \<Rightarrow> u16 option) \<Rightarrow> u16 \<Rightarrow> u16 option" where
  "slot_upd rec m = m(fst rec := (if snd rec = 0 then None else Some (snd rec)))"

definition replay_map :: "(u16 \<times> u16) list \<Rightarrow> (u16 \<Rightarrow> u16 option) \<Rightarrow> u16 \<Rightarrow> u16 option" where
  "replay_map recs m = fold slot_upd recs m"

lemma replay_map_simps [simp]:
  "replay_map [] m = m"
  "replay_map (rec # recs) m = replay_map recs (slot_upd rec m)"
  "replay_map (xs @ ys) m = replay_map ys (replay_map xs m)"
  by (simp_all add: replay_map_def)

text \<open>The last record of a slot decides.\<close>

lemma replay_map_last:
  "replay_map recs m slot =
     (case find (\<lambda>rec. fst rec = slot) (rev recs) of
        None \<Rightarrow> m slot
      | Some rec \<Rightarrow> if snd rec = 0 then None else Some (snd rec))"
  by (induction recs rule: rev_induct) (auto simp: slot_upd_def)

lemma dom_replay_map: "dom (replay_map recs m) \<subseteq> dom m \<union> fst ` set recs"
proof (induction recs arbitrary: m)
  case (Cons rec recs)
  have "dom (slot_upd rec m) \<subseteq> insert (fst rec) (dom m)"
    by (auto simp: slot_upd_def split: if_splits)
  with Cons.IH [of "slot_upd rec m"] show ?case by auto
qed simp

locale slot_cache =
  fixes inv :: "'s \<Rightarrow> bool"
    and slots :: "'s \<Rightarrow> u16 \<Rightarrow> u16 option"
    and cap :: "'s \<Rightarrow> nat"
    and rest :: "'s \<Rightarrow> 'r"
    and set_head :: "u16 \<Rightarrow> u16 \<Rightarrow> ('s, unit) op"
    and look :: "u16 \<Rightarrow> ('s, u16 option) op"
  assumes look_spec: "inv s \<Longrightarrow> slot \<noteq> 0 \<Longrightarrow> look slot s = Some (Inr (slots s slot), s)"
    and set_spec: "inv s \<Longrightarrow> slot \<noteq> 0 \<Longrightarrow> card (insert slot (dom (slots s))) \<le> cap s \<Longrightarrow>
      \<exists>s'. set_head slot head s = Some (Inr (), s') \<and> inv s' \<and> cap s' = cap s \<and> rest s' = rest s \<and>
        slots s' = slot_upd (slot, head) (slots s)"
begin

fun set_all :: "(u16 \<times> u16) list \<Rightarrow> ('s, unit) op" where
  "set_all [] = ret ()"
| "set_all ((slot, head) # recs) = seqm (set_head slot head) (set_all recs)"

text \<open>Replaying a log whose slots fit gives, for every slot, the head of its last record.\<close>

lemma set_all_spec:
  assumes "inv s" "0 \<notin> fst ` set recs" "card (dom (slots s) \<union> fst ` set recs) \<le> cap s"
  shows "\<exists>s'. set_all recs s = Some (Inr (), s') \<and> inv s' \<and> cap s' = cap s \<and> rest s' = rest s \<and>
    slots s' = replay_map recs (slots s)"
  using assms
proof (induction recs arbitrary: s)
  case Nil
  then show ?case by (simp add: ret_def)
next
  case (Cons rec recs)
  obtain slot head where rec: "rec = (slot, head)" by (cases rec)
  have fin: "finite (dom (slots s) \<union> fst ` set (rec # recs))"
    by (rule finite_subset [OF subset_UNIV]) (rule finite)
  have "card (insert slot (dom (slots s))) \<le> card (dom (slots s) \<union> fst ` set (rec # recs))"
    using fin by (rule card_mono) (auto simp: rec)
  with set_spec [of s slot head] Cons.prems rec obtain s' where
    s': "set_head slot head s = Some (Inr (), s')" "inv s'" "cap s' = cap s" "rest s' = rest s"
      "slots s' = slot_upd (slot, head) (slots s)" by fastforce
  have "card (dom (slots s') \<union> fst ` set recs) \<le> card (dom (slots s) \<union> fst ` set (rec # recs))"
    using fin by (rule card_mono) (auto simp: s'(5) rec slot_upd_def split: if_splits)
  with Cons.IH [of s'] Cons.prems s' show ?case
    by (auto simp: rec seqm_def bindm_def)
qed

lemma look_after_set_all:
  assumes "inv s" "0 \<notin> fst ` set recs" "card (dom (slots s) \<union> fst ` set recs) \<le> cap s" "slot \<noteq> 0"
  shows "\<exists>s'. seqm (set_all recs) (look slot) s = Some (Inr (replay_map recs (slots s) slot), s')"
  using set_all_spec [OF assms(1-3)] look_spec assms(4)
  by (fastforce simp: seqm_def bindm_def)

end

lemma cache_set:
  assumes inv: "cache_inv fs" and slot: "slot \<noteq> 0"
    and room: "card (insert slot (dom (cache_map fs))) \<le> fs_index_hash_table_size fs - 1"
  shows "\<exists>t. fffs_index_set slot head fs = Some (Inr (), fs\<lparr>fs_index_cache := t\<rparr>) \<and>
    cache_inv (fs\<lparr>fs_index_cache := t\<rparr>) \<and>
    cache_map (fs\<lparr>fs_index_cache := t\<rparr>) = slot_upd (slot, head) (cache_map fs)"
proof -
  have fin: "finite (dom (cache_map fs))" by (simp add: cache_map_def)
  have pos: "0 < fs_index_hash_table_size fs"
    using inv power_of_two_pos by (auto simp: cache_inv_def table_inv_def)
  from fin have "card (dom (cache_map fs)) \<le> card (insert slot (dom (cache_map fs)))"
    by (simp add: card_insert_le)
  with room pos have "card (dom (cache_map fs)) < fs_index_hash_table_size fs" by linarith
  with cache_remove [OF inv slot] cache_insert [OF inv slot, of head] show ?thesis
    by (auto simp: fffs_index_set_def cache_inv_def cache_map_def slot_upd_def)
qed

interpretation hash: slot_cache cache_inv cache_map "\<lambda>fs. fs_index_hash_table_size fs - 1"
  "\<lambda>fs. fs\<lparr>fs_index_cache := []\<rparr>" fffs_index_set fffs_index_head_for_slot
proof
  fix fs :: "'c fffs" and slot head :: u16
  assume inv: "cache_inv fs" and slot: "slot \<noteq> 0"
  from inv slot show "fffs_index_head_for_slot slot fs = Some (Inr (cache_map fs slot), fs)"
    by (rule cache_head_for_slot)
  assume "card (insert slot (dom (cache_map fs))) \<le> fs_index_hash_table_size fs - 1"
  from cache_set [OF inv slot this] obtain t
    where t: "fffs_index_set slot head fs = Some (Inr (), fs\<lparr>fs_index_cache := t\<rparr>)"
      "cache_inv (fs\<lparr>fs_index_cache := t\<rparr>)"
      "cache_map (fs\<lparr>fs_index_cache := t\<rparr>) = slot_upd (slot, head) (cache_map fs)" by blast
  then show "\<exists>fs'. fffs_index_set slot head fs = Some (Inr (), fs') \<and> cache_inv fs' \<and>
      fs_index_hash_table_size fs' - 1 = fs_index_hash_table_size fs - 1 \<and>
      fs'\<lparr>fs_index_cache := []\<rparr> = fs\<lparr>fs_index_cache := []\<rparr> \<and>
      cache_map fs' = slot_upd (slot, head) (cache_map fs)"
    by (intro exI [of _ "fs\<lparr>fs_index_cache := t\<rparr>"]) simp
qed

interpretation ram: slot_cache ram_inv ram_map "\<lambda>fs. FFFS_SLOT_COUNT"
  "\<lambda>fs. fs\<lparr>fs_index_heads := []\<rparr>" ram_index_set ram_index_head_for_slot
proof
  fix fs :: "'c fffs" and slot head :: u16
  assume inv: "ram_inv fs"
  show "ram_index_head_for_slot slot fs = Some (Inr (ram_map fs slot), fs)"
    by (simp add: ram_index_head_for_slot_def ram_map_def bindm_def getm_def ret_def Let_def)
  let ?fs' = "fs\<lparr>fs_index_heads := (fs_index_heads fs)[unat slot := head]\<rparr>"
  have "ram_map ?fs' = slot_upd (slot, head) (ram_map fs)"
    using inv by (auto simp: ram_map_def slot_upd_def ram_inv_def nth_list_update Let_def fun_eq_iff
        dest: word_unat_eq_iff [THEN iffD2])
  with inv show "\<exists>fs'. ram_index_set slot head fs = Some (Inr (), fs') \<and> ram_inv fs' \<and>
      FFFS_SLOT_COUNT = FFFS_SLOT_COUNT \<and> fs'\<lparr>fs_index_heads := []\<rparr> = fs\<lparr>fs_index_heads := []\<rparr> \<and>
      ram_map fs' = slot_upd (slot, head) (ram_map fs)"
    by (intro exI [of _ ?fs'])
      (simp add: ram_index_set_def ram_index_insert_def ram_index_remove_def modm_def ram_inv_def)
qed


section \<open>Properties\<close>

text \<open>C14: inserting a nonzero head into a well-formed hash cache that has an empty bucket, or that
  already holds the slot, succeeds, keeps the table well formed and binds exactly that slot.\<close>

theorem index_insert_refines:
  assumes "cache_inv fs" and "slot \<noteq> 0"
    and "card (dom (cache_map fs)) < fs_index_hash_table_size fs \<or> slot \<in> dom (cache_map fs)"
  shows "wp (fffs_index_insert slot head)
    (\<lambda>r fs'. r = Inr () \<and> cache_inv fs' \<and> cache_map fs' = (cache_map fs)(slot \<mapsto> head)) fs"
  using cache_insert [OF assms, of head] by (auto simp: wp_iff cache_inv_def cache_map_def)

text \<open>C13: removing a slot from a well-formed hash cache with at least one empty bucket returns: the
  backward shift terminates, keeps every probe chain intact and unbinds exactly that slot.\<close>

theorem index_remove_refines:
  assumes "cache_inv fs" and "slot \<noteq> 0"
    and "card (dom (cache_map fs)) < fs_index_hash_table_size fs"
  shows "wp (fffs_index_remove slot)
    (\<lambda>r fs'. r = Inr () \<and> cache_inv fs' \<and> cache_map fs' = (cache_map fs)(slot := None)) fs"
  using cache_remove [OF assms] by (auto simp: wp_iff cache_inv_def cache_map_def)

text \<open>C32: removing a slot that is present from a completely full hash cache never returns: the shift
  loop of \<^verbatim>\<open>remove_bucket_at\<close> stops only at an empty bucket and there is none.\<close>

theorem index_remove_full_diverges:
  assumes "cache_inv fs" and "slot \<in> dom (cache_map fs)"
    and "card (dom (cache_map fs)) = fs_index_hash_table_size fs"
  shows "fffs_index_remove slot fs = None"
proof -
  let ?n = "fs_index_hash_table_size fs" and ?t = "fs_index_cache fs"
  note inv = assms(1) [unfolded cache_inv_def]
  have slot: "slot \<noteq> 0" using assms(2) by (auto simp: cache_map_def table_map_def)
  have all: "full_bucket (?t ! q)" if "q < ?n" for q
  proof (rule ccontr)
    assume "\<not> full_bucket (?t ! q)"
    with that have "{p. p < ?n \<and> full_bucket (?t ! p)} \<subset> {..<?n}" by auto
    from psubset_card_mono [OF _ this] card_table_map [OF inv] assms(3)
    show False by (simp add: cache_map_def)
  qed
  from inv have n: "is_power_of_two ?n" "length ?t = ?n" by (auto simp: table_inv_def)
  show ?thesis
  proof (cases rule: find_slot_cases [OF inv slot])
    case (1 p)
    have "(p + 1) AND (?n - 1) < ?n"
      using n(1) by (simp only: and_size_mask mod_less_divisor power_of_two_pos)
    with remove_loop_full [OF _ n 1(2)] all
    have "remove_loop ?n ?t p ((p + 1) AND (?n - 1)) = None" by (meson not_None_eq)
    with 1(1) find_slot_bucket_eq [OF slot, of fs] show ?thesis
      by (simp add: fffs_index_remove_def remove_bucket_at_def bindm_def getm_def Let_def)
  qed (use assms(2) in \<open>auto simp: cache_map_def\<close>)
qed

text \<open>C28: setting the heads of a list of index records one after the other, as mount does, leaves a
  hash cache in which looking up any slot gives the head of the last record of that slot, as long
  as the table keeps one bucket empty.\<close>

theorem hash_cache_replay:
  assumes "cache_inv fs" and "0 \<notin> fst ` set recs"
    and "card (dom (cache_map fs) \<union> fst ` set recs) \<le> fs_index_hash_table_size fs - 1"
    and "slot \<noteq> 0"
  shows "\<exists>fs'. seqm (hash.set_all recs) (fffs_index_head_for_slot slot) fs =
    Some (Inr (case find (\<lambda>rec. fst rec = slot) (rev recs) of
        None \<Rightarrow> cache_map fs slot
      | Some rec \<Rightarrow> if snd rec = 0 then None else Some (snd rec)), fs')"
  using hash.look_after_set_all [OF assms] by (simp add: replay_map_last)

text \<open>C29: the full slot table gives the same answers after the same records, without a capacity
  limit.\<close>

theorem ram_cache_replay:
  assumes "ram_inv fs" and "0 \<notin> fst ` set recs" and "slot \<noteq> 0"
  shows "\<exists>fs'. seqm (ram.set_all recs) (ram_index_head_for_slot slot) fs =
    Some (Inr (case find (\<lambda>rec. fst rec = slot) (rev recs) of
        None \<Rightarrow> ram_map fs slot
      | Some rec \<Rightarrow> if snd rec = 0 then None else Some (snd rec)), fs')"
proof -
  have "card (dom (ram_map fs) \<union> fst ` set recs) \<le> card (UNIV :: u16 set)"
    by (rule card_mono) auto
  also have "\<dots> = FFFS_SLOT_COUNT" by (simp add: card_word)
  finally show ?thesis
    using ram.look_after_set_all [OF assms(1,2) _ assms(3)] by (simp add: replay_map_last)
qed


section \<open>Concrete instances\<close>

definition cache_example :: "fffs_index_bucket list \<Rightarrow> unit fffs" where
  "cache_example table =
     (zero_fs null_backend)\<lparr>fs_index_cache := table, fs_index_hash_table_size := length table\<rparr>"

abbreviation bucket :: "u16 \<Rightarrow> u16 \<Rightarrow> fffs_index_bucket" where
  "bucket s h \<equiv> \<lparr>bucket_slot = s, bucket_head = h\<rparr>"

lemma less_2_iff: "(\<forall>p < 2. P p) \<longleftrightarrow> P 0 \<and> P (1 :: nat)"
  by (auto simp: less_2_cases_iff)

lemma cache_example_inv:
  assumes "length table = 2"
    and "bucket_slot (table ! 0) = 0 \<longrightarrow> bucket_slot (table ! 1) \<noteq> 0 \<longrightarrow> odd (unat (bucket_slot (table ! 1)))"
    and "bucket_slot (table ! 1) = 0 \<longrightarrow> bucket_slot (table ! 0) \<noteq> 0 \<longrightarrow> even (unat (bucket_slot (table ! 0)))"
    and "bucket_slot (table ! 0) \<noteq> 0 \<longrightarrow> bucket_slot (table ! 0) \<noteq> bucket_slot (table ! 1)"
  shows "cache_inv (cache_example table)"
proof -
  have pow: "is_power_of_two 2" by (simp add: is_power_of_two_def)
  have "bucket_for 2 s = (if even (unat s) then 0 else 1)" for s
    by (simp only: bucket_for_def and_size_mask [OF pow]) (simp add: mod_2_eq_odd)
  then have "chain_ok 2 table" "slots_distinct 2 table"
    unfolding chain_ok_def slots_distinct_def less_2_iff using assms by (auto simp: dist_def)
  with pow assms(1) show ?thesis
    by (simp add: cache_inv_def table_inv_def cache_example_def)
qed

lemma cache_example_map:
  "cache_map (cache_example table) = table_map table"
  "fs_index_hash_table_size (cache_example table) = length table"
  by (simp_all add: cache_map_def cache_example_def)

lemma table_map_examples:
  "table_map [bucket 2 7, zero_bucket] = [2 \<mapsto> 7]"
  "table_map [bucket 2 7, bucket 4 9] = [2 \<mapsto> 7, 4 \<mapsto> 9]"
  by (auto simp: fun_eq_iff table_map_def zero_bucket_def)

lemma cache_examples_inv:
  "cache_inv (cache_example [bucket 2 7, zero_bucket])"
  "cache_inv (cache_example [bucket 2 7, bucket 4 9])"
  by (rule cache_example_inv; simp add: zero_bucket_def)+

lemmas cache_example_simps = cache_examples_inv cache_example_map table_map_examples

theorem index_insert_refines_witness:
  "wp (fffs_index_insert 4 9)
    (\<lambda>r fs'. r = Inr () \<and> cache_inv fs' \<and> cache_map fs' = [2 \<mapsto> 7, 4 \<mapsto> 9])
    (cache_example [bucket 2 7, zero_bucket])"
  using index_insert_refines [of "cache_example [bucket 2 7, zero_bucket]" 4 9]
  by (simp add: cache_example_simps)

theorem index_remove_refines_witness:
  "wp (fffs_index_remove 2)
    (\<lambda>r fs'. r = Inr () \<and> cache_inv fs' \<and> cache_map fs' = Map.empty)
    (cache_example [bucket 2 7, zero_bucket])"
  using index_remove_refines [of "cache_example [bucket 2 7, zero_bucket]" 2]
  by (simp add: cache_example_simps)

theorem index_remove_full_diverges_witness:
  "fffs_index_remove 2 (cache_example [bucket 2 7, bucket 4 9]) = None"
  using index_remove_full_diverges [of "cache_example [bucket 2 7, bucket 4 9]" 2]
  by (simp add: cache_example_simps)

theorem hash_cache_replay_witness:
  "\<exists>fs'. seqm (hash.set_all [(2, 8), (2, 0), (2, 5)]) (fffs_index_head_for_slot 2)
     (cache_example [bucket 2 7, zero_bucket]) = Some (Inr (Some 5), fs')"
  using hash_cache_replay [of "cache_example [bucket 2 7, zero_bucket]" "[(2, 8), (2, 0), (2, 5)]" 2]
  by (simp add: cache_example_simps)

theorem ram_cache_replay_witness:
  "\<exists>fs'. seqm (ram.set_all [(2, 8), (5, 3), (2, 0)]) (ram_index_head_for_slot 5)
     ((zero_fs null_backend)\<lparr>fs_index_heads := replicate 65536 0\<rparr>) = Some (Inr (Some 3), fs')"
  using ram_cache_replay [of "(zero_fs null_backend)\<lparr>fs_index_heads := replicate 65536 0\<rparr>"
      "[(2, 8), (5, 3), (2, 0)]" 5]
  by (simp add: ram_inv_def)

end
