(* ===== verification/Fffs_Index_Log.thy ===== *)
theory Fffs_Index_Log
  imports Fffs_Sector Fffs_Hash_Index
begin

unbundle bit_operations_syntax

text \<open>
  The circular namespace journal, \<^verbatim>\<open>src/fffs_index_log.c\<close>: name hashing and slot arithmetic,
  index-sector headers and their discovery, appending records, rotation and compaction.  Replay,
  which also reads file metadata, is in \<^verbatim>\<open>Fffs_Mount\<close>.

  An index sector is an eight-byte header followed by four-byte records (slot, head); head 0
  deletes the slot.  Header serials count modulo 16.
\<close>

section \<open>Slots\<close>

text \<open>A C string is the list of its bytes without the terminating zero.\<close>

definition fffs_hash16 :: "byte list \<Rightarrow> u16" where
  "fffs_hash16 name =
     (let h = fold (\<lambda>p h. (h XOR ucast p) * 16777619) name (2166136261 :: u32)
      in ucast (drop_bit 16 h XOR h))"

definition fffs_normalize_slot_base :: "u16 \<Rightarrow> u16" where
  "fffs_normalize_slot_base slot =
     (if slot = 0 then 1 else if slot = 0xffff then 0x7fff else slot)"

definition fffs_next_slot :: "u16 \<Rightarrow> u16" where
  "fffs_next_slot slot =
     (let slot = slot + 1 in if slot = 0 \<or> slot = 0xffff then 1 else slot)"

section \<open>Index-sector headers\<close>

text \<open>Index-sector count, sector shift and serial of a valid header.\<close>

definition fffs_valid_index_header :: "byte list \<Rightarrow> (u8 \<times> u8 \<times> u8) option" where
  "fffs_valid_index_header hdr =
     (if take 4 hdr \<noteq> FFFS_INDEX_MAGIC \<or> hdr ! 4 \<noteq> FFFS_INDEX_VERSION then None
      else if hdr ! 7 AND FFFS_INDEX_FLAG_VALID \<noteq> 0 \<or>
        hdr ! 7 AND FFFS_INDEX_FLAG_TOMBSTONED = 0 \<or>
        hdr ! 7 AND FFFS_INDEX_FLAG_MD_CRC_REQUIRED = 0 \<or>
        hdr ! 7 AND 0x1f \<noteq> 0x1f then None
      else
        let count = drop_bit 4 (hdr ! 5); shift = hdr ! 6 in
        if count < 2 \<or> count > 15 then None
        else if shift > 15 then None
        else Some (count, shift, hdr ! 5 AND 0x0f))"

definition index_header :: "u8 \<Rightarrow> u8 \<Rightarrow> u8 \<Rightarrow> byte list" where
  "index_header index_sectors sector_shift serial =
     FFFS_INDEX_MAGIC @ [FFFS_INDEX_VERSION, push_bit 4 index_sectors OR (serial AND 0x0f),
       sector_shift, 0xff]"

definition fffs_program_index_header ::
  "nat \<Rightarrow> u8 \<Rightarrow> u8 \<Rightarrow> u8 \<Rightarrow> ('c fffs_backend, unit) op" where
  "fffs_program_index_header offset index_sectors sector_shift serial =
     seqm (fffs_backend_program_aligned offset (index_header index_sectors sector_shift serial))
       (fffs_backend_program_aligned (offset + 7) [FFFS_INDEX_FLAGS_VALID])"

text \<open>Serials wrap at 16; the difference is taken in \<^verbatim>\<open>int\<close> and masked.\<close>

definition index_serial_newer :: "u8 \<Rightarrow> u8 \<Rightarrow> bool" where
  "index_serial_newer serial best_serial \<longleftrightarrow>
     serial \<noteq> best_serial \<and> (uint serial - uint best_serial) AND 0x0f < 8"

section \<open>Discovery\<close>

text \<open>The newest header so far: its sector and serial.\<close>

definition consider_index_header ::
  "nat \<Rightarrow> u8 \<Rightarrow> u8 \<Rightarrow> u8 \<Rightarrow> (nat \<times> u8) option \<Rightarrow> (nat \<times> u8) option res" where
  "consider_index_header off index_sectors sector_shift serial best =
     (let sector_size = 256 * 2 ^ unat sector_shift in
      if off mod sector_size \<noteq> 0 then Inl FFFS_ERR_CORRUPT
      else if off div sector_size \<ge> unat index_sectors then Inl FFFS_ERR_CORRUPT
      else Inr (case best of
          None \<Rightarrow> Some (off div sector_size, serial)
        | Some (active, best_serial) \<Rightarrow>
            if index_serial_newer serial best_serial then Some (off div sector_size, serial)
            else Some (active, best_serial)))"

definition prev_index_sector :: "nat \<Rightarrow> nat \<Rightarrow> nat" where
  "prev_index_sector sector index_sectors = (if sector = 0 then index_sectors - 1 else sector - 1)"

text \<open>\<open>serials ! i\<close> is the serial of index sector \<open>i\<close> when its header is valid.\<close>

fun oldest_loop :: "u8 option list \<Rightarrow> nat \<Rightarrow> nat \<Rightarrow> nat \<Rightarrow> u8 \<Rightarrow> nat \<Rightarrow> nat \<times> nat" where
  "oldest_loop serials index_sectors 0 current serial n = (current, n)"
| "oldest_loop serials index_sectors (Suc left) current serial n =
     (let prev = prev_index_sector current index_sectors; expected = (serial - 1) AND 0x0f in
      if serials ! prev \<noteq> Some expected then (current, n)
      else oldest_loop serials index_sectors left prev expected (n + 1))"

definition find_oldest_index_sector :: "u8 option list \<Rightarrow> nat \<Rightarrow> nat \<Rightarrow> u8 \<Rightarrow> nat \<times> nat" where
  "find_oldest_index_sector serials index_sectors active active_serial =
     oldest_loop serials index_sectors (index_sectors - 1) active active_serial 1"

definition discovery_probe_shift :: "nat \<Rightarrow> u8 option" where
  "discovery_probe_shift probe =
     (if probe = 0 then Some 4
      else if probe \<le> 4 then Some (of_nat (4 - probe))
      else let larger = of_nat (4 + (probe - 4)) :: u8 in if larger > 15 then None else Some larger)"

text \<open>The scan of all index sectors for one discovered header: the newest header and the serials
  by sector, or \<open>None\<close> when two headers disagree on the geometry.\<close>

fun scan_index_headers ::
  "nat \<Rightarrow> byte list \<Rightarrow> nat \<Rightarrow> u8 \<Rightarrow> u8 \<Rightarrow> nat list \<Rightarrow> (nat \<times> u8) option \<Rightarrow> u8 option list \<Rightarrow>
   ('c fffs_backend, ((nat \<times> u8) option \<times> u8 option list) option) op" where
  "scan_index_headers disc_off disc_hdr sector_size n shift [] best serials = ret (Some (best, serials))"
| "scan_index_headers disc_off disc_hdr sector_size n shift (i # is) best serials =
     (let off = i * sector_size in
      bindm (if off = disc_off then ret disc_hdr else backend_read off FFFS_HEADER_SIZE) (\<lambda>hdr.
        case fffs_valid_index_header hdr of
          None \<Rightarrow> scan_index_headers disc_off disc_hdr sector_size n shift is best serials
        | Some (n', shift', serial) \<Rightarrow>
            if n' \<noteq> n \<or> shift' \<noteq> shift then ret None
            else (case consider_index_header off n' shift' serial best of
                Inl _ \<Rightarrow> ret None
              | Inr best' \<Rightarrow> scan_index_headers disc_off disc_hdr sector_size n shift is best'
                  (serials[i := Some serial]))))"

text \<open>The two header positions of one candidate geometry.\<close>

fun probe_index_sectors ::
  "u8 \<Rightarrow> nat list \<Rightarrow> ('c fffs_backend, fffs_index_sequence option) op" where
  "probe_index_sectors probe_shift [] = ret None"
| "probe_index_sectors probe_shift (sector # sectors) = bindm (getm id) (\<lambda>backend.
     let sector_size = 256 * 2 ^ unat probe_shift; disc_off = sector * sector_size;
         next_sector = probe_index_sectors probe_shift sectors
     in if disc_off + FFFS_HEADER_SIZE > be_size backend then next_sector
        else bindm (backend_read disc_off FFFS_HEADER_SIZE) (\<lambda>hdr.
          case fffs_valid_index_header hdr of
            None \<Rightarrow> next_sector
          | Some (n, shift, serial) \<Rightarrow>
              if shift \<noteq> probe_shift then next_sector
              else if be_size backend mod sector_size \<noteq> 0 then next_sector
              else if be_size backend div sector_size < unat n then next_sector
              else
                bindm (scan_index_headers disc_off hdr sector_size n shift [0..<unat n] None
                        (replicate 15 None))
                  (\<lambda>r. case r of
                     None \<Rightarrow> next_sector
                   | Some (None, _) \<Rightarrow> next_sector
                   | Some (Some (active, best_serial), serials) \<Rightarrow>
                       (case find_oldest_index_sector serials (unat n) active best_serial of
                          (oldest, count) \<Rightarrow> ret (Some
                            \<lparr>seq_index_sectors = n, seq_sector_shift = shift,
                             seq_active_serial = best_serial, seq_active_sector = active,
                             seq_oldest_sector = oldest, seq_count = count\<rparr>)))))"

text \<open>\<^verbatim>\<open>for (probe = 0;; probe++)\<close>, left when \<^verbatim>\<open>discovery_probe_shift\<close> fails, which it does at 16.\<close>

fun find_sequence_probes :: "nat list \<Rightarrow> ('c fffs_backend, fffs_index_sequence) op" where
  "find_sequence_probes [] = throw FFFS_ERR_CORRUPT"
| "find_sequence_probes (probe # probes) =
     (case discovery_probe_shift probe of
        None \<Rightarrow> throw FFFS_ERR_CORRUPT
      | Some shift \<Rightarrow> bindm (getm id) (\<lambda>backend.
          if be_size backend mod (256 * 2 ^ unat shift) \<noteq> 0 then find_sequence_probes probes
          else bindm (probe_index_sectors shift [0, 1]) (\<lambda>r. case r of
              Some sequence \<Rightarrow> ret sequence
            | None \<Rightarrow> find_sequence_probes probes)))"

definition fffs_find_index_sequence :: "('c fffs_backend, fffs_index_sequence) op" where
  "fffs_find_index_sequence = find_sequence_probes [0..<17]"

section \<open>Records\<close>

definition fffs_read_index_record :: "nat \<Rightarrow> ('c, u16 \<times> u16) fsop" where
  "fffs_read_index_record offset = bindm (fffs_flash_read offset 4) (\<lambda>rec.
     ret (fffs_load_le16 rec, fffs_load_le16 (drop 2 rec)))"

definition logical_index_sector :: "'c fffs \<Rightarrow> nat \<Rightarrow> nat" where
  "logical_index_sector fs seq_pos =
     (fs_oldest_index_sector fs + seq_pos) mod unat (fs_index_sectors fs)"

definition index_sector_begin :: "'c fffs \<Rightarrow> nat \<Rightarrow> nat" where
  "index_sector_begin fs sector = sector * fs_sector_size fs + FFFS_HEADER_SIZE"

definition index_sector_end :: "'c fffs \<Rightarrow> nat \<Rightarrow> nat" where
  "index_sector_end fs sector =
     (if sector = fs_active_index_sector fs then fs_next_index_offset fs
      else (sector + 1) * fs_sector_size fs)"

definition program_index_record_at :: "nat \<Rightarrow> u16 \<Rightarrow> u16 \<Rightarrow> ('c, unit) fsop" where
  "program_index_record_at offset slot head =
     seqm (fffs_flash_program_aligned offset (fffs_store_le16 slot))
       (fffs_flash_program_aligned (offset + 2) (fffs_store_le16 head))"

definition clobber_active_tail :: "nat \<Rightarrow> ('c, unit) fsop" where
  "clobber_active_tail rec_off =
     seqm (fffs_flash_program_aligned rec_off [0, 0, 0, 0])
       (modm (\<lambda>fs. fs\<lparr>fs_next_index_offset := rec_off + 4\<rparr>))"

definition clobber_or_reject_active_tail :: "nat \<Rightarrow> bool \<Rightarrow> ('c, unit) fsop" where
  "clobber_or_reject_active_tail rec_off terminal_active_tail = bindm (getm id) (\<lambda>fs.
     if fs_strict fs \<or> \<not> terminal_active_tail then throw FFFS_ERR_CORRUPT
     else clobber_active_tail rec_off)"

function index_flash_span_erased :: "nat \<Rightarrow> nat \<Rightarrow> ('c, bool) fsop" where
  "index_flash_span_erased offset sz =
     (if sz = 0 then ret True
      else bindm (fffs_flash_read offset (min sz 32)) (\<lambda>buf.
        if \<not> fffs_flash_bytes_erased buf then ret False
        else index_flash_span_erased (offset + min sz 32) (sz - min sz 32)))"
  by auto
termination by (relation "measure snd") auto

declare index_flash_span_erased.simps [simp del]

text \<open>\<open>chunk\<close> holds \<open>nread\<close> bytes of the active sector; the record at \<open>rec_off\<close> is at \<open>pos\<close> in it.\<close>

definition active_index_record_is_terminal ::
  "nat \<Rightarrow> byte list \<Rightarrow> nat \<Rightarrow> nat \<Rightarrow> nat \<Rightarrow> ('c, bool) fsop" where
  "active_index_record_is_terminal rec_off chunk pos nread stop =
     (if rec_off + 4 = stop then ret True
      else bindm (if pos + 8 \<le> nread then ret (sub_bytes (pos + 4) 4 chunk)
                  else fffs_flash_read (rec_off + 4) 4)
        (\<lambda>next_rec.
           if \<not> fffs_flash_bytes_erased next_rec then ret False
           else
             let chunk_end = rec_off + (nread - pos) in
             if rec_off + 8 < chunk_end \<and>
                \<not> fffs_flash_bytes_erased (sub_bytes (pos + 8) (chunk_end - (rec_off + 8)) chunk)
             then ret False
             else
               let rest_off = (if rec_off + 8 < chunk_end then chunk_end else rec_off + 8) in
               if rest_off \<ge> stop then ret True
               else index_flash_span_erased rest_off (stop - rest_off)))"

definition tombstone_index_sector :: "nat \<Rightarrow> ('c, unit) fsop" where
  "tombstone_index_sector sector = bindm (getm id) (\<lambda>fs.
     fffs_flash_program_aligned (sector * fs_sector_size fs + 7)
       [FFFS_INDEX_FLAGS_VALID AND NOT FFFS_INDEX_FLAG_TOMBSTONED])"


section \<open>Rotation and compaction\<close>

definition rotate_index_begin :: "('c, unit) fsop" where
  "rotate_index_begin = bindm (getm id) (\<lambda>fs.
     let new_active = (if fs_active_index_sector fs + 1 \<ge> unat (fs_index_sectors fs) then 0
                       else fs_active_index_sector fs + 1);
         new_base = new_active * fs_sector_size fs
     in seqm (fs_backend_erase new_base (fs_sector_size fs))
          (modm (\<lambda>fs. fs\<lparr>fs_active_index_sector := new_active,
             fs_active_index_serial := (fs_active_index_serial fs + 1) AND 0x0f,
             fs_next_index_offset := new_base + FFFS_HEADER_SIZE,
             fs_index_sequence_count :=
               (if fs_index_sequence_count fs < unat (fs_index_sectors fs)
                then fs_index_sequence_count fs + 1 else fs_index_sequence_count fs)\<rparr>)))"

definition rotate_index_commit :: "('c, unit) fsop" where
  "rotate_index_commit = bindm (getm id) (\<lambda>fs.
     on_backend (fffs_program_index_header (fs_active_index_sector fs * fs_sector_size fs)
       (fs_index_sectors fs) (fs_sector_shift fs) (fs_active_index_serial fs)))"

record index_record_reader =
  ir_window :: "byte list"
  ir_window_start :: nat
  ir_window_len :: nat

definition index_record_reader_load :: "index_record_reader \<Rightarrow> nat \<Rightarrow> ('c, index_record_reader) fsop" where
  "index_record_reader_load reader offset = bindm (getm id) (\<lambda>fs.
     if offset \<ge> ir_window_start reader \<and>
        offset + 4 \<le> ir_window_start reader + ir_window_len reader then ret reader
     else
       let sector = offset div fs_sector_size fs;
           first = sector * fs_sector_size fs + FFFS_HEADER_SIZE;
           stop = index_sector_end fs sector;
           rel = offset - first;
           base = first + rel - rel mod FFFS_INDEX_COMPACT_OUTER_SCAN_SIZE;
           nread = min (stop - base) FFFS_INDEX_COMPACT_OUTER_SCAN_SIZE;
           nread = nread - nread mod 4
       in if nread < 4 then throw FFFS_ERR_CORRUPT
          else bindm (fffs_flash_read base nread) (\<lambda>data.
            ret \<lparr>ir_window = data, ir_window_start = base, ir_window_len = nread\<rparr>))"

definition read_compact_source_record ::
  "index_record_reader \<Rightarrow> nat \<Rightarrow> ('c, (u16 \<times> u16 \<times> bool) \<times> index_record_reader) fsop" where
  "read_compact_source_record reader offset =
     bindm (index_record_reader_load reader offset) (\<lambda>reader.
       let rec = drop (offset - ir_window_start reader) (ir_window reader);
           slot = fffs_load_le16 rec; head = fffs_load_le16 (drop 2 rec)
       in ret ((slot, head, slot = 0xffff \<and> head = 0xffff), reader))"

text \<open>The compaction writer.  Its buffer is never filled: every record is programmed directly, as
  slot then head.\<close>

record index_record_writer =
  iw_buf :: "byte list"
  iw_len :: nat
  iw_pending_rotation :: bool

definition index_record_writer_prepare_spill ::
  "index_record_writer \<Rightarrow> ('c, index_record_writer) fsop" where
  "index_record_writer_prepare_spill writer = bindm (getm id) (\<lambda>fs.
     if iw_pending_rotation writer \<or> fs_index_sequence_count fs \<ge> unat (fs_index_sectors fs)
     then throw FFFS_ERR_NO_SPACE
     else seqm rotate_index_begin (ret (writer\<lparr>iw_pending_rotation := True\<rparr>)))"

definition index_record_writer_commit_spill ::
  "index_record_writer \<Rightarrow> ('c, index_record_writer) fsop" where
  "index_record_writer_commit_spill writer =
     (if \<not> iw_pending_rotation writer then ret writer
      else seqm rotate_index_commit (ret (writer\<lparr>iw_pending_rotation := False\<rparr>)))"

definition index_record_writer_flush :: "index_record_writer \<Rightarrow> ('c, index_record_writer) fsop" where
  "index_record_writer_flush writer =
     (if iw_len writer = 0 then ret writer
      else bindm (getm fs_next_index_offset) (\<lambda>off.
        seqm (fffs_flash_program_aligned off (take (iw_len writer) (iw_buf writer)))
          (seqm (modm (\<lambda>fs. fs\<lparr>fs_next_index_offset := fs_next_index_offset fs + iw_len writer\<rparr>))
            (ret (writer\<lparr>iw_len := 0\<rparr>)))))"

definition index_full :: "'c fffs \<Rightarrow> bool" where
  "index_full fs \<longleftrightarrow> fs_next_index_offset fs + 4 > (fs_active_index_sector fs + 1) * fs_sector_size fs"

definition index_record_writer_append ::
  "index_record_writer \<Rightarrow> u16 \<Rightarrow> u16 \<Rightarrow> ('c, index_record_writer) fsop" where
  "index_record_writer_append writer slot head =
     bindm (index_record_writer_flush writer) (\<lambda>writer.
     bindm (getm id) (\<lambda>fs.
     bindm (if index_full fs then index_record_writer_prepare_spill writer else ret writer) (\<lambda>writer.
     bindm (getm fs_next_index_offset) (\<lambda>off.
     seqm (program_index_record_at off slot head)
       (seqm (modm (\<lambda>fs. fs\<lparr>fs_next_index_offset := fs_next_index_offset fs + 4\<rparr>)) (ret writer))))))"

text \<open>The record loop; \<open>left\<close> counts the records that still fit before the end of the source.\<close>

fun compact_copy_loop ::
  "nat \<Rightarrow> nat \<Rightarrow> index_record_reader \<Rightarrow> index_record_writer \<Rightarrow> ('c, index_record_writer) fsop" where
  "compact_copy_loop 0 off reader writer = ret writer"
| "compact_copy_loop (Suc left) off reader writer =
     bindm (read_compact_source_record reader off) (\<lambda>((slot, head, erased), reader).
       if erased then ret writer
       else if head = 0 then compact_copy_loop left (off + 4) reader writer
       else bindm (fffs_index_record_is_current 0 off slot head) (\<lambda>current.
         if \<not> current then compact_copy_loop left (off + 4) reader writer
         else bindm (index_record_writer_append writer slot head) (\<lambda>writer.
           compact_copy_loop left (off + 4) reader writer)))"

definition index_compact_oldest_copy :: "('c, nat) fsop" where
  "index_compact_oldest_copy = bindm (getm id) (\<lambda>fs.
     let source = fs_oldest_index_sector fs;
         first = index_sector_begin fs source; stop = index_sector_end fs source
     in if fs_index_sequence_count fs \<le> 1 then ret 0
        else
          bindm (compact_copy_loop ((stop - first) div 4) first
                  \<lparr>ir_window = [], ir_window_start = 0, ir_window_len = 0\<rparr>
                  \<lparr>iw_buf = [], iw_len = 0, iw_pending_rotation = False\<rparr>)
            (\<lambda>writer. bindm (index_record_writer_flush writer) (\<lambda>writer.
               seqm (index_record_writer_commit_spill writer) (ret source))))"

definition index_compact_oldest_finish :: "nat \<Rightarrow> ('c, unit) fsop" where
  "index_compact_oldest_finish source_sector =
     seqm (tombstone_index_sector source_sector)
       (modm (\<lambda>fs. fs\<lparr>fs_oldest_index_sector := logical_index_sector fs 1,
          fs_index_sequence_count := fs_index_sequence_count fs - 1\<rparr>))"

definition fffs_index_compact_oldest :: "('c, unit) fsop" where
  "fffs_index_compact_oldest = bindm index_compact_oldest_copy (\<lambda>source.
     bindm (getm id) (\<lambda>fs.
       if fs_index_sequence_count fs \<le> 1 then ret () else index_compact_oldest_finish source))"

definition fffs_index_finish_interrupted_compaction :: "('c, unit) fsop" where
  "fffs_index_finish_interrupted_compaction = bindm (getm id) (\<lambda>fs.
     if fs_index_sequence_count fs < unat (fs_index_sectors fs) then ret ()
     else index_compact_oldest_finish (fs_oldest_index_sector fs))"

definition fffs_rotate_index :: "('c, unit) fsop" where
  "fffs_rotate_index = seqm rotate_index_begin (bindm (getm id) (\<lambda>fs.
     if fs_index_sequence_count fs = unat (fs_index_sectors fs)
     then bindm index_compact_oldest_copy (\<lambda>source.
       seqm rotate_index_commit (index_compact_oldest_finish source))
     else rotate_index_commit))"

definition fffs_append_index_record :: "u16 \<Rightarrow> u16 \<Rightarrow> ('c, unit) fsop" where
  "fffs_append_index_record slot head = bindm (getm id) (\<lambda>fs.
     seqm (if index_full fs
           then seqm fffs_rotate_index (bindm (getm id) (\<lambda>fs.
             if index_full fs then throw FFFS_ERR_NO_SPACE else ret ()))
           else ret ())
       (bindm (getm fs_next_index_offset) (\<lambda>off.
         seqm (program_index_record_at off slot head)
           (seqm (modm (\<lambda>fs. fs\<lparr>fs_next_index_offset := fs_next_index_offset fs + 4\<rparr>))
             (fffs_index_set slot head)))))"


section \<open>Slot arithmetic\<close>

text \<open>Usable slots are \<open>1 \<dots> 65534\<close>: 0 marks an empty bucket, 65535 an erased record.\<close>

definition usable_slot :: "u16 \<Rightarrow> bool" where
  "usable_slot slot \<longleftrightarrow> slot \<noteq> 0 \<and> slot \<noteq> 0xffff"

lemma usable_slot_iff: "usable_slot slot \<longleftrightarrow> 1 \<le> unat slot \<and> unat slot \<le> 65534"
proof -
  have "unat slot \<le> 65535" using unat_u16_less [of slot] by linarith
  moreover have "slot = 0 \<longleftrightarrow> unat slot = 0" "slot = 0xffff \<longleftrightarrow> unat slot = 65535"
    by (simp_all add: word_unat_eq_iff)
  ultimately show ?thesis by (auto simp: usable_slot_def)
qed

lemma next_slot_unat:
  assumes "usable_slot slot"
  shows "unat (fffs_next_slot slot) = unat slot mod 65534 + 1"
proof -
  from assms have r: "1 \<le> unat slot" "unat slot \<le> 65534" by (auto simp: usable_slot_iff)
  then have s: "unat (slot + 1) = unat slot + 1" by (simp add: unat_word_ariths)
  show ?thesis
    using r s by (cases "unat slot = 65534")
      (auto simp: fffs_next_slot_def Let_def word_unat_eq_iff)
qed

lemma usable_normalize: "usable_slot (fffs_normalize_slot_base slot)"
  by (simp add: fffs_normalize_slot_base_def usable_slot_def)

lemma usable_next: "usable_slot slot \<Longrightarrow> usable_slot (fffs_next_slot slot)"
proof -
  assume u: "usable_slot slot"
  have "unat slot mod 65534 < 65534" by simp
  with next_slot_unat [OF u] show ?thesis by (simp add: usable_slot_iff)
qed

lemma probe_unat:
  assumes "usable_slot slot"
  shows "usable_slot ((fffs_next_slot ^^ d) slot)"
    "unat ((fffs_next_slot ^^ d) slot) = (unat slot - 1 + d) mod 65534 + 1"
proof (induction d)
  case 0
  from assms show "usable_slot ((fffs_next_slot ^^ 0) slot)" by simp
  from assms show "unat ((fffs_next_slot ^^ 0) slot) = (unat slot - 1 + 0) mod 65534 + 1"
    by (auto simp: usable_slot_iff)
next
  case (Suc d)
  show "usable_slot ((fffs_next_slot ^^ Suc d) slot)" using usable_next [OF Suc(1)] by simp
  show "unat ((fffs_next_slot ^^ Suc d) slot) = (unat slot - 1 + Suc d) mod 65534 + 1"
    using next_slot_unat [OF Suc(1)] Suc(2) by (simp add: mod_Suc_eq)
qed

section \<open>Header codec\<close>

lemma length_index_header [simp]: "length (index_header n shift serial) = 8"
  by (simp add: index_header_def)

definition header_with_flags :: "u8 \<Rightarrow> u8 \<Rightarrow> u8 \<Rightarrow> byte \<Rightarrow> byte list" where
  "header_with_flags n shift serial flags = (index_header n shift serial)[7 := flags]"

lemma length_header_with_flags [simp]: "length (header_with_flags n shift serial flags) = 8"
  by (simp add: header_with_flags_def)

lemma header_with_flags_eq:
  "header_with_flags n shift serial flags = FFFS_INDEX_MAGIC @
     [FFFS_INDEX_VERSION, push_bit 4 n OR (serial AND 0x0f), shift, flags]"
  by (simp add: header_with_flags_def index_header_def)

lemma index_header_flags: "index_header n shift serial = header_with_flags n shift serial 0xff"
  by (simp add: header_with_flags_eq index_header_def)

definition header_args_ok :: "u8 \<Rightarrow> u8 \<Rightarrow> u8 \<Rightarrow> bool" where
  "header_args_ok n shift serial \<longleftrightarrow> 2 \<le> n \<and> n \<le> 15 \<and> shift \<le> 15 \<and> serial \<le> 15"

lemma nibble_bits: "(x :: byte) \<le> 15 \<Longrightarrow> bit x k \<Longrightarrow> k < 4"
proof (rule ccontr)
  assume "x \<le> 15" "bit x k" "\<not> k < 4"
  then have "unat x \<le> 15" by (simp add: word_le_nat_alt)
  moreover have "2 ^ k \<le> unat x"
  proof -
    have "bit (unat x) k" using \<open>bit x k\<close> by (simp add: bit_unsigned_iff)
    then show ?thesis by (metis bit_nat_iff not_le_imp_less take_bit_nat_eq_self bit_take_bit_iff less_irrefl)
  qed
  moreover have "2 ^ 4 \<le> (2 ^ k :: nat)" using \<open>\<not> k < 4\<close> by (intro power_increasing) auto
  ultimately show False by simp
qed

lemma nibbles:
  fixes n serial :: byte
  assumes "n \<le> 15" "serial \<le> 15"
  shows "drop_bit 4 (push_bit 4 n OR (serial AND 0x0f)) = n"
    "(push_bit 4 n OR (serial AND 0x0f)) AND 0x0f = serial"
proof -
  have f: "(0x0f :: byte) = mask 4" by (simp add: mask_eq_exp_minus_1)
  show "drop_bit 4 (push_bit 4 n OR (serial AND 0x0f)) = n"
    unfolding f by (rule bit_word_eqI) (use nibble_bits [OF assms(1)] in \<open>auto simp: bit_simps\<close>)
  show "(push_bit 4 n OR (serial AND 0x0f)) AND 0x0f = serial"
    unfolding f by (rule bit_word_eqI) (use nibble_bits [OF assms(2)] in \<open>auto simp: bit_simps\<close>)
qed

lemma valid_header_with_flags:
  assumes "header_args_ok n shift serial"
  shows "fffs_valid_index_header (header_with_flags n shift serial flags) =
    (if flags AND 0x80 = 0 \<and> flags AND 0x40 \<noteq> 0 \<and> flags AND 0x20 \<noteq> 0 \<and> flags AND 0x1f = 0x1f
     then Some (n, shift, serial) else None)"
  using assms nibbles [of n serial]
  by (auto simp: fffs_valid_index_header_def header_with_flags_eq header_args_ok_def Let_def)

lemma valid_header_ff: "hdr ! 7 = 0xff \<Longrightarrow> fffs_valid_index_header hdr = None"
  by (simp add: fffs_valid_index_header_def)


text \<open>Tearing the flags byte leaves it erased or complete: it differs in one bit only.\<close>

lemma torn_flags: "torn_byte 0xff 0x7f st \<Longrightarrow> st = 0xff \<or> st = 0x7f"
proof -
  assume t: "torn_byte 0xff 0x7f st"
  have m: "(0x7f :: byte) = mask 7" "(0xff :: byte) = mask 8" by (simp_all add: mask_eq_exp_minus_1)
  from t have "(0x7f :: byte) AND st = 0x7f" by (simp add: torn_byte_def)
  then have eq: "bit (mask 7 AND st) k = bit (mask 7 :: byte) k" for k by (simp only: m [symmetric])
  have low: "bit st k" if "k < 7" for k
    using eq [of k] that by (simp add: bit_and_iff bit_mask_iff)
  have "bit st k = (k < 7 \<or> k = 7 \<and> bit st 7)" if "k < 8" for k
    using low [of k] that by (cases "k < 7") (auto simp: less_Suc_eq numeral_eq_Suc)
  then show ?thesis
    unfolding m by (cases "bit st 7") (auto intro!: bit_word_eqI simp: bit_mask_iff)
qed

lemma torn_le16:
  assumes "torn_program off (fffs_store_le16 v) m m'" "sub_bytes off 2 m = replicate 2 0xff" "off + 2 \<le> length m"
  shows "v AND fffs_load_le16 (sub_bytes off 2 m') = v"
proof -
  have len: "length m' = length m" using assms(1) by (rule torn_program_length)
  have b: "torn_byte 0xff (fffs_store_le16 v ! i) (m' ! (off + i))" if "i < 2" for i
  proof -
    have "m ! (off + i) = sub_bytes off 2 m ! i" using that assms(3) by (simp add: nth_sub_bytes)
    then have "m ! (off + i) = 0xff" using assms(2) that by simp
    with torn_sub_bytes [OF assms(1), of "off + i"] that assms(3) show ?thesis by simp
  qed
  have "sub_bytes off 2 m' ! i = m' ! (off + i)" if "i < 2" for i using that assms(3) len by (simp add: nth_sub_bytes)
  then have l: "fffs_load_le16 (sub_bytes off 2 m') = ucast (m' ! off) OR push_bit 8 (ucast (m' ! (off + 1)))"
    unfolding fffs_load_le16_def by force
  have lo: "ucast v AND m' ! off = ucast v" and hi: "ucast (drop_bit 8 v) AND m' ! (off + 1) = ucast (drop_bit 8 v)"
    using b [of 0] b [of 1] by (simp_all add: torn_byte_def fffs_store_le16_def)
  show ?thesis
  proof (rule bit_word_eqI)
    fix n assume n: "n < LENGTH(16)"
    show "bit (v AND fffs_load_le16 (sub_bytes off 2 m')) n = bit v n"
    proof (cases "n < 8")
      case True
      have "bit (ucast v AND m' ! off) n = bit (ucast v :: byte) n" by (simp only: lo)
      with True show ?thesis by (auto simp: l bit_simps)
    next
      case False
      have "bit (ucast (drop_bit 8 v) AND m' ! (off + 1)) (n - 8) = bit (ucast (drop_bit 8 v) :: byte) (n - 8)" by (simp only: hi)
      with False n show ?thesis by (auto simp: l bit_simps)
    qed
  qed
qed

context reliable_flash
begin

text \<open>Writing a header over erased bytes.  Whatever happens, the eight bytes decode to nothing or
  to the header that was being written.\<close>

definition hdr_bytes :: "'c fffs_backend \<Rightarrow> nat \<Rightarrow> byte list" where
  "hdr_bytes be off = sub_bytes off 8 (bmem be)"

definition wrote_header ::
  "'c fffs_backend \<Rightarrow> nat \<Rightarrow> u8 \<times> u8 \<times> u8 \<Rightarrow> unit res \<Rightarrow> 'c fffs_backend \<Rightarrow> bool" where
  "wrote_header be off args r be' \<longleftrightarrow> (\<exists>c. be' = be\<lparr>be_ctx := c\<rparr> \<and> bstp c be \<and>
     length (mem c) = length (bmem be) \<and>
     (\<forall>i < length (bmem be). \<not> (off \<le> i \<and> i < off + 8) \<longrightarrow> mem c ! i = bmem be ! i) \<and>
     (case r of Inr _ \<Rightarrow> fffs_valid_index_header (hdr_bytes be' off) = Some args
              | Inl e \<Rightarrow> e = FFFS_ERR_IO \<and> \<not> good (be_ctx be) \<and>
                  fffs_valid_index_header (hdr_bytes be' off) \<in> {None, Some args}))"

lemma program_index_header_rule:
  assumes dev: "fuses be" and fit: "off + 8 \<le> length (bmem be)"
    and erased: "hdr_bytes be off = replicate 8 0xff" and args: "header_args_ok n shift serial"
  shows "wp (fffs_program_index_header off n shift serial) (wrote_header be off (n, shift, serial)) be"
proof -
  let ?hdr = "index_header n shift serial"
  note valid = valid_header_with_flags [OF args]
  have nth7: "header_with_flags n shift serial x ! 7 = x" for x by (simp add: header_with_flags_def)
  show ?thesis
    unfolding fffs_program_index_header_def wp_seqm
  proof (rule backend_program_aligned_rule [OF dev], goal_cases)
    case (1 c)
    let ?be = "be\<lparr>be_ctx := c\<rparr>"
    have len: "length (mem c) = length (bmem be)" using 1(2) fit by simp
    have dev': "fuses ?be" by (rule fuses_upd [OF dev 1(1) len])
    have rest: "\<forall>i < length (bmem be). \<not> (off \<le> i \<and> i < off + 8) \<longrightarrow> mem c ! i = bmem be ! i"
      using 1(2) fit by (auto simp: nth_nor_program)
    have hdr: "sub_bytes off 8 (mem c) = header_with_flags n shift serial 0xff"
      using program_erased [of off ?hdr "bmem be"] erased fit 1(2)
      by (simp add: hdr_bytes_def index_header_flags)
    show ?case
    proof (simp, rule backend_program_aligned_rule [OF dev'], goal_cases)
      case (1 d)
      have "sub_bytes off 8 (mem d) = header_with_flags n shift serial 0x7f"
        using 1(2) program_inside [of 7 "[0x7f]" 8 off "mem c"] fit len hdr
        by (simp add: program_single header_with_flags_def)
      moreover have "\<forall>i < length (bmem be). \<not> (off \<le> i \<and> i < off + 8) \<longrightarrow> mem d ! i = bmem be ! i"
        using 1(2) rest fit len by (auto simp: nth_nor_program)
      ultimately show ?case
        using 1(2) bstp_trans [OF \<open>bstp c be\<close> 1(1)] fit len valid
        by (auto simp: wrote_header_def hdr_bytes_def)
    next
      case (2 d)
      with len have ld: "length (mem d) = length (bmem be)" by (auto dest: torn_program_length)
      have "torn_program 7 [0x7f] (header_with_flags n shift serial 0xff) (sub_bytes off 8 (mem d))"
        using torn_inside [of off 7 "[0x7f]" "mem c" "mem d" 8] 2(2) fit len hdr by simp
      from torn_single [OF this] have "sub_bytes off 8 (mem d) \<in>
          {header_with_flags n shift serial 0xff, header_with_flags n shift serial 0x7f}"
        by (auto simp: nth7 header_with_flags_def dest!: torn_flags)
      then have "fffs_valid_index_header (sub_bytes off 8 (mem d)) \<in> {None, Some (n, shift, serial)}"
        using valid by auto
      moreover have "\<not> good (be_ctx be)" using 2(3) fit len \<open>bstp c be\<close> by (auto simp: bstp_def)
      moreover have "\<forall>i < length (bmem be). \<not> (off \<le> i \<and> i < off + 8) \<longrightarrow> mem d ! i = bmem be ! i"
        using 2(2) rest len by (auto simp: torn_program_def)
      ultimately show ?case
        using bstp_trans [OF \<open>bstp c be\<close> 2(1)] ld by (auto simp: wrote_header_def hdr_bytes_def)
    qed
  next
    case (2 c)
    then have len: "length (mem c) = length (bmem be)" by (auto dest: torn_program_length)
    have "torn_byte (bmem be ! (off + 7)) (?hdr ! 7) (mem c ! (off + 7))"
      using torn_sub_bytes [OF 2(2), of "off + 7"] fit by simp
    moreover have "?hdr ! 7 = 0xff" "bmem be ! (off + 7) = 0xff"
      using erased nth_sub_bytes [of off 8 "bmem be" 7] fit
      by (simp_all add: index_header_def hdr_bytes_def)
    ultimately have "mem c ! (off + 7) = 0xff" by (simp add: torn_byte_ff)
    then have "fffs_valid_index_header (sub_bytes off 8 (mem c)) = None"
      using fit len by (intro valid_header_ff) simp
    moreover have "\<forall>i < length (bmem be). \<not> (off \<le> i \<and> i < off + 8) \<longrightarrow> mem c ! i = bmem be ! i"
      using 2(2) by (auto simp: torn_program_def)
    ultimately show ?case
      using 2 fit len by (auto simp: wrote_header_def hdr_bytes_def)
  qed
qed

text \<open>Writing a record over erased bytes: slot first, then head.  If it is interrupted, either the
  head is still erased or the slot is complete and the head may have too many bits set.\<close>

definition wrote_record :: "'c fffs \<Rightarrow> nat \<Rightarrow> u16 \<Rightarrow> u16 \<Rightarrow> unit res \<Rightarrow> 'c fffs \<Rightarrow> bool" where
  "wrote_record fs off slot head r fs' \<longleftrightarrow> (\<exists>c. fs' = set_ctx c fs \<and> stp c fs \<and>
     length (mem c) = length (fmem fs) \<and>
     (\<forall>i < length (fmem fs). \<not> (off \<le> i \<and> i < off + 4) \<longrightarrow> mem c ! i = fmem fs ! i) \<and>
     (case r of Inr _ \<Rightarrow> sub_bytes off 4 (mem c) = fffs_store_le16 slot @ fffs_store_le16 head
              | Inl e \<Rightarrow> e = FFFS_ERR_IO \<and> \<not> healthy fs \<and>
                  (\<exists>s h. sub_bytes off 4 (mem c) = fffs_store_le16 s @ fffs_store_le16 h \<and>
                     (h = 0xffff \<or> s = slot \<and> head AND h = head))))"

lemma program_index_record_rule:
  assumes dev: "fdev fs" and fit: "off + 4 \<le> length (fmem fs)"
    and erased: "sub_bytes off 4 (fmem fs) = replicate 4 0xff"
  shows "wp (program_index_record_at off slot head) (wrote_record fs off slot head) fs"
proof -
  have er: "sub_bytes off 2 (fmem fs) = replicate 2 0xff"
    "sub_bytes (off + 2) 2 (fmem fs) = replicate 2 0xff"
    using sub_bytes_part [OF erased, of 0 2] sub_bytes_part [OF erased, of 2 2] by simp_all
  have two: "sub_bytes off 4 m = fffs_store_le16 (fffs_load_le16 (sub_bytes off 2 m)) @
      fffs_store_le16 (fffs_load_le16 (sub_bytes (off + 2) 2 m))" if "length m = length (fmem fs)" for m
    using sub_bytes_append [of off 2 2 m] that fit by (simp add: store_load_le16)
  show ?thesis
    unfolding program_index_record_at_def wp_seqm
  proof (rule program_rule [OF dev], goal_cases)
    case (1 c)
    let ?fs = "set_ctx c fs"
    have len: "length (mem c) = length (fmem fs)" using 1(2) fit by simp
    have dev': "fdev ?fs" by (rule fdev_set_ctx [OF dev 1(1) len])
    have slot: "sub_bytes off 2 (mem c) = fffs_store_le16 slot"
      using program_erased [of off "fffs_store_le16 slot" "fmem fs"] er fit 1(2) by simp
    have head: "sub_bytes (off + 2) 2 (mem c) = replicate 2 0xff"
      using 1(2) er(2) fit by (simp add: sub_bytes_nor_program_disjoint)
    have rest: "\<forall>i < length (fmem fs). \<not> (off \<le> i \<and> i < off + 4) \<longrightarrow> mem c ! i = fmem fs ! i"
      using 1(2) fit by (auto simp: nth_nor_program)
    show ?case
    proof (simp, rule program_rule [OF dev'], goal_cases)
      case (1 d)
      have "sub_bytes off 2 (mem d) = fffs_store_le16 slot"
        using 1(2) slot fit len by (simp add: sub_bytes_nor_program_disjoint)
      moreover have "sub_bytes (off + 2) 2 (mem d) = fffs_store_le16 head"
        using program_erased [of "off + 2" "fffs_store_le16 head" "mem c"] head fit len 1(2) by simp
      moreover have "sub_bytes off (2 + 2) (mem d) = sub_bytes off 2 (mem d) @ sub_bytes (off + 2) 2 (mem d)"
        by (rule sub_bytes_append)
      moreover have "\<forall>i < length (fmem fs). \<not> (off \<le> i \<and> i < off + 4) \<longrightarrow> mem d ! i = fmem fs ! i"
        using 1(2) rest fit len by (auto simp: nth_nor_program)
      ultimately show ?case
        using 1(2) stp_trans [OF \<open>stp c fs\<close> 1(1)] fit len by (auto simp: wrote_record_def)
    next
      case (2 d)
      with len have ld: "length (mem d) = length (fmem fs)" by (auto dest: torn_program_length)
      have outside: "i < length (fmem fs) \<Longrightarrow> \<not> (off + 2 \<le> i \<and> i < off + 4) \<Longrightarrow> mem d ! i = mem c ! i" for i
        using 2(2) len by (auto simp: torn_program_def)
      have "sub_bytes off 2 (mem d) = sub_bytes off 2 (mem c)"
        using fit ld len outside by (intro nth_equalityI) auto
      then have "fffs_load_le16 (sub_bytes off 2 (mem d)) = slot" using slot load_store_le16 [of slot "[]"] by simp
      moreover have "head AND fffs_load_le16 (sub_bytes (off + 2) 2 (mem d)) = head"
        by (rule torn_le16 [OF _ head]) (use 2(2) fit len in simp_all)
      moreover have "\<forall>i < length (fmem fs). \<not> (off \<le> i \<and> i < off + 4) \<longrightarrow> mem d ! i = fmem fs ! i"
        using outside rest by auto
      moreover have "\<not> healthy fs" using 2(3) fit len stp_healthy [OF \<open>stp c fs\<close>] by auto
      ultimately show ?case
        using stp_trans [OF \<open>stp c fs\<close> 2(1)] ld two [OF ld] by (auto simp: wrote_record_def)
    qed
  next
    case (2 c)
    then have len: "length (mem c) = length (fmem fs)" by (auto dest: torn_program_length)
    have outside: "i < length (fmem fs) \<Longrightarrow> \<not> (off \<le> i \<and> i < off + 2) \<Longrightarrow> mem c ! i = fmem fs ! i" for i
      using 2(2) by (auto simp: torn_program_def)
    have "sub_bytes (off + 2) 2 (mem c) = sub_bytes (off + 2) 2 (fmem fs)"
      using fit len outside by (intro nth_equalityI) auto
    also have "\<dots> = fffs_store_le16 0xffff" unfolding er(2) store_ff by (simp add: numeral_2_eq_2)
    finally have "sub_bytes (off + 2) 2 (mem c) = fffs_store_le16 0xffff" .
    then have "fffs_load_le16 (sub_bytes (off + 2) 2 (mem c)) = 0xffff" using load_store_le16 [of "0xffff" "[]"] by simp
    then have bytes: "sub_bytes off 4 (mem c) =
        fffs_store_le16 (fffs_load_le16 (sub_bytes off 2 (mem c))) @ fffs_store_le16 0xffff" by (subst two [OF len]) (simp only:)
    have "\<not> healthy fs" using 2(3) fit by auto
    with bytes 2(1) len outside show ?case
      unfolding wrote_record_def sum.case by (intro exI [of _ c] conjI exI disjI1) auto
  qed
qed

end

section \<open>Appending to a sector with room\<close>

lemma append_not_full:
  assumes "\<not> index_full fs"
  shows "fffs_append_index_record slot head fs =
    seqm (program_index_record_at (fs_next_index_offset fs) slot head)
      (seqm (modm (\<lambda>fs. fs\<lparr>fs_next_index_offset := fs_next_index_offset fs + 4\<rparr>))
        (fffs_index_set slot head)) fs"
  using assms by (simp add: fffs_append_index_record_def bindm_getm seqm_def bindm_ret)

lemma cache_set_ctx [simp]:
  "cache_inv (set_ctx c fs) = cache_inv fs" "cache_map (set_ctx c fs) = cache_map fs"
  by (simp_all add: cache_inv_def cache_map_def)

lemma cache_upd_offset [simp]:
  "cache_inv (fs\<lparr>fs_next_index_offset := n\<rparr>) = cache_inv fs"
  "cache_map (fs\<lparr>fs_next_index_offset := n\<rparr>) = cache_map fs"
  by (simp_all add: cache_inv_def cache_map_def)


section \<open>Properties\<close>

text \<open>C31: the 51 slots probed for a name (\<^verbatim>\<open>FFFS_MAX_PROBE_DISTANCE\<close> steps from its hash) are pairwise
  different and never 0 (an empty bucket) or 65535 (an erased record).\<close>

theorem probe_slots_distinct:
  "distinct (map (\<lambda>d. (fffs_next_slot ^^ d) (fffs_normalize_slot_base (fffs_hash16 name))) [0..<51]) \<and>
   (\<forall>d. usable_slot ((fffs_next_slot ^^ d) (fffs_normalize_slot_base (fffs_hash16 name))))"
proof -
  let ?b = "fffs_normalize_slot_base (fffs_hash16 name)"
  note p = probe_unat [OF usable_normalize, of _ "fffs_hash16 name"]
  have "d = e" if "d < 51" "e < 51" "(fffs_next_slot ^^ d) ?b = (fffs_next_slot ^^ e) ?b" for d e
  proof -
    have "(unat ?b - 1 + d) mod 65534 = (unat ?b - 1 + e) mod 65534"
      using p(2) [of d] p(2) [of e] that(3) by simp
    then have "d mod 65534 = e mod 65534" by (simp add: nat_mod_eq_iff mod_eq_dvd_iff_nat)
    with that show "d = e" by simp
  qed
  with p(1) show ?thesis by (auto simp: distinct_map inj_on_def)
qed


text \<open>C26: however writing an index-sector header is interrupted, the header bytes are either not a
  valid header or exactly the one being written, so discovery never sees a wrong geometry or serial.\<close>

theorem index_header_crash_safe:
  assumes "emu.fuses be" and "off + 8 \<le> length (emu.bmem be)"
    and "emu.hdr_bytes be off = replicate 8 0xff" and "header_args_ok n shift serial"
  shows "wp (fffs_program_index_header off n shift serial) (\<lambda>r be'.
    fffs_valid_index_header (emu.hdr_bytes be' off) = None \<or>
    fffs_valid_index_header (emu.hdr_bytes be' off) = Some (n, shift, serial)) be"
proof (rule wp_mono [OF emu.program_index_header_rule [OF assms]])
  fix r be'
  assume "emu.wrote_header be off (n, shift, serial) r be'"
  then show "fffs_valid_index_header (emu.hdr_bytes be' off) = None \<or>
    fffs_valid_index_header (emu.hdr_bytes be' off) = Some (n, shift, serial)"
    by (cases r) (auto simp: emu.wrote_header_def)
qed

lemma int_and_15: "(i :: int) AND 0x0f = i mod 16"
proof -
  have "(0x0f :: int) = mask 4" by (simp add: mask_eq_exp_minus_1)
  then show ?thesis by (simp only: take_bit_eq_mask [symmetric] take_bit_eq_mod) simp
qed

text \<open>C12: appending a record to an index sector with room, over erased bytes and on a device without
  failures, succeeds: the four bytes at the old tail are the record, the tail advances by four, and
  the RAM cache maps the slot to the new head (or no longer maps it, for a delete).\<close>

theorem append_index_record_effect:
  assumes "emu.fdev fs" and "emu.healthy fs" and "cache_inv fs" and "slot \<noteq> 0"
    and "card (insert slot (dom (cache_map fs))) \<le> fs_index_hash_table_size fs - 1"
    and "\<not> index_full fs" and "fs_next_index_offset fs + 4 \<le> length (emu.fmem fs)"
    and "sub_bytes (fs_next_index_offset fs) 4 (emu.fmem fs) = replicate 4 0xff"
  shows "wp (fffs_append_index_record slot head) (\<lambda>r fs'. r = Inr () \<and>
    sub_bytes (fs_next_index_offset fs) 4 (emu.fmem fs') = fffs_store_le16 slot @ fffs_store_le16 head \<and>
    fs_next_index_offset fs' = fs_next_index_offset fs + 4 \<and>
    cache_inv fs' \<and> cache_map fs' = slot_upd (slot, head) (cache_map fs)) fs"
proof (rule wp_eqI, rule append_not_full [OF assms(6)], unfold wp_seqm,
    rule wp_mono [OF emu.program_index_record_rule [OF assms(1,7,8)]])
  fix r fs1
  let ?Q = "\<lambda>r fs'. r = Inr () \<and>
    sub_bytes (fs_next_index_offset fs) 4 (emu.fmem fs') = fffs_store_le16 slot @ fffs_store_le16 head \<and>
    fs_next_index_offset fs' = fs_next_index_offset fs + 4 \<and>
    cache_inv fs' \<and> cache_map fs' = slot_upd (slot, head) (cache_map fs)"
  assume "emu.wrote_record fs (fs_next_index_offset fs) slot head r fs1"
  with assms(2) obtain c where c: "r = Inr ()" "fs1 = set_ctx c fs"
    "sub_bytes (fs_next_index_offset fs) 4 (emu_mem c) = fffs_store_le16 slot @ fffs_store_le16 head"
    by (cases r) (auto simp: emu.wrote_record_def)
  let ?fs2 = "fs1\<lparr>fs_next_index_offset := fs_next_index_offset fs1 + 4\<rparr>"
  from cache_set [of ?fs2 slot head] assms(3-5) c(2) obtain t where
    t: "fffs_index_set slot head ?fs2 = Some (Inr (), ?fs2\<lparr>fs_index_cache := t\<rparr>)"
      "cache_inv (?fs2\<lparr>fs_index_cache := t\<rparr>)"
      "cache_map (?fs2\<lparr>fs_index_cache := t\<rparr>) = slot_upd (slot, head) (cache_map fs)" by auto
  then have "wp (fffs_index_set slot head) ?Q ?fs2"
    using c by (auto simp: wp_def emu.fmem_def set_ctx_def emu.bmem_def)
  then show "case r of Inl e \<Rightarrow> ?Q (Inl e) fs1
    | Inr v \<Rightarrow> wp (modm (\<lambda>fs. fs\<lparr>fs_next_index_offset := fs_next_index_offset fs + 4\<rparr>))
        (\<lambda>r s'. case r of Inl e \<Rightarrow> ?Q (Inl e) s' | Inr v \<Rightarrow> wp (fffs_index_set slot head) ?Q s') fs1"
    by (simp add: c(1) wp_modm)
qed

text \<open>C33: when the hash cache is full and the slot is new, the append reports \<^verbatim>\<open>FFFS_ERR_NO_SPACE\<close>
  although its record is already programmed: the caller sees a failure, the journal a commit.\<close>

theorem append_no_space_after_commit:
  assumes "emu.fdev fs" and "emu.healthy fs" and "cache_inv fs" and "slot \<noteq> 0" and "head \<noteq> 0"
    and "slot \<notin> dom (cache_map fs)" and "card (dom (cache_map fs)) = fs_index_hash_table_size fs"
    and "\<not> index_full fs" and "fs_next_index_offset fs + 4 \<le> length (emu.fmem fs)"
    and "sub_bytes (fs_next_index_offset fs) 4 (emu.fmem fs) = replicate 4 0xff"
  shows "wp (fffs_append_index_record slot head) (\<lambda>r fs'. r = Inl FFFS_ERR_NO_SPACE \<and>
    sub_bytes (fs_next_index_offset fs) 4 (emu.fmem fs') = fffs_store_le16 slot @ fffs_store_le16 head) fs"
proof (rule wp_eqI, rule append_not_full [OF assms(8)], unfold wp_seqm,
    rule wp_mono [OF emu.program_index_record_rule [OF assms(1,9,10)]])
  fix r fs1
  assume "emu.wrote_record fs (fs_next_index_offset fs) slot head r fs1"
  with assms(2) obtain c where c: "r = Inr ()" "fs1 = set_ctx c fs"
    "sub_bytes (fs_next_index_offset fs) 4 (emu_mem c) = fffs_store_le16 slot @ fffs_store_le16 head"
    by (cases r) (auto simp: emu.wrote_record_def)
  let ?fs2 = "fs1\<lparr>fs_next_index_offset := fs_next_index_offset fs1 + 4\<rparr>"
  have "fffs_index_set slot head ?fs2 = Some (Inl FFFS_ERR_NO_SPACE, ?fs2)"
    using cache_insert_full [of ?fs2 slot head] assms(3-7) c(2) by (simp add: fffs_index_set_def)
  with c show "case r of Inl e \<Rightarrow> Inl e = Inl FFFS_ERR_NO_SPACE \<and> sub_bytes (fs_next_index_offset fs) 4
      (emu.fmem fs1) = fffs_store_le16 slot @ fffs_store_le16 head
    | Inr v \<Rightarrow> wp (modm (\<lambda>fs. fs\<lparr>fs_next_index_offset := fs_next_index_offset fs + 4\<rparr>))
        (\<lambda>r s'. case r of Inl e \<Rightarrow> Inl e = Inl FFFS_ERR_NO_SPACE \<and> sub_bytes (fs_next_index_offset fs) 4
            (emu.fmem s') = fffs_store_le16 slot @ fffs_store_le16 head
         | Inr v \<Rightarrow> wp (fffs_index_set slot head) (\<lambda>r fs'. r = Inl FFFS_ERR_NO_SPACE \<and>
            sub_bytes (fs_next_index_offset fs) 4 (emu.fmem fs') = fffs_store_le16 slot @ fffs_store_le16 head) s') fs1"
    by (simp add: modm_def wp_def emu.fmem_def set_ctx_def emu.bmem_def)
qed


section \<open>Concrete instances\<close>

lemma example_header_args: "header_args_ok 2 0 5"
  by (simp add: header_args_ok_def)

lemma example_hdr_bytes: "emu.hdr_bytes example_backend 256 = replicate 8 0xff"
  by (simp add: emu.hdr_bytes_def example_backend_mem sub_bytes_def)

theorem index_header_crash_safe_witness:
  "wp (fffs_program_index_header 256 2 0 5) (\<lambda>r be'.
    fffs_valid_index_header (emu.hdr_bytes be' 256) = None \<or>
    fffs_valid_index_header (emu.hdr_bytes be' 256) = Some (2, 0, 5)) example_backend"
  using index_header_crash_safe [OF example_backend_uses(1) _ example_hdr_bytes example_header_args]
  by (simp add: example_backend_mem)

definition example_journal :: "fffs_index_bucket list \<Rightarrow> ffsv_flash fffs" where
  "example_journal table = example_fs\<lparr>fs_index_cache := table,
     fs_index_hash_table_size := length table, fs_next_index_offset := 8\<rparr>"

lemma example_journal_facts:
  "emu.fdev (example_journal t)" "emu.healthy (example_journal t)" "\<not> index_full (example_journal t)"
  "emu.fmem (example_journal t) = replicate 1024 0xff" "fs_next_index_offset (example_journal t) = 8"
  "cache_inv (example_journal t) = cache_inv (cache_example t)"
  "cache_map (example_journal t) = cache_map (cache_example t)"
  "fs_index_hash_table_size (example_journal t) = length t"
  using example_fs_mem example_fs_geom emu.geom_fdev [OF example_fs_geom(1)]
  by (simp_all add: example_journal_def emu.fdev_def emu.healthy_def emu.fmem_def index_full_def
      cache_inv_def cache_map_def cache_example_def)
    (simp_all add: example_fs_def zero_fs_def)

theorem append_index_record_effect_witness:
  "wp (fffs_append_index_record 2 9) (\<lambda>r fs'. r = Inr () \<and>
    sub_bytes 8 4 (emu.fmem fs') = [2, 0, 9, 0] \<and> fs_next_index_offset fs' = 12 \<and>
    cache_inv fs' \<and> cache_map fs' = [2 \<mapsto> 9]) (example_journal [bucket 2 7, zero_bucket])"
  using append_index_record_effect [OF example_journal_facts(1,2), of "[bucket 2 7, zero_bucket]" 2 9]
  by (simp add: example_journal_facts(3-8) cache_example_simps sub_bytes_replicate fffs_store_le16_def
      slot_upd_def)

theorem append_no_space_after_commit_witness:
  "wp (fffs_append_index_record 6 9) (\<lambda>r fs'. r = Inl FFFS_ERR_NO_SPACE \<and>
    sub_bytes 8 4 (emu.fmem fs') = [6, 0, 9, 0]) (example_journal [bucket 2 7, bucket 4 9])"
  using append_no_space_after_commit [OF example_journal_facts(1,2), of "[bucket 2 7, bucket 4 9]" 6 9]
  by (simp add: example_journal_facts(3-8) cache_example_simps sub_bytes_replicate fffs_store_le16_def)

end
