(* ===== verification/Fffs_Alloc_Map.thy ===== *)
theory Fffs_Alloc_Map
  imports Fffs_State
begin

unbundle bit_operations_syntax

text \<open>
  \<^verbatim>\<open>src/fffs_bitset.c\<close> and \<^verbatim>\<open>src/fffs_alloc_map.c\<close>: the fixed-storage bit set and the
  allocation-map hints (\<^verbatim>\<open>FFFS_ALLOC_MAP_FULL_BITMAP\<close>, the default).  Both are word arrays
  with one bit per element; \<open>bit_array\<close> states what a client of such an array relies on.
\<close>

section \<open>The bit set\<close>

definition fffs_bitset_clear :: "u32 list \<Rightarrow> nat \<Rightarrow> u32 list" where
  "fffs_bitset_clear ws word_count = put_bytes 0 (replicate word_count 0) ws"

definition fffs_bitset_get :: "u32 list \<Rightarrow> nat \<Rightarrow> bool" where
  "fffs_bitset_get ws b \<longleftrightarrow> (ws ! (b div 32)) AND (push_bit (b mod 32) 1) \<noteq> 0"

definition fffs_bitset_set :: "u32 list \<Rightarrow> nat \<Rightarrow> u32 list" where
  "fffs_bitset_set ws b = ws[b div 32 := (ws ! (b div 32)) OR push_bit (b mod 32) 1]"

section \<open>The allocation map\<close>

definition map_words_for_sectors :: "nat \<Rightarrow> nat" where
  "map_words_for_sectors sector_count = (sector_count + 31) div 32"

definition map_mask :: "u16 \<Rightarrow> u32" where
  "map_mask sector = push_bit (unat (sector AND 31)) 1"

definition fffs_alloc_map_config_valid :: "nat \<Rightarrow> fffs_mount_options \<Rightarrow> bool" where
  "fffs_alloc_map_config_valid sector_count opts \<longleftrightarrow>
     mo_alloc_map opts \<noteq> None \<and> mo_alloc_map_words opts \<ge> map_words_for_sectors sector_count"

definition fffs_alloc_map_maybe_used :: "'c fffs \<Rightarrow> u16 \<Rightarrow> bool" where
  "fffs_alloc_map_maybe_used fs sector =
     (case fs_alloc_map fs of
        None \<Rightarrow> False
      | Some m \<Rightarrow>
          if unat sector \<ge> fs_sector_count fs then False
          else (m ! (unat sector div 32)) AND map_mask sector \<noteq> 0)"

definition fffs_alloc_map_mark_used :: "u16 \<Rightarrow> 'c fffs \<Rightarrow> 'c fffs" where
  "fffs_alloc_map_mark_used sector fs =
     (case fs_alloc_map fs of
        None \<Rightarrow> fs
      | Some m \<Rightarrow>
          if unat sector \<ge> fs_sector_count fs then fs
          else fs\<lparr>fs_alloc_map := Some (m[unat sector div 32 :=
                 (m ! (unat sector div 32)) OR map_mask sector])\<rparr>)"

definition fffs_alloc_map_mark_unknown :: "u16 \<Rightarrow> 'c fffs \<Rightarrow> 'c fffs" where
  "fffs_alloc_map_mark_unknown sector fs =
     (case fs_alloc_map fs of
        None \<Rightarrow> fs
      | Some m \<Rightarrow>
          if unat sector \<ge> fs_sector_count fs then fs
          else fs\<lparr>fs_alloc_map := Some (m[unat sector div 32 :=
                 (m ! (unat sector div 32)) AND NOT (map_mask sector)])\<rparr>)"

text \<open>\<^verbatim>\<open>for (i = 0; i < count; i++) mark_unknown((uint16_t)(first + i))\<close>.\<close>

fun mark_unknown_from :: "u16 \<Rightarrow> nat \<Rightarrow> 'c fffs \<Rightarrow> 'c fffs" where
  "mark_unknown_from first 0 fs = fs"
| "mark_unknown_from first (Suc n) fs =
     mark_unknown_from (first + 1) n (fffs_alloc_map_mark_unknown first fs)"

definition fffs_alloc_map_mark_range_unknown :: "u16 \<Rightarrow> u16 \<Rightarrow> 'c fffs \<Rightarrow> 'c fffs" where
  "fffs_alloc_map_mark_range_unknown first count = mark_unknown_from first (unat count)"

fun mark_used_from :: "u16 \<Rightarrow> nat \<Rightarrow> 'c fffs \<Rightarrow> 'c fffs" where
  "mark_used_from first 0 fs = fs"
| "mark_used_from first (Suc n) fs =
     mark_used_from (first + 1) n (fffs_alloc_map_mark_used first fs)"

definition fffs_alloc_map_mount_init :: "fffs_mount_options \<Rightarrow> ('c, unit) fsop" where
  "fffs_alloc_map_mount_init opts = bindm (getm id) (\<lambda>fs.
     let words = map_words_for_sectors (fs_sector_count fs) in
     if \<not> fffs_alloc_map_config_valid (fs_sector_count fs) opts then throw FFFS_ERR_INVALID
     else
       seqm (modm (\<lambda>fs. fs\<lparr>fs_alloc_map := Some (put_bytes 0 (replicate words 0) (the (mo_alloc_map opts))),
                            fs_alloc_map_words := mo_alloc_map_words opts\<rparr>))
            (modm (mark_used_from 0 (unat (fs_index_sectors fs)))))"

section \<open>The interface of a bit array\<close>

text \<open>\<open>bits a\<close> is the number of addressable bits; \<open>mark i\<close> sets bit \<open>i\<close>, \<open>unmark i\<close>
  clears it; every other bit keeps its value.\<close>

locale bit_array =
  fixes bits :: "'a \<Rightarrow> nat"
    and get :: "'a \<Rightarrow> nat \<Rightarrow> bool"
    and mark :: "nat \<Rightarrow> 'a \<Rightarrow> 'a"
  assumes bits_mark [simp]: "bits (mark i a) = bits a"
    and get_mark: "i < bits a \<Longrightarrow> j < bits a \<Longrightarrow> get (mark i a) j = (j = i \<or> get a j)"
begin

fun mark_from :: "nat \<Rightarrow> nat \<Rightarrow> 'a \<Rightarrow> 'a" where
  "mark_from i 0 a = a"
| "mark_from i (Suc n) a = mark_from (Suc i) n (mark i a)"

lemma bits_mark_from [simp]: "bits (mark_from i n a) = bits a"
  by (induction i n a rule: mark_from.induct) simp_all

lemma get_mark_from:
  "i + n \<le> bits a \<Longrightarrow> j < bits a \<Longrightarrow>
     get (mark_from i n a) j = ((i \<le> j \<and> j < i + n) \<or> get a j)"
  by (induction i n a rule: mark_from.induct) (auto simp: get_mark)

end

locale clearable_bit_array = bit_array +
  fixes unmark :: "nat \<Rightarrow> 'a \<Rightarrow> 'a"
  assumes bits_unmark [simp]: "bits (unmark i a) = bits a"
    and get_unmark: "i < bits a \<Longrightarrow> j < bits a \<Longrightarrow> get (unmark i a) j = (j \<noteq> i \<and> get a j)"
begin

fun unmark_from :: "nat \<Rightarrow> nat \<Rightarrow> 'a \<Rightarrow> 'a" where
  "unmark_from i 0 a = a"
| "unmark_from i (Suc n) a = unmark_from (Suc i) n (unmark i a)"

lemma bits_unmark_from [simp]: "bits (unmark_from i n a) = bits a"
  by (induction i n a rule: unmark_from.induct) simp_all

lemma get_unmark_from:
  "i + n \<le> bits a \<Longrightarrow> j < bits a \<Longrightarrow>
     get (unmark_from i n a) j = (\<not> (i \<le> j \<and> j < i + n) \<and> get a j)"
  by (induction i n a rule: unmark_from.induct) (auto simp: get_unmark)

end

section \<open>Both arrays satisfy it\<close>

lemma bit_exp_u32: "k < 32 \<Longrightarrow> bit (2 ^ k :: u32) n \<longleftrightarrow> n = k"
  by (auto simp: bit_simps)

lemmas bit_test = and_exp_eq_0_iff_not_bit bit_or_iff bit_and_iff bit_not_iff bit_exp_u32

lemma div_mod_32_eq: "i div 32 = j div 32 \<Longrightarrow> i mod 32 = j mod 32 \<Longrightarrow> i = (j :: nat)"
  by (metis div_mult_mod_eq)

interpretation bs: bit_array "\<lambda>ws. 32 * length ws" fffs_bitset_get "\<lambda>b ws. fffs_bitset_set ws b"
proof
  fix ws :: "u32 list" and i j
  show "32 * length (fffs_bitset_set ws i) = 32 * length ws"
    by (simp add: fffs_bitset_set_def)
  assume "i < 32 * length ws" "j < 32 * length ws"
  then have "i div 32 < length ws" "j div 32 < length ws" by auto
  then show "fffs_bitset_get (fffs_bitset_set ws i) j = (j = i \<or> fffs_bitset_get ws j)"
    by (auto simp: fffs_bitset_get_def fffs_bitset_set_def bit_test nth_list_update
        dest: div_mod_32_eq)
qed

text \<open>The sectors an allocation map of a mounted file system tracks.\<close>

definition map_bits :: "'c fffs \<Rightarrow> nat" where
  "map_bits fs = (case fs_alloc_map fs of
     None \<Rightarrow> 0 | Some m \<Rightarrow> min (fs_sector_count fs) (min 65536 (32 * length m)))"

lemma map_mask_eq: "map_mask s = push_bit (unat s mod 32) 1"
proof -
  have "s AND 31 = take_bit 5 s" by (simp add: take_bit_eq_mask mask_eq_exp_minus_1)
  then have "unat (s AND 31) = unat s mod 32" by (simp add: take_bit_eq_mod unat_mod_distrib)
  then show ?thesis by (simp add: map_mask_def)
qed

lemmas alloc_map_defs = fffs_alloc_map_maybe_used_def fffs_alloc_map_mark_used_def
  fffs_alloc_map_mark_unknown_def map_bits_def map_mask_eq

interpretation am: clearable_bit_array map_bits
  "\<lambda>fs i. fffs_alloc_map_maybe_used fs (of_nat i)"
  "\<lambda>i. fffs_alloc_map_mark_used (of_nat i)" "\<lambda>i. fffs_alloc_map_mark_unknown (of_nat i)"
proof
  fix fs :: "'c fffs" and i j
  show "map_bits (fffs_alloc_map_mark_used (of_nat i) fs) = map_bits fs"
    and "map_bits (fffs_alloc_map_mark_unknown (of_nat i) fs) = map_bits fs"
    by (auto simp: alloc_map_defs split: option.splits)
  assume ij: "i < map_bits fs" "j < map_bits fs"
  then obtain m where m: "fs_alloc_map fs = Some m" by (auto simp: map_bits_def split: option.splits)
  with ij have "i div 32 < length m" "j div 32 < length m" "i < 65536" "j < 65536"
    "i < fs_sector_count fs" "j < fs_sector_count fs"
    by (auto simp: map_bits_def)
  with m show "fffs_alloc_map_maybe_used (fffs_alloc_map_mark_used (of_nat i) fs) (of_nat j) =
      (j = i \<or> fffs_alloc_map_maybe_used fs (of_nat j))"
    and "fffs_alloc_map_maybe_used (fffs_alloc_map_mark_unknown (of_nat i) fs) (of_nat j) =
      (j \<noteq> i \<and> fffs_alloc_map_maybe_used fs (of_nat j))"
    by (auto simp: alloc_map_defs bit_test nth_list_update dest: div_mod_32_eq)
qed

lemma mark_used_from_eq: "mark_used_from (of_nat i) n fs = am.mark_from i n fs"
  by (induction i n fs rule: am.mark_from.induct) (simp_all add: add.commute)

lemma mark_unknown_from_eq: "mark_unknown_from (of_nat i) n fs = am.unmark_from i n fs"
  by (induction i n fs rule: am.unmark_from.induct) (simp_all add: add.commute)

section \<open>Properties\<close>

lemma of_nat_unat_u16 [simp]: "(of_nat (unat s) :: u16) = s"
  by simp

text \<open>\<^verbatim>\<open>fffs_alloc_map_mark_range_unknown\<close> clears the hint of exactly the sectors of the range;
  every other tracked sector keeps its hint.\<close>

lemma mark_range_unknown_exact:
  assumes "unat first + unat count \<le> map_bits fs" and "unat sector < map_bits fs"
  shows "fffs_alloc_map_maybe_used (fffs_alloc_map_mark_range_unknown first count fs) sector =
    (\<not> (unat first \<le> unat sector \<and> unat sector < unat first + unat count) \<and>
     fffs_alloc_map_maybe_used fs sector)"
  using am.get_unmark_from [OF assms] mark_unknown_from_eq [of "unat first" "unat count" fs]
  by (simp add: fffs_alloc_map_mark_range_unknown_def)

lemma mark_used_sector_count [simp]:
  "fs_sector_count (fffs_alloc_map_mark_used sector fs) = fs_sector_count fs"
  by (simp add: fffs_alloc_map_mark_used_def split: option.split)

lemma mark_from_sector_count: "fs_sector_count (am.mark_from i n fs) = fs_sector_count fs"
  by (induction i n fs rule: am.mark_from.induct) simp_all

lemma map_bits_mount:
  assumes "fs_sector_count fs \<le> 65536" "map_words_for_sectors (fs_sector_count fs) \<le> length m"
  shows "map_bits (fs\<lparr>fs_alloc_map := Some m, fs_alloc_map_words := w\<rparr>) = fs_sector_count fs"
  using assms by (simp add: map_bits_def map_words_for_sectors_def)

text \<open>C34: after mount initialises the allocation map of a device of at most 65536 sectors, whatever
  the caller's array held, the sectors hinted as used are exactly the index sectors.\<close>

theorem alloc_map_mount_init_exact:
  assumes cfg: "fffs_alloc_map_config_valid (fs_sector_count fs) opts"
    and len: "mo_alloc_map opts = Some m" "length m = mo_alloc_map_words opts"
    and sectors: "unat (fs_index_sectors fs) \<le> fs_sector_count fs" "fs_sector_count fs \<le> 65536"
  shows "wp (fffs_alloc_map_mount_init opts) (\<lambda>r fs'. r = Inr () \<and>
    (\<forall>sector. fffs_alloc_map_maybe_used fs' sector = (unat sector < unat (fs_index_sectors fs)))) fs"
proof -
  let ?w = "map_words_for_sectors (fs_sector_count fs)" and ?n = "unat (fs_index_sectors fs)"
  define fs0 where "fs0 = fs\<lparr>fs_alloc_map := Some (put_bytes 0 (replicate ?w 0) m),
    fs_alloc_map_words := mo_alloc_map_words opts\<rparr>"
  from cfg len have w: "?w \<le> length m" by (simp add: fffs_alloc_map_config_valid_def)
  then have bits: "map_bits fs0 = fs_sector_count fs"
    unfolding fs0_def using sectors by (intro map_bits_mount) simp_all
  have clear: "\<not> fffs_alloc_map_maybe_used fs0 sector" if "unat sector < fs_sector_count fs" for sector
  proof -
    have "unat sector div 32 < ?w" using that by (simp add: map_words_for_sectors_def)
    with w show ?thesis
      by (auto simp: fffs_alloc_map_maybe_used_def fs0_def nth_put_bytes)
  qed
  have cnt: "fs_sector_count (am.mark_from 0 ?n fs0) = fs_sector_count fs"
    by (simp add: mark_from_sector_count fs0_def)
  have "fffs_alloc_map_maybe_used (am.mark_from 0 ?n fs0) sector = (unat sector < ?n)" for sector
  proof (cases "unat sector < fs_sector_count fs")
    case True
    with am.get_mark_from [of 0 ?n fs0 "unat sector"] bits clear sectors show ?thesis by simp
  next
    case False
    with sectors cnt show ?thesis
      by (auto simp: fffs_alloc_map_maybe_used_def split: option.split)
  qed
  with cfg len mark_used_from_eq [of 0 ?n fs0] show ?thesis
    by (simp add: fffs_alloc_map_mount_init_def wp_simps Let_def fs0_def)
qed

text \<open>Concrete instances: a device of 40 sectors, two of them index sectors.\<close>

definition map_example :: "unit fffs" where
  "map_example = (zero_fs null_backend)\<lparr>fs_sector_count := 40, fs_index_sectors := 2,
     fs_alloc_map := Some [0xffffffff, 0xff]\<rparr>"

definition map_example_options :: fffs_mount_options where
  "map_example_options = \<lparr>mo_index_cache_size = 0, mo_index_hash_table_size = 2, mo_scratch = [],
     mo_scratch_size = 0, mo_strict = False, mo_alloc_map = Some [0xdead, 0xbeef, 0],
     mo_alloc_map_words = 3\<rparr>"

theorem alloc_map_mount_init_exact_witness:
  "wp (fffs_alloc_map_mount_init map_example_options) (\<lambda>r fs'. r = Inr () \<and>
    (\<forall>sector. fffs_alloc_map_maybe_used fs' sector = (unat sector < 2))) map_example"
  using alloc_map_mount_init_exact [of map_example map_example_options "[0xdead, 0xbeef, 0]"]
  by (simp add: map_example_def map_example_options_def fffs_alloc_map_config_valid_def
      map_words_for_sectors_def)

end
