(* ===== verification/Fffs_Fsinfo.thy ===== *)
theory Fffs_Fsinfo
  imports Fffs_State "HOL-Library.Multiset"
begin

unbundle bit_operations_syntax

text \<open>
  The running totals of committed files and bytes, first part of \<^verbatim>\<open>src/fastffs.c\<close>.  They are
  kept only while both validity flags are set; a delete that would make a total negative clears the
  flags instead.
\<close>

section \<open>Operations\<close>

definition fffs_fsinfo_invalidate_committed :: "'c fffs \<Rightarrow> 'c fffs" where
  "fffs_fsinfo_invalidate_committed fs = fs\<lparr>fs_fsinfo_valid_flags := fs_fsinfo_valid_flags fs AND
     NOT (FFFS_FSINFO_COMMITTED_FILES_VALID OR FFFS_FSINFO_COMMITTED_BYTES_VALID OR
          FFFS_FSINFO_METADATA_ESTIMATE_VALID)\<rparr>"

definition fffs_fsinfo_committed_valid :: "'c fffs \<Rightarrow> bool" where
  "fffs_fsinfo_committed_valid fs \<longleftrightarrow>
     fs_fsinfo_valid_flags fs AND (FFFS_FSINFO_COMMITTED_FILES_VALID OR FFFS_FSINFO_COMMITTED_BYTES_VALID) =
     FFFS_FSINFO_COMMITTED_FILES_VALID OR FFFS_FSINFO_COMMITTED_BYTES_VALID"

definition fffs_fsinfo_note_committed_add :: "u32 \<Rightarrow> 'c fffs \<Rightarrow> 'c fffs" where
  "fffs_fsinfo_note_committed_add sz fs =
     (if \<not> fffs_fsinfo_committed_valid fs then fs
      else fs\<lparr>fs_committed_file_count := fs_committed_file_count fs + 1,
              fs_committed_data_bytes := fs_committed_data_bytes fs + sz,
              fs_fsinfo_valid_flags :=
                fs_fsinfo_valid_flags fs AND NOT FFFS_FSINFO_METADATA_ESTIMATE_VALID\<rparr>)"

definition fffs_fsinfo_note_committed_delete :: "u32 \<Rightarrow> 'c fffs \<Rightarrow> 'c fffs" where
  "fffs_fsinfo_note_committed_delete sz fs =
     (if \<not> fffs_fsinfo_committed_valid fs then fs
      else if fs_committed_file_count fs = 0 \<or> fs_committed_data_bytes fs < sz
      then fffs_fsinfo_invalidate_committed fs
      else fs\<lparr>fs_committed_file_count := fs_committed_file_count fs - 1,
              fs_committed_data_bytes := fs_committed_data_bytes fs - sz,
              fs_fsinfo_valid_flags :=
                fs_fsinfo_valid_flags fs AND NOT FFFS_FSINFO_METADATA_ESTIMATE_VALID\<rparr>)"

section \<open>The totals of a multiset of files\<close>

text \<open>\<open>accounts fs M\<close>: the totals are valid and are those of the files of sizes \<open>M\<close>, modulo \<open>2^32\<close>.\<close>

definition accounts :: "'c fffs \<Rightarrow> u32 multiset \<Rightarrow> bool" where
  "accounts fs M \<longleftrightarrow> fffs_fsinfo_committed_valid fs \<and> fs_committed_file_count fs = of_nat (size M) \<and>
     fs_committed_data_bytes fs = sum_mset M"

definition totals_fit :: "u32 multiset \<Rightarrow> bool" where
  "totals_fit M \<longleftrightarrow> size M < 2 ^ 32 \<and> sum_mset (image_mset unat M) < 2 ^ 32"

lemma valid_flags_iff: "fffs_fsinfo_committed_valid fs \<longleftrightarrow>
    bit (fs_fsinfo_valid_flags fs) 1 \<and> bit (fs_fsinfo_valid_flags fs) 2"
proof -
  have six: "(FFFS_FSINFO_COMMITTED_FILES_VALID OR FFFS_FSINFO_COMMITTED_BYTES_VALID :: u32) = 6" by simp
  have b6: "bit (6 :: u32) n \<longleftrightarrow> n = 1 \<or> n = 2" for n
  proof -
    have "bit (6 :: u32) n = bit (push_bit 1 1 OR push_bit 2 1 :: u32) n" by simp
    also have "\<dots> \<longleftrightarrow> n = 1 \<or> n = 2" by (simp only: bit_simps) auto
    finally show ?thesis .
  qed
  have "x AND 6 = 6 \<longleftrightarrow> bit x 1 \<and> bit x 2" for x :: u32
  proof
    assume "x AND 6 = 6"
    then have "bit (x AND 6) n = bit (6 :: u32) n" for n by simp
    from this [of 1] this [of 2] show "bit x 1 \<and> bit x 2" by (simp add: bit_and_iff b6)
  next
    assume "bit x 1 \<and> bit x 2"
    then have "bit (x AND 6) n = bit (6 :: u32) n" for n
      unfolding bit_and_iff b6 by auto
    then show "x AND 6 = 6" by (intro bit_word_eqI) blast
  qed
  then show ?thesis by (simp add: fffs_fsinfo_committed_valid_def six)
qed

lemma valid_keeps_estimate:
  "fffs_fsinfo_committed_valid (fs\<lparr>fs_committed_file_count := a, fs_committed_data_bytes := b,
     fs_fsinfo_valid_flags := fs_fsinfo_valid_flags fs AND NOT FFFS_FSINFO_METADATA_ESTIMATE_VALID\<rparr>) =
   fffs_fsinfo_committed_valid fs"
proof -
  have "(16 :: u32) = push_bit 4 1" by simp
  then have "bit (16 :: u32) 1 = False" "bit (16 :: u32) 2 = False" by (auto simp: bit_simps)
  then show ?thesis by (simp add: valid_flags_iff bit_and_iff bit_not_iff)
qed

lemma sum_mset_unat: "sum_mset (image_mset unat (M :: u32 multiset)) < 2 ^ 32 \<Longrightarrow> unat (sum_mset M) = sum_mset (image_mset unat M)"
proof (induction M)
  case (add x M)
  then have "unat x + unat (sum_mset M) < 2 ^ 32" by simp
  with add show ?case by (simp add: unat_word_ariths)
qed simp

text \<open>C22: The running totals are those of the multiset of committed file sizes.  Noting a commit adds
  its size, modulo \<open>2^32\<close> as the C counters do; noting the delete of a committed size removes it, as long
  as the true totals fit 32 bits; noting a delete with no file accounted for clears the validity flags
  instead of wrapping; and once the flags are clear both notes leave the state alone.\<close>

theorem fsinfo_totals_refine:
  "(accounts fs M \<longrightarrow> accounts (fffs_fsinfo_note_committed_add sz fs) (add_mset sz M)) \<and>
   (accounts fs M \<and> totals_fit M \<and> sz \<in># M \<longrightarrow> accounts (fffs_fsinfo_note_committed_delete sz fs) (M - {#sz#})) \<and>
   (accounts fs {#} \<longrightarrow> \<not> fffs_fsinfo_committed_valid (fffs_fsinfo_note_committed_delete sz fs)) \<and>
   (\<not> fffs_fsinfo_committed_valid fs \<longrightarrow>
      fffs_fsinfo_note_committed_add sz fs = fs \<and> fffs_fsinfo_note_committed_delete sz fs = fs)"
proof (intro conjI impI)
  show "accounts (fffs_fsinfo_note_committed_add sz fs) (add_mset sz M)" if "accounts fs M"
    using that by (simp add: accounts_def fffs_fsinfo_note_committed_add_def valid_keeps_estimate [simplified] add.commute)
  show "accounts (fffs_fsinfo_note_committed_delete sz fs) (M - {#sz#})"
    if a: "accounts fs M \<and> totals_fit M \<and> sz \<in># M"
  proof -
    from a obtain N where N: "M = add_mset sz N" by (auto dest: multi_member_split)
    have fit: "size M < 2 ^ 32" "sum_mset (image_mset unat M) < 2 ^ 32" using a by (simp_all add: totals_fit_def)
    have "unat (of_nat (size M) :: u32) = size M" using fit(1) by (simp add: unat_of_nat)
    then have "(of_nat (size M) :: u32) \<noteq> 0" using N by (metis size_add_mset unat_0 nat.distinct(1))
    moreover have "\<not> sum_mset M < sz"
      using sum_mset_unat [OF fit(2)] N by (simp add: word_less_nat_alt)
    ultimately show ?thesis
      using a N by (simp add: accounts_def fffs_fsinfo_note_committed_delete_def valid_keeps_estimate [simplified])
  qed
  show "\<not> fffs_fsinfo_committed_valid (fffs_fsinfo_note_committed_delete sz fs)" if "accounts fs {#}"
  proof -
    have "(2 :: u32) = push_bit 1 1" by simp
    then have "bit (2 :: u32) 1" by (auto simp: bit_simps)
    with that show ?thesis
      by (simp add: accounts_def fffs_fsinfo_note_committed_delete_def fffs_fsinfo_invalidate_committed_def
          valid_flags_iff bit_and_iff bit_not_iff bit_or_iff)
  qed
qed (simp_all add: fffs_fsinfo_note_committed_add_def fffs_fsinfo_note_committed_delete_def)

theorem fsinfo_totals_refine_witness:
  "accounts (fffs_fsinfo_note_committed_delete 7 (fffs_fsinfo_note_committed_add 5
     ((zero_fs null_backend)\<lparr>fs_fsinfo_valid_flags := 6, fs_committed_file_count := 1, fs_committed_data_bytes := 7\<rparr>)))
     {#5#}"
proof -
  let ?fs = "(zero_fs null_backend)\<lparr>fs_fsinfo_valid_flags := 6, fs_committed_file_count := 1, fs_committed_data_bytes := 7\<rparr>"
  have "accounts ?fs {#7#}" by (simp add: accounts_def fffs_fsinfo_committed_valid_def)
  with fsinfo_totals_refine [of ?fs "{#7#}" 5]
  have "accounts (fffs_fsinfo_note_committed_add 5 ?fs) {#5, 7#}" by simp
  moreover have "totals_fit {#5, 7#}" by (simp add: totals_fit_def)
  ultimately show ?thesis
    using fsinfo_totals_refine [of "fffs_fsinfo_note_committed_add 5 ?fs" "{#5, 7#}" 7]
    by simp
qed

end
