(* ===== verification/Fffs_Metadata.thy ===== *)
theory Fffs_Metadata
  imports Fffs_Index_Log Fffs_Alloc_Map Fffs_Fsinfo
begin

unbundle bit_operations_syntax

text \<open>
  File metadata records, \<^verbatim>\<open>src/fffs_file_md.c\<close>, and the erased-span check of
  \<^verbatim>\<open>src/fffs_alloc.c\<close> it uses.  The metadata of a data sector grows down from the footer in
  records of sixteen bytes: state, slot, next, span length, data offset, data length, size or file
  offset, type.  File data grows up from the start of the sector.

  \<open>md_walk_loop\<close> is the loop \<^verbatim>\<open>while (walk.active) { fffs_md_walk_next(...); ... }\<close> that four
  functions share; its body either leaves the loop (\<open>Inl\<close>) or goes on with new loop variables
  (\<open>Inr\<close>).  A file object that is only read is passed as a value.
\<close>

section \<open>Erased spans\<close>

partial_function (option) fffs_flash_span_is_erased ::
  "nat \<Rightarrow> nat \<Rightarrow> 'c fffs \<Rightarrow> (unit res \<times> 'c fffs) option" where
  "fffs_flash_span_is_erased offset sz fs =
     (if sz = 0 then ret () fs
      else
        let n = min sz (fs_scratch_size fs) in
        bindm (read_scratch offset n) (\<lambda>chunk.
          seqm (modm fffs_scratch_bump)
            (if \<not> fffs_flash_bytes_erased chunk then throw FFFS_ERR_NO_SPACE
             else fffs_flash_span_is_erased (offset + n) (sz - n))) fs)"

section \<open>Records\<close>

record fffs_md_record =
  md_type :: byte
  md_state :: byte
  md_live :: bool
  md_slot :: u16
  md_next :: u16
  md_span_len :: u16
  md_data_off :: u16
  md_data_len :: u16
  md_size_or_offset :: u32
  md_record_start :: nat
  md_record_len :: nat

definition zero_md_record :: fffs_md_record where
  "zero_md_record = \<lparr>md_type = 0, md_state = 0, md_live = False, md_slot = 0, md_next = 0,
     md_span_len = 0, md_data_off = 0, md_data_len = 0, md_size_or_offset = 0,
     md_record_start = 0, md_record_len = 0\<rparr>"

datatype fffs_md_walk_result =
    FFFS_MD_WALK_RECORD
  | FFFS_MD_WALK_END_ERASED
  | FFFS_MD_WALK_END_CLAIMED_DATA
  | FFFS_MD_WALK_END_INVALID

datatype fffs_tombstone_accounting = FFFS_TOMBSTONE_NO_ACCOUNTING | FFFS_TOMBSTONE_COMMITTED_DELETE

datatype fffs_md_slot_match = FFFS_MD_MATCH_LIVE | FFFS_MD_MATCH_UNCOMMITTED

record fffs_read_cache_view =
  cv_data :: "byte list"
  cv_capacity :: nat
  cv_len :: nat
  cv_data_pos :: u32

text \<open>What a C string function sees of a character array.\<close>

definition c_string :: "byte list \<Rightarrow> byte list" where
  "c_string bs = takeWhile (\<lambda>b. b \<noteq> 0) bs"

text \<open>The root extent starts with name length, name, attribute length and attributes; the payload
  follows.  The result is the stat, the payload's offset and length, and the read cache, which keeps
  the payload bytes already read.\<close>

definition read_root_prefix ::
  "u16 \<Rightarrow> u16 \<Rightarrow> u16 \<Rightarrow> u32 \<Rightarrow> fffs_read_cache_view option \<Rightarrow>
   ('c, fffs_stat \<times> u16 \<times> u16 \<times> fffs_read_cache_view option) fsop" where
  "read_root_prefix sector data_off data_len sz cache =
     (if data_len < 2 then throw FFFS_ERR_CORRUPT
      else bindm (getm id) (\<lambda>fs.
        let usable = (case cache of None \<Rightarrow> None
              | Some c \<Rightarrow> if cv_capacity c \<ge> FFFS_MAX_NAME + 2 then Some c else None);
            buf_size = (case usable of None \<Rightarrow> FFFS_MAX_NAME + 2 | Some c \<Rightarrow> cv_capacity c);
            nread = min (unat data_len) buf_size
        in bindm (fffs_flash_read (unat sector * fs_sector_size fs + unat data_off) nread) (\<lambda>buf.
          let name_len = unat (buf ! 0);
              vmeta_len_off = 1 + name_len
          in if name_len = 0 \<or> name_len > FFFS_MAX_NAME \<or>
                vmeta_len_off \<ge> unat data_len \<or> vmeta_len_off \<ge> nread
             then throw FFFS_ERR_CORRUPT
             else
               let payload_off = 1 + name_len + 1 + unat (buf ! vmeta_len_off) in
               if payload_off > unat data_len then throw FFFS_ERR_CORRUPT
               else
                 let cached_payload = nread - payload_off;
                     cache' = (case usable of
                         None \<Rightarrow> cache
                       | Some c \<Rightarrow> Some (c\<lparr>
                           cv_data := put_bytes 0 (sub_bytes payload_off cached_payload buf)
                             (put_bytes 0 buf (cv_data c)),
                           cv_len := cached_payload, cv_data_pos := 0\<rparr>))
                 in ret (\<lparr>st_name = c_string (sub_bytes 1 name_len buf), st_size = sz\<rparr>,
                      data_off + of_nat payload_off, data_len - of_nat payload_off, cache'))))"

definition decode_file_md_record ::
  "fffs_sector_reader \<Rightarrow> u16 \<Rightarrow> nat \<Rightarrow>
   ('c, fffs_md_record \<times> fffs_md_walk_result \<times> fffs_sector_reader) fsop" where
  "decode_file_md_record reader sector cursor =
     bindm (fffs_sector_reader_view reader sector (cursor - 1) 1) (\<lambda>(t, reader).
     let type = t ! 0 in
     if type = 0xff then ret (zero_md_record, FFFS_MD_WALK_END_ERASED, reader)
     else if cursor < FFFS_SECTOR_FOOTER_SIZE + FFFS_MD_FILE_RECORD_SIZE then throw FFFS_ERR_CORRUPT
     else
       let record_start = cursor - FFFS_MD_FILE_RECORD_SIZE;
           record = zero_md_record\<lparr>md_type := type, md_record_start := record_start,
             md_record_len := FFFS_MD_FILE_RECORD_SIZE\<rparr>
       in if type \<noteq> FFFS_MD_TYPE_FILE_ROOT_V1 \<and> type \<noteq> FFFS_MD_TYPE_FILE_CONT_V1
          then ret (record, FFFS_MD_WALK_END_INVALID, reader)
          else
            bindm (fffs_sector_reader_view reader sector record_start FFFS_MD_FILE_RECORD_SIZE)
              (\<lambda>(buf, reader). bindm (getm id) (\<lambda>fs.
                 if fffs_flash_bytes_erased buf then ret (record, FFFS_MD_WALK_END_ERASED, reader)
                 else
                   let valid = fffs_lifecycle_valid_pair (buf ! 0);
                       tombstone = fffs_lifecycle_tombstone_pair (buf ! 0);
                       live = fffs_lifecycle_is_live valid tombstone;
                       record = record\<lparr>md_state := buf ! 0, md_live := live,
                         md_slot := fffs_load_le16 (drop 1 buf),
                         md_next := fffs_load_le16 (drop 3 buf),
                         md_span_len := fffs_load_le16 (drop 5 buf),
                         md_data_off := fffs_load_le16 (drop 7 buf),
                         md_data_len := fffs_load_le16 (drop 9 buf),
                         md_size_or_offset := fffs_load_le32 (drop 11 buf)\<rparr>;
                       uncommitted = (buf ! 0 = 0xff);
                       invalid = ret (record, FFFS_MD_WALK_END_INVALID, reader)
                   in if buf ! 0 \<noteq> 0xff \<and> \<not> live \<and> valid \<noteq> FFFS_BITMIRROR_CLEARED then invalid
                      else if unat (md_data_off record) + unat (md_data_len record) > record_start
                      then invalid
                      else if \<not> uncommitted \<and> (md_span_len record = 0 \<or>
                        unat sector + unat (md_span_len record) > fs_sector_count fs) then invalid
                      else if \<not> uncommitted \<and> md_next record \<noteq> 0 \<and>
                        (unat (md_next record) < unat (fs_index_sectors fs) \<or>
                         unat (md_next record) \<ge> fs_sector_count fs) then invalid
                      else ret (record, FFFS_MD_WALK_RECORD, reader))))"

definition valid_data_sector :: "'c fffs \<Rightarrow> u16 \<Rightarrow> bool" where
  "valid_data_sector fs sector \<longleftrightarrow>
     unat sector \<ge> unat (fs_index_sectors fs) \<and> unat sector < fs_sector_count fs"

section \<open>Walking the records of a sector\<close>

definition fffs_md_walk_init ::
  "u16 \<Rightarrow> fffs_sector_reader \<Rightarrow> ('c, fffs_md_walk \<times> fffs_sector_reader) fsop" where
  "fffs_md_walk_init sector window = bindm (getm id) (\<lambda>fs.
     if rd_capacity window < FFFS_MD_FILE_RECORD_SIZE + FFFS_SECTOR_FOOTER_SIZE \<or>
        unat sector < unat (fs_index_sectors fs) \<or> unat sector \<ge> fs_sector_count fs
     then throw FFFS_ERR_INVALID
     else ret (zero_walk\<lparr>walk_sector := sector,
                 walk_cursor := fs_sector_size fs - FFFS_SECTOR_FOOTER_SIZE,
                 walk_live_bytes := of_nat FFFS_SECTOR_FOOTER_SIZE, walk_active := True\<rparr>,
               if rd_sector window \<noteq> sector
               then window\<lparr>rd_sector := sector, rd_start := 0, rd_len := 0\<rparr> else window))"

definition md_record_matches_slot :: "fffs_md_record \<Rightarrow> u16 \<Rightarrow> fffs_md_slot_match \<Rightarrow> bool" where
  "md_record_matches_slot record want_slot match =
     (if md_slot record \<noteq> want_slot then False
      else if match = FFFS_MD_MATCH_UNCOMMITTED then md_state record = 0xff
      else md_live record)"

definition fffs_md_walk_next ::
  "fffs_md_walk \<Rightarrow> fffs_sector_reader \<Rightarrow>
   ('c, fffs_md_walk \<times> fffs_sector_reader \<times> fffs_md_record \<times> fffs_md_walk_result) fsop" where
  "fffs_md_walk_next walk window =
     (if \<not> walk_active walk \<or> walk_sector walk \<noteq> rd_sector window then throw FFFS_ERR_INVALID
      else if walk_cursor walk \<le> FFFS_SECTOR_FOOTER_SIZE
      then ret (walk\<lparr>walk_active := False\<rparr>, window, zero_md_record, FFFS_MD_WALK_END_CLAIMED_DATA)
      else bindm (decode_file_md_record window (walk_sector walk) (walk_cursor walk))
        (\<lambda>(record, result, window).
           if result \<noteq> FFFS_MD_WALK_RECORD
           then ret (walk\<lparr>walk_active := False\<rparr>, window, record, result)
           else
             let data_end = unat (md_data_off record) + unat (md_data_len record);
                 claimed = max (walk_claimed_data_end walk) data_end
             in ret (walk\<lparr>walk_cursor := md_record_start record, walk_claimed_data_end := claimed,
                       walk_active := (walk_active walk \<and> \<not> md_record_start record \<le> claimed)\<rparr>,
                     window, record, result)))"

partial_function (option) md_walk_loop ::
  "(fffs_md_walk_result \<Rightarrow> fffs_md_record \<Rightarrow> 'a \<Rightarrow> 'c fffs \<Rightarrow> (('b + 'a) res \<times> 'c fffs) option) \<Rightarrow>
   fffs_md_walk \<Rightarrow> fffs_sector_reader \<Rightarrow> 'a \<Rightarrow> 'c fffs \<Rightarrow> (('b + 'a) res \<times> 'c fffs) option" where
  "md_walk_loop body walk window acc fs =
     (if \<not> walk_active walk then ret (Inr acc) fs
      else bindm (fffs_md_walk_next walk window) (\<lambda>(walk', window', record, result).
        bindm (body result record acc) (\<lambda>r. case r of
            Inl b \<Rightarrow> ret (Inl b)
          | Inr acc' \<Rightarrow> md_walk_loop body walk' window' acc')) fs)"

definition read_md_for_slot :: "u16 \<Rightarrow> u16 \<Rightarrow> fffs_md_slot_match \<Rightarrow> ('c, fffs_md_record) fsop" where
  "read_md_for_slot sector want_slot match = bindm (getm id) (\<lambda>fs.
     let absent = (if match = FFFS_MD_MATCH_UNCOMMITTED then FFFS_ERR_NOT_FOUND else FFFS_ERR_CORRUPT)
     in if \<not> valid_data_sector fs sector then throw FFFS_ERR_CORRUPT
        else
          bindm (fffs_sector_reader_view (sector_reader FFFS_MD_PRELOAD_MAX True) sector
                  (fs_sector_size fs - FFFS_SECTOR_FOOTER_SIZE) FFFS_SECTOR_FOOTER_SIZE)
            (\<lambda>(footer_bytes, window).
               let footer = fffs_decode_sector_footer footer_bytes in
               if ft_erased footer \<or> ft_type footer \<noteq> FFFS_SECTOR_TYPE_FILE \<or>
                  \<not> ft_magic_valid footer \<or>
                  \<not> fffs_lifecycle_is_live (ft_valid_bits footer) (ft_tombstone_bits footer)
               then throw absent
               else
                 bindm (fffs_md_walk_init sector window) (\<lambda>(walk, window).
                   bindm (md_walk_loop
                       (\<lambda>result record _.
                          if result \<noteq> FFFS_MD_WALK_RECORD then throw FFFS_ERR_CORRUPT
                          else if \<not> md_record_matches_slot record want_slot match then ret (Inr ())
                          else ret (Inl record))
                       walk window ())
                     (\<lambda>r. case r of Inl record \<Rightarrow> ret record | Inr _ \<Rightarrow> throw absent))))"

definition fffs_read_md_for_slot :: "u16 \<Rightarrow> u16 \<Rightarrow> ('c, fffs_md_record) fsop" where
  "fffs_read_md_for_slot sector want_slot = read_md_for_slot sector want_slot FFFS_MD_MATCH_LIVE"

definition read_uncommitted_metadata_for_slot :: "u16 \<Rightarrow> u16 \<Rightarrow> ('c, fffs_md_record) fsop" where
  "read_uncommitted_metadata_for_slot sector want_slot =
     read_md_for_slot sector want_slot FFFS_MD_MATCH_UNCOMMITTED"

text \<open>The root record of a file.  \<open>want_prefix\<close> says that the caller passed \<^verbatim>\<open>st\<close>, \<^verbatim>\<open>data_off\<close>,
  \<^verbatim>\<open>data_len\<close> or \<^verbatim>\<open>cache\<close>, so that the name prefix is read too; without it the stat is absent and
  the extent is the whole data of the record.\<close>

record root_md =
  root_st :: "fffs_stat option"
  root_data_off :: u16
  root_data_len :: u16
  root_next :: u16
  root_span_len :: u16
  root_size :: u32
  root_cache :: "fffs_read_cache_view option"

definition fffs_read_file_root_md ::
  "u16 \<Rightarrow> u16 \<Rightarrow> bool \<Rightarrow> fffs_read_cache_view option \<Rightarrow> ('c, root_md) fsop" where
  "fffs_read_file_root_md sector want_slot want_prefix cache =
     bindm (fffs_read_md_for_slot sector want_slot) (\<lambda>record.
       if md_type record \<noteq> FFFS_MD_TYPE_FILE_ROOT_V1 then throw FFFS_ERR_CORRUPT
       else if want_prefix \<or> cache \<noteq> None
       then bindm (read_root_prefix sector (md_data_off record) (md_data_len record)
              (md_size_or_offset record) cache)
            (\<lambda>(st, off, len, cache).
               ret \<lparr>root_st = Some st, root_data_off = off, root_data_len = len,
                    root_next = md_next record, root_span_len = md_span_len record,
                    root_size = md_size_or_offset record, root_cache = cache\<rparr>)
       else ret \<lparr>root_st = None, root_data_off = md_data_off record,
              root_data_len = md_data_len record, root_next = md_next record,
              root_span_len = md_span_len record, root_size = md_size_or_offset record,
              root_cache = None\<rparr>)"

section \<open>Tombstones\<close>

text \<open>The result is \<^verbatim>\<open>*accounted\<close>.\<close>

definition fffs_tombstone_metadata_for_slot ::
  "u16 \<Rightarrow> u16 \<Rightarrow> fffs_tombstone_accounting \<Rightarrow> ('c, bool) fsop" where
  "fffs_tombstone_metadata_for_slot sector want_slot accounting = bindm (getm id) (\<lambda>fs.
     if \<not> valid_data_sector fs sector then throw FFFS_ERR_CORRUPT
     else
       bindm (fffs_sector_reader_view (sector_reader FFFS_MD_PRELOAD_MAX True) sector
               (fs_sector_size fs - FFFS_SECTOR_FOOTER_SIZE) FFFS_SECTOR_FOOTER_SIZE)
         (\<lambda>(footer_bytes, window).
            let footer = fffs_decode_sector_footer footer_bytes;
                live = fffs_lifecycle_is_live (ft_valid_bits footer) (ft_tombstone_bits footer);
                tombstoned = (ft_valid_bits footer \<noteq> FFFS_BITMIRROR_MIXED \<and>
                  ft_tombstone_bits footer = FFFS_BITMIRROR_CLEARED)
            in if ft_erased footer then ret False
               else if ft_type footer \<noteq> FFFS_SECTOR_TYPE_FILE \<or> \<not> ft_magic_valid footer
               then throw FFFS_ERR_CORRUPT
               else if tombstoned then ret False
               else if \<not> live then throw FFFS_ERR_CORRUPT
               else
                 bindm (fffs_md_walk_init sector window) (\<lambda>(walk, window).
                   bindm (md_walk_loop
                       (\<lambda>result record _.
                          if result = FFFS_MD_WALK_END_INVALID then throw FFFS_ERR_CORRUPT
                          else if result \<noteq> FFFS_MD_WALK_RECORD then ret (Inl False)
                          else if \<not> md_live record \<or> md_slot record \<noteq> want_slot then ret (Inr ())
                          else
                            seqm (fffs_flash_program_aligned
                                   (unat sector * fs_sector_size fs + md_record_start record)
                                   [FFFS_MD_FLAGS_TOMBSTONED])
                              (if accounting = FFFS_TOMBSTONE_COMMITTED_DELETE \<and>
                                  md_type record = FFFS_MD_TYPE_FILE_ROOT_V1
                               then seqm (modm (fffs_fsinfo_note_committed_delete
                                      (md_size_or_offset record))) (ret (Inl True))
                               else ret (Inl False)))
                       walk window ())
                     (\<lambda>r. case r of Inl accounted \<Rightarrow> ret accounted | Inr _ \<Rightarrow> ret False))))"

section \<open>Free windows\<close>

text \<open>The loop variables are \<^verbatim>\<open>max_data_end\<close>, \<^verbatim>\<open>metadata_start\<close> and \<^verbatim>\<open>record_count\<close>; the result is
  \<^verbatim>\<open>data_off\<close>, \<^verbatim>\<open>record_off\<close>, \<^verbatim>\<open>needs_footer\<close> and \<^verbatim>\<open>md_records\<close>.  Record offsets are 6 modulo 16 and at
  least 22, so \<^verbatim>\<open>metadata_start - FFFS_MD_FILE_RECORD_SIZE\<close> does not wrap.\<close>

definition free_window_step ::
  "u16 \<Rightarrow> u16 \<Rightarrow> bool \<Rightarrow> fffs_md_walk_result \<Rightarrow> fffs_md_record \<Rightarrow> nat \<times> nat \<times> nat \<Rightarrow>
   ('c, nat \<times> nat \<times> nat + nat \<times> nat \<times> nat) fsop" where
  "free_window_step sector reject_slot normal_allocation result record acc =
     (case acc of (max_data_end, metadata_start, record_count) \<Rightarrow>
        if result = FFFS_MD_WALK_END_ERASED then ret (Inl acc)
        else if result = FFFS_MD_WALK_END_INVALID then throw FFFS_ERR_NO_SPACE
        else if result \<noteq> FFFS_MD_WALK_RECORD then ret (Inl acc)
        else if normal_allocation \<and> md_type record = FFFS_MD_TYPE_FILE_CONT_V1
        then seqm (trym (fffs_mark_sector_full sector)) (throw FFFS_ERR_NO_SPACE)
        else if md_live record \<and> md_slot record = reject_slot then throw FFFS_ERR_NO_SPACE
        else ret (Inr (max max_data_end (unat (md_data_off record) + unat (md_data_len record)),
               md_record_start record, record_count + 1)))"

definition fffs_find_sector_free_window ::
  "u16 \<Rightarrow> u16 \<Rightarrow> u16 \<Rightarrow> bool \<Rightarrow> ('c, u16 \<times> u16 \<times> bool \<times> u16) fsop" where
  "fffs_find_sector_free_window sector min_free reject_slot normal_allocation = bindm (getm id) (\<lambda>fs.
     let footer_off = fs_sector_size fs - FFFS_SECTOR_FOOTER_SIZE;
         base = unat sector * fs_sector_size fs
     in if unat sector < unat (fs_index_sectors fs) \<or> unat sector \<ge> fs_sector_count fs
        then throw FFFS_ERR_INVALID
        else
          bindm (fffs_sector_reader_view (sector_reader FFFS_MD_PRELOAD_MAX True) sector
                  footer_off FFFS_SECTOR_FOOTER_SIZE)
            (\<lambda>(footer, window).
               let view = fffs_decode_sector_footer footer in
               if ft_erased view then
                 seqm (fffs_flash_span_is_erased base (fs_sector_size fs))
                   (if footer_off < FFFS_MD_FILE_RECORD_SIZE \<or>
                       footer_off - FFFS_MD_FILE_RECORD_SIZE < unat min_free
                    then throw FFFS_ERR_NO_SPACE
                    else ret (0, of_nat (footer_off - FFFS_MD_FILE_RECORD_SIZE), True, 0))
               else if ft_type view \<noteq> FFFS_SECTOR_TYPE_FILE \<or> \<not> ft_magic_valid view \<or>
                  \<not> fffs_lifecycle_is_live (ft_valid_bits view) (ft_tombstone_bits view)
               then throw FFFS_ERR_NO_SPACE
               else if normal_allocation \<and> ft_full_bits view = FFFS_BITMIRROR_CLEARED
               then throw FFFS_ERR_NO_SPACE
               else
                 bindm (fffs_md_walk_init sector window) (\<lambda>(walk, window).
                   bindm (md_walk_loop (free_window_step sector reject_slot normal_allocation)
                           walk window (0, footer_off, 0))
                     (\<lambda>r. case (case r of Inl acc \<Rightarrow> acc | Inr acc \<Rightarrow> acc) of
                        (max_data_end, metadata_start, record_count) \<Rightarrow>
                          let new_record_off = metadata_start - FFFS_MD_FILE_RECORD_SIZE in
                          if record_count \<ge> FFFS_ALLOC_MAX_MD_RECORDS_PER_SECTOR
                          then seqm (trym (fffs_mark_sector_full sector)) (throw FFFS_ERR_NO_SPACE)
                          else if new_record_off < max_data_end \<or>
                            new_record_off - max_data_end < unat min_free
                          then seqm (if normal_allocation then trym (fffs_mark_sector_full sector)
                                     else ret (Inr ())) (throw FFFS_ERR_NO_SPACE)
                          else seqm (fffs_flash_span_is_erased (base + max_data_end)
                                 (new_record_off - max_data_end))
                               (ret (of_nat max_data_end, of_nat new_record_off, False,
                                 of_nat record_count))))))"

section \<open>Writing records\<close>

definition claim_sector_serial :: "('c, u32) fsop" where
  "claim_sector_serial = bindm (getm fs_next_sector_serial) (\<lambda>serial.
     seqm (modm (\<lambda>fs. fs\<lparr>fs_next_sector_serial := (if serial + 1 = 0 then 1 else serial + 1)\<rparr>))
       (ret serial))"

text \<open>The sixteen record bytes of \<^verbatim>\<open>fffs_program_extent_metadata\<close>.\<close>

definition extent_record ::
  "u16 \<Rightarrow> byte \<Rightarrow> u16 \<Rightarrow> u16 \<Rightarrow> u16 \<Rightarrow> u32 \<Rightarrow> u16 \<Rightarrow> bool \<Rightarrow> byte list" where
  "extent_record slot type data_off data_len span_len size_or_offset next live =
     [if live then FFFS_MD_FLAGS_VALID else 0xff] @ fffs_store_le16 slot @
     (if live then fffs_store_le16 next @ fffs_store_le16 span_len else replicate 4 0xff) @
     fffs_store_le16 data_off @ fffs_store_le16 data_len @
     (if type = FFFS_MD_TYPE_FILE_ROOT_V1 \<and> \<not> live then replicate 4 0xff
      else fffs_store_le32 size_or_offset) @
     [type]"

definition fffs_program_extent_metadata ::
  "u16 \<Rightarrow> u16 \<Rightarrow> byte \<Rightarrow> u16 \<Rightarrow> u16 \<Rightarrow> bool \<Rightarrow> u16 \<Rightarrow> u16 \<Rightarrow> u32 \<Rightarrow> u16 \<Rightarrow> bool \<Rightarrow> ('c, unit) fsop" where
  "fffs_program_extent_metadata sector slot type data_off record_off write_footer data_len span_len
      size_or_offset next live =
     (if type \<noteq> FFFS_MD_TYPE_FILE_ROOT_V1 \<and> type \<noteq> FFFS_MD_TYPE_FILE_CONT_V1
      then throw FFFS_ERR_INVALID
      else
        let md = extent_record slot type data_off data_len span_len size_or_offset next live in
        bindm (if write_footer
               then bindm claim_sector_serial (\<lambda>serial. ret (md @ fffs_encode_sector_footer serial True))
               else ret md)
          (\<lambda>tail. bindm (getm id) (\<lambda>fs.
             seqm (fffs_flash_program_aligned (unat sector * fs_sector_size fs + unat record_off) tail)
               (let data_end = unat data_off + unat data_len;
                    low_free = (data_end \<ge> unat record_off \<or>
                      unat record_off - data_end < FFFS_ALLOC_MIN_USABLE_FREE)
                in if type = FFFS_MD_TYPE_FILE_CONT_V1 \<or> low_free
                   then seqm (fffs_mark_sector_full sector) (modm (fffs_alloc_map_mark_used sector))
                   else ret ()))))"

definition fffs_begin_extent_metadata ::
  "fffs_file \<Rightarrow> u16 \<Rightarrow> u16 \<Rightarrow> u16 \<Rightarrow> bool \<Rightarrow> u16 \<Rightarrow> u32 \<Rightarrow> ('c, unit) fsop" where
  "fffs_begin_extent_metadata file sector data_off record_off write_footer data_len file_offset =
     (let is_root = (sector = f_head file) in
      fffs_program_extent_metadata sector (f_slot file)
        (if is_root then FFFS_MD_TYPE_FILE_ROOT_V1 else FFFS_MD_TYPE_FILE_CONT_V1)
        data_off record_off write_footer
        (if is_root then f_root_payload_offset file + data_len else data_len) 0
        (if is_root then 0 else file_offset) 0 False)"

definition fffs_finish_extent_metadata ::
  "fffs_file \<Rightarrow> u16 \<Rightarrow> u16 \<Rightarrow> u16 \<Rightarrow> u32 \<Rightarrow> bool \<Rightarrow> bool \<Rightarrow> bool \<Rightarrow> ('c, unit) fsop" where
  "fffs_finish_extent_metadata file sector next span_len total_size write_size make_live commit_index =
     bindm (read_uncommitted_metadata_for_slot sector (f_slot file)) (\<lambda>record. bindm (getm id) (\<lambda>fs.
       let off = unat sector * fs_sector_size fs + md_record_start record in
       seqm (fffs_flash_program_aligned (off + 3) (fffs_store_le16 next @ fffs_store_le16 span_len))
       (seqm (whenm write_size (fffs_flash_program_aligned (off + 11) (fffs_store_le32 total_size)))
       (seqm (whenm make_live (fffs_flash_program_aligned off [FFFS_MD_FLAGS_VALID]))
       (seqm (whenm commit_index (fffs_append_index_record (f_slot file) (f_head file)))
         (if sector = f_head file \<and> (next \<noteq> 0 \<or> span_len > 1)
          then seqm (fffs_mark_sector_full sector) (modm (fffs_alloc_map_mark_used sector))
          else ret ()))))))"

definition fffs_finish_deferred_root_metadata :: "fffs_file \<Rightarrow> ('c, unit) fsop" where
  "fffs_finish_deferred_root_metadata file =
     bindm (read_uncommitted_metadata_for_slot (f_head file) (f_slot file)) (\<lambda>root.
       fffs_finish_extent_metadata file (f_head file) (md_next root) (md_span_len root)
         (f_size file) True True True)"

definition fffs_write_extent_metadata ::
  "fffs_file \<Rightarrow> u16 \<Rightarrow> u16 \<Rightarrow> u16 \<Rightarrow> bool \<Rightarrow> u16 \<Rightarrow> u16 \<Rightarrow> u32 \<Rightarrow> u16 \<Rightarrow> u32 \<Rightarrow> bool \<Rightarrow> ('c, unit) fsop" where
  "fffs_write_extent_metadata file sector data_off record_off write_footer data_len span_len
      total_size next file_offset commit_index =
     (let is_root = (sector = f_head file) in
      seqm (fffs_program_extent_metadata sector (f_slot file)
              (if is_root then FFFS_MD_TYPE_FILE_ROOT_V1 else FFFS_MD_TYPE_FILE_CONT_V1)
              data_off record_off write_footer
              (if is_root then f_root_payload_offset file + data_len else data_len) span_len
              (if is_root then total_size else file_offset) next True)
        (whenm commit_index (fffs_append_index_record (f_slot file) (f_head file))))"

end
