(* ===== verification/Fffs_Open_Files.thy ===== *)
theory Fffs_Open_Files
  imports Fffs_Metadata
begin

unbundle bit_operations_syntax

text \<open>
  The open-file list and the release of old file chains, first part of \<^verbatim>\<open>src/fffs_file.c\<close>.  Open
  handles protect sectors from allocation (\<^verbatim>\<open>fffs_sector_is_open_for_writing\<close>) and slots from the
  collector (\<^verbatim>\<open>fffs_slot_is_pinned\<close>).  The intrusive list is the list of handle addresses; a handle
  is not opened again while it is registered.
\<close>

section \<open>The open-file list\<close>

definition upd_file :: "nat \<Rightarrow> (fffs_file \<Rightarrow> fffs_file) \<Rightarrow> 'c fffs \<Rightarrow> 'c fffs" where
  "upd_file p f fs = fs\<lparr>fs_files := (fs_files fs)(p := f (fs_files fs p))\<rparr>"

definition register_open_file :: "nat \<Rightarrow> 'c fffs \<Rightarrow> 'c fffs" where
  "register_open_file p fs =
     (if f_open_registered (fs_files fs p) then fs
      else upd_file p (\<lambda>f. f\<lparr>f_open_registered := True\<rparr>)
        (fs\<lparr>fs_open_files := p # fs_open_files fs\<rparr>))"

definition unregister_open_file :: "nat \<Rightarrow> 'c fffs \<Rightarrow> 'c fffs" where
  "unregister_open_file p fs =
     (if \<not> f_open_registered (fs_files fs p) \<or> \<not> f_fs (fs_files fs p) then fs
      else upd_file p (\<lambda>f. f\<lparr>f_open_registered := False\<rparr>)
        (fs\<lparr>fs_open_files := remove1 p (fs_open_files fs)\<rparr>))"

definition open_for_writing :: "fffs_file \<Rightarrow> bool" where
  "open_for_writing file \<longleftrightarrow> \<not> f_closed file \<and> f_flags file AND FFFS_O_WRONLY \<noteq> 0"

definition fffs_sector_is_open_for_writing :: "'c fffs \<Rightarrow> u16 \<Rightarrow> bool" where
  "fffs_sector_is_open_for_writing fs sector = list_ex (\<lambda>p.
     let file = fs_files fs p in
     open_for_writing file \<and>
     (f_head file = sector \<or> f_current file = sector \<or>
      (f_span_head file \<noteq> 0 \<and> sector \<ge> f_span_head file \<and> sector \<le> f_current file)))
   (fs_open_files fs)"

definition fffs_slot_is_pinned :: "'c fffs \<Rightarrow> u16 \<Rightarrow> bool" where
  "fffs_slot_is_pinned fs slot = list_ex (\<lambda>p.
     let file = fs_files fs p in \<not> f_closed file \<and> f_slot file = slot) (fs_open_files fs)"

section \<open>Releasing an old chain\<close>

text \<open>The tombstone loop over one span; \<open>root\<close> says that this is the first span of the chain.  The
  result is whether the loop ran to its end, and \<^verbatim>\<open>*root_accounted\<close>.\<close>

fun tombstone_span :: "u16 \<Rightarrow> u16 \<Rightarrow> bool \<Rightarrow> nat list \<Rightarrow> bool \<Rightarrow> ('c, bool \<times> bool) fsop" where
  "tombstone_span slot current root [] root_accounted = ret (True, root_accounted)"
| "tombstone_span slot current root (i # is) root_accounted =
     (let accounting = (if root \<and> i = 0 then FFFS_TOMBSTONE_COMMITTED_DELETE
                        else FFFS_TOMBSTONE_NO_ACCOUNTING) in
      bindm (trym (fffs_tombstone_metadata_for_slot (current + of_nat i) slot accounting)) (\<lambda>r.
        case r of
          Inl _ \<Rightarrow> ret (False, root_accounted)
        | Inr accounted \<Rightarrow> tombstone_span slot current root is
            (if accounting = FFFS_TOMBSTONE_COMMITTED_DELETE then accounted else root_accounted)))"

text \<open>The chain loop.  \<open>next\<close> is the next link when the caller knows it (\<^verbatim>\<open>have_next\<close>).  The first
  component of the result is \<open>None\<close> for an early \<^verbatim>\<open>return false\<close>, and otherwise the sector the loop
  stopped at and the number of sectors visited.\<close>

fun invalidate_loop ::
  "nat \<Rightarrow> nat \<Rightarrow> u16 \<Rightarrow> bool \<Rightarrow> u16 \<Rightarrow> u16 option \<Rightarrow> nat \<Rightarrow> bool \<Rightarrow>
   ('c, (u16 \<times> nat) option \<times> bool) fsop" where
  "invalidate_loop 0 depth slot tombstone current next visited acc = ret (Some (current, visited), acc)"
| "invalidate_loop (Suc left) depth slot tombstone current next visited acc =
     (if current = 0 then ret (Some (current, visited), acc)
      else bindm (trym (fffs_read_md_for_slot current slot)) (\<lambda>r. case r of
          Inl _ \<Rightarrow> ret (None, acc)
        | Inr record \<Rightarrow> bindm (getm id) (\<lambda>fs.
            let current_next = (case next of Some n \<Rightarrow> n | None \<Rightarrow> md_next record);
                span = unat (md_span_len record)
            in if unat current + span > fs_sector_count fs then ret (None, acc)
               else
                 seqm (modm (fffs_alloc_map_mark_range_unknown current (md_span_len record)))
                 (bindm (if tombstone then tombstone_span slot current (depth = 0) [0..<span] acc
                         else ret (True, acc))
                   (\<lambda>(ok, acc).
                      if \<not> ok then ret (None, acc)
                      else invalidate_loop left (Suc depth) slot tombstone current_next None
                        (visited + span) acc)))))"

text \<open>The result is the returned flag and \<^verbatim>\<open>*root_accounted\<close>.\<close>

definition fffs_invalidate_old_chain :: "u16 \<Rightarrow> u16 \<Rightarrow> u16 \<Rightarrow> bool \<Rightarrow> ('c, bool \<times> bool) fsop" where
  "fffs_invalidate_old_chain slot head next tombstone = bindm (getm fs_sector_count) (\<lambda>n.
     bindm (invalidate_loop n 0 slot tombstone head (Some next) 0 False) (\<lambda>(r, root_accounted).
       case r of
         None \<Rightarrow> ret (False, root_accounted)
       | Some (current, visited) \<Rightarrow>
           if current \<noteq> 0 then ret (False, root_accounted)
           else
             seqm (whenm (visited > 0) (modm (\<lambda>fs.
                 let sample = of_nat (visited * 256) :: u32;
                     avg = (ucast (fs_avg_sectors_per_file_q8 fs) * 7 + sample) div 8 :: u32
                 in fs\<lparr>fs_avg_sectors_per_file_q8 := ucast avg,
                       fs_fsinfo_valid_flags :=
                         fs_fsinfo_valid_flags fs AND NOT FFFS_FSINFO_METADATA_ESTIMATE_VALID\<rparr>)))
               (ret (True, root_accounted))))"

end
