(* ===== verification/Fffs_Namespace.thy ===== *)
theory Fffs_Namespace
  imports Fffs_Open_Files
begin

unbundle bit_operations_syntax

text \<open>
  Name resolution and directory iteration of \<^verbatim>\<open>src/fffs_hashtable_index.c\<close> and
  \<^verbatim>\<open>src/fffs_ram_index.c\<close>, and the namespace operations of \<^verbatim>\<open>src/fastffs.c\<close>: stat, exists, delete,
  file-system information, directories and listing.

  A name hashes to a slot; up to 51 slots are probed.  Every occupied slot is read from flash and
  its name compared; the first unoccupied slot that no open handle pins is offered for creation.
\<close>

section \<open>Name resolution\<close>

text \<open>\<^verbatim>\<open>*slot\<close>, \<^verbatim>\<open>*head\<close> and, when found, the root metadata.\<close>

record resolved =
  rs_slot :: u16
  rs_head :: u16
  rs_root :: "root_md option"

fun resolve_loop ::
  "byte list \<Rightarrow> nat \<Rightarrow> u16 \<Rightarrow> u16 option \<Rightarrow> fffs_read_cache_view option \<Rightarrow> ('c, resolved) fsop" where
  "resolve_loop name 0 candidate first_free cache =
     (case first_free of
        None \<Rightarrow> throw FFFS_ERR_NO_SPACE
      | Some slot \<Rightarrow> ret \<lparr>rs_slot = slot, rs_head = 0, rs_root = None\<rparr>)"
| "resolve_loop name (Suc left) candidate first_free cache =
     bindm (fffs_index_head_for_slot candidate) (\<lambda>occupied. case occupied of
         None \<Rightarrow> bindm (getm id) (\<lambda>fs.
           resolve_loop name left (fffs_next_slot candidate)
             (if first_free = None \<and> \<not> fffs_slot_is_pinned fs candidate then Some candidate
              else first_free) cache)
       | Some candidate_head \<Rightarrow>
           bindm (fffs_read_file_root_md candidate_head candidate True cache) (\<lambda>root.
             if map_option st_name (root_st root) = Some name
             then ret \<lparr>rs_slot = candidate, rs_head = candidate_head, rs_root = Some root\<rparr>
             else resolve_loop name left (fffs_next_slot candidate) first_free
               (root_cache root)))"

definition fffs_index_resolve ::
  "byte list \<Rightarrow> fffs_read_cache_view option \<Rightarrow> ('c, resolved) fsop" where
  "fffs_index_resolve name cache =
     (if name = [] then throw FFFS_ERR_INVALID
      else if length name > FFFS_MAX_NAME then throw FFFS_ERR_NAME_TOO_LONG
      else resolve_loop name (FFFS_MAX_PROBE_DISTANCE + 1)
        (fffs_normalize_slot_base (fffs_hash16 name)) None cache)"

text \<open>The same over the full slot table.\<close>

fun ram_resolve_loop ::
  "byte list \<Rightarrow> nat \<Rightarrow> u16 \<Rightarrow> u16 option \<Rightarrow> fffs_read_cache_view option \<Rightarrow> ('c, resolved) fsop" where
  "ram_resolve_loop name 0 candidate first_free cache =
     (case first_free of
        None \<Rightarrow> throw FFFS_ERR_NO_SPACE
      | Some slot \<Rightarrow> ret \<lparr>rs_slot = slot, rs_head = 0, rs_root = None\<rparr>)"
| "ram_resolve_loop name (Suc left) candidate first_free cache =
     bindm (getm id) (\<lambda>fs.
       let candidate_head = fs_index_heads fs ! unat candidate in
       if candidate_head = 0 then
         ram_resolve_loop name left (fffs_next_slot candidate)
           (if first_free = None \<and> \<not> fffs_slot_is_pinned fs candidate then Some candidate
            else first_free) cache
       else
         bindm (fffs_read_file_root_md candidate_head candidate True cache) (\<lambda>root.
           if map_option st_name (root_st root) = Some name
           then ret \<lparr>rs_slot = candidate, rs_head = candidate_head, rs_root = Some root\<rparr>
           else ram_resolve_loop name left (fffs_next_slot candidate) first_free
             (root_cache root)))"

definition ram_index_resolve ::
  "byte list \<Rightarrow> fffs_read_cache_view option \<Rightarrow> ('c, resolved) fsop" where
  "ram_index_resolve name cache =
     (if name = [] then throw FFFS_ERR_INVALID
      else if length name > FFFS_MAX_NAME then throw FFFS_ERR_NAME_TOO_LONG
      else ram_resolve_loop name (FFFS_MAX_PROBE_DISTANCE + 1)
        (fffs_normalize_slot_base (fffs_hash16 name)) None cache)"

section \<open>Directory iteration\<close>

text \<open>\<^verbatim>\<open>strncmp(name, prefix, prefix_len) == 0\<close>, for a prefix of \<^verbatim>\<open>prefix_len\<close> non-zero characters.\<close>

definition prefix_matches :: "fffs_dir \<Rightarrow> fffs_stat \<Rightarrow> bool" where
  "prefix_matches dir st \<longleftrightarrow>
     dir_prefix_len dir = 0 \<or> take (dir_prefix_len dir) (st_name st) = take (dir_prefix_len dir) (dir_prefix dir)"

text \<open>\<open>None\<close> is \<^verbatim>\<open>return false\<close>; \<open>left\<close> counts the buckets not yet visited.\<close>

fun dir_read_loop :: "nat \<Rightarrow> fffs_dir \<Rightarrow> ('c, fffs_stat option \<times> fffs_dir) fsop" where
  "dir_read_loop 0 dir = ret (None, dir\<lparr>dir_status := Inr ()\<rparr>)"
| "dir_read_loop (Suc left) dir = bindm (getm id) (\<lambda>fs.
     let bucket = fs_index_cache fs ! dir_pos dir; dir = dir\<lparr>dir_pos := dir_pos dir + 1\<rparr> in
     if bucket_slot bucket = 0 then dir_read_loop left dir
     else
       bindm (trym (fffs_read_file_root_md (bucket_head bucket) (bucket_slot bucket) True None)) (\<lambda>r.
         case r of
           Inl err \<Rightarrow> ret (None, dir\<lparr>dir_status := Inl err\<rparr>)
         | Inr root \<Rightarrow>
             let candidate = the (root_st root) in
             if \<not> prefix_matches dir candidate then dir_read_loop left dir
             else ret (Some candidate, dir\<lparr>dir_status := Inr ()\<rparr>)))"

definition fffs_index_dir_read :: "fffs_dir \<Rightarrow> ('c, fffs_stat option \<times> fffs_dir) fsop" where
  "fffs_index_dir_read dir = bindm (getm id) (\<lambda>fs.
     dir_read_loop (fs_index_hash_table_size fs - dir_pos dir) dir)"

fun ram_dir_read_loop :: "nat \<Rightarrow> fffs_dir \<Rightarrow> ('c, fffs_stat option \<times> fffs_dir) fsop" where
  "ram_dir_read_loop 0 dir = ret (None, dir\<lparr>dir_status := Inr ()\<rparr>)"
| "ram_dir_read_loop (Suc left) dir = bindm (getm id) (\<lambda>fs.
     let slot = dir_pos dir; head = fs_index_heads fs ! slot; dir = dir\<lparr>dir_pos := slot + 1\<rparr> in
     if head = 0 then ram_dir_read_loop left dir
     else
       bindm (trym (fffs_read_file_root_md head (of_nat slot) True None)) (\<lambda>r. case r of
           Inl err \<Rightarrow> ret (None, dir\<lparr>dir_status := Inl err\<rparr>)
         | Inr root \<Rightarrow>
             let candidate = the (root_st root) in
             if \<not> prefix_matches dir candidate then ram_dir_read_loop left dir
             else ret (Some candidate, dir\<lparr>dir_status := Inr ()\<rparr>)))"

definition ram_index_dir_read :: "fffs_dir \<Rightarrow> ('c, fffs_stat option \<times> fffs_dir) fsop" where
  "ram_index_dir_read dir = ram_dir_read_loop (FFFS_SLOT_COUNT - dir_pos dir) dir"

definition zero_dir :: fffs_dir where
  "zero_dir = \<lparr>dir_pos = 0, dir_cursor_seq_pos = 0, dir_cursor_offset = 0, dir_scratch_serial = 0,
     dir_cached_seq_pos = 0, dir_cached_offset = 0, dir_cached_len = 0, dir_prefix_len = 0,
     dir_status = Inr (), dir_prefix = [], dir_closed = False\<rparr>"

definition fffs_dir_open :: "byte list option \<Rightarrow> unit res \<times> fffs_dir" where
  "fffs_dir_open prefix =
     (case prefix of
        None \<Rightarrow> (Inr (), zero_dir)
      | Some p \<Rightarrow>
          if length p > FFFS_MAX_NAME
          then (Inl FFFS_ERR_NAME_TOO_LONG,
                zero_dir\<lparr>dir_status := Inl FFFS_ERR_NAME_TOO_LONG, dir_closed := True\<rparr>)
          else (Inr (), zero_dir\<lparr>dir_prefix := p, dir_prefix_len := length p\<rparr>))"

definition fffs_dir_read :: "fffs_dir \<Rightarrow> ('c, fffs_stat option \<times> fffs_dir) fsop" where
  "fffs_dir_read dir =
     (if dir_closed dir then ret (None, dir\<lparr>dir_status := Inl FFFS_ERR_INVALID\<rparr>)
      else fffs_index_dir_read dir)"

definition fffs_dir_status :: "fffs_dir \<Rightarrow> unit res" where
  "fffs_dir_status dir = dir_status dir"

definition fffs_dir_close :: "fffs_dir \<Rightarrow> unit res \<times> fffs_dir" where
  "fffs_dir_close dir =
     (if dir_closed dir then (Inl FFFS_ERR_INVALID, dir) else (Inr (), dir\<lparr>dir_closed := True\<rparr>))"

text \<open>The stats written to \<^verbatim>\<open>entries\<close> (at most \<^verbatim>\<open>capacity\<close>) and \<^verbatim>\<open>*out_count\<close>.\<close>

partial_function (option) list_loop ::
  "fffs_dir \<Rightarrow> fffs_stat list \<Rightarrow> 'c fffs \<Rightarrow> ((fffs_stat list \<times> fffs_dir) res \<times> 'c fffs) option" where
  "list_loop dir found fs =
     bindm (fffs_dir_read dir) (\<lambda>(st, dir'). case st of
         None \<Rightarrow> ret (found, dir')
       | Some e \<Rightarrow> list_loop dir' (found @ [e])) fs"

definition fffs_list :: "nat \<Rightarrow> ('c, fffs_stat list \<times> nat) fsop" where
  "fffs_list capacity =
     (case fffs_dir_open None of
        (Inl err, _) \<Rightarrow> throw err
      | (Inr _, dir) \<Rightarrow>
          bindm (list_loop dir []) (\<lambda>(found, dir).
            bindm (of_res (fffs_dir_status dir)) (\<lambda>_.
              bindm (of_res (fst (fffs_dir_close dir))) (\<lambda>_.
                ret (take capacity found, length found)))))"

section \<open>Namespace operations\<close>

text \<open>\<^verbatim>\<open>fffs_stat\<close> is called \<open>fffs_stat_file\<close>: the structure has the same name.\<close>

definition fffs_stat_file :: "byte list \<Rightarrow> ('c, fffs_stat) fsop" where
  "fffs_stat_file name = bindm (fffs_index_resolve name None) (\<lambda>r. case rs_root r of
     None \<Rightarrow> throw FFFS_ERR_NOT_FOUND
   | Some root \<Rightarrow> ret (the (root_st root)))"

definition fffs_exists :: "byte list \<Rightarrow> ('c, bool) fsop" where
  "fffs_exists name = bindm (trym (fffs_stat_file name)) (\<lambda>r. case r of
     Inr _ \<Rightarrow> ret True
   | Inl err \<Rightarrow> if err = FFFS_ERR_NOT_FOUND then ret False else throw err)"

definition fffs_delete_file :: "byte list \<Rightarrow> ('c, unit) fsop" where
  "fffs_delete_file name = bindm (fffs_index_resolve name None) (\<lambda>r. case rs_root r of
     None \<Rightarrow> throw FFFS_ERR_NOT_FOUND
   | Some root \<Rightarrow>
       seqm (fffs_append_index_record (rs_slot r) 0)
       (bindm (fffs_invalidate_old_chain (rs_slot r) (rs_head r) (root_next root) True)
         (\<lambda>(_, root_accounted). modm (\<lambda>fs.
            if fffs_fsinfo_committed_valid fs \<and> \<not> root_accounted
            then fffs_fsinfo_invalidate_committed fs else fs))))"

section \<open>File-system information\<close>

partial_function (option) fsinfo_count ::
  "nat \<Rightarrow> u32 \<Rightarrow> u32 \<Rightarrow> 'c fffs \<Rightarrow> ((u32 \<times> u32) res \<times> 'c fffs) option" where
  "fsinfo_count pos file_count byte_count fs =
     (case fffs_index_iter_read fs pos of
        None \<Rightarrow> ret (file_count, byte_count) fs
      | Some (pos', slot, head) \<Rightarrow>
          bindm (fffs_read_file_root_md head slot False None) (\<lambda>root.
            fsinfo_count pos' (file_count + 1) (byte_count + root_size root)) fs)"

definition fsinfo_refresh :: "('c, unit) fsop" where
  "fsinfo_refresh = bindm (trym (fsinfo_count 0 0 0)) (\<lambda>r. case r of
     Inl err \<Rightarrow> seqm (modm fffs_fsinfo_invalidate_committed) (throw err)
   | Inr (file_count, byte_count) \<Rightarrow> modm (\<lambda>fs. fs\<lparr>
       fs_committed_file_count := file_count, fs_committed_data_bytes := byte_count,
       fs_fsinfo_valid_flags := (fs_fsinfo_valid_flags fs OR
         (FFFS_FSINFO_COMMITTED_FILES_VALID OR FFFS_FSINFO_COMMITTED_BYTES_VALID)) AND
         NOT FFFS_FSINFO_METADATA_ESTIMATE_VALID\<rparr>))"

definition pending_files :: "'c fffs \<Rightarrow> fffs_file list" where
  "pending_files fs =
     filter (\<lambda>file. f_flags file AND FFFS_O_WRONLY \<noteq> 0) (map (fs_files fs) (fs_open_files fs))"

definition fffs_fsinfo :: "u32 \<Rightarrow> ('c, fffs_fsinfo) fsop" where
  "fffs_fsinfo flags =
     (if flags AND NOT (FFFS_FSINFO_REFRESH_COMMITTED OR FFFS_FSINFO_ESTIMATE_METADATA OR
           FFFS_FSINFO_REFRESH_IF_NEEDED) \<noteq> 0 then throw FFFS_ERR_INVALID
      else bindm (getm id) (\<lambda>fs.
        seqm (whenm (flags AND FFFS_FSINFO_REFRESH_COMMITTED \<noteq> 0 \<or>
               (flags AND FFFS_FSINFO_REFRESH_IF_NEEDED \<noteq> 0 \<and> \<not> fffs_fsinfo_committed_valid fs))
               fsinfo_refresh)
        (bindm (getm id) (\<lambda>fs.
          let data_sectors = fs_sector_count fs - unat (fs_index_sectors fs);
              committed = fffs_fsinfo_committed_valid fs;
              estimate = (flags AND FFFS_FSINFO_ESTIMATE_METADATA \<noteq> 0 \<and> committed)
          in ret \<lparr>
            info_valid_flags = FFFS_FSINFO_TOTAL_VALID OR FFFS_FSINFO_PENDING_VALID OR
              (if committed then FFFS_FSINFO_COMMITTED_FILES_VALID OR FFFS_FSINFO_COMMITTED_BYTES_VALID
               else 0) OR
              (if estimate then FFFS_FSINFO_METADATA_ESTIMATE_VALID else 0),
            info_total_bytes = of_nat (data_sectors * (fs_sector_size fs - FFFS_SECTOR_FOOTER_SIZE)),
            info_committed_file_count = (if committed then fs_committed_file_count fs else 0),
            info_committed_data_bytes = (if committed then fs_committed_data_bytes fs else 0),
            info_pending_file_count = of_nat (length (pending_files fs)),
            info_pending_data_bytes = sum_list (map f_size (pending_files fs)),
            info_estimated_metadata_bytes =
              (if estimate then (fs_committed_file_count fs * of_nat FFFS_MD_FILE_RECORD_SIZE *
                 ucast (fs_avg_sectors_per_file_q8 fs)) div FFFS_SECTORS_PER_FILE_Q8_ONE
               else 0)\<rparr>))))"

section \<open>Status names\<close>

definition fffs_status_name :: "int \<Rightarrow> string" where
  "fffs_status_name status =
     (if status = 0 then ''ok''
      else if status = fffs_error_code FFFS_ERR_INVALID then ''invalid''
      else if status = fffs_error_code FFFS_ERR_NOMEM then ''nomem''
      else if status = fffs_error_code FFFS_ERR_RANGE then ''range''
      else if status = fffs_error_code FFFS_ERR_NO_SPACE then ''no_space''
      else if status = fffs_error_code FFFS_ERR_NOT_FOUND then ''not_found''
      else if status = fffs_error_code FFFS_ERR_EXISTS then ''exists''
      else if status = fffs_error_code FFFS_ERR_NAME_TOO_LONG then ''name_too_long''
      else if status = fffs_error_code FFFS_ERR_CORRUPT then ''corrupt''
      else if status = fffs_error_code FFFS_ERR_IO then ''io''
      else ''unknown'')"

end
