(* ===== verification/Fffs_Alloc.thy ===== *)
theory Fffs_Alloc
  imports Fffs_Namespace
begin

unbundle bit_operations_syntax

text \<open>
  The allocation policy, \<^verbatim>\<open>src/fffs_alloc.c\<close>: the cursor over the data sectors, per-writer
  reservations, the compaction reserve, and the scans for a free window.  The entry point
  \<^verbatim>\<open>fffs_alloc_next_sector\<close>, which falls back on the collector, is in \<^verbatim>\<open>Fffs_Gc\<close>.  The options are
  the defaults: four reserved sectors per writer, five compaction reserves, first fit.

  \<open>p\<close> is the address of the file handle.
\<close>

section \<open>Cursor and reservations\<close>

definition fffs_next_data_sector :: "'c fffs \<Rightarrow> nat \<Rightarrow> nat" where
  "fffs_next_data_sector fs sector =
     (let sector = sector + 1 in
      if sector < unat (fs_index_sectors fs) \<or> sector \<ge> fs_sector_count fs
      then unat (fs_index_sectors fs) else sector)"

definition sector_in_reservation :: "fffs_file \<Rightarrow> u16 \<Rightarrow> bool" where
  "sector_in_reservation file sector \<longleftrightarrow> f_reserve_count file \<noteq> 0 \<and>
     sector \<ge> f_reserve_first file \<and> sector < f_reserve_first file + f_reserve_count file"

definition sector_reserved_by_other :: "'c fffs \<Rightarrow> nat \<Rightarrow> u16 \<Rightarrow> bool" where
  "sector_reserved_by_other fs owner sector = list_ex (\<lambda>p.
     p \<noteq> owner \<and> open_for_writing (fs_files fs p) \<and> sector_in_reservation (fs_files fs p) sector)
   (fs_open_files fs)"

definition fffs_alloc_compaction_reserved :: "'c fffs \<Rightarrow> u16 \<Rightarrow> bool" where
  "fffs_alloc_compaction_reserved fs sector =
     list_ex (\<lambda>i. fs_compaction_reserve_sectors fs ! i = sector)
       [0..<unat (fs_compaction_reserve_count fs)]"

definition fffs_alloc_compaction_reserve_remove :: "u16 \<Rightarrow> 'c fffs \<Rightarrow> 'c fffs" where
  "fffs_alloc_compaction_reserve_remove sector fs =
     (let count = unat (fs_compaction_reserve_count fs); sectors = fs_compaction_reserve_sectors fs in
      case find (\<lambda>i. sectors ! i = sector) [0..<count] of
        None \<Rightarrow> fs
      | Some i \<Rightarrow> fs\<lparr>fs_compaction_reserve_count := fs_compaction_reserve_count fs - 1,
          fs_compaction_reserve_sectors :=
            fold (\<lambda>j a. a[j := a ! (j + 1)]) [i..<count - 1] sectors\<rparr>)"

section \<open>Windows for compacted roots\<close>

text \<open>A window is sector, data offset, record offset and whether the sector needs a footer.\<close>

type_synonym window = "u16 \<times> u16 \<times> u16 \<times> bool"

fun reserve_windows :: "u16 \<Rightarrow> u16 \<Rightarrow> nat list \<Rightarrow> ('c, window option) fsop" where
  "reserve_windows slot data_len [] = ret None"
| "reserve_windows slot data_len (i # is) = bindm (getm id) (\<lambda>fs.
     let reserved = fs_compaction_reserve_sectors fs ! i in
     bindm (trym (fffs_find_sector_free_window reserved data_len slot True)) (\<lambda>r. case r of
         Inl err \<Rightarrow> if err = FFFS_ERR_NO_SPACE then reserve_windows slot data_len is else throw err
       | Inr (data_off, record_off, needs_footer, md_records) \<Rightarrow>
           seqm (modm (fffs_alloc_compaction_reserve_remove reserved))
             (seqm (modm (fffs_alloc_map_mark_unknown reserved))
               (ret (Some (reserved, data_off, record_off, needs_footer))))))"

fun compaction_scan ::
  "u16 \<Rightarrow> u16 \<Rightarrow> u16 \<Rightarrow> bool \<Rightarrow> nat \<Rightarrow> nat \<Rightarrow> ('c, window option) fsop" where
  "compaction_scan source_sector slot data_len normal_allocation 0 s = ret None"
| "compaction_scan source_sector slot data_len normal_allocation (Suc left) s = bindm (getm id) (\<lambda>fs.
     let go_on = compaction_scan source_sector slot data_len normal_allocation left
           (fffs_next_data_sector fs s)
     in if (normal_allocation \<and> fffs_alloc_map_maybe_used fs (of_nat s)) \<or> s = unat source_sector \<or>
           fffs_sector_is_open_for_writing fs (of_nat s) then go_on
        else
          bindm (trym (fffs_find_sector_free_window (of_nat s) data_len slot normal_allocation)) (\<lambda>r.
            case r of
              Inl err \<Rightarrow> if err = FFFS_ERR_NO_SPACE then go_on else throw err
            | Inr (data_off, record_off, needs_footer, md_records) \<Rightarrow>
                seqm (modm (\<lambda>fs. fs\<lparr>fs_alloc_cursor :=
                        (if unat md_records \<ge> FFFS_ALLOC_TARGET_DENSITY then fffs_next_data_sector fs s
                         else s)\<rparr>))
                  (ret (Some (of_nat s, data_off, record_off, needs_footer)))))"

definition start_cursor :: "'c fffs \<Rightarrow> nat" where
  "start_cursor fs =
     (if fs_alloc_cursor fs < unat (fs_index_sectors fs) \<or> fs_alloc_cursor fs \<ge> fs_sector_count fs
      then unat (fs_index_sectors fs) else fs_alloc_cursor fs)"

definition compaction_pass :: "u16 \<Rightarrow> u16 \<Rightarrow> u16 \<Rightarrow> bool \<Rightarrow> ('c, window option) fsop" where
  "compaction_pass source_sector slot data_len normal_allocation = bindm (getm id) (\<lambda>fs.
     compaction_scan source_sector slot data_len normal_allocation
       (fs_sector_count fs - unat (fs_index_sectors fs)) (start_cursor fs))"

definition fffs_alloc_find_compaction_root_window ::
  "u16 \<Rightarrow> u16 \<Rightarrow> u16 \<Rightarrow> bool \<Rightarrow> ('c, window) fsop" where
  "fffs_alloc_find_compaction_root_window source_sector slot data_len allow_relaxed =
     bindm (getm id) (\<lambda>fs.
     bindm (reserve_windows slot data_len [0..<unat (fs_compaction_reserve_count fs)]) (\<lambda>w.
       case w of Some win \<Rightarrow> ret win | None \<Rightarrow>
     bindm (compaction_pass source_sector slot data_len True) (\<lambda>w.
       case w of Some win \<Rightarrow> ret win | None \<Rightarrow>
     bindm (if allow_relaxed then compaction_pass source_sector slot data_len False else ret None) (\<lambda>w.
       case w of Some win \<Rightarrow> ret win | None \<Rightarrow> throw FFFS_ERR_NO_SPACE))))"

section \<open>Reservations of a writer\<close>

definition fffs_alloc_release_reservation :: "nat \<Rightarrow> 'c fffs \<Rightarrow> 'c fffs" where
  "fffs_alloc_release_reservation p fs =
     (let file = fs_files fs p in
      if \<not> f_fs file \<or> f_reserve_count file = 0 then fs
      else upd_file p (\<lambda>f. f\<lparr>f_reserve_first := 0, f_reserve_count := 0\<rparr>)
        (mark_unknown_from (f_reserve_first file) (unat (f_reserve_count file)) fs))"

definition sector_can_be_reserved :: "'c fffs \<Rightarrow> nat \<Rightarrow> u16 \<Rightarrow> bool" where
  "sector_can_be_reserved fs p sector =
     (if unat sector < unat (fs_index_sectors fs) \<or> unat sector \<ge> fs_sector_count fs then False
      else if fffs_alloc_map_maybe_used fs sector then False
      else if fffs_sector_is_open_for_writing fs sector then False
      else \<not> sector_reserved_by_other fs p sector)"

definition halve_one :: "nat \<Rightarrow> bool \<times> 'c fffs \<Rightarrow> bool \<times> 'c fffs" where
  "halve_one p = (\<lambda>(released_any, fs).
     let file = fs_files fs p in
     if \<not> open_for_writing file \<or> f_reserve_count file = 0 then (released_any, fs)
     else
       let keep_count = drop_bit 1 (f_reserve_count file);
           release_first = f_reserve_first file + keep_count;
           release_count = f_reserve_count file - keep_count
       in (True, upd_file p (\<lambda>f. f\<lparr>f_reserve_count := keep_count,
             f_reserve_first := (if keep_count = 0 then 0 else f_reserve_first f)\<rparr>)
           (mark_unknown_from release_first (unat release_count) fs)))"

definition halve_reservations :: "('c, bool) fsop" where
  "halve_reservations fs =
     (case fold halve_one (fs_open_files fs) (False, fs) of
        (released_any, fs') \<Rightarrow> Some (Inr released_any, fs'))"

fun reserve_loop :: "nat \<Rightarrow> nat \<Rightarrow> u16 \<Rightarrow> 'c fffs \<Rightarrow> 'c fffs" where
  "reserve_loop 0 p next fs = fs"
| "reserve_loop (Suc left) p next fs =
     (if \<not> unat next < fs_sector_count fs \<or> \<not> sector_can_be_reserved fs p next then fs
      else reserve_loop left p (next + 1) (fffs_alloc_map_mark_used next
        (upd_file p (\<lambda>f. f\<lparr>
           f_reserve_first := (if f_reserve_count f = 0 then next else f_reserve_first f),
           f_reserve_count := f_reserve_count f + 1\<rparr>) fs)))"

definition reserve_after :: "nat \<Rightarrow> u16 \<Rightarrow> 'c fffs \<Rightarrow> 'c fffs" where
  "reserve_after p sector fs =
     (let file = fs_files fs p;
          next = (if f_reserve_count file \<noteq> 0 then f_reserve_first file + f_reserve_count file
                  else sector + 1)
      in reserve_loop (FFFS_ALLOC_RESERVE_SECTORS - unat (f_reserve_count file)) p next fs)"

definition use_alloc_window :: "nat \<Rightarrow> u16 \<Rightarrow> u16 \<Rightarrow> u16 \<Rightarrow> bool \<Rightarrow> 'c fffs \<Rightarrow> 'c fffs" where
  "use_alloc_window p sector data_off record_off needs_footer fs =
     (let fs = upd_file p (\<lambda>f. f\<lparr>f_data_offset := data_off, f_current_write_offset := data_off,
                 f_current_metadata_offset := record_off, f_current_needs_footer := needs_footer\<rparr>) fs
      in if needs_footer then reserve_after p sector fs else fs)"

text \<open>The record offset of an erased sector.\<close>

definition erased_record_off :: "'c fffs \<Rightarrow> u16" where
  "erased_record_off fs =
     of_nat (fs_sector_size fs - FFFS_SECTOR_FOOTER_SIZE - FFFS_MD_FILE_RECORD_SIZE)"

section \<open>Allocation from the reservation and by scanning\<close>

text \<open>\<open>(Some sector, _)\<close> is \<^verbatim>\<open>FFFS_OK\<close>; \<open>(None, skip)\<close> is \<^verbatim>\<open>FFFS_ERR_NO_SPACE\<close> with the sector to skip,
  if any.\<close>

definition try_reserved_sector :: "nat \<Rightarrow> ('c, u16 option \<times> u16 option) fsop" where
  "try_reserved_sector p = bindm (getm id) (\<lambda>fs.
     let file = fs_files fs p; candidate = f_reserve_first file in
     if f_reserve_count file = 0 then ret (None, None)
     else if fffs_sector_is_open_for_writing fs candidate \<or> sector_reserved_by_other fs p candidate
     then seqm (modm (fffs_alloc_release_reservation p)) (ret (None, Some candidate))
     else
       bindm (trym (fffs_flash_span_is_erased (unat candidate * fs_sector_size fs) (fs_sector_size fs)))
         (\<lambda>r. case r of
            Inr _ \<Rightarrow>
              seqm (modm (fffs_alloc_map_mark_unknown candidate))
              (seqm (modm (upd_file p (\<lambda>f. f\<lparr>f_reserve_count := f_reserve_count f - 1,
                      f_reserve_first := (if f_reserve_count f - 1 = 0 then 0
                        else f_reserve_first f + 1)\<rparr>)))
              (seqm (modm (\<lambda>fs. use_alloc_window p candidate 0 (erased_record_off fs) True fs))
                (ret (Some candidate, None))))
          | Inl err \<Rightarrow>
              seqm (modm (fffs_alloc_release_reservation p))
                (if err \<noteq> FFFS_ERR_NO_SPACE then throw err else ret (None, Some candidate))))"

fun alloc_scan :: "nat \<Rightarrow> u16 option \<Rightarrow> bool \<Rightarrow> nat \<Rightarrow> nat \<Rightarrow> ('c, u16) fsop" where
  "alloc_scan p skip continuation 0 s = throw FFFS_ERR_NO_SPACE"
| "alloc_scan p skip continuation (Suc left) s = bindm (getm id) (\<lambda>fs.
     let go_on = alloc_scan p skip continuation left (fffs_next_data_sector fs s) in
     if (case skip of Some k \<Rightarrow> s = unat k | None \<Rightarrow> False) then go_on
     else if fffs_sector_is_open_for_writing fs (of_nat s) \<or> sector_reserved_by_other fs p (of_nat s)
     then go_on
     else if fffs_alloc_compaction_reserved fs (of_nat s) then go_on
     else if fffs_alloc_map_maybe_used fs (of_nat s) then go_on
     else
       bindm (trym (fffs_find_sector_free_window (of_nat s) (of_nat FFFS_ALLOC_MIN_USABLE_FREE)
                (f_slot (fs_files fs p)) True)) (\<lambda>r. case r of
           Inl err \<Rightarrow> if err = FFFS_ERR_NO_SPACE then go_on else throw err
         | Inr (data_off, record_off, needs_footer, md_records) \<Rightarrow>
             bindm (getm id) (\<lambda>fs.
               if continuation \<and> \<not> needs_footer then go_on
               else if \<not> continuation \<and>
                 unat (fs_compaction_reserve_count fs) < FFFS_COMPACTION_RESERVE_SECTORS
               then seqm (modm (\<lambda>fs. fs\<lparr>
                        fs_compaction_reserve_sectors := (fs_compaction_reserve_sectors fs)
                          [unat (fs_compaction_reserve_count fs) := of_nat s],
                        fs_compaction_reserve_count := fs_compaction_reserve_count fs + 1\<rparr>))
                      (seqm (modm (fffs_alloc_map_mark_used (of_nat s))) go_on)
               else
                 seqm (modm (use_alloc_window p (of_nat s) data_off record_off needs_footer))
                 (seqm (whenm (unat md_records \<ge> FFFS_ALLOC_TARGET_DENSITY)
                          (modm (\<lambda>fs. fs\<lparr>fs_alloc_cursor := fffs_next_data_sector fs s\<rparr>)))
                   (ret (of_nat s))))))"

definition alloc_sector_once :: "nat \<Rightarrow> u16 option \<Rightarrow> ('c, u16) fsop" where
  "alloc_sector_once p skip = bindm (getm id) (\<lambda>fs.
     if fs_sector_count fs \<le> unat (fs_index_sectors fs) then throw FFFS_ERR_NO_SPACE
     else alloc_scan p skip (f_current (fs_files fs p) \<noteq> 0)
       (fs_sector_count fs - unat (fs_index_sectors fs)) (start_cursor fs))"

fun reserve_for_alloc :: "nat \<Rightarrow> bool \<Rightarrow> nat list \<Rightarrow> ('c, u16) fsop" where
  "reserve_for_alloc p continuation [] = throw FFFS_ERR_NO_SPACE"
| "reserve_for_alloc p continuation (i # is) = bindm (getm id) (\<lambda>fs.
     let reserved = fs_compaction_reserve_sectors fs ! i;
         go_on = reserve_for_alloc p continuation is
     in bindm (trym (fffs_find_sector_free_window reserved (of_nat FFFS_ALLOC_MIN_USABLE_FREE)
                (f_slot (fs_files fs p)) True)) (\<lambda>r. case r of
           Inl err \<Rightarrow> if err = FFFS_ERR_NO_SPACE then go_on else throw err
         | Inr (data_off, record_off, needs_footer, md_records) \<Rightarrow>
             if continuation \<and> \<not> needs_footer then go_on
             else
               seqm (modm (fffs_alloc_compaction_reserve_remove reserved))
               (seqm (modm (fffs_alloc_map_mark_unknown reserved))
               (seqm (modm (use_alloc_window p reserved data_off record_off needs_footer))
               (seqm (modm (\<lambda>fs. fs\<lparr>fs_alloc_cursor := unat reserved\<rparr>))
                 (ret reserved))))))"

definition try_compaction_reserve_for_alloc :: "nat \<Rightarrow> ('c, u16) fsop" where
  "try_compaction_reserve_for_alloc p = bindm (getm id) (\<lambda>fs.
     reserve_for_alloc p (f_current (fs_files fs p) \<noteq> 0)
       [0..<unat (fs_compaction_reserve_count fs)])"

end
