(* ===== verification/Fffs_Gc.thy ===== *)
theory Fffs_Gc
  imports Fffs_Alloc
begin

unbundle bit_operations_syntax

text \<open>
  The garbage collector, \<^verbatim>\<open>src/fffs_gc.c\<close>: incremental steps over the data sectors, compaction of
  sectors that hold only roots, and the bounded loops built on them; and the allocation entry point
  of \<^verbatim>\<open>src/fffs_alloc.c\<close>, which falls back on the collector.  \<^verbatim>\<open>FFFS_GC_PARANOID_REACHABILITY\<close> is off,
  as by default.

  One call of \<^verbatim>\<open>gc_step\<close> looks at the sector under \<open>fs_gc_cursor\<close>: it skips it, erases it, or visits
  its next metadata record.  The progress of the visit is \<open>fs_gc_md\<close>.
\<close>

section \<open>Liveness\<close>

definition normalized_data_cursor :: "'c fffs \<Rightarrow> nat \<Rightarrow> nat" where
  "normalized_data_cursor fs sector =
     (if sector < unat (fs_index_sectors fs) \<or> sector \<ge> fs_sector_count fs
      then unat (fs_index_sectors fs) else sector)"

fun reachable_loop :: "nat \<Rightarrow> u16 \<Rightarrow> u16 \<Rightarrow> nat \<Rightarrow> ('c, bool) fsop" where
  "reachable_loop 0 slot current sector =
     (if current \<noteq> 0 then throw FFFS_ERR_CORRUPT else ret False)"
| "reachable_loop (Suc left) slot current sector =
     (if current = 0 then ret False
      else bindm (fffs_read_md_for_slot current slot) (\<lambda>record. bindm (getm id) (\<lambda>fs.
        let span_end = unat current + unat (md_span_len record) in
        if span_end > fs_sector_count fs then throw FFFS_ERR_CORRUPT
        else if sector \<ge> unat current \<and> sector < span_end then ret True
        else reachable_loop left slot (md_next record) sector)))"

definition sector_is_reachable_from_chain :: "u16 \<Rightarrow> u16 \<Rightarrow> nat \<Rightarrow> ('c, bool) fsop" where
  "sector_is_reachable_from_chain slot head sector = bindm (getm fs_sector_count) (\<lambda>n.
     reachable_loop n slot head sector)"

text \<open>The result is \<^verbatim>\<open>*live\<close>, which the caller initialises to false.\<close>

definition gc_classify_record :: "nat \<Rightarrow> fffs_md_record \<Rightarrow> ('c, bool) fsop" where
  "gc_classify_record sector record =
     (if \<not> md_live record then ret False
      else bindm (getm id) (\<lambda>fs.
        if fffs_slot_is_pinned fs (md_slot record) then ret True
        else bindm (fffs_index_head_for_slot (md_slot record)) (\<lambda>found. case found of
            None \<Rightarrow> ret False
          | Some head \<Rightarrow>
              bindm (sector_is_reachable_from_chain (md_slot record) head sector) (\<lambda>reachable.
                if reachable then ret True
                else seqm (fffs_tombstone_metadata_for_slot (of_nat sector) (md_slot record)
                       FFFS_TOMBSTONE_NO_ACCOUNTING) (ret False)))))"

section \<open>Compaction candidates\<close>

definition compaction_candidate_better ::
  "fffs_compaction_candidate \<Rightarrow> fffs_compaction_candidate \<Rightarrow> bool" where
  "compaction_candidate_better candidate other =
     (if cand_sector candidate = 0 then False
      else if cand_sector other = 0 then True
      else if cand_trapped_reclaimable candidate \<noteq> cand_trapped_reclaimable other
      then cand_trapped_reclaimable candidate > cand_trapped_reclaimable other
      else if cand_live_root_count candidate \<noteq> cand_live_root_count other
      then cand_live_root_count candidate > cand_live_root_count other
      else False)"

fun bubble_up :: "nat \<Rightarrow> fffs_compaction_candidate list \<Rightarrow> fffs_compaction_candidate list" where
  "bubble_up 0 cands = cands"
| "bubble_up (Suc pos) cands =
     (if compaction_candidate_better (cands ! Suc pos) (cands ! pos)
      then bubble_up pos (cands[pos := cands ! Suc pos, Suc pos := cands ! pos])
      else cands)"

definition gc_update_compaction_candidate :: "u16 \<Rightarrow> nat \<Rightarrow> 'c fffs \<Rightarrow> 'c fffs" where
  "gc_update_compaction_candidate sector immediate_free fs =
     (let accounted = unat (walk_live_bytes (fs_gc_md fs)) + immediate_free;
          trapped = min (fs_sector_size fs - accounted) 65535;
          candidate = \<lparr>cand_sector = sector, cand_trapped_reclaimable = of_nat trapped,
            cand_live_root_count = walk_live_root_count (fs_gc_md fs)\<rparr>;
          pos = FFFS_COMPACTION_CANDIDATE_COUNT - 1
      in if \<not> compaction_candidate_better candidate (fs_compaction_candidates fs ! pos) then fs
         else fs\<lparr>fs_compaction_candidates :=
           bubble_up pos ((fs_compaction_candidates fs)[pos := candidate])\<rparr>)"

definition gc_fsinfo_allows_compaction :: "fffs_compaction_candidate \<Rightarrow> ('c, bool) fsop" where
  "gc_fsinfo_allows_compaction candidate =
     bindm (fffs_fsinfo (FFFS_FSINFO_REFRESH_IF_NEEDED OR FFFS_FSINFO_ESTIMATE_METADATA)) (\<lambda>info.
     bindm (getm id) (\<lambda>fs.
       let required = (if fs_sector_size fs > unat (cand_trapped_reclaimable candidate)
             then of_nat (fs_sector_size fs - unat (cand_trapped_reclaimable candidate))
             else of_nat FFFS_ALLOC_MIN_USABLE_FREE) :: u32;
           needed_flags = FFFS_FSINFO_TOTAL_VALID OR FFFS_FSINFO_COMMITTED_BYTES_VALID OR
             FFFS_FSINFO_PENDING_VALID OR FFFS_FSINFO_METADATA_ESTIMATE_VALID;
           used = info_committed_data_bytes info + info_pending_data_bytes info +
             info_estimated_metadata_bytes info
       in if info_valid_flags info AND needed_flags \<noteq> needed_flags then ret False
          else if info_total_bytes info \<le> used then ret False
          else ret (info_total_bytes info - used \<ge> required)))"

section \<open>Compaction of root-only sectors\<close>

partial_function (option) copy_data_loop ::
  "nat \<Rightarrow> nat \<Rightarrow> nat \<Rightarrow> 'c fffs \<Rightarrow> (unit res \<times> 'c fffs) option" where
  "copy_data_loop src dst remaining fs =
     (if remaining = 0 then ret () fs
      else
        let n = min remaining (fs_scratch_size fs) in
        bindm (read_scratch src n) (\<lambda>chunk.
          seqm (modm fffs_scratch_bump)
          (seqm (fffs_flash_program_aligned dst chunk)
            (copy_data_loop (src + n) (dst + n) (remaining - n)))) fs)"

definition gc_copy_root_data :: "u16 \<Rightarrow> fffs_md_record \<Rightarrow> u16 \<Rightarrow> u16 \<Rightarrow> ('c, unit) fsop" where
  "gc_copy_root_data source_sector record dest_sector dest_data_off = bindm (getm id) (\<lambda>fs.
     copy_data_loop (unat source_sector * fs_sector_size fs + unat (md_data_off record))
       (unat dest_sector * fs_sector_size fs + unat dest_data_off) (unat (md_data_len record)))"

definition gc_copy_root_record :: "u16 \<Rightarrow> fffs_md_record \<Rightarrow> bool \<Rightarrow> ('c, unit) fsop" where
  "gc_copy_root_record source_sector record allow_relaxed_compaction =
     bindm (fffs_alloc_find_compaction_root_window source_sector (md_slot record)
             (md_data_len record) allow_relaxed_compaction)
       (\<lambda>(dest_sector, data_off, record_off, needs_footer).
          seqm (gc_copy_root_data source_sector record dest_sector data_off)
          (seqm (fffs_program_extent_metadata dest_sector (md_slot record) FFFS_MD_TYPE_FILE_ROOT_V1
                  data_off record_off needs_footer (md_data_len record) 1 (md_size_or_offset record)
                  (if md_span_len record > 1 then source_sector + 1 else md_next record) True)
            (fffs_append_index_record (md_slot record) dest_sector)))"

text \<open>\<open>left\<close> is \<^verbatim>\<open>copied_through_entry - entry\<close>.\<close>

fun tombstone_copied_loop :: "u16 \<Rightarrow> nat \<Rightarrow> fffs_md_walk \<Rightarrow> fffs_sector_reader \<Rightarrow> ('c, unit) fsop" where
  "tombstone_copied_loop sector 0 walk window = ret ()"
| "tombstone_copied_loop sector (Suc left) walk window =
     (if \<not> walk_active walk then ret ()
      else bindm (fffs_md_walk_next walk window) (\<lambda>(walk, window, record, result).
        if result \<noteq> FFFS_MD_WALK_RECORD then ret ()
        else
          seqm (whenm (md_live record \<and> md_type record = FFFS_MD_TYPE_FILE_ROOT_V1)
                 (seqm (fffs_tombstone_metadata_for_slot sector (md_slot record)
                         FFFS_TOMBSTONE_NO_ACCOUNTING)
                   (modm (fffs_alloc_map_mark_unknown sector))))
            (tombstone_copied_loop sector left walk window)))"

definition md_window :: "u16 \<Rightarrow> fffs_sector_reader" where
  "md_window sector = (sector_reader FFFS_MD_PRELOAD_MAX True)\<lparr>rd_sector := sector\<rparr>"

definition gc_tombstone_copied_roots :: "u16 \<Rightarrow> nat \<Rightarrow> ('c, unit) fsop" where
  "gc_tombstone_copied_roots sector copied_through_entry =
     bindm (fffs_md_walk_init sector (md_window sector)) (\<lambda>(walk, window).
       tombstone_copied_loop sector copied_through_entry walk window)"

text \<open>The copy loop.  Its result is the status with which the C code reaches the end of the loop
  (\<open>Inr\<close>) or the label \<^verbatim>\<open>fail\<close> (\<open>Inl\<close>), and \<^verbatim>\<open>copied_through_entry\<close>.\<close>

partial_function (option) compact_roots_loop ::
  "u16 \<Rightarrow> bool \<Rightarrow> fffs_md_walk \<Rightarrow> fffs_sector_reader \<Rightarrow> nat \<Rightarrow> nat \<Rightarrow> 'c fffs \<Rightarrow>
   ((unit res \<times> nat) res \<times> 'c fffs) option" where
  "compact_roots_loop source relaxed walk window entry copied fs =
     (if \<not> walk_active walk then ret (Inr (), copied) fs
      else bindm (trym (fffs_md_walk_next walk window)) (\<lambda>r. case r of
          Inl err \<Rightarrow> ret (Inl err, copied)
        | Inr (walk', window', record, result) \<Rightarrow>
            if result = FFFS_MD_WALK_END_INVALID then ret (Inl FFFS_ERR_NO_SPACE, copied)
            else if result \<noteq> FFFS_MD_WALK_RECORD then ret (Inr (), copied)
            else if \<not> md_live record
            then compact_roots_loop source relaxed walk' window' (entry + 1) copied
            else bindm (getm id) (\<lambda>fs'.
              if md_type record \<noteq> FFFS_MD_TYPE_FILE_ROOT_V1 \<or> fffs_slot_is_pinned fs' (md_slot record)
              then ret (Inl FFFS_ERR_NO_SPACE, copied)
              else bindm (trym (gc_copy_root_record source record relaxed)) (\<lambda>r. case r of
                  Inl err \<Rightarrow> ret (Inl err, copied)
                | Inr _ \<Rightarrow> compact_roots_loop source relaxed walk' window' (entry + 1) (entry + 1)))) fs)"

definition gc_compact_root_only_sector :: "u16 \<Rightarrow> bool \<Rightarrow> ('c, u16) fsop" where
  "gc_compact_root_only_sector source allow_relaxed_compaction =
     bindm (fffs_md_walk_init source (md_window source)) (\<lambda>(walk, window).
     bindm (compact_roots_loop source allow_relaxed_compaction walk window 0 0) (\<lambda>(st, copied).
     bindm (getm id) (\<lambda>fs.
     bindm (case st of
              Inl err \<Rightarrow> ret (Inl err)
            | Inr _ \<Rightarrow> trym (fs_backend_erase (unat source * fs_sector_size fs) (fs_sector_size fs)))
       (\<lambda>st. case st of
          Inr _ \<Rightarrow> seqm (modm (fffs_alloc_map_mark_unknown source)) (ret source)
        | Inl err \<Rightarrow>
            seqm (whenm (copied \<noteq> 0) (gc_tombstone_copied_roots source copied)) (throw err)))))"

fun compact_candidates :: "bool \<Rightarrow> nat list \<Rightarrow> ('c, u16) fsop" where
  "compact_candidates relaxed [] = throw FFFS_ERR_NO_SPACE"
| "compact_candidates relaxed (i # is) = bindm (getm id) (\<lambda>fs.
     let candidate = fs_compaction_candidates fs ! i in
     if cand_sector candidate = 0 then throw FFFS_ERR_NO_SPACE
     else bindm (gc_fsinfo_allows_compaction candidate) (\<lambda>allowed.
       if \<not> allowed then compact_candidates relaxed is
       else bindm (trym (gc_compact_root_only_sector (cand_sector candidate) relaxed)) (\<lambda>r. case r of
           Inr sector \<Rightarrow> ret sector
         | Inl err \<Rightarrow>
             if err \<noteq> FFFS_ERR_NO_SPACE then throw err else compact_candidates relaxed is)))"

definition fffs_gc_compact_until_erased :: "bool \<Rightarrow> ('c, u16) fsop" where
  "fffs_gc_compact_until_erased allow_relaxed_compaction =
     compact_candidates allow_relaxed_compaction [0..<FFFS_COMPACTION_CANDIDATE_COUNT]"

section \<open>One step\<close>

text \<open>The cursor moves on; the visit of the sector ends.\<close>

definition gc_advance :: "nat \<Rightarrow> bool \<Rightarrow> 'c fffs \<Rightarrow> 'c fffs" where
  "gc_advance s live_seen fs = fs\<lparr>fs_gc_cursor := fffs_next_data_sector fs s,
     fs_gc_md := (fs_gc_md fs)\<lparr>walk_live_seen := live_seen, walk_active := False\<rparr>\<rparr>"

definition gc_deactivate :: "'c fffs \<Rightarrow> 'c fffs" where
  "gc_deactivate fs = fs\<lparr>fs_gc_md := (fs_gc_md fs)\<lparr>walk_active := False\<rparr>\<rparr>"

definition gc_erase :: "nat \<Rightarrow> ('c, fffs_gc_action) fsop" where
  "gc_erase s = bindm (getm id) (\<lambda>fs.
     seqm (fs_backend_erase (s * fs_sector_size fs) (fs_sector_size fs))
     (seqm (modm (fffs_alloc_map_mark_unknown (of_nat s)))
     (seqm (modm (gc_advance s False)) (ret FFFS_GC_ERASED))))"

definition gc_tombstone :: "nat \<Rightarrow> ('c, fffs_gc_action) fsop" where
  "gc_tombstone s = seqm (fffs_tombstone_sector (of_nat s))
     (seqm (modm (fffs_alloc_map_mark_unknown (of_nat s))) (ret FFFS_GC_TOMBSTONED))"

text \<open>A live record is added to the totals of the visit.\<close>

definition gc_note_live :: "fffs_md_record \<Rightarrow> 'c fffs \<Rightarrow> 'c fffs" where
  "gc_note_live record fs =
     (let md = fs_gc_md fs; root = (md_type record = FFFS_MD_TYPE_FILE_ROOT_V1) in
      fs\<lparr>fs_gc_md := md\<lparr>walk_live_seen := True,
        walk_live_bytes := walk_live_bytes md + ucast (md_data_len record) + of_nat FFFS_MD_FILE_RECORD_SIZE,
        walk_live_root_seen := (walk_live_root_seen md \<or> root),
        walk_live_root_count := (if root then walk_live_root_count md + 1 else walk_live_root_count md),
        walk_live_continuation_seen := (walk_live_continuation_seen md \<or>
          (\<not> root \<and> md_type record = FFFS_MD_TYPE_FILE_CONT_V1)),
        walk_open_seen := (walk_open_seen md \<or> fffs_slot_is_pinned fs (md_slot record))\<rparr>\<rparr>)"

text \<open>The end of a visit that saw a live record.\<close>

definition gc_finish_live :: "nat \<Rightarrow> fffs_md_walk_result \<Rightarrow> ('c, fffs_gc_action) fsop" where
  "gc_finish_live s walk_result = bindm (getm id) (\<lambda>fs.
     let md = fs_gc_md fs;
         root_only = (walk_live_root_seen md \<and> \<not> walk_live_continuation_seen md \<and> \<not> walk_open_seen md);
         full = (walk_live_continuation_seen md \<or>
           unat (walk_live_root_count md) \<ge> FFFS_ALLOC_MAX_MD_RECORDS_PER_SECTOR);
         free_len = walk_cursor md - walk_claimed_data_end md
     in bindm
          (if (root_only \<or> \<not> full) \<and> walk_result = FFFS_MD_WALK_END_ERASED \<and>
              walk_cursor md > walk_claimed_data_end md \<and> free_len \<ge> FFFS_ALLOC_MIN_USABLE_FREE
           then bindm (trym (fffs_flash_span_is_erased
                  (s * fs_sector_size fs + walk_claimed_data_end md) free_len)) (\<lambda>r. case r of
               Inr _ \<Rightarrow> ret free_len
             | Inl err \<Rightarrow> if err \<noteq> FFFS_ERR_NO_SPACE then throw err else ret 0)
           else ret 0)
          (\<lambda>immediate_free.
             seqm (whenm root_only (modm (gc_update_compaction_candidate (of_nat s) immediate_free)))
             (seqm (whenm (full \<or> immediate_free < FFFS_ALLOC_MIN_USABLE_FREE + FFFS_MD_FILE_RECORD_SIZE)
                     (modm (fffs_alloc_map_mark_used (of_nat s))))
             (seqm (modm (\<lambda>fs. gc_deactivate (fs\<lparr>fs_gc_cursor := fffs_next_data_sector fs s\<rparr>)))
               (ret FFFS_GC_SCANNED)))))"

text \<open>One record of the sector.\<close>

definition gc_visit :: "nat \<Rightarrow> fffs_sector_reader \<Rightarrow> ('c, fffs_gc_action) fsop" where
  "gc_visit s window =
     bindm (getm id) (\<lambda>fs.
     bindm (if \<not> walk_active (fs_gc_md fs) \<or> unat (walk_sector (fs_gc_md fs)) \<noteq> s
            then bindm (fffs_md_walk_init (of_nat s) window) (\<lambda>(walk, window).
              seqm (modm (\<lambda>fs. fs\<lparr>fs_gc_md := walk\<rparr>)) (ret window))
            else ret window) (\<lambda>window.
     bindm (getm fs_gc_md) (\<lambda>walk.
     bindm (trym (fffs_md_walk_next walk window)) (\<lambda>r. case r of
         Inl err \<Rightarrow>
           seqm (modm gc_deactivate)
             (if err = FFFS_ERR_CORRUPT then gc_tombstone s else throw err)
       | Inr (walk, window, record, walk_result) \<Rightarrow>
           seqm (modm (\<lambda>fs. fs\<lparr>fs_gc_md := walk\<rparr>))
           (seqm (whenm (walk_result = FFFS_MD_WALK_END_INVALID) (modm gc_deactivate))
           (seqm (whenm (walk_result = FFFS_MD_WALK_RECORD)
                   (bindm (trym (gc_classify_record s record)) (\<lambda>r. case r of
                       Inl err \<Rightarrow> seqm (modm gc_deactivate) (throw err)
                     | Inr record_live \<Rightarrow> whenm record_live (modm (gc_note_live record)))))
           (bindm (getm fs_gc_md) (\<lambda>md.
              if walk_result = FFFS_MD_WALK_RECORD \<and> walk_active md
              then ret (if md_live record \<and> \<not> walk_live_seen md then FFFS_GC_TOMBSTONED
                        else FFFS_GC_SCANNED)
              else if walk_live_seen md then gc_finish_live s walk_result
              else bindm (gc_tombstone s) (\<lambda>action. seqm (modm gc_deactivate) (ret action)))))))))) "

text \<open>The result is \<^verbatim>\<open>*out_action\<close> and \<^verbatim>\<open>*out_cheap_skip\<close>.\<close>

definition gc_step :: "bool \<Rightarrow> ('c, fffs_gc_action \<times> bool) fsop" where
  "gc_step use_map = bindm (getm id) (\<lambda>fs.
     let s = normalized_data_cursor fs (fs_gc_cursor fs) in
     if fs_sector_count fs \<le> unat (fs_index_sectors fs) then ret (FFFS_GC_IDLE, True)
     else
       seqm (whenm (s \<noteq> fs_gc_cursor fs) (modm (\<lambda>fs. fs\<lparr>fs_gc_md :=
              (fs_gc_md fs)\<lparr>walk_live_seen := False, walk_active := False\<rparr>\<rparr>)))
       (if use_map \<and> fffs_alloc_map_maybe_used fs (of_nat s)
        then seqm (modm (gc_advance s False)) (ret (FFFS_GC_SCANNED, True))
        else if fffs_alloc_compaction_reserved fs (of_nat s)
        then seqm (modm (gc_advance s False)) (ret (FFFS_GC_SCANNED, True))
        else if fffs_sector_is_open_for_writing fs (of_nat s)
        then seqm (modm (gc_advance s True)) (ret (FFFS_GC_SCANNED, True))
        else
          bindm (fffs_sector_reader_view (md_window (of_nat s)) (of_nat s)
                  (fs_sector_size fs - FFFS_SECTOR_FOOTER_SIZE) FFFS_SECTOR_FOOTER_SIZE)
            (\<lambda>(footer_bytes, window).
               let footer = fffs_decode_sector_footer footer_bytes in
               bindm
                 (if ft_erased footer then
                    bindm (trym (fffs_flash_span_is_erased (s * fs_sector_size fs) (fs_sector_size fs)))
                      (\<lambda>r. case r of
                         Inr _ \<Rightarrow> seqm (modm (fffs_alloc_map_mark_unknown (of_nat s)))
                           (seqm (modm (gc_advance s False)) (ret FFFS_GC_ERASED))
                       | Inl err \<Rightarrow> if err \<noteq> FFFS_ERR_NO_SPACE then throw err else gc_erase s)
                  else if ft_type footer \<noteq> FFFS_SECTOR_TYPE_FILE \<or> \<not> ft_magic_valid footer \<or>
                    ft_valid_bits footer = FFFS_BITMIRROR_MIXED \<or>
                    ft_tombstone_bits footer = FFFS_BITMIRROR_MIXED \<or>
                    ft_state footer = 0xff \<or> ft_tombstone_bits footer = FFFS_BITMIRROR_CLEARED
                  then gc_erase s
                  else if \<not> fffs_lifecycle_is_live (ft_valid_bits footer) (ft_tombstone_bits footer)
                  then throw FFFS_ERR_CORRUPT
                  else gc_visit s window)
                 (\<lambda>action. ret (action, False)))))"

section \<open>Bounded loops\<close>

text \<open>\<open>left\<close> is the number of cheap skips still allowed.\<close>

fun gc_step_loop :: "nat \<Rightarrow> ('c, fffs_gc_action) fsop" where
  "gc_step_loop 0 = bindm (gc_step True) (\<lambda>(action, cheap_skip). ret action)"
| "gc_step_loop (Suc left) = bindm (gc_step True) (\<lambda>(action, cheap_skip).
     if \<not> cheap_skip then ret action else gc_step_loop left)"

definition fffs_gc_step :: "('c, fffs_gc_action) fsop" where
  "fffs_gc_step = bindm (getm id) (\<lambda>fs.
     gc_step_loop (fs_sector_count fs - unat (fs_index_sectors fs) - 1))"

partial_function (option) gc_pass ::
  "bool \<Rightarrow> nat \<Rightarrow> nat \<Rightarrow> 'c fffs \<Rightarrow> (u16 option res \<times> 'c fffs) option" where
  "gc_pass use_map data_sectors advanced fs =
     (if advanced \<ge> data_sectors then ret None fs
      else
        let before = normalized_data_cursor fs (fs_gc_cursor fs) in
        bindm (gc_step use_map) (\<lambda>(action, _).
          if action = FFFS_GC_ERASED then ret (Some (of_nat before))
          else bindm (getm id) (\<lambda>fs'.
            let moved = (normalized_data_cursor fs' (fs_gc_cursor fs') \<noteq> before) in
            if moved then gc_pass use_map data_sectors (advanced + 1)
            else if action = FFFS_GC_IDLE then ret None
            else gc_pass use_map data_sectors advanced)) fs)"

definition gc_fresh_pass :: "bool \<Rightarrow> nat \<Rightarrow> ('c, u16 option) fsop" where
  "gc_fresh_pass use_map data_sectors =
     seqm (modm (\<lambda>fs. fs\<lparr>fs_compaction_candidates :=
            replicate FFFS_COMPACTION_CANDIDATE_COUNT zero_candidate\<rparr>))
       (gc_pass use_map data_sectors 0)"

definition fffs_gc_until_erased :: "('c, u16) fsop" where
  "fffs_gc_until_erased = bindm (getm id) (\<lambda>fs.
     let data_sectors = fs_sector_count fs - unat (fs_index_sectors fs) in
     if fs_sector_count fs \<le> unat (fs_index_sectors fs) then throw FFFS_ERR_NO_SPACE
     else bindm (gc_fresh_pass True data_sectors) (\<lambda>r. case r of
         Some sector \<Rightarrow> ret sector
       | None \<Rightarrow> bindm (gc_fresh_pass False data_sectors) (\<lambda>r. case r of
           Some sector \<Rightarrow> ret sector
         | None \<Rightarrow> fffs_gc_compact_until_erased False)))"

fun gc_steps :: "nat \<Rightarrow> nat \<Rightarrow> ('c, nat) fsop" where
  "gc_steps 0 erased = ret erased"
| "gc_steps (Suc n) erased = bindm fffs_gc_step (\<lambda>action.
     gc_steps n (if action = FFFS_GC_ERASED then erased + 1 else erased))"

definition fffs_gc :: "nat \<Rightarrow> ('c, nat) fsop" where
  "fffs_gc max_steps = gc_steps max_steps 0"

section \<open>Allocation with the collector as fallback\<close>

definition allocate_erased_gc_sector :: "nat \<Rightarrow> ('c, u16) fsop" where
  "allocate_erased_gc_sector p = bindm fffs_gc_until_erased (\<lambda>sector.
     seqm (modm (\<lambda>fs. use_alloc_window p sector 0 (erased_record_off fs) True fs)) (ret sector))"

text \<open>\<open>or_no_space m n\<close>: try \<open>m\<close>, and \<open>n\<close> when it fails with \<^verbatim>\<open>FFFS_ERR_NO_SPACE\<close>.\<close>

definition or_no_space :: "('s, 'a) op \<Rightarrow> ('s, 'a) op \<Rightarrow> ('s, 'a) op" where
  "or_no_space m n = bindm (trym m) (\<lambda>r. case r of
     Inr v \<Rightarrow> ret v | Inl err \<Rightarrow> if err = FFFS_ERR_NO_SPACE then n else throw err)"

definition fffs_alloc_next_sector :: "nat \<Rightarrow> ('c, u16) fsop" where
  "fffs_alloc_next_sector p = bindm (try_reserved_sector p) (\<lambda>(sector, skip). case sector of
     Some s \<Rightarrow> ret s
   | None \<Rightarrow>
       or_no_space (alloc_sector_once p skip)
       (or_no_space (bindm halve_reservations (\<lambda>released.
          if released then alloc_sector_once p skip else throw FFFS_ERR_NO_SPACE))
       (or_no_space (allocate_erased_gc_sector p)
       (or_no_space (bindm (getm fs_compaction_reserve_count) (\<lambda>count.
          if count \<noteq> 0 then try_compaction_reserve_for_alloc p else throw FFFS_ERR_NO_SPACE))
        (bindm (fffs_gc_compact_until_erased True) (\<lambda>s.
          seqm (modm (\<lambda>fs. use_alloc_window p s 0 (erased_record_off fs) True fs)) (ret s)))))))"

end
