(* ===== verification/Fffs_File.thy ===== *)
theory Fffs_File
  imports Fffs_Gc
begin

unbundle bit_operations_syntax

text \<open>
  File handles, \<^verbatim>\<open>src/fffs_file.c\<close>: open, read, seek, write, stat and close.  \<open>p\<close> is the address of
  the handle in \<open>fs_files\<close>.  A reader follows extents through \<open>f_span_len\<close> (the next sector) and
  \<open>f_current_next\<close>; a writer stages data in the cache, programs it granule by granule, writes the
  record of a full extent and links spans of adjacent sectors.

  When \<^verbatim>\<open>fffs_open\<close> fails the handle's cache bytes are left over from name resolution in C and zero
  in the model; nothing reads them.  \<^verbatim>\<open>fffs_read\<close> returns the bytes it copies to the buffer.
\<close>

section \<open>Helpers\<close>

definition get_file :: "nat \<Rightarrow> ('c, fffs_file) fsop" where
  "get_file p = getm (\<lambda>fs. fs_files fs p)"

definition mod_file :: "nat \<Rightarrow> (fffs_file \<Rightarrow> fffs_file) \<Rightarrow> ('c, unit) fsop" where
  "mod_file p f = modm (upd_file p f)"

definition stage_root_prefix :: "byte list \<Rightarrow> fffs_file \<Rightarrow> fffs_file" where
  "stage_root_prefix name f =
     f\<lparr>f_root_payload_offset := of_nat (1 + length name + 1),
       f_cache := put_bytes 0 ([of_nat (length name)] @ name @ [0]) (f_cache f),
       f_cache_len := unat (of_nat (1 + length name + 1) :: u16)\<rparr>"

definition current_extent_capacity :: "fffs_file \<Rightarrow> nat" where
  "current_extent_capacity file =
     (let data_off = unat (f_data_offset file); record_off = unat (f_current_metadata_offset file);
          prefix = (if f_current file = f_head file then unat (f_root_payload_offset file) else 0)
      in if record_off \<le> data_off + prefix then 0 else record_off - data_off - prefix)"

definition pending_span_len :: "fffs_file \<Rightarrow> u16" where
  "pending_span_len file = f_current file - f_span_head file + 1"

section \<open>Open\<close>

definition open_flags_valid :: "u32 \<Rightarrow> bool" where
  "open_flags_valid flags \<longleftrightarrow>
     (flags AND FFFS_O_RDONLY \<noteq> 0) \<noteq> (flags AND FFFS_O_WRONLY \<noteq> 0) \<and>
     flags AND NOT (FFFS_O_RDONLY OR FFFS_O_WRONLY OR FFFS_O_CREATE OR FFFS_O_TRUNC OR FFFS_O_EXCL) = 0"

definition open_read :: "nat \<Rightarrow> resolved \<Rightarrow> root_md \<Rightarrow> ('c, unit) fsop" where
  "open_read p r root =
     bindm (fffs_read_md_for_slot (rs_head r) (rs_slot r)) (\<lambda>record.
       let st = the (root_st root); cache = the (root_cache root) in
       seqm (mod_file p (\<lambda>f. f\<lparr>f_cache := cv_data cache, f_cache_len := cv_len cache,
              f_cache_data_pos := cv_data_pos cache, f_data_offset := root_data_off root,
              f_size := st_size st, f_current := rs_head r, f_current_data_len := root_data_len root,
              f_span_len := md_span_len record, f_current_next := root_next root,
              f_name := st_name st\<rparr>))
         (modm (register_open_file p)))"

definition open_write :: "nat \<Rightarrow> byte list \<Rightarrow> resolved \<Rightarrow> ('c, unit) fsop" where
  "open_write p name r =
     seqm (case rs_root r of
             None \<Rightarrow> ret ()
           | Some root \<Rightarrow> mod_file p (\<lambda>f. f\<lparr>f_old_head := rs_head r, f_old_next := root_next root\<rparr>))
     (bindm (fffs_alloc_next_sector p) (\<lambda>sector.
       seqm (mod_file p (\<lambda>f. (stage_root_prefix name (f\<lparr>f_head := sector, f_current := sector, f_name := name\<rparr>))
              \<lparr>f_span_head := sector, f_span_len := 0\<rparr>))
         (modm (register_open_file p))))"

definition fffs_open :: "nat \<Rightarrow> byte list \<Rightarrow> u32 \<Rightarrow> ('c, unit) fsop" where
  "fffs_open p name flags =
     (let read = (flags AND FFFS_O_RDONLY \<noteq> 0); write = (flags AND FFFS_O_WRONLY \<noteq> 0);
          cache = \<lparr>cv_data = f_cache zero_file, cv_capacity = FFFS_FILE_CACHE_SIZE, cv_len = 0,
                   cv_data_pos = 0\<rparr>
      in seqm (mod_file p (\<lambda>_. zero_file))
         (if \<not> open_flags_valid flags then throw FFFS_ERR_INVALID
          else bindm (fffs_index_resolve name (if read then Some cache else None)) (\<lambda>r.
            let found = (rs_root r \<noteq> None) in
            if read \<and> \<not> found then throw FFFS_ERR_NOT_FOUND
            else if write \<and> \<not> found \<and> flags AND FFFS_O_CREATE = 0 then throw FFFS_ERR_NOT_FOUND
            else if write \<and> found \<and> flags AND FFFS_O_EXCL \<noteq> 0 then throw FFFS_ERR_EXISTS
            else if write \<and> found \<and> flags AND FFFS_O_TRUNC = 0 then throw FFFS_ERR_EXISTS
            else
              seqm (mod_file p (\<lambda>f. f\<lparr>f_fs := True, f_flags := flags, f_slot := rs_slot r,
                     f_head := rs_head r\<rparr>))
                (if read then open_read p r (the (rs_root r)) else open_write p name r))))"

section \<open>Seek\<close>

definition reset_read_position_to_root :: "nat \<Rightarrow> ('c, unit) fsop" where
  "reset_read_position_to_root p = bindm (get_file p) (\<lambda>file.
     bindm (fffs_read_file_root_md (f_head file) (f_slot file) True None) (\<lambda>root.
       mod_file p (\<lambda>f. f\<lparr>f_data_offset := root_data_off root, f_current := f_head f,
         f_current_data_len := root_data_len root, f_span_len := root_span_len root,
         f_current_next := root_next root, f_current_data_pos := 0, f_current_file_offset := 0,
         f_cache_len := 0, f_cache_data_pos := 0\<rparr>)))"

text \<open>The binary search of \<^verbatim>\<open>hunt_current_span\<close> over the sectors of a span.\<close>

partial_function (option) hunt_loop ::
  "nat \<Rightarrow> u32 \<Rightarrow> u32 \<Rightarrow> u32 \<Rightarrow> u16 \<Rightarrow> u16 \<Rightarrow> 'c fffs \<Rightarrow> (bool res \<times> 'c fffs) option" where
  "hunt_loop p target rel estimate low high fs =
     (if \<not> low \<le> high then ret False fs
      else
        let guess = ucast (rel div estimate) :: u16;
            guess = (if guess < low then low else guess);
            guess = (if guess > high then high else guess);
            file = fs_files fs p; sector = f_current file + guess
        in bindm (fffs_read_md_for_slot sector (f_slot file)) (\<lambda>record.
          let file_offset = (if md_type record = FFFS_MD_TYPE_FILE_ROOT_V1 then 0
                             else md_size_or_offset record)
          in if target < file_offset
             then (if guess = 0 then ret False else hunt_loop p target rel estimate low (guess - 1))
             else if target \<le> file_offset + ucast (md_data_len record)
             then seqm (mod_file p (\<lambda>f. f\<lparr>f_current := sector, f_data_offset := md_data_off record,
                    f_current_data_len := md_data_len record, f_span_len := md_span_len record,
                    f_current_next := md_next record, f_current_file_offset := file_offset,
                    f_current_data_pos := target - file_offset, f_pos := target, f_cache_len := 0\<rparr>))
                  (ret True)
             else hunt_loop p target rel estimate (guess + 1) high) fs)"

definition hunt_current_span :: "nat \<Rightarrow> u32 \<Rightarrow> ('c, bool) fsop" where
  "hunt_current_span p target = bindm (getm id) (\<lambda>fs.
     let file = fs_files fs p;
         estimate = of_nat (fffs_max_file_data_size fs) :: u32
     in if f_span_len file \<le> 1 \<or>
           target \<le> f_current_file_offset file + ucast (f_current_data_len file) then ret False
        else hunt_loop p target (target - f_current_file_offset file)
          (if estimate = 0 then 1 else estimate) 1 (f_span_len file - 1))"

text \<open>Moving to the extent of \<open>record\<close> in \<open>next_sector\<close>.\<close>

definition enter_extent :: "u16 \<Rightarrow> fffs_md_record \<Rightarrow> fffs_file \<Rightarrow> fffs_file" where
  "enter_extent next_sector record f =
     f\<lparr>f_data_offset := md_data_off record, f_current := next_sector,
       f_current_data_len := md_data_len record, f_span_len := md_span_len record,
       f_current_next := md_next record, f_current_data_pos := 0,
       f_current_file_offset := f_current_file_offset f + ucast (f_current_data_len f),
       f_cache_len := 0\<rparr>"

definition following_sector :: "fffs_file \<Rightarrow> u16" where
  "following_sector file = (if f_span_len file > 1 then f_current file + 1 else f_current_next file)"

text \<open>\<open>left\<close> is the number of further extents the depth limit allows.\<close>

fun seek_loop :: "nat \<Rightarrow> nat \<Rightarrow> u32 \<Rightarrow> ('c, unit) fsop" where
  "seek_loop left p target = bindm (get_file p) (\<lambda>file.
     if \<not> target > f_current_file_offset file + ucast (f_current_data_len file)
     then mod_file p (\<lambda>f. f\<lparr>f_current_data_pos := target - f_current_file_offset f, f_pos := target\<rparr>)
     else bindm (hunt_current_span p target) (\<lambda>found_in_span.
       if found_in_span then ret ()
       else if following_sector file = 0 then throw FFFS_ERR_CORRUPT
       else (case left of
           0 \<Rightarrow> throw FFFS_ERR_CORRUPT
         | Suc left' \<Rightarrow>
             bindm (fffs_read_md_for_slot (following_sector file) (f_slot file)) (\<lambda>record.
               seqm (mod_file p (enter_extent (following_sector file) record))
                 (seek_loop left' p target)))))"

declare seek_loop.simps [simp del]

definition seek_from_current_position :: "nat \<Rightarrow> u32 \<Rightarrow> ('c, unit) fsop" where
  "seek_from_current_position p target = bindm (getm fs_sector_count) (\<lambda>n. seek_loop (n - 1) p target)"

definition seek_read_position :: "nat \<Rightarrow> u32 \<Rightarrow> ('c, unit) fsop" where
  "seek_read_position p target = bindm (get_file p) (\<lambda>file.
     seqm (whenm (target < f_current_file_offset file) (reset_read_position_to_root p))
       (seek_from_current_position p target))"

text \<open>\<open>offset\<close> is an \<^verbatim>\<open>int32_t\<close>; the sum is taken in \<^verbatim>\<open>int64_t\<close>.\<close>

definition fffs_seek :: "nat \<Rightarrow> u32 \<Rightarrow> fffs_seek_whence \<Rightarrow> ('c, u32) fsop" where
  "fffs_seek p offset whence = bindm (get_file p) (\<lambda>file.
     let base = (case whence of
           FFFS_SEEK_SET \<Rightarrow> 0 | FFFS_SEEK_CUR \<Rightarrow> uint (f_pos file) | FFFS_SEEK_END \<Rightarrow> uint (f_size file));
         target = base + sint offset
     in if f_closed file \<or> f_flags file AND FFFS_O_RDONLY = 0 then throw FFFS_ERR_INVALID
        else if target < 0 \<or> target > uint (f_size file) then throw FFFS_ERR_RANGE
        else seqm (seek_read_position p (word_of_int target))
          (bindm (get_file p) (\<lambda>file. ret (f_pos file))))"

section \<open>Read\<close>

definition read_cache_has_remaining :: "fffs_file \<Rightarrow> bool" where
  "read_cache_has_remaining file \<longleftrightarrow> f_cache_len file \<noteq> 0 \<and>
     f_current_data_pos file \<ge> f_cache_data_pos file \<and>
     unat (f_current_data_pos file) < unat (f_cache_data_pos file) + f_cache_len file"

definition data_address :: "'c fffs \<Rightarrow> fffs_file \<Rightarrow> nat" where
  "data_address fs file = unat (f_current file) * fs_sector_size fs + unat (f_data_offset file) +
     unat (f_current_data_pos file)"

definition fill_read_cache :: "nat \<Rightarrow> ('c, unit) fsop" where
  "fill_read_cache p = bindm (getm id) (\<lambda>fs.
     let file = fs_files fs p;
         remaining = unat (ucast (f_current_data_len file) - f_current_data_pos file);
         n = min remaining FFFS_FILE_CACHE_SIZE
     in bindm (fffs_flash_read (data_address fs file) n) (\<lambda>data.
          mod_file p (\<lambda>f. f\<lparr>f_cache := put_bytes 0 data (f_cache f),
            f_cache_data_pos := f_current_data_pos f, f_cache_len := n\<rparr>)))"

text \<open>The bytes of one round of the read loop; \<open>want\<close> is what is still wanted.\<close>

definition read_piece :: "nat \<Rightarrow> nat \<Rightarrow> ('c, byte list) fsop" where
  "read_piece p want = bindm (getm id) (\<lambda>fs.
     let file = fs_files fs p;
         in_current_data = unat (ucast (f_current_data_len file) - f_current_data_pos file);
         n = min want in_current_data
     in if read_cache_has_remaining file then
          let cache_pos = unat (f_current_data_pos file - f_cache_data_pos file);
              cached = f_cache_len file - cache_pos
          in ret (sub_bytes cache_pos (min n cached) (f_cache file))
        else if n < FFFS_FILE_CACHE_SIZE then
          seqm (fill_read_cache p) (bindm (get_file p) (\<lambda>file.
            ret (take (min want (f_cache_len file)) (f_cache file))))
        else
          seqm (mod_file p (\<lambda>f. f\<lparr>f_cache_len := 0\<rparr>))
            (fffs_flash_read (data_address fs file) n))"

definition read_next_extent :: "nat \<Rightarrow> ('c, unit) fsop" where
  "read_next_extent p = bindm (get_file p) (\<lambda>file.
     if following_sector file = 0 then throw FFFS_ERR_CORRUPT
     else bindm (fffs_read_md_for_slot (following_sector file) (f_slot file)) (\<lambda>record.
       mod_file p (enter_extent (following_sector file) record)))"

partial_function (option) read_loop ::
  "nat \<Rightarrow> nat \<Rightarrow> byte list \<Rightarrow> 'c fffs \<Rightarrow> (byte list res \<times> 'c fffs) option" where
  "read_loop p want done fs =
     (if \<not> length done < want then ret done fs
      else
        seqm (whenm (f_current_data_pos (fs_files fs p) \<ge> ucast (f_current_data_len (fs_files fs p)))
               (read_next_extent p))
        (bindm (read_piece p (want - length done)) (\<lambda>piece.
          seqm (mod_file p (\<lambda>f. f\<lparr>f_current_data_pos := f_current_data_pos f + of_nat (length piece),
                 f_pos := f_pos f + of_nat (length piece)\<rparr>))
            (read_loop p want (done @ piece)))) fs)"

definition fffs_read :: "nat \<Rightarrow> nat \<Rightarrow> ('c, byte list) fsop" where
  "fffs_read p sz = bindm (get_file p) (\<lambda>file.
     if f_closed file \<or> f_flags file AND FFFS_O_RDONLY = 0 then throw FFFS_ERR_INVALID
     else
       let want = min sz (unat (f_size file - f_pos file)) in
       if want = 0 then ret [] else read_loop p want [])"

section \<open>Write\<close>

text \<open>The number of bytes \<^verbatim>\<open>flush_write_cache\<close> programs.\<close>

definition flush_length :: "nat \<Rightarrow> nat \<Rightarrow> bool \<Rightarrow> nat" where
  "flush_length granule cache_len final =
     (let n = cache_len - cache_len mod granule in
      if final \<and> n \<noteq> cache_len then ((cache_len + granule - 1) div granule) * granule else n)"

definition flush_write_cache :: "nat \<Rightarrow> bool \<Rightarrow> ('c, unit) fsop" where
  "flush_write_cache p final = bindm (getm id) (\<lambda>fs.
     let granule = be_program_granule (fs_backend fs); file = fs_files fs p;
         len = f_cache_len file; n = flush_length granule len final
     in if len = 0 then ret ()
        else if \<not> final \<and> len < granule then ret ()
        else
          seqm (whenm (n > len) (mod_file p (\<lambda>f. f\<lparr>f_cache :=
                 put_bytes len (replicate (n - len) 0xff) (f_cache f)\<rparr>)))
          (if n = 0 then ret ()
           else bindm (get_file p) (\<lambda>file.
             seqm (fffs_flash_program_aligned
                    (unat (f_current file) * fs_sector_size fs + unat (f_current_write_offset file))
                    (take n (f_cache file)))
               (mod_file p (\<lambda>f. f\<lparr>f_current_write_offset := f_current_write_offset f + of_nat n,
                 f_cache := (if n < f_cache_len f
                   then put_bytes 0 (sub_bytes n (f_cache_len f - n) (f_cache f)) (f_cache f)
                   else f_cache f),
                 f_cache_len := f_cache_len f - min n (f_cache_len f)\<rparr>)))))"

definition flush_pending_span_head :: "nat \<Rightarrow> u16 \<Rightarrow> bool \<Rightarrow> ('c, unit) fsop" where
  "flush_pending_span_head p next_sector final = bindm (get_file p) (\<lambda>file.
     let is_root = (f_span_head file = f_head file); span_len = pending_span_len file in
     if f_span_head file = 0 then ret ()
     else
       seqm (if is_root \<and> \<not> final
             then fffs_finish_extent_metadata file (f_span_head file) next_sector span_len 0
                    False False False
             else fffs_finish_extent_metadata file (f_span_head file) next_sector span_len (f_size file)
                    is_root True is_root)
         (mod_file p (\<lambda>f. f\<lparr>f_span_head := 0\<rparr>)))"

definition start_next_extent :: "nat \<Rightarrow> ('c, unit) fsop" where
  "start_next_extent p = seqm (flush_write_cache p True) (bindm (get_file p) (\<lambda>old.
     bindm (fffs_alloc_next_sector p) (\<lambda>next_sector. bindm (get_file p) (\<lambda>file.
       let can_extend_span = (unat next_sector = unat (f_current old) + 1 \<and>
             pending_span_len file < 0xffff);
           next_file_offset = f_current_file_offset old + ucast (f_current_data_len old)
       in
       seqm (if f_current old = f_span_head file
             then fffs_begin_extent_metadata file (f_current old) (f_data_offset old)
                    (f_current_metadata_offset old) (f_current_needs_footer old)
                    (f_current_data_len old) (f_current_file_offset old)
             else fffs_write_extent_metadata file (f_current old) (f_data_offset old)
                    (f_current_metadata_offset old) (f_current_needs_footer old)
                    (f_current_data_len old) 1 0 next_sector (f_current_file_offset old) False)
       (seqm (whenm (\<not> can_extend_span) (flush_pending_span_head p next_sector False))
         (mod_file p (\<lambda>f.
            let f = f\<lparr>f_current := next_sector, f_current_data_len := 0, f_current_next := 0,
                  f_current_file_offset := next_file_offset, f_cache_len := 0\<rparr>
            in if \<not> can_extend_span then f\<lparr>f_span_head := next_sector, f_span_len := 0\<rparr> else f)))))))"

text \<open>\<open>src\<close> is what is left to write.\<close>

partial_function (option) write_loop ::
  "nat \<Rightarrow> byte list \<Rightarrow> 'c fffs \<Rightarrow> (unit res \<times> 'c fffs) option" where
  "write_loop p src fs =
     (if src = [] then ret () fs
      else
        seqm (whenm (unat (f_current_data_len (fs_files fs p)) \<ge> current_extent_capacity (fs_files fs p))
               (start_next_extent p))
        (bindm (get_file p) (\<lambda>file.
          let extent_space = current_extent_capacity file - unat (f_current_data_len file);
              buffer_space = FFFS_FILE_CACHE_SIZE - f_cache_len file;
              n = min (length src) (min extent_space buffer_space)
          in seqm (mod_file p (\<lambda>f. f\<lparr>f_cache := put_bytes (f_cache_len f) (take n src) (f_cache f),
                    f_cache_len := f_cache_len f + n,
                    f_current_data_len := f_current_data_len f + of_nat n,
                    f_size := f_size f + of_nat n\<rparr>))
             (seqm (whenm (f_cache_len file + n = FFFS_FILE_CACHE_SIZE) (flush_write_cache p False))
               (write_loop p (drop n src))))) fs)"

definition fffs_write :: "nat \<Rightarrow> byte list \<Rightarrow> ('c, unit) fsop" where
  "fffs_write p buffer = bindm (get_file p) (\<lambda>file.
     if f_closed file \<or> f_flags file AND FFFS_O_WRONLY = 0 then throw FFFS_ERR_INVALID
     else write_loop p buffer)"

section \<open>Stat and close\<close>

definition fffs_fstat :: "nat \<Rightarrow> ('c, fffs_stat) fsop" where
  "fffs_fstat p = bindm (get_file p) (\<lambda>file.
     if f_closed file then throw FFFS_ERR_INVALID
     else if f_flags file AND FFFS_O_WRONLY \<noteq> 0
     then ret \<lparr>st_name = f_name file, st_size = f_size file\<rparr>
     else bindm (fffs_read_file_root_md (f_head file) (f_slot file) True None) (\<lambda>root.
       ret (the (root_st root))))"

text \<open>The record of the last extent.\<close>

definition close_extent :: "nat \<Rightarrow> ('c, unit) fsop" where
  "close_extent p = bindm (get_file p) (\<lambda>file.
     if f_current file = f_span_head file
     then fffs_begin_extent_metadata file (f_current file) (f_data_offset file)
            (f_current_metadata_offset file) (f_current_needs_footer file)
            (f_current_data_len file) (f_current_file_offset file)
     else fffs_write_extent_metadata file (f_current file) (f_data_offset file)
            (f_current_metadata_offset file) (f_current_needs_footer file)
            (f_current_data_len file) 1 0 0 (f_current_file_offset file) False)"

text \<open>The old chain is looked up again when its root sector is the new root's.  The status of these
  two calls is overwritten by the next one, so an error leaves the old chain as it was.\<close>

definition close_refresh_old :: "nat \<Rightarrow> ('c, unit) fsop" where
  "close_refresh_old p = bindm (get_file p) (\<lambda>file.
     if f_old_head file \<noteq> f_head file then ret ()
     else bindm (trym (fffs_index_head_for_slot (f_slot file))) (\<lambda>r. case r of
         Inl _ \<Rightarrow> ret ()
       | Inr None \<Rightarrow> mod_file p (\<lambda>f. f\<lparr>f_old_head := 0\<rparr>)
       | Inr (Some head) \<Rightarrow>
           bindm (trym (fffs_read_file_root_md head (f_slot file) False None)) (\<lambda>r. case r of
               Inl _ \<Rightarrow> ret ()
             | Inr root \<Rightarrow> mod_file p (\<lambda>f. f\<lparr>f_old_head := head, f_old_next := root_next root\<rparr>))))"

definition close_commit :: "nat \<Rightarrow> ('c, unit) fsop" where
  "close_commit p = bindm (get_file p) (\<lambda>file.
     let root_deferred = (f_current file \<noteq> f_head file \<and> f_span_head file \<noteq> f_head file) in
     seqm (close_refresh_old p)
     (seqm (flush_pending_span_head p 0 True)
     (seqm (if root_deferred then bindm (get_file p) fffs_finish_deferred_root_metadata else ret ())
     (bindm (get_file p) (\<lambda>file.
     (seqm (modm (fffs_fsinfo_note_committed_add (f_size file)))
       (if f_old_head file \<noteq> 0
        then bindm (fffs_invalidate_old_chain (f_slot file) (f_old_head file) (f_old_next file) True)
          (\<lambda>(_, root_accounted). modm (\<lambda>fs.
             if fffs_fsinfo_committed_valid fs \<and> \<not> root_accounted
             then fffs_fsinfo_invalidate_committed fs else fs))
        else ret ())))))))"

definition fffs_close :: "nat \<Rightarrow> ('c, unit) fsop" where
  "fffs_close p = bindm (get_file p) (\<lambda>file.
     if f_closed file then throw FFFS_ERR_INVALID
     else
       bindm (if f_flags file AND FFFS_O_WRONLY \<noteq> 0
              then bindm (trym (seqm (flush_write_cache p True) (seqm (close_extent p) (close_commit p))))
                (\<lambda>err. seqm (modm (fffs_alloc_release_reservation p)) (ret err))
              else ret (Inr ()))
         (\<lambda>err.
            seqm (modm (unregister_open_file p))
              (seqm (mod_file p (\<lambda>f. f\<lparr>f_closed := True\<rparr>)) (of_res err))))"

end
