(* ===== verification/Fffs_Mount.thy ===== *)
theory Fffs_Mount
  imports Fffs_Alloc
begin

unbundle bit_operations_syntax

text \<open>
  Format, mount and unmount of \<^verbatim>\<open>src/fastffs.c\<close>, and the journal replay of
  \<^verbatim>\<open>src/fffs_index_log.c\<close>.  Replay reads the index sectors oldest first and applies every record to
  the RAM cache.  A torn last record of the active sector is overwritten with zeros (unless the
  mount is strict); anywhere else an implausible record is corruption.

  Mounting runs on a state whose \<open>fs_backend\<close> is the caller's backend; zeroing the structure keeps
  the flash and the caller's file objects, which C reaches through pointers.
\<close>

section \<open>Replay\<close>

fun recover_loop :: "nat \<Rightarrow> nat \<Rightarrow> ('c, unit) fsop" where
  "recover_loop 0 sector = ret ()"
| "recover_loop (Suc left) sector = bindm (getm id) (\<lambda>fs.
     if sector < unat (fs_index_sectors fs) \<or> sector \<ge> fs_sector_count fs then ret ()
     else bindm (trym (fffs_read_sector_serial (of_nat sector))) (\<lambda>r.
       seqm (case r of
               Inl _ \<Rightarrow> ret ()
             | Inr serial \<Rightarrow> whenm (serial \<ge> fs_next_sector_serial fs) (modm (\<lambda>fs.
                 fs\<lparr>fs_next_sector_serial := (if serial + 1 = 0 then 1 else serial + 1)\<rparr>)))
         (let next = fffs_next_data_sector fs sector in
          if next \<le> sector then ret () else recover_loop left next)))"

definition recover_allocator_hint :: "u16 \<Rightarrow> ('c, unit) fsop" where
  "recover_allocator_hint head =
     seqm (modm (\<lambda>fs. fs\<lparr>fs_alloc_cursor := fffs_next_data_sector fs (unat head)\<rparr>))
       (recover_loop (FFFS_ALLOC_RECOVERY_LOOKAHEAD + 1) (unat head))"

text \<open>The records of one chunk, read at \<open>off\<close>.  The result says whether the sector is finished
  (\<^verbatim>\<open>goto next_sector\<close>), and is \<^verbatim>\<open>tail_head\<close>.\<close>

fun replay_records ::
  "byte list \<Rightarrow> nat \<Rightarrow> nat \<Rightarrow> nat \<Rightarrow> bool \<Rightarrow> nat list \<Rightarrow> u16 \<Rightarrow> ('c, bool \<times> u16) fsop" where
  "replay_records chunk nread off stop active [] tail_head = ret (False, tail_head)"
| "replay_records chunk nread off stop active (pos # ps) tail_head =
     (let slot = fffs_load_le16 (drop pos chunk); head = fffs_load_le16 (drop (pos + 2) chunk);
          rec_off = off + pos;
          go_on = replay_records chunk nread off stop active ps
      in if slot = 0xffff \<and> head = 0xffff then
           seqm (whenm active (modm (\<lambda>fs. fs\<lparr>fs_next_index_offset := rec_off\<rparr>))) (ret (True, tail_head))
         else if slot = 0 \<and> head = 0 then
           seqm (whenm active (modm (\<lambda>fs. fs\<lparr>fs_next_index_offset := rec_off + 4\<rparr>))) (go_on tail_head)
         else
           bindm (if active then active_index_record_is_terminal rec_off chunk pos nread stop
                  else ret False) (\<lambda>terminal.
             let clobber = seqm (clobber_or_reject_active_tail rec_off terminal) (ret (True, tail_head)) in
             if slot = 0 \<or> slot = 0xffff \<or> head = 0xffff then clobber
             else if head = 0 then seqm (fffs_index_remove slot) (go_on tail_head)
             else bindm (getm id) (\<lambda>fs.
               if unat head < unat (fs_index_sectors fs) \<or> unat head \<ge> fs_sector_count fs then clobber
               else
                 bindm (if terminal then bindm (trym (fffs_read_file_root_md head slot False None))
                          (\<lambda>r. ret (case r of Inl _ \<Rightarrow> False | Inr _ \<Rightarrow> True))
                        else ret True) (\<lambda>readable.
                   if \<not> readable then clobber
                   else seqm (fffs_index_insert slot head) (go_on head)))))"

partial_function (option) replay_chunks ::
  "nat \<Rightarrow> nat \<Rightarrow> bool \<Rightarrow> u16 \<Rightarrow> 'c fffs \<Rightarrow> (u16 res \<times> 'c fffs) option" where
  "replay_chunks off stop active tail_head fs =
     (if \<not> off + 4 \<le> stop then ret tail_head fs
      else
        let nread = min (stop - off) (fs_scratch_size fs); nread = nread - nread mod 4 in
        bindm (read_scratch off nread) (\<lambda>chunk.
        seqm (modm fffs_scratch_bump)
        (bindm (replay_records chunk nread off stop active (map (\<lambda>i. 4 * i) [0..<nread div 4]) tail_head)
          (\<lambda>(next_sector, tail_head).
             if next_sector then ret tail_head
             else seqm (whenm active (modm (\<lambda>fs. fs\<lparr>fs_next_index_offset := off + nread\<rparr>)))
               (replay_chunks (off + nread) stop active tail_head)))) fs)"

fun replay_sectors :: "nat \<Rightarrow> nat \<Rightarrow> u16 \<Rightarrow> ('c, u16) fsop" where
  "replay_sectors 0 sector tail_head = ret tail_head"
| "replay_sectors (Suc left) sector tail_head = bindm (getm id) (\<lambda>fs.
     bindm (replay_chunks (sector * fs_sector_size fs + FFFS_HEADER_SIZE)
             ((sector + 1) * fs_sector_size fs) (sector = fs_active_index_sector fs) tail_head)
       (\<lambda>tail_head. replay_sectors left
          (if sector + 1 \<ge> unat (fs_index_sectors fs) then 0 else sector + 1) tail_head))"

definition fffs_replay_index :: "('c, unit) fsop" where
  "fffs_replay_index =
     seqm (modm (\<lambda>fs. fs\<lparr>fs_next_index_offset :=
            fs_active_index_sector fs * fs_sector_size fs + FFFS_HEADER_SIZE\<rparr>))
     (bindm (getm id) (\<lambda>fs.
     bindm (replay_sectors (fs_index_sequence_count fs) (fs_oldest_index_sector fs) 0) (\<lambda>tail_head.
       whenm (tail_head \<noteq> 0) (recover_allocator_hint tail_head))))"

section \<open>Format\<close>

definition format_sector_shift :: "nat \<Rightarrow> u8 res" where
  "format_sector_shift sector_size =
     (let sz = (if sector_size = 0 then FFFS_DEFAULT_SECTOR_SIZE else sector_size) in
      case find (\<lambda>shift. 256 * 2 ^ shift = sz) [FFFS_MIN_SECTOR_SHIFT..<FFFS_MAX_SECTOR_SHIFT + 1] of
        None \<Rightarrow> Inl FFFS_ERR_INVALID
      | Some shift \<Rightarrow> Inr (of_nat shift))"

definition fffs_format :: "fffs_format_options option \<Rightarrow> ('c fffs_backend, unit) op" where
  "fffs_format options = bindm (getm id) (\<lambda>backend.
     if \<not> fffs_valid_backend backend then throw FFFS_ERR_INVALID
     else
       let index_sectors = (case options of
             None \<Rightarrow> FFFS_DEFAULT_INDEX_SECTORS
           | Some opts \<Rightarrow> if fo_index_sectors opts \<noteq> 0 then fo_index_sectors opts else FFFS_DEFAULT_INDEX_SECTORS)
       in bindm (of_res (format_sector_shift (case options of None \<Rightarrow> 0 | Some opts \<Rightarrow> fo_sector_size opts)))
         (\<lambda>sector_shift.
            let sector_size = 256 * 2 ^ unat sector_shift in
            if index_sectors < 2 \<or> index_sectors > 15 \<or> be_size backend mod sector_size \<noteq> 0 \<or>
               be_size backend div sector_size < unat index_sectors \<or>
               be_size backend div sector_size > 65535 then throw FFFS_ERR_INVALID
            else
              let erase_size = min (max (max sector_size 8192) (sector_size * unat index_sectors))
                    (be_size backend)
              in seqm (backend_erase 0 erase_size)
                   (fffs_program_index_header 0 index_sectors sector_shift 0)))"

section \<open>Mount\<close>

definition fffs_unmount :: "'c fffs \<Rightarrow> 'c fffs" where
  "fffs_unmount fs = (zero_fs (fs_backend fs))\<lparr>fs_files := fs_files fs\<rparr>"

definition or_unmount :: "('c, 'a) fsop \<Rightarrow> ('c, 'a) fsop" where
  "or_unmount m = bindm (trym m) (\<lambda>r. case r of
     Inr v \<Rightarrow> ret v | Inl err \<Rightarrow> seqm (modm fffs_unmount) (throw err))"

text \<open>The mounted state before the journal is read.\<close>

definition mounted_state :: "fffs_mount_options \<Rightarrow> fffs_index_sequence \<Rightarrow> 'c fffs \<Rightarrow> 'c fffs" where
  "mounted_state options sequence fs =
     (let sector_size = 256 * 2 ^ unat (seq_sector_shift sequence) in
      fs\<lparr>fs_index_cache := replicate (mo_index_hash_table_size options) zero_bucket,
         fs_index_hash_table_size := mo_index_hash_table_size options,
         fs_scratch := mo_scratch options, fs_scratch_size := mo_scratch_size options,
         fs_strict := mo_strict options, fs_sector_size := sector_size,
         fs_sector_count := be_size (fs_backend fs) div sector_size,
         fs_sector_shift := seq_sector_shift sequence, fs_index_sectors := seq_index_sectors sequence,
         fs_oldest_index_sector := seq_oldest_sector sequence,
         fs_index_sequence_count := seq_count sequence,
         fs_active_index_sector := seq_active_sector sequence,
         fs_active_index_serial := seq_active_serial sequence,
         fs_next_index_offset := seq_active_sector sequence * sector_size + FFFS_HEADER_SIZE,
         fs_alloc_cursor := unat (seq_index_sectors sequence),
         fs_gc_cursor := unat (seq_index_sectors sequence),
         fs_compaction_reserve_count := 0, fs_next_sector_serial := 1,
         fs_avg_sectors_per_file_q8 := ucast FFFS_SECTORS_PER_FILE_Q8_ONE\<rparr>)"

definition fffs_mount :: "fffs_mount_options \<Rightarrow> ('c, unit) fsop" where
  "fffs_mount options = bindm (getm fs_backend) (\<lambda>backend.
     if \<not> fffs_valid_backend backend \<or>
        \<not> fffs_index_cache_config_valid (mo_index_hash_table_size options) \<or>
        mo_index_cache_size options < fffs_index_cache_required_size (mo_index_hash_table_size options) \<or>
        mo_scratch_size options < FFFS_MIN_SCRATCH_SIZE
     then throw FFFS_ERR_INVALID
     else
       seqm (modm fffs_unmount)
       (bindm (on_backend fffs_find_index_sequence) (\<lambda>sequence.
          let sector_size = 256 * 2 ^ unat (seq_sector_shift sequence) in
          if be_size backend mod sector_size \<noteq> 0 \<or> be_size backend div sector_size > 65535
          then throw FFFS_ERR_CORRUPT
          else
            seqm (modm (mounted_state options sequence))
            (or_unmount
              (seqm fffs_index_finish_interrupted_compaction
              (seqm (fffs_alloc_map_mount_init options) fffs_replay_index))))))"

end
