(* ===== verification/Fffs_Frame.thy ===== *)
theory Fffs_Frame
  imports Fffs_File Fffs_Mount
begin

unbundle bit_operations_syntax

text \<open>
  What the operations leave alone.  \<open>layout\<close> is the geometry fixed at mount (sector size and count,
  index sectors, scratch size, device size and granule), \<open>handles\<close> the file objects and the open-file
  list, \<open>journal\<close> the state of the namespace index.  The facts are proved bottom up, one per
  operation, by the composition rules collected in \<open>frame\<close>: reading operations and garbage-collector
  steps keep all three (\<open>settled\<close>), the journal and the collector keep layout and handles (\<open>pinned\<close>),
  and every operation keeps the layout.
\<close>

section \<open>Fields that stay\<close>

definition be_layout :: "'c fffs_backend \<Rightarrow> nat \<times> nat" where
  "be_layout be = (be_size be, be_program_granule be)"

definition layout :: "'c fffs \<Rightarrow> (nat \<times> u8 \<times> nat \<times> u8 \<times> nat) \<times> nat \<times> nat" where
  "layout fs = ((fs_sector_size fs, fs_sector_shift fs, fs_sector_count fs, fs_index_sectors fs, fs_scratch_size fs),
     be_layout (fs_backend fs))"

definition handles :: "'c fffs \<Rightarrow> (nat \<Rightarrow> fffs_file) \<times> nat list" where
  "handles fs = (fs_files fs, fs_open_files fs)"

definition journal :: "'c fffs \<Rightarrow> (fffs_index_bucket list \<times> nat) \<times> nat \<times> nat \<times> nat \<times> nat \<times> u8" where
  "journal fs = ((fs_index_cache fs, fs_index_hash_table_size fs), fs_oldest_index_sector fs,
     fs_index_sequence_count fs, fs_active_index_sector fs, fs_next_index_offset fs,
     fs_active_index_serial fs)"

definition settled :: "'c fffs \<Rightarrow> _" where
  "settled fs = (layout fs, handles fs, journal fs)"

lemmas settled_defs = settled_def layout_def handles_def journal_def

lemma be_frame [frame]:
  "keeps be_layout (backend_read off n)" "keeps be_layout (backend_program off data)"
  "keeps be_layout (backend_erase off n)"
  by (auto simp: keeps_def be_layout_def backend_read_def backend_program_def backend_erase_def
      split: prod.splits)

lemma program_chunks_frame [frame]: "keeps be_layout (program_chunks pos src)"
proof (rule keepsI)
  fix be y
  assume "program_chunks pos src be = Some y"
  then show "be_layout (snd y) = be_layout be"
  proof (rule program_chunks.raw_induct [where P = "\<lambda>pos src be y. be_layout (snd y) = be_layout be", rotated],
      goal_cases)
    case (1 f pos src be y)
    have "keeps be_layout (f p s)" for p s by (rule keepsI) (rule 1(1))
    then have "keeps be_layout (seqm (backend_program b c) (f p s))" for b c p s
      by (intro frame)
    from keeps_snd [OF this] 1(2) show ?case
      by (auto simp: ret_def Let_def split: if_splits)
  qed
qed

lemma aligned_frame [frame]: "keeps be_layout (fffs_backend_program_aligned off buf)"
  using keepsD [OF program_chunks_frame] keepsD [OF be_frame(2)]
  by (auto simp: keeps_def fffs_backend_program_aligned_def ret_def split: if_splits)

lemma on_backend_frame [frame]:
  assumes "keeps be_layout m"
  shows "keeps settled (on_backend m)"
  using assms by (fastforce simp: keeps_def on_backend_def settled_defs split: option.splits)

lemma settled_upd [simp]:
  "settled (fs\<lparr>fs_scratch := x\<rparr>) = settled fs" "settled (fffs_scratch_bump fs) = settled fs"
  "settled (fs\<lparr>fs_next_sector_serial := s\<rparr>) = settled fs"
  "settled (fffs_fsinfo_note_committed_delete n fs) = settled fs"
  "settled (fffs_fsinfo_note_committed_add n fs) = settled fs"
  "settled (fffs_fsinfo_invalidate_committed fs) = settled fs"
  "settled (fs\<lparr>fs_alloc_map := mp\<rparr>) = settled fs"
  "settled (fffs_alloc_map_mark_used sec fs) = settled fs"
  "settled (fffs_alloc_map_mark_unknown sec fs) = settled fs"
  by (auto simp: settled_defs fffs_scratch_bump_def Let_def fffs_fsinfo_note_committed_delete_def
      fffs_fsinfo_invalidate_committed_def fffs_alloc_map_mark_used_def fffs_fsinfo_note_committed_add_def
      fffs_alloc_map_mark_unknown_def split: option.split)

lemma flash_frame [frame]:
  "keeps settled (fffs_flash_read off n)" "keeps settled (fffs_flash_program_aligned off buf)"
  "keeps settled (fs_backend_erase off n)" "keeps settled (read_scratch off n)"
  unfolding fffs_flash_read_def fffs_flash_program_aligned_def fs_backend_erase_def read_scratch_def
  by (intro frame; simp)+

section \<open>Sectors and metadata\<close>

lemma reader_frame [frame]: "keeps settled (fffs_sector_reader_view rd sec off n)"
  unfolding fffs_sector_reader_view_def by (intro frame; simp)

lemma footer_frame [frame]:
  "keeps settled (fffs_tombstone_sector sec)" "keeps settled (fffs_mark_sector_full sec)"
  "keeps settled (fffs_read_sector_serial sec)"
  unfolding fffs_tombstone_sector_def fffs_mark_sector_full_def fffs_read_sector_serial_def
  by (intro frame; simp)+

lemma span_erased_frame [frame]: "keeps settled (fffs_flash_span_is_erased off n)"
proof (rule keepsI)
  fix fs y
  assume "fffs_flash_span_is_erased off n fs = Some y"
  then show "settled (snd y) = settled fs"
  proof (rule fffs_flash_span_is_erased.raw_induct
      [where P = "\<lambda>off n fs y. settled (snd y) = settled fs", rotated], goal_cases)
    case (1 f off n fs y)
    have "keeps settled (f o' n')" for o' n' by (rule keepsI) (rule 1(1))
    note this [frame]
    have "keeps settled (bindm (read_scratch off k) (\<lambda>chunk. seqm (modm fffs_scratch_bump)
        (if \<not> fffs_flash_bytes_erased chunk then throw FFFS_ERR_NO_SPACE else f (off + k) (n - k))))" for k
      by (intro frame; simp)
    from keeps_snd [OF this] 1(2) show ?case
      by (auto simp: ret_def Let_def split: if_splits)
  qed
qed

lemma decode_frame [frame]: "keeps settled (decode_file_md_record rd sec cursor)"
  unfolding decode_file_md_record_def Let_def by (intro frame; simp)

lemma walk_frame [frame]:
  "keeps settled (fffs_md_walk_init sec w)" "keeps settled (fffs_md_walk_next wk w)"
  unfolding fffs_md_walk_init_def fffs_md_walk_next_def Let_def by (intro frame; simp)+

lemma walk_loop_frame [frame]:
  assumes body: "\<And>r rec acc. keeps settled (body r rec acc)"
  shows "keeps settled (md_walk_loop body walk w acc)"
proof (rule keepsI)
  fix fs y
  assume "md_walk_loop body walk w acc fs = Some y"
  then have "body = body \<longrightarrow> settled (snd y) = settled fs"
  proof (rule md_walk_loop.raw_induct
      [where P = "\<lambda>bd walk w acc fs y. bd = body \<longrightarrow> settled (snd y) = settled fs", rotated],
      goal_cases)
    case (1 f bd walk w acc fs y)
    have f: "keeps settled (f body walk w acc)" for walk w acc by (rule keepsI) (use 1(1) in blast)
    have "keeps settled (bindm (fffs_md_walk_next walk w) (\<lambda>(walk', window', record, result).
        bindm (body result record acc) (\<lambda>r. case r of Inl b \<Rightarrow> ret (Inl b)
          | Inr acc' \<Rightarrow> f body walk' window' acc')))"
      by (intro frame body f)
    with 1(2) show ?case
      by (auto simp: ret_def split: if_splits dest: keeps_snd)
  qed
  then show "settled (snd y) = settled fs" by simp
qed

lemma md_frame [frame]:
  "keeps settled (read_md_for_slot sec slot mt)"
  "keeps settled (read_root_prefix sec off len sz cache)"
  unfolding read_md_for_slot_def read_root_prefix_def Let_def by (intro frame; simp)+

lemma md_frame2 [frame]:
  "keeps settled (fffs_read_md_for_slot sec slot)"
  "keeps settled (read_uncommitted_metadata_for_slot sec slot)"
  unfolding fffs_read_md_for_slot_def read_uncommitted_metadata_for_slot_def by (intro frame)+

lemma md_frame3 [frame]:
  "keeps settled (fffs_read_file_root_md sec slot pre cache)"
  "keeps settled (fffs_tombstone_metadata_for_slot sec slot acct)"
  "keeps settled (free_window_step sec slot na result record acc)"
  unfolding fffs_read_file_root_md_def fffs_tombstone_metadata_for_slot_def free_window_step_def Let_def
  by (intro frame; simp)+

lemma md_frame4 [frame]:
  "keeps settled (fffs_find_sector_free_window sec mf slot na)"
  "keeps settled claim_sector_serial"
  unfolding fffs_find_sector_free_window_def claim_sector_serial_def Let_def
  by (intro frame; simp)+

lemma md_frame5 [frame]:
  "keeps settled (fffs_program_extent_metadata sec slot type off rec wfoot len span sz nxt live)"
  unfolding fffs_program_extent_metadata_def Let_def
  by (intro frame; simp)

lemma md_frame6 [frame]:
  "keeps settled (fffs_begin_extent_metadata file sec off rec wfoot len fo)"
  unfolding fffs_begin_extent_metadata_def Let_def by (intro frame)

section \<open>Namespace, allocator and collector steps\<close>

lemma settled_mark_unknown [simp]: "settled (mark_unknown_from first n fs) = settled fs"
  by (induction first n fs rule: mark_unknown_from.induct) simp_all

lemma settled_mark_range [simp]: "settled (fffs_alloc_map_mark_range_unknown first n fs) = settled fs"
  by (simp add: fffs_alloc_map_mark_range_unknown_def)

lemma tombstone_span_frame [frame]: "keeps settled (tombstone_span slot cur root is acc)"
  by (induction slot cur root "is" acc rule: tombstone_span.induct) (auto simp: Let_def intro!: frame)

lemma invalidate_loop_frame [frame]:
  "keeps settled (invalidate_loop left depth slot tomb cur nxt visited acc)"
  by (induction left arbitrary: depth cur nxt visited acc)
    (simp_all only: invalidate_loop.simps Let_def, (intro frame; simp)+)

lemma settled_upd2 [simp]:
  "settled (fs\<lparr>fs_avg_sectors_per_file_q8 := a, fs_fsinfo_valid_flags := v\<rparr>) = settled fs"
  "settled (fs\<lparr>fs_committed_file_count := x, fs_committed_data_bytes := y, fs_fsinfo_valid_flags := v\<rparr>) = settled fs"
  "settled (fs\<lparr>fs_alloc_cursor := c\<rparr>) = settled fs"
  "settled (fs\<lparr>fs_compaction_candidates := cs\<rparr>) = settled fs"
  "settled (fs\<lparr>fs_gc_md := md\<rparr>) = settled fs"
  "settled (fs\<lparr>fs_gc_cursor := c\<rparr>) = settled fs"
  "settled (fs\<lparr>fs_compaction_reserve_sectors := rs, fs_compaction_reserve_count := rc\<rparr>) = settled fs"
  "settled (fs\<lparr>fs_compaction_reserve_count := rc, fs_compaction_reserve_sectors := rs\<rparr>) = settled fs"
  by (auto simp: settled_defs)

lemma invalidate_frame [frame]: "keeps settled (fffs_invalidate_old_chain slot head nxt tomb)"
  unfolding fffs_invalidate_old_chain_def Let_def by (intro frame; simp)

lemma head_for_slot_frame [frame]: "keeps settled (fffs_index_head_for_slot slot)"
  unfolding fffs_index_head_for_slot_def by (intro frame)

lemma resolve_loop_frame [frame]: "keeps settled (resolve_loop name left cand free cache)"
  by (induction left arbitrary: cand free cache) (simp_all only: resolve_loop.simps Let_def, (intro frame; simp)+)

lemma resolve_frame [frame]: "keeps settled (fffs_index_resolve name cache)"
  unfolding fffs_index_resolve_def by (intro frame)

lemma dir_loop_frame [frame]: "keeps settled (dir_read_loop left dir)"
  by (induction left arbitrary: dir) (simp_all only: dir_read_loop.simps Let_def, (intro frame; simp)+)

lemma namespace_frame [frame]:
  "keeps settled (fffs_index_dir_read dir)" "keeps settled (fffs_dir_read dir)"
  "keeps settled (fffs_stat_file name)" "keeps settled (fffs_exists name)"
  unfolding fffs_index_dir_read_def fffs_dir_read_def fffs_stat_file_def fffs_exists_def
  by (intro frame)+

lemma fsinfo_count_frame [frame]: "keeps settled (fsinfo_count pos n b)"
proof (rule keepsI)
  fix fs y
  assume "fsinfo_count pos n b fs = Some y"
  then show "settled (snd y) = settled fs"
  proof (rule fsinfo_count.raw_induct
      [where P = "\<lambda>pos n b fs y. settled (snd y) = settled fs", rotated], goal_cases)
    case (1 f pos n b fs y)
    have f: "keeps settled (f p n b)" for p n b by (rule keepsI) (rule 1(1))
    have "keeps settled (bindm (fffs_read_file_root_md h s False None)
        (\<lambda>root. f p (n + 1) (b + root_size root)))" for h s p
      by (intro frame f)
    with 1(2) show ?case
      by (auto simp: ret_def split: option.splits dest: keeps_snd)
  qed
qed

lemma fsinfo_frame [frame]: "keeps settled fsinfo_refresh" "keeps settled (fffs_fsinfo flags)"
  unfolding fffs_fsinfo_def fsinfo_refresh_def Let_def by (intro frame; simp)+

lemma settled_reserve_remove [simp]:
  "settled (fffs_alloc_compaction_reserve_remove sec fs) = settled fs"
  by (auto simp: fffs_alloc_compaction_reserve_remove_def Let_def split: option.split)

lemma reserve_windows_frame [frame]: "keeps settled (reserve_windows slot len is)"
  by (induction "is") (simp_all only: reserve_windows.simps Let_def, (intro frame; simp)+)

lemma compaction_scan_frame [frame]: "keeps settled (compaction_scan src slot len na left s)"
  by (induction left arbitrary: s) (simp_all only: compaction_scan.simps Let_def, (intro frame; simp)+)

lemma compaction_window_frame [frame]:
  "keeps settled (compaction_pass src slot len na)"
  "keeps settled (fffs_alloc_find_compaction_root_window src slot len relaxed)"
  unfolding compaction_pass_def fffs_alloc_find_compaction_root_window_def by (intro frame)+

lemma reachable_frame [frame]: "keeps settled (reachable_loop left slot cur sec)"
  by (induction left arbitrary: cur) (simp_all only: reachable_loop.simps Let_def, (intro frame; simp)+)

lemma classify_frame [frame]:
  "keeps settled (sector_is_reachable_from_chain slot head sec)"
  "keeps settled (gc_classify_record sec record)"
  unfolding sector_is_reachable_from_chain_def gc_classify_record_def by (intro frame)+

lemma settled_gc [simp]:
  "settled (gc_update_compaction_candidate sec n fs) = settled fs"
  "settled (gc_advance s b fs) = settled fs" "settled (gc_deactivate fs) = settled fs"
  "settled (gc_note_live record fs) = settled fs"
  by (auto simp: gc_update_compaction_candidate_def gc_advance_def gc_deactivate_def gc_note_live_def
     settled_defs Let_def)

lemma gc_step_frame [frame]:
  "keeps settled (gc_erase s)" "keeps settled (gc_tombstone s)" "keeps settled (gc_finish_live s wr)"
  unfolding gc_erase_def gc_tombstone_def gc_finish_live_def Let_def by (intro frame; simp)+

lemma gc_visit_frame [frame]: "keeps settled (gc_visit s w)"
  unfolding gc_visit_def Let_def by (intro frame; simp)

lemma gc_step_frame2 [frame]: "keeps settled (gc_step use_map)"
  unfolding gc_step_def Let_def by (intro frame; simp)

lemma gc_loop_frame [frame]: "keeps settled (gc_step_loop left)"
  by (induction left) (simp_all only: gc_step_loop.simps Let_def, (intro frame; simp)+)

lemma gc_public_frame [frame]: "keeps settled fffs_gc_step"
  unfolding fffs_gc_step_def by (intro frame)

lemma gc_pass_frame [frame]: "keeps settled (gc_pass um n adv)"
proof (rule keepsI)
  fix fs y
  assume "gc_pass um n adv fs = Some y"
  then show "settled (snd y) = settled fs"
  proof (rule gc_pass.raw_induct
      [where P = "\<lambda>um n adv fs y. settled (snd y) = settled fs", rotated], goal_cases)
    case (1 f um n adv fs y)
    have f: "keeps settled (f um n adv)" for um n adv by (rule keepsI) (rule 1(1))
    have "keeps settled (bindm (gc_step um) (\<lambda>(action, _).
          if action = FFFS_GC_ERASED then ret (Some (of_nat before))
          else bindm (getm id) (\<lambda>fs'.
            let moved = (normalized_data_cursor fs' (fs_gc_cursor fs') \<noteq> before) in
            if moved then f um n (adv + 1)
            else if action = FFFS_GC_IDLE then ret None
            else f um n adv)))" for before
      unfolding Let_def by (intro frame f)
    with 1(2) show ?case
      by (auto simp: ret_def Let_def split: if_splits dest: keeps_snd)
  qed
qed

section \<open>Journal and compaction\<close>

definition pinned where "pinned fs = (layout fs, handles fs)"

lemma keeps_pinned: "keeps settled m \<Longrightarrow> keeps pinned m"
  by (simp add: keeps_def settled_def pinned_def)

lemma keeps_layout: "keeps pinned m \<Longrightarrow> keeps layout m"
  by (simp add: keeps_def pinned_def)

lemmas pinned_frame [frame] = flash_frame [THEN keeps_pinned] footer_frame [THEN keeps_pinned]
  md_frame [THEN keeps_pinned] md_frame2 [THEN keeps_pinned] md_frame3 [THEN keeps_pinned]
  md_frame4 [THEN keeps_pinned] md_frame5 [THEN keeps_pinned] md_frame6 [THEN keeps_pinned]
  walk_frame [THEN keeps_pinned] span_erased_frame [THEN keeps_pinned]
  invalidate_frame [THEN keeps_pinned] resolve_frame [THEN keeps_pinned]
  head_for_slot_frame [THEN keeps_pinned] compaction_window_frame [THEN keeps_pinned]
  fsinfo_frame [THEN keeps_pinned] gc_pass_frame [THEN keeps_pinned]
  on_backend_frame [THEN keeps_pinned]

lemma settled_pinned: "settled fs' = settled fs \<Longrightarrow> pinned fs' = pinned fs"
  by (simp add: settled_def pinned_def)

lemma pinned_upd [simp]:
  "pinned (fs\<lparr>fs_index_cache := t\<rparr>) = pinned fs"
  "pinned (fs\<lparr>fs_next_index_offset := n\<rparr>) = pinned fs"
  "pinned (fs\<lparr>fs_active_index_sector := a, fs_active_index_serial := b, fs_next_index_offset := c,
     fs_index_sequence_count := d\<rparr>) = pinned fs"
  "pinned (fs\<lparr>fs_oldest_index_sector := a, fs_index_sequence_count := d\<rparr>) = pinned fs"
  "pinned (fffs_scratch_bump fs) = pinned fs"
  "pinned (fffs_alloc_map_mark_used sec fs) = pinned fs"
  "pinned (fffs_alloc_map_mark_unknown sec fs) = pinned fs"
  "pinned (fs\<lparr>fs_compaction_candidates := cs\<rparr>) = pinned fs"
  "pinned (fffs_fsinfo_invalidate_committed fs) = pinned fs"
  by (auto simp: pinned_def layout_def handles_def fffs_scratch_bump_def Let_def
      fffs_alloc_map_mark_used_def fffs_alloc_map_mark_unknown_def
      fffs_fsinfo_invalidate_committed_def split: option.split)

lemma index_set_frame [frame]:
  "keeps pinned (fffs_index_insert slot head)" "keeps pinned (fffs_index_remove slot)"
  "keeps pinned (fffs_index_set slot head)"
proof -
  have r: "keeps pinned (remove_bucket_at i)" for i
    by (rule keepsI) (auto simp: remove_bucket_at_def Let_def split: option.splits)
  show *: "keeps pinned (fffs_index_insert slot head)" "keeps pinned (fffs_index_remove slot)"
    unfolding fffs_index_insert_def fffs_index_remove_def by (intro frame r; simp)+
  show "keeps pinned (fffs_index_set slot head)" unfolding fffs_index_set_def by (intro frame *)
qed

lemma header_frame [frame]: "keeps be_layout (fffs_program_index_header off n sh ser)"
  unfolding fffs_program_index_header_def Let_def by (intro frame)

lemma record_frame [frame]: "keeps pinned (program_index_record_at off slot head)"
  "keeps pinned (tombstone_index_sector sec)" "keeps pinned rotate_index_begin"
  "keeps pinned rotate_index_commit"
  unfolding program_index_record_at_def tombstone_index_sector_def rotate_index_begin_def
    rotate_index_commit_def Let_def
  by (intro frame; simp)+

lemma compact_frame [frame]:
  "keeps pinned (index_record_reader_load rd off)" "keeps pinned (index_record_writer_flush w)"
  "keeps pinned (index_record_writer_prepare_spill w)" "keeps pinned (index_record_writer_commit_spill w)"
  "keeps pinned (fffs_index_record_is_current a b c d)"
  unfolding index_record_reader_load_def index_record_writer_flush_def index_record_writer_prepare_spill_def
    index_record_writer_commit_spill_def fffs_index_record_is_current_def Let_def
  by (intro frame; simp)+

lemma compact_frame2 [frame]:
  "keeps pinned (read_compact_source_record rd off)" "keeps pinned (index_record_writer_append w slot head)"
  unfolding read_compact_source_record_def index_record_writer_append_def Let_def
  by (intro frame; simp)+

lemma compact_loop_frame [frame]: "keeps pinned (compact_copy_loop left off rd w)"
  by (induction left arbitrary: off rd w)
    (simp_all only: compact_copy_loop.simps, (intro frame; simp)+)

lemma compact_frame3 [frame]:
  "keeps pinned index_compact_oldest_copy" "keeps pinned (index_compact_oldest_finish sec)"
  unfolding index_compact_oldest_copy_def index_compact_oldest_finish_def Let_def
  by (intro frame; simp)+

lemma append_frame [frame]: "keeps pinned fffs_rotate_index" "keeps pinned (fffs_append_index_record slot head)"
  unfolding fffs_rotate_index_def fffs_append_index_record_def by (intro frame; simp)+

lemma finish_frame [frame]:
  "keeps pinned (fffs_finish_extent_metadata file sec nxt span sz ws ml ci)"
  "keeps pinned (fffs_write_extent_metadata file sec off rec wfoot len span sz nxt fo ci)"
  unfolding fffs_finish_extent_metadata_def fffs_write_extent_metadata_def Let_def
  by (intro frame; simp)+

lemma finish_frame2 [frame]: "keeps pinned (fffs_finish_deferred_root_metadata file)"
  unfolding fffs_finish_deferred_root_metadata_def by (intro frame)

lemma delete_frame [frame]: "keeps pinned (fffs_delete_file name)"
  unfolding fffs_delete_file_def by (intro frame; simp)

lemma copy_data_frame [frame]: "keeps pinned (copy_data_loop src dst n)"
proof (rule keepsI)
  fix fs y
  assume "copy_data_loop src dst n fs = Some y"
  then show "pinned (snd y) = pinned fs"
  proof (rule copy_data_loop.raw_induct
      [where P = "\<lambda>src dst n fs y. pinned (snd y) = pinned fs", rotated], goal_cases)
    case (1 f src dst n fs y)
    have f: "keeps pinned (f a b c)" for a b c by (rule keepsI) (rule 1(1))
    have "keeps pinned (bindm (read_scratch src k) (\<lambda>chunk. seqm (modm fffs_scratch_bump)
        (seqm (fffs_flash_program_aligned dst chunk) (f (src + k) (dst + k) (n - k)))))" for k
      by (intro frame f; simp)
    with 1(2) show ?case
      by (auto simp: ret_def Let_def split: if_splits dest: keeps_snd)
  qed
qed

lemma gc_copy_frame [frame]:
  "keeps pinned (gc_copy_root_data src record dst off)" "keeps pinned (gc_copy_root_record src record relaxed)"
  unfolding gc_copy_root_data_def gc_copy_root_record_def by (intro frame)+

lemma tombstone_copied_frame [frame]: "keeps pinned (tombstone_copied_loop sec left walk w)"
  by (induction left arbitrary: walk w)
    (simp_all only: tombstone_copied_loop.simps, (intro frame; simp)+)

lemma compact_roots_frame [frame]: "keeps pinned (compact_roots_loop src rl walk w entry copied)"
proof (rule keepsI)
  fix fs y
  assume "compact_roots_loop src rl walk w entry copied fs = Some y"
  then show "pinned (snd y) = pinned fs"
  proof (rule compact_roots_loop.raw_induct
      [where P = "\<lambda>src rl walk w entry copied fs y. pinned (snd y) = pinned fs", rotated], goal_cases)
    case (1 f source relaxed walk window entry copied fs y)
    have f: "keeps pinned (f a b c d e g)" for a b c d e g by (rule keepsI) (rule 1(1))
    have "keeps pinned (bindm (trym (fffs_md_walk_next walk window)) (\<lambda>r. case r of
          Inl err \<Rightarrow> ret (Inl err, copied)
        | Inr (walk', window', record, result) \<Rightarrow>
            if result = FFFS_MD_WALK_END_INVALID then ret (Inl FFFS_ERR_NO_SPACE, copied)
            else if result \<noteq> FFFS_MD_WALK_RECORD then ret (Inr (), copied)
            else if \<not> md_live record
            then f source relaxed walk' window' (entry + 1) copied
            else bindm (getm id) (\<lambda>fs'.
              if md_type record \<noteq> FFFS_MD_TYPE_FILE_ROOT_V1 \<or> fffs_slot_is_pinned fs' (md_slot record)
              then ret (Inl FFFS_ERR_NO_SPACE, copied)
              else bindm (trym (gc_copy_root_record source record relaxed)) (\<lambda>r. case r of
                  Inl err \<Rightarrow> ret (Inl err, copied)
                | Inr _ \<Rightarrow> f source relaxed walk' window' (entry + 1) (entry + 1)))))"
      by (intro frame f)
    with 1(2) show ?case
      by (auto simp: ret_def split: if_splits dest: keeps_snd)
  qed
qed

lemma gc_compact_frame [frame]:
  "keeps pinned (gc_tombstone_copied_roots sec n)" "keeps pinned (gc_compact_root_only_sector sec rl)"
  unfolding gc_tombstone_copied_roots_def gc_compact_root_only_sector_def by (intro frame; simp)+

lemma gc_allows_frame [frame]: "keeps pinned (gc_fsinfo_allows_compaction c)"
  unfolding gc_fsinfo_allows_compaction_def Let_def by (intro frame)

lemma compact_candidates_frame [frame]: "keeps pinned (compact_candidates rl is)"
  by (induction "is") (simp_all only: compact_candidates.simps Let_def, (intro frame; simp)+)

lemma gc_until_frame [frame]:
  "keeps pinned (fffs_gc_compact_until_erased rl)" "keeps pinned (gc_fresh_pass um n)"
  "keeps pinned fffs_gc_until_erased"
proof -
  show 1: "keeps pinned (fffs_gc_compact_until_erased rl)" for rl
    unfolding fffs_gc_compact_until_erased_def by (intro frame)
  show 2: "keeps pinned (gc_fresh_pass um n)" for um n
    unfolding gc_fresh_pass_def by (intro frame; simp)
  show "keeps pinned fffs_gc_until_erased"
    unfolding fffs_gc_until_erased_def Let_def by (intro frame 1 2)
qed

section \<open>Allocation and file operations\<close>

lemmas layout_frame [frame] = pinned_frame [THEN keeps_layout] append_frame [THEN keeps_layout]
  finish_frame [THEN keeps_layout] finish_frame2 [THEN keeps_layout] gc_until_frame [THEN keeps_layout]

lemma layout_upd_file [simp]: "layout (upd_file p f fs) = layout fs"
  by (simp add: upd_file_def layout_def)

lemma pinned_layout: "pinned fs' = pinned fs \<Longrightarrow> layout fs' = layout fs"
  by (simp add: pinned_def)

lemma layout_upd [simp]:
  "layout (fffs_alloc_map_mark_used sec fs) = layout fs"
  "layout (fffs_alloc_map_mark_unknown sec fs) = layout fs"
  "layout (mark_unknown_from first n fs) = layout fs"
  "layout (fffs_alloc_compaction_reserve_remove sec fs) = layout fs"
  "layout (fs\<lparr>fs_alloc_cursor := c\<rparr>) = layout fs"
  "layout (fs\<lparr>fs_compaction_reserve_sectors := rs, fs_compaction_reserve_count := rc\<rparr>) = layout fs"
  "layout (register_open_file p fs) = layout fs" "layout (unregister_open_file p fs) = layout fs"
  "layout (fffs_fsinfo_invalidate_committed fs) = layout fs"
  "layout (fffs_fsinfo_note_committed_add sz fs) = layout fs"
proof -
  have s: "layout fs' = layout fs" if "settled fs' = settled fs" for fs' fs :: "'b fffs"
    using that by (simp add: settled_def)
  show "layout (fffs_alloc_map_mark_used sec fs) = layout fs"
    "layout (fffs_alloc_map_mark_unknown sec fs) = layout fs"
    "layout (mark_unknown_from first n fs) = layout fs"
    "layout (fffs_alloc_compaction_reserve_remove sec fs) = layout fs"
    "layout (fs\<lparr>fs_alloc_cursor := c\<rparr>) = layout fs"
    "layout (fs\<lparr>fs_compaction_reserve_sectors := rs, fs_compaction_reserve_count := rc\<rparr>) = layout fs"
    "layout (fffs_fsinfo_invalidate_committed fs) = layout fs"
    "layout (fffs_fsinfo_note_committed_add sz fs) = layout fs"
    by (rule s, simp)+
  show "layout (register_open_file p fs) = layout fs" "layout (unregister_open_file p fs) = layout fs"
    by (simp_all add: register_open_file_def unregister_open_file_def)
      (simp_all add: layout_def)
qed

lemma layout_release [simp]: "layout (fffs_alloc_release_reservation p fs) = layout fs"
  by (simp add: fffs_alloc_release_reservation_def Let_def)

lemma layout_reserve_loop [simp]: "layout (reserve_loop left p nxt fs) = layout fs"
  by (induction left p nxt fs rule: reserve_loop.induct) simp_all

lemma layout_use_window [simp]: "layout (use_alloc_window p sec off rec nf fs) = layout fs"
  by (simp add: use_alloc_window_def reserve_after_def Let_def)

lemma layout_halve: "layout (snd (fold halve_one ps x)) = layout (snd x)"
  by (induction ps arbitrary: x) (auto simp: halve_one_def Let_def split: prod.splits)

lemma halve_frame [frame]: "keeps layout halve_reservations"
proof (rule keepsI)
  fix fs :: "'a fffs" and y
  assume "halve_reservations fs = Some y"
  with layout_halve [of "fs_open_files fs" "(False, fs)"] show "layout (snd y) = layout fs"
    by (auto simp: halve_reservations_def split: prod.splits)
qed

lemma try_reserved_frame [frame]: "keeps layout (try_reserved_sector p)"
  unfolding try_reserved_sector_def Let_def by (intro frame; simp)

lemma alloc_scan_frame [frame]: "keeps layout (alloc_scan p skip cont left s)"
  by (induction left arbitrary: s) (simp_all only: alloc_scan.simps Let_def, (intro frame; simp)+)

lemma reserve_alloc_frame [frame]: "keeps layout (reserve_for_alloc p cont is)"
  by (induction "is") (simp_all only: reserve_for_alloc.simps Let_def, (intro frame; simp)+)

lemma alloc_next_frame [frame]: "keeps layout (fffs_alloc_next_sector p)"
  unfolding fffs_alloc_next_sector_def or_no_space_def alloc_sector_once_def
    allocate_erased_gc_sector_def try_compaction_reserve_for_alloc_def
  by (intro frame; simp)

lemma file_base_frame [frame]: "keeps layout (get_file p)" "keeps layout (mod_file p f)"
  unfolding get_file_def mod_file_def by (intro frame; simp)+

lemma open_frame [frame]: "keeps layout (fffs_open p name flags)"
  unfolding fffs_open_def open_read_def open_write_def Let_def by (intro frame; simp)

lemma hunt_loop_frame [frame]: "keeps layout (hunt_loop p target rel est low high)"
proof (rule keepsI)
  fix fs y
  assume "hunt_loop p target rel est low high fs = Some y"
  then show "layout (snd y) = layout fs"
  proof (rule hunt_loop.raw_induct
      [where P = "\<lambda>p t rel e l h fs y. layout (snd y) = layout fs", rotated], goal_cases)
    case (1 f p target rel est low high fs y)
    have f: "keeps layout (f a b c d e g)" for a b c d e g by (rule keepsI) (rule 1(1))
    have "keeps layout (bindm (fffs_read_md_for_slot sector slot) (\<lambda>record.
          let file_offset = (if md_type record = FFFS_MD_TYPE_FILE_ROOT_V1 then 0
                             else md_size_or_offset record)
          in if target < file_offset
             then (if guess = 0 then ret False else f p target rel est low (guess - 1))
             else if target \<le> file_offset + ucast (md_data_len record)
             then seqm (mod_file p (\<lambda>f. f\<lparr>f_current := sector, f_data_offset := md_data_off record,
                    f_current_data_len := md_data_len record, f_span_len := md_span_len record,
                    f_current_next := md_next record, f_current_file_offset := file_offset,
                    f_current_data_pos := target - file_offset, f_pos := target, f_cache_len := 0\<rparr>))
                  (ret True)
             else f p target rel est (guess + 1) high))" for sector slot guess
      unfolding Let_def by (intro frame f)
    note k = this [THEN keeps_snd, unfolded Let_def]
    show ?case
    proof (cases "low \<le> high")
      case True
      then have c: "(\<not> low \<le> high) = False" by simp
      show ?thesis
        by (rule k [OF 1(2) [unfolded Let_def c if_False]])
    next
      case False
      with 1(2) show ?thesis by (auto simp: ret_def)
    qed
  qed
qed

lemma hunt_frame [frame]: "keeps layout (hunt_current_span p target)"
  unfolding hunt_current_span_def Let_def by (intro frame)

lemma seek_loop_frame [frame]: "keeps layout (seek_loop left p target)"
proof (induction left)
  case 0
  show ?case by (subst seek_loop.simps) (simp only: nat.case, intro frame)
next
  case (Suc left)
  show ?case by (subst seek_loop.simps) (simp only: nat.case, intro frame Suc)
qed

lemma seek_frame [frame]:
  "keeps layout (reset_read_position_to_root p)" "keeps layout (fffs_seek p off wh)"
proof -
  show r: "keeps layout (reset_read_position_to_root p)" for p
    unfolding reset_read_position_to_root_def by (intro frame)
  show "keeps layout (fffs_seek p off wh)"
    unfolding fffs_seek_def seek_read_position_def seek_from_current_position_def Let_def
    by (intro frame r)
qed

lemma read_piece_frame [frame]: "keeps layout (read_piece p want)" "keeps layout (read_next_extent p)"
  unfolding read_piece_def fill_read_cache_def read_next_extent_def Let_def by (intro frame)+

lemma read_loop_frame [frame]: "keeps layout (read_loop p want acc)"
proof (rule keepsI)
  fix fs y
  assume "read_loop p want acc fs = Some y"
  then show "layout (snd y) = layout fs"
  proof (rule read_loop.raw_induct
      [where P = "\<lambda>p want acc fs y. layout (snd y) = layout fs", rotated], goal_cases)
    case (1 f p want acc fs y)
    have f: "keeps layout (f a b c)" for a b c by (rule keepsI) (rule 1(1))
    have "keeps layout (seqm (whenm g (read_next_extent p))
        (bindm (read_piece p (want - length acc)) (\<lambda>piece.
          seqm (mod_file p (\<lambda>f. f\<lparr>f_current_data_pos := f_current_data_pos f + of_nat (length piece),
                 f_pos := f_pos f + of_nat (length piece)\<rparr>)) (f p want (acc @ piece)))))" for g
      by (intro frame f)
    with 1(2) show ?case
      by (auto simp: ret_def split: if_splits dest: keeps_snd)
  qed
qed

lemma read_frame [frame]: "keeps layout (fffs_read p sz)" "keeps layout (fffs_fstat p)"
  unfolding fffs_read_def fffs_fstat_def Let_def by (intro frame)+

lemma flush_frame [frame]: "keeps layout (flush_write_cache p final)"
  "keeps layout (flush_pending_span_head p nxt final)"
  unfolding flush_write_cache_def flush_pending_span_head_def Let_def by (intro frame)+

lemma next_extent_frame [frame]: "keeps layout (start_next_extent p)"
  unfolding start_next_extent_def Let_def by (intro frame)

lemma write_loop_frame [frame]: "keeps layout (write_loop p src)"
proof (rule keepsI)
  fix fs y
  assume "write_loop p src fs = Some y"
  then show "layout (snd y) = layout fs"
  proof (rule write_loop.raw_induct
      [where P = "\<lambda>p src fs y. layout (snd y) = layout fs", rotated], goal_cases)
    case (1 f p src fs y)
    have f: "keeps layout (f a b)" for a b by (rule keepsI) (rule 1(1))
    have "keeps layout (seqm (whenm g (start_next_extent p)) (bindm (get_file p) (\<lambda>file.
          let extent_space = current_extent_capacity file - unat (f_current_data_len file);
              buffer_space = FFFS_FILE_CACHE_SIZE - f_cache_len file;
              n = min (length src) (min extent_space buffer_space)
          in seqm (mod_file p (\<lambda>f. f\<lparr>f_cache := put_bytes (f_cache_len f) (take n src) (f_cache f),
                    f_cache_len := f_cache_len f + n,
                    f_current_data_len := f_current_data_len f + of_nat n,
                    f_size := f_size f + of_nat n\<rparr>))
             (seqm (whenm (f_cache_len file + n = FFFS_FILE_CACHE_SIZE) (flush_write_cache p False))
               (f p (drop n src))))))" for g
      unfolding Let_def by (intro frame f)
    with 1(2) show ?case
      by (auto simp: ret_def split: if_splits dest: keeps_snd)
  qed
qed

lemma write_frame [frame]: "keeps layout (fffs_write p buf)" "keeps layout (fffs_close p)"
  unfolding fffs_write_def fffs_close_def close_extent_def close_commit_def close_refresh_old_def Let_def
  by (intro frame; simp)+

lemma gc_steps_frame [frame]: "keeps settled (gc_steps n e)"
  by (induction n arbitrary: e) (simp_all only: gc_steps.simps, (intro frame; simp)+)

section \<open>Properties\<close>


text \<open>C20: Queries and collector steps never disturb the namespace or the callers' files: whatever
  status they return, stat, exists, directory reads, file-system information, name resolution and the
  bounded collector leave the open-file list, every file object, the RAM index cache and the tail of
  the journal as they were; an append to the journal, a delete and the collector that runs until a sector is
  erased leave the geometry and the callers' files as they were.\<close>

theorem queries_keep_namespace:
  "keeps settled (fffs_stat_file name) \<and> keeps settled (fffs_exists name) \<and>
   keeps settled (fffs_dir_read dir) \<and> keeps settled (Fffs_Namespace.fffs_fsinfo info_flags) \<and>
   keeps settled (fffs_index_resolve name cache) \<and> keeps settled (fffs_gc max_steps) \<and>
   keeps pinned (fffs_append_index_record slot head) \<and> keeps pinned (fffs_delete_file name) \<and>
   keeps pinned fffs_gc_until_erased"
  unfolding fffs_gc_def by (intro conjI frame)

end
