(* ===== verification/Fffs_Total.thy ===== *)
theory Fffs_Total
  imports Fffs_Frame
begin

unbundle bit_operations_syntax

text \<open>
  Operations that always return, whatever the flash holds and whatever errors the device reports.
  \<open>usable\<close> is what mount establishes: a nonzero program granule and a nonempty scratch buffer.  The
  loops are bounded by the bytes of a span, the cursor of a metadata walk, the buckets of the RAM index
  and the interval of a bisection; the compositions follow by the rules in \<open>frame\<close>.
\<close>

section \<open>Flash operations\<close>

definition usable :: "'c fffs \<Rightarrow> bool" where
  "usable fs \<longleftrightarrow> be_program_granule (fs_backend fs) \<noteq> 0 \<and> fs_scratch_size fs \<noteq> 0"

lemma usable_layout: "layout fs' = layout fs \<Longrightarrow> usable fs' = usable fs"
  by (simp add: usable_def layout_def be_layout_def)

lemma usable_settled: "settled fs' = settled fs \<Longrightarrow> usable fs' = usable fs"
  by (rule usable_layout) (simp add: settled_def)

text \<open>An operation that keeps the layout runs if it returns.\<close>

lemma runs_usableI:
  assumes "keeps settled m" "\<And>s. usable s \<Longrightarrow> m s \<noteq> None"
  shows "runs usable m"
  unfolding runs_def wp_iff
proof (intro allI impI)
  fix s :: "'a fffs"
  assume "usable s"
  with assms(2) obtain r s' where "m s = Some (r, s')" by fastforce
  moreover from keepsD [OF assms(1) this] have "usable s' = usable s" by (rule usable_settled)
  ultimately show "\<exists>r s'. m s = Some (r, s') \<and> usable s'" using \<open>usable s\<close> by blast
qed

lemma program_chunks_returns: "be_program_granule be \<noteq> 0 \<Longrightarrow> program_chunks pos src be \<noteq> None"
proof (induction "length src" arbitrary: pos src be rule: less_induct)
  case less
  define g where "g = be_program_granule be"
  define n where "n = min (g - pos mod g) (length src)"
  show ?case
  proof (cases "src = []")
    case False
    have "0 < n" using False less.prems mod_less_divisor [of g pos] by (simp add: n_def g_def)
    then have "length (drop n src) < length src" using False by simp
    note IH = less.hyps [OF this]
    have "seqm (backend_program b d) (program_chunks (pos + n) (drop n src)) be \<noteq> None" for b d
    proof -
      obtain st be' where b: "backend_program b d be = Some (st, be')"
        by (cases "be_program be (be_ctx be) b d") (auto simp: backend_program_def)
      with keepsD [OF be_frame(2) b] less.prems have "be_program_granule be' \<noteq> 0"
        by (simp add: be_layout_def)
      from IH [OF this] b show ?thesis by (auto simp: seqm_def bindm_def split: sum.split)
    qed
    with False show ?thesis
      by (subst program_chunks.simps) (simp add: Let_def g_def [symmetric] n_def [symmetric])
  qed (subst program_chunks.simps, simp add: ret_def)
qed

lemma on_backend_returns:
  "(\<And>be. be_program_granule be \<noteq> 0 \<Longrightarrow> m be \<noteq> None) \<Longrightarrow> usable fs \<Longrightarrow> on_backend m fs \<noteq> None"
  by (auto simp: on_backend_def usable_def split: option.splits)

lemma backend_returns: "backend_read off n be \<noteq> None" "backend_erase off n be \<noteq> None"
  by (auto simp: backend_read_def backend_erase_def split: prod.splits)

lemma aligned_returns: "be_program_granule be \<noteq> 0 \<Longrightarrow> fffs_backend_program_aligned off buf be \<noteq> None"
  using program_chunks_returns [of be off buf]
  by (auto simp: fffs_backend_program_aligned_def backend_program_def ret_def split: prod.splits)

lemmas usable_upd [simp] = settled_upd [THEN usable_settled] settled_upd2 [THEN usable_settled]
  settled_mark_unknown [THEN usable_settled] settled_mark_range [THEN usable_settled]
  settled_reserve_remove [THEN usable_settled] settled_gc [THEN usable_settled]

lemma flash_total [frame]:
  "runs usable (fffs_flash_read off n)" "runs usable (fffs_flash_program_aligned off buf)"
  "runs usable (fs_backend_erase off n)"
  unfolding fffs_flash_read_def fffs_flash_program_aligned_def fs_backend_erase_def
  by (intro runs_usableI frame on_backend_returns backend_returns aligned_returns; assumption)+

lemma read_scratch_total [frame]: "runs usable (read_scratch off n)"
  unfolding read_scratch_def by (intro frame; simp)

lemma reader_total [frame]: "runs usable (fffs_sector_reader_view rd sec off n)"
  unfolding fffs_sector_reader_view_def by (intro frame; simp)

lemma footer_total [frame]:
  "runs usable (fffs_tombstone_sector sec)" "runs usable (fffs_mark_sector_full sec)"
  "runs usable (fffs_read_sector_serial sec)"
  unfolding fffs_tombstone_sector_def fffs_mark_sector_full_def fffs_read_sector_serial_def
  by (intro frame; simp)+

text \<open>The erased-span loop consumes at least one byte per round.\<close>

lemma span_erased_total [frame]: "runs usable (fffs_flash_span_is_erased off n)"
proof (rule runs_at)
  fix fs :: "'a fffs"
  assume "usable fs"
  then show "wp (fffs_flash_span_is_erased off n) (\<lambda>_. usable) fs"
  proof (induction n arbitrary: off fs rule: less_induct)
    case (less n)
    define k where "k = min n (fs_scratch_size fs)"
    show ?case
    proof (cases "n = 0")
      case False
      then have k: "0 < k" using less.prems by (simp add: k_def usable_def)
      have IH: "runs usable (fffs_flash_span_is_erased (off + k) (n - k) :: ('a, unit) fsop)"
        using k False by (intro runs_at less.IH) simp_all
      have "runs usable (bindm (read_scratch off k) (\<lambda>chunk. seqm (modm fffs_scratch_bump)
          (if \<not> fffs_flash_bytes_erased chunk then throw FFFS_ERR_NO_SPACE
            else fffs_flash_span_is_erased (off + k) (n - k))) :: ('a, unit) fsop)"
        by (intro frame IH; simp)
      from runs_wp [OF this less.prems] show ?thesis
        by (rule wp_eqI [rotated])
          (unfold k_def, subst fffs_flash_span_is_erased.simps, simp add: False Let_def)
    qed (use less.prems in \<open>subst wp_def, subst fffs_flash_span_is_erased.simps, simp add: ret_def\<close>)
  qed
qed

section \<open>Metadata walks\<close>

text \<open>A walk ends, or its cursor moves towards the data.\<close>

lemma decode_start:
  assumes "decode_file_md_record rd sec cursor fs = Some (Inr (record, FFFS_MD_WALK_RECORD, rd'), fs')"
  shows "md_record_start record < cursor"
  using assms
  by (auto simp: decode_file_md_record_def bindm_def getm_def throw_def ret_def Let_def zero_md_record_def
      split: option.splits sum.splits prod.splits if_splits)

lemma walk_next_progress:
  assumes "fffs_md_walk_next walk w fs = Some (Inr (walk', w', record, result), fs')"
  shows "\<not> walk_active walk' \<or> walk_cursor walk' < walk_cursor walk"
  using assms decode_start [of w "walk_sector walk" "walk_cursor walk" fs]
  by (auto simp: fffs_md_walk_next_def bindm_def throw_def ret_def Let_def
      split: option.splits sum.splits prod.splits if_splits)

lemma walk_total [frame]:
  "runs usable (decode_file_md_record rd sec cursor)"
  "runs usable (fffs_md_walk_init sec w)" "runs usable (fffs_md_walk_next wk w)"
proof -
  show d: "runs usable (decode_file_md_record rd sec cursor)" for rd sec cursor
    unfolding decode_file_md_record_def Let_def by (intro frame; simp)
  show "runs usable (fffs_md_walk_init sec w)" "runs usable (fffs_md_walk_next wk w)"
    unfolding fffs_md_walk_init_def fffs_md_walk_next_def Let_def by (intro frame d; simp)+
qed

lemma walk_loop_total [frame]:
  assumes body: "\<And>r rec acc. runs usable (body r rec acc)"
  shows "runs usable (md_walk_loop body walk w acc)"
proof (rule runs_at)
  fix fs :: "'b fffs"
  assume "usable fs"
  then show "wp (md_walk_loop body walk w acc) (\<lambda>_. usable) fs"
  proof (induction "if walk_active walk then Suc (walk_cursor walk) else 0" arbitrary: walk w acc fs
      rule: less_induct)
    case less
    show ?case
    proof (cases "walk_active walk")
      case True
      have "md_walk_loop body walk w acc fs =
          bindm (fffs_md_walk_next walk w) (\<lambda>(walk', window', record, result).
            bindm (body result record acc) (\<lambda>r. case r of Inl b \<Rightarrow> ret (Inl b)
              | Inr acc' \<Rightarrow> md_walk_loop body walk' window' acc')) fs"
        using True by (subst md_walk_loop.simps) simp
      then show ?thesis
      proof (rule wp_eqI, unfold wp_bindm, intro wp_mono [OF runs_wp_result [OF walk_total(3) less.prems]],
          goal_cases)
        case (1 r s')
        have IH: "runs usable (md_walk_loop body walk' w' acc')"
          if "fffs_md_walk_next walk w fs = Some (Inr (walk', w', md, result), s')" for walk' w' acc' md result
          using walk_next_progress [OF that] True by (intro runs_at less.hyps) auto
        from 1 body show ?case
          by (cases r) (auto split: sum.split intro!: runs_wp [OF runs_bindm] frame IH simp: wp_bindm [symmetric])
      qed
    qed (use less.prems in \<open>subst wp_def, subst md_walk_loop.simps, simp add: ret_def\<close>)
  qed
qed

lemma md_total [frame]:
  "runs usable (read_md_for_slot sec slot mt)"
  "runs usable (read_root_prefix sec off len sz cache)"
  unfolding read_md_for_slot_def read_root_prefix_def Let_def by (intro frame; simp)+

lemma md_total2 [frame]: "runs usable (fffs_read_md_for_slot sec slot)"
  unfolding fffs_read_md_for_slot_def by (intro frame)

lemma md_total3 [frame]:
  "runs usable (fffs_read_file_root_md sec slot pre cache)"
  "runs usable (fffs_tombstone_metadata_for_slot sec slot acct)"
  unfolding fffs_read_file_root_md_def fffs_tombstone_metadata_for_slot_def Let_def
  by (intro frame; simp)+

section \<open>Namespace and collector\<close>

lemma head_for_slot_total [frame]: "runs usable (fffs_index_head_for_slot slot)"
  unfolding fffs_index_head_for_slot_def by (intro frame)

lemma resolve_loop_total [frame]: "runs usable (resolve_loop name left cand free cache)"
  by (induction left arbitrary: cand free cache) (simp_all only: resolve_loop.simps Let_def, (intro frame; simp)+)

lemma resolve_total [frame]: "runs usable (fffs_index_resolve name cache)"
  unfolding fffs_index_resolve_def by (intro frame)

lemma dir_loop_total [frame]: "runs usable (dir_read_loop left dir)"
  by (induction left arbitrary: dir) (simp_all only: dir_read_loop.simps Let_def, (intro frame; simp)+)

lemma namespace_total [frame]:
  "runs usable (fffs_dir_read dir)" "runs usable (fffs_stat_file name)" "runs usable (fffs_exists name)"
  unfolding fffs_index_dir_read_def fffs_dir_read_def fffs_stat_file_def fffs_exists_def
  by (intro frame)+

lemma reachable_total [frame]: "runs usable (reachable_loop left slot cur sec)"
  by (induction left arbitrary: cur) (simp_all only: reachable_loop.simps Let_def, (intro frame; simp)+)

lemma classify_total [frame]: "runs usable (gc_classify_record sec record)"
  unfolding sector_is_reachable_from_chain_def gc_classify_record_def by (intro frame)

lemma gc_step_total [frame]: "runs usable (gc_step use_map)"
  unfolding gc_step_def gc_visit_def gc_erase_def gc_tombstone_def gc_finish_live_def Let_def
  by (intro frame; simp)

lemma gc_loop_total [frame]: "runs usable (gc_step_loop left)"
  by (induction left) (simp_all only: gc_step_loop.simps Let_def, (intro frame; simp)+)

lemma gc_steps_total [frame]: "runs usable (gc_steps n erased)"
  by (induction n arbitrary: erased) (simp_all only: gc_steps.simps fffs_gc_step_def, (intro frame; simp)+)

text \<open>A directory read that returns an entry moves the position, and never past the table.\<close>

lemma dir_loop_progress:
  assumes "dir_read_loop left dir fs = Some (Inr (Some e, dir'), fs')"
  shows "dir_pos dir < dir_pos dir' \<and> dir_pos dir' \<le> dir_pos dir + left"
  using assms
proof (induction left arbitrary: dir fs)
  case (Suc left)
  define dir1 where "dir1 = dir\<lparr>dir_pos := dir_pos dir + 1\<rparr>"
  have pos: "dir_pos dir1 = dir_pos dir + 1" by (simp add: dir1_def)
  have go: "dir_pos dir < dir_pos dir' \<and> dir_pos dir' \<le> dir_pos dir + Suc left"
    if "dir_read_loop left dir1 s = Some (Inr (Some e, dir'), fs')" for s
    using Suc.IH [OF that] pos by simp
  from Suc.prems show ?case
    unfolding dir_read_loop.simps Let_def dir1_def [symmetric]
    by (auto simp: bindm_def getm_def trym_def ret_def pos dest!: go
        split: option.splits sum.splits if_splits)
qed (simp add: ret_def)

lemma list_loop_total:
  assumes "usable fs"
  shows "wp (list_loop dir found) (\<lambda>_. usable) fs"
  using assms
proof (induction "fs_index_hash_table_size fs - dir_pos dir" arbitrary: dir found fs rule: less_induct)
  case less
  note unfold = list_loop.simps [of dir found fs]
  show ?case
  proof (rule wp_eqI, rule unfold, unfold wp_bindm,
      intro wp_mono [OF runs_wp_result [OF namespace_total(1) less.prems]], goal_cases)
    case (1 r s')
    have size: "fs_index_hash_table_size s' = fs_index_hash_table_size fs"
      using keepsD [OF namespace_frame(2)] 1 by (fastforce simp: settled_defs)
    have "wp (list_loop dir' found') (\<lambda>_. usable) s'" if "r = Inr (Some e, dir')" for e dir' found'
    proof -
      from that 1 have "dir_read_loop (fs_index_hash_table_size fs - dir_pos dir) dir fs = Some (Inr (Some e, dir'), s')"
        by (auto simp: fffs_dir_read_def fffs_index_dir_read_def bindm_getm ret_def split: if_splits)
      from dir_loop_progress [OF this] show ?thesis
        using 1 size by (intro less.hyps) auto
    qed
    with 1 show ?case by (auto simp: wp_simps split: sum.split prod.split option.split)
  qed
qed

lemma list_total [frame]: "runs usable (fffs_list capacity)"
  unfolding fffs_list_def by (intro frame runs_at list_loop_total)

lemma iter_loop_progress:
  "iter_read_loop tab pos n = Some (pos', slot, head) \<Longrightarrow> pos < pos' \<and> pos' \<le> pos + n"
  by (induction tab pos n rule: iter_read_loop.induct) (auto split: if_splits)

lemma iter_progress:
  "fffs_index_iter_read fs pos = Some (pos', slot, head) \<Longrightarrow> pos < pos' \<and> pos' \<le> fs_index_hash_table_size fs"
  using iter_loop_progress by (fastforce simp: fffs_index_iter_read_def)

lemma fsinfo_count_total:
  assumes "usable fs"
  shows "wp (fsinfo_count pos n b) (\<lambda>_. usable) fs"
  using assms
proof (induction "fs_index_hash_table_size fs - pos" arbitrary: pos n b fs rule: less_induct)
  case less
  show ?case
  proof (cases "fffs_index_iter_read fs pos")
    case None
    with less.prems show ?thesis by (subst wp_def) (subst fsinfo_count.simps, simp add: ret_def)
  next
    case (Some x)
    obtain pos' slot head where x: "x = (pos', slot, head)" by (cases x)
    have "fsinfo_count pos n b fs = bindm (fffs_read_file_root_md head slot False None) (\<lambda>root.
        fsinfo_count pos' (n + 1) (b + root_size root)) fs"
      by (subst fsinfo_count.simps) (simp add: Some x)
    then show ?thesis
    proof (rule wp_eqI, unfold wp_bindm, intro wp_mono [OF runs_wp_result [OF md_total3(1) less.prems]],
        goal_cases)
      case (1 r s')
      have "fs_index_hash_table_size s' = fs_index_hash_table_size fs"
        using keepsD [OF md_frame3(1)] 1 by (fastforce simp: settled_defs)
      with iter_progress [of fs pos] Some x 1 show ?case
        by (auto split: sum.split intro!: less.hyps)
    qed
  qed
qed

lemma fsinfo_total [frame]: "runs usable (Fffs_Namespace.fffs_fsinfo flags)"
  unfolding fffs_fsinfo_def fsinfo_refresh_def Let_def
  by (intro frame runs_at [OF fsinfo_count_total]; simp)

section \<open>Seeking\<close>

lemma file_total [frame]: "runs usable (get_file p)" "runs usable (mod_file p f)"
  unfolding get_file_def mod_file_def by (intro frame; simp add: usable_def upd_file_def)+

text \<open>The bisection over a span: the interval of guesses shrinks.\<close>

lemma hunt_loop_total:
  assumes "usable fs" "high \<noteq> 0xffff"
  shows "wp (hunt_loop p target rel estimate low high) (\<lambda>_. usable) fs"
  using assms
proof (induction "unat high + 1 - unat low" arbitrary: low high fs rule: less_induct)
  case less
  define g0 where "g0 = (ucast (rel div estimate) :: u16)"
  define g1 where "g1 = (if g0 < low then low else g0)"
  define guess where "guess = (if g1 > high then high else g1)"
  show ?case
  proof (cases "low \<le> high")
    case True
    have g: "low \<le> guess" "guess \<le> high" using True by (auto simp: guess_def g1_def)
    have "unat high \<noteq> 65535"
    proof
      assume "unat high = 65535"
      then have "high = of_nat 65535" using of_nat_unat [of high] by (metis ucast_id)
      with less.prems(2) show False by simp
    qed
    moreover have "unat high < 65536" by simp
    ultimately have high: "unat high < 65535" by linarith
    have ug: "unat low \<le> unat guess" "unat guess \<le> unat high" using g by (simp_all add: word_le_nat_alt)
    with high have up: "unat (guess + 1) = unat guess + 1" by (simp add: unat_word_ariths)
    have down: "unat (guess - 1) = unat guess - 1" if "guess \<noteq> 0" using that by (rule unat_minus_one)
    have IH: "runs usable (hunt_loop p target rel estimate l h :: ('a, bool) fsop)"
      if "unat h + 1 - unat l < unat high + 1 - unat low" "h \<noteq> 0xffff" for l h
      using that by (intro runs_at less.hyps)
    have left: "runs usable (if guess = 0 then ret False
        else hunt_loop p target rel estimate low (guess - 1) :: ('a, bool) fsop)"
    proof (intro frame IH)
      assume "guess \<noteq> 0"
      then have "0 < unat guess" by (simp add: unat_gt_0)
      with down [OF \<open>guess \<noteq> 0\<close>] ug high
      show "unat (guess - 1) + 1 - unat low < unat high + 1 - unat low" "guess - 1 \<noteq> 0xffff"
        by auto
    qed
    have right: "runs usable (hunt_loop p target rel estimate (guess + 1) high :: ('a, bool) fsop)"
      using up ug less.prems(2) by (intro IH) auto
    have step: "hunt_loop p target rel estimate low high fs =
        bindm (fffs_read_md_for_slot (f_current (fs_files fs p) + guess) (f_slot (fs_files fs p))) (\<lambda>record.
          let file_offset = (if md_type record = FFFS_MD_TYPE_FILE_ROOT_V1 then 0
                             else md_size_or_offset record)
          in if target < file_offset
             then (if guess = 0 then ret False else hunt_loop p target rel estimate low (guess - 1))
             else if target \<le> file_offset + ucast (md_data_len record)
             then seqm (mod_file p (\<lambda>f. f\<lparr>f_current := f_current (fs_files fs p) + guess,
                    f_data_offset := md_data_off record,
                    f_current_data_len := md_data_len record, f_span_len := md_span_len record,
                    f_current_next := md_next record, f_current_file_offset := file_offset,
                    f_current_data_pos := target - file_offset, f_pos := target, f_cache_len := 0\<rparr>))
                  (ret True)
             else hunt_loop p target rel estimate (guess + 1) high) fs"
      using True unfolding guess_def g1_def g0_def by (subst hunt_loop.simps) (simp add: Let_def)
    show ?thesis
      by (rule wp_eqI, rule step, rule runs_wp, intro frame left right, rule less.prems(1))
  qed (use less.prems in \<open>subst wp_def, subst hunt_loop.simps, simp add: ret_def\<close>)
qed

lemma span_head_neq: "1 < n \<Longrightarrow> n - 1 \<noteq> (0xffff :: u16)"
proof
  assume "1 < n" "n - 1 = 0xffff"
  then have "n = 0xffff + 1" by (simp only: diff_eq_eq)
  also have "\<dots> = 0" by simp
  finally show False using \<open>1 < n\<close> by simp
qed

lemma hunt_total [frame]: "runs usable (hunt_current_span p target)"
  unfolding hunt_current_span_def Let_def
  by (intro frame runs_at [OF hunt_loop_total] span_head_neq) auto

lemma seek_loop_total [frame]: "runs usable (seek_loop left p target)"
proof (induction left)
  case 0
  show ?case by (subst seek_loop.simps) (simp only: nat.case, intro frame)
next
  case (Suc left)
  show ?case by (subst seek_loop.simps) (simp only: nat.case, intro frame Suc)
qed

lemma seek_total [frame]: "runs usable (fffs_seek p off wh)"
  unfolding fffs_seek_def seek_read_position_def seek_from_current_position_def
    reset_read_position_to_root_def Let_def
  by (intro frame)

lemma fstat_total [frame]: "runs usable (fffs_fstat p)"
  unfolding fffs_fstat_def by (intro frame)

section \<open>Properties\<close>

lemma mounted_usable:
  "fffs_valid_backend (fs_backend fs) \<Longrightarrow> FFFS_MIN_SCRATCH_SIZE \<le> mo_scratch_size options \<Longrightarrow>
     usable (mounted_state options sequence fs)"
  by (simp add: usable_def mounted_state_def fffs_valid_backend_def Let_def)

text \<open>C16: Queries and bounded collection always return.  On a file system with a nonzero program
  granule and scratch buffer, whatever bytes the flash holds (corrupt chains and cyclic links
  included) and whatever the device answers, stat, exists, directory reads, listing, file-system
  information, seek, file stat, metadata lookup and the bounded collector return, and leave the file
  system usable.\<close>

theorem queries_terminate:
  "runs usable (fffs_stat_file name) \<and> runs usable (fffs_exists name) \<and>
   runs usable (fffs_dir_read dir) \<and> runs usable (fffs_list capacity) \<and>
   runs usable (Fffs_Namespace.fffs_fsinfo info_flags) \<and> runs usable (fffs_seek p offset whence) \<and>
   runs usable (fffs_fstat p) \<and> runs usable (fffs_read_md_for_slot sector slot) \<and>
   runs usable (fffs_flash_span_is_erased off n) \<and> runs usable (fffs_gc max_steps)"
  unfolding fffs_gc_def by (intro conjI frame)

end
