(* ===== verification/Fffs_Handles.thy ===== *)
theory Fffs_Handles
  imports Fffs_Total
begin

unbundle bit_operations_syntax

text \<open>
  Properties of file handles, \<^verbatim>\<open>src/fffs_file.c\<close>: the length of a flush, closing, and seeking.
\<close>

section \<open>Flush\<close>

lemma flush_length_facts:
  assumes "0 < granule" and "256 mod granule = 0" and "cache_len \<le> 256"
  shows "flush_length granule cache_len final \<le> 256 \<and> flush_length granule cache_len final mod granule = 0 \<and>
    (\<not> final \<longrightarrow> flush_length granule cache_len final \<le> cache_len \<and>
       cache_len - flush_length granule cache_len final < granule) \<and>
    (final \<longrightarrow> cache_len \<le> flush_length granule cache_len final)"
proof -
  define q m where "q = cache_len div granule" and "m = cache_len mod granule"
  have c: "cache_len = granule * q + m" "m < granule" using assms(1) by (simp_all add: q_def m_def)
  obtain k where k: "256 = granule * k" using assms(2) by (metis mod_0_imp_dvd dvdE)
  have ceil: "(cache_len + granule - 1) div granule = q + 1" if "m \<noteq> 0"
    using c that by (intro div_nat_eqI) (simp_all add: algebra_simps)
  have le: "granule * (q + 1) \<le> 256" if "m \<noteq> 0"
  proof -
    have "granule * q < granule * k" using assms(3) c(1) k that by linarith
    then have "q + 1 \<le> k" by simp
    then show ?thesis unfolding k by (rule mult_le_mono2)
  qed
  have len: "flush_length granule cache_len final =
      (if final \<and> m \<noteq> 0 then granule * (q + 1) else granule * q)"
  proof -
    have "cache_len - cache_len mod granule = granule * q" using c(1) by (simp add: m_def)
    moreover have "granule * q \<noteq> cache_len \<longleftrightarrow> m \<noteq> 0" using c(1) by simp
    ultimately show ?thesis using ceil by (simp add: flush_length_def Let_def mult.commute)
  qed
  show ?thesis
    unfolding len using c le assms(3) by auto
qed


section \<open>Handles\<close>

text \<open>The write path never changes which file system a handle belongs to.\<close>

definition attached :: "nat \<Rightarrow> 'c fffs \<Rightarrow> bool" where
  "attached p fs = f_fs (fs_files fs p)"

lemma keeps_attached: "keeps pinned m \<Longrightarrow> keeps (attached p) m"
  by (simp add: keeps_def pinned_def handles_def attached_def)

lemma attached_mod [frame]:
  "(\<And>f. f_fs (g f) = f_fs f) \<Longrightarrow> keeps (attached p) (mod_file q g)"
  unfolding mod_file_def by (intro frame) (simp add: attached_def upd_file_def)

lemma attached_upd [simp]:
  "attached p (fffs_fsinfo_note_committed_add sz fs) = attached p fs"
  "attached p (fffs_fsinfo_invalidate_committed fs) = attached p fs"
  "attached p (fffs_alloc_release_reservation q fs) = attached p fs"
proof -
  have u: "attached p (mark_unknown_from a n fs) = attached p fs" for a n
    using settled_mark_unknown [of a n fs] by (simp add: attached_def settled_def handles_def)
  show "attached p (fffs_fsinfo_note_committed_add sz fs) = attached p fs"
    "attached p (fffs_fsinfo_invalidate_committed fs) = attached p fs"
    by (simp_all add: attached_def fffs_fsinfo_note_committed_add_def fffs_fsinfo_invalidate_committed_def)
  show "attached p (fffs_alloc_release_reservation q fs) = attached p fs"
    using u by (auto simp: fffs_alloc_release_reservation_def Let_def attached_def upd_file_def)
qed

lemmas attached_frame [frame] = pinned_frame [THEN keeps_attached] finish_frame [THEN keeps_attached]
  finish_frame2 [THEN keeps_attached]

lemma attached_close [frame]:
  "keeps (attached p) (get_file q)" "keeps (attached p) (flush_write_cache q final)"
  "keeps (attached p) (flush_pending_span_head q nxt final)" "keeps (attached p) (close_extent q)"
  "keeps (attached p) (close_commit q)"
proof -
  show g: "keeps (attached p) (get_file q)" for q unfolding get_file_def by (intro frame)
  show "keeps (attached p) (flush_write_cache q final)"
    unfolding flush_write_cache_def Let_def by (intro frame g; simp)
  show f: "keeps (attached p) (flush_pending_span_head q nxt final)" for q nxt final
    unfolding flush_pending_span_head_def Let_def by (intro frame g; simp)
  show "keeps (attached p) (close_extent q)"
    unfolding close_extent_def by (intro frame g; simp)
  show "keeps (attached p) (close_commit q)"
    unfolding close_commit_def close_refresh_old_def Let_def by (intro frame g f; simp)
qed


definition example_reader :: "unit fffs" where
  "example_reader = (zero_fs null_backend)\<lparr>fs_open_files := [5],
     fs_files := (\<lambda>_. zero_file)(5 := zero_file\<lparr>f_fs := True, f_flags := FFFS_O_RDONLY, f_open_registered := True\<rparr>)\<rparr>"


section \<open>Seeking\<close>

definition landed :: "nat \<Rightarrow> u32 \<Rightarrow> bool \<Rightarrow> 'c fffs \<Rightarrow> bool" where
  "landed p target found fs \<longleftrightarrow> found \<longrightarrow> f_pos (fs_files fs p) = target"

lemma hunt_loop_post [post]: "ensures (landed p target) (hunt_loop p target rel est low high)"
proof (rule ensuresI)
  fix fs y v
  assume v: "fst y = Inr v" and "hunt_loop p target rel est low high fs = Some y"
  from this(2) have "\<forall>v. fst y = Inr v \<longrightarrow> landed p target v (snd y)"
  proof (rule hunt_loop.raw_induct
      [where P = "\<lambda>p t rel e l h fs y. \<forall>v. fst y = Inr v \<longrightarrow> landed p t v (snd y)", rotated], goal_cases)
    case (1 f p target rel est low high fs y)
    have f: "ensures (landed p target) (f p target c d e g)" for c d e g
      by (rule ensuresI) (use 1(1) in blast)
    have "ensures (landed p target) (bindm (fffs_read_md_for_slot sector slot) (\<lambda>record.
          let file_offset = (if md_type record = FFFS_MD_TYPE_FILE_ROOT_V1 then 0
                             else md_size_or_offset record)
          in if target < file_offset
             then (if guess = 0 then ret False else f p target rel est low (guess - 1))
             else if target \<le> file_offset + ucast (md_data_len record)
             then seqm (mod_file p (\<lambda>f. f\<lparr>f_current := sector, f_data_offset := md_data_off record,
                    f_current_data_len := md_data_len record, f_span_len := md_span_len record,
                    f_current_next := md_next record, f_current_file_offset := file_offset,
                    f_current_data_pos := target - file_offset, f_pos := target, f_cache_len := 0\<rparr>))
                  (ret True)
             else f p target rel est (guess + 1) high))" for sector slot guess
      unfolding Let_def mod_file_def by (intro post f) (simp_all add: landed_def upd_file_def)
    note k = this [THEN ensuresD, unfolded Let_def]
    show ?case
    proof (cases "low \<le> high")
      case True
      then have c: "(\<not> low \<le> high) = False" by simp
      show ?thesis
        using k [OF 1(2) [unfolded Let_def c if_False]] by blast
    next
      case False
      with 1(2) show ?thesis by (auto simp: ret_def landed_def)
    qed
  qed
  with v show "landed p target v (snd y)" by blast
qed

lemma hunt_post [post]: "ensures (landed p target) (hunt_current_span p target)"
  unfolding hunt_current_span_def Let_def by (intro post) (simp add: landed_def)

lemma seek_loop_post: "ensures (\<lambda>_. landed p target True) (seek_loop left p target)"
proof (induction left)
  case 0
  show ?case
    by (subst seek_loop.simps, unfold nat.case)
      (intro post ensures_if_done [OF hunt_post], simp_all add: mod_file_def ensures_modm landed_def upd_file_def)
next
  case (Suc left)
  show ?case
    by (subst seek_loop.simps, unfold nat.case)
      (intro post ensures_if_done [OF hunt_post] ensures_seqm Suc, simp_all add: mod_file_def ensures_modm landed_def upd_file_def)
qed



end
