(* ===== verification/Fffs_Extent.thy ===== *)
theory Fffs_Extent
  imports Fffs_Metadata
begin

unbundle bit_operations_syntax

text \<open>
  Extents on a device: what the metadata operations of \<^verbatim>\<open>src/fffs_file_md.c\<close> do to the flash.

  A sector is described by its footer and the list of records below it (\<open>sector_holds\<close>); the windowed
  walk of \<^verbatim>\<open>fffs_md_walk_next\<close> finds the first matching record of that list (\<open>read_md_holds\<close>) or fails
  (\<open>read_md_absent\<close>), writing a record appends to the list (\<open>program_extent_rule\<close>) and the second phase
  of a commit replaces its last element (\<open>finish_extent_rule\<close>).  The rules hold for every device that
  satisfies \<open>reliable_flash\<close>; the properties state them for the emulator.
\<close>

section \<open>Reading leaves the flash alone\<close>

context reliable_flash
begin

text \<open>\<open>looked fs fs'\<close>: \<open>fs'\<close> is \<open>fs\<close> after reads only, whose bytes may be in the scratch buffer.\<close>

definition looked :: "'c fffs \<Rightarrow> 'c fffs \<Rightarrow> bool" where
  "looked fs fs' \<longleftrightarrow> (\<exists>c x n. fs' = (set_ctx c fs)\<lparr>fs_scratch := x, fs_scratch_serial := n\<rparr> \<and>
     stp c fs \<and> mem c = fmem fs)"

lemma lookedI:
  "fs' = (set_ctx c fs)\<lparr>fs_scratch := x, fs_scratch_serial := n\<rparr> \<Longrightarrow> stp c fs \<Longrightarrow> mem c = fmem fs \<Longrightarrow> looked fs fs'"
  by (auto simp: looked_def)

lemma lookedE:
  assumes "looked fs fs'"
  obtains c x n where "fs' = (set_ctx c fs)\<lparr>fs_scratch := x, fs_scratch_serial := n\<rparr>" "stp c fs" "mem c = fmem fs"
  using assms by (auto simp: looked_def)

lemma looked_set_ctx: "stp c fs \<Longrightarrow> mem c = fmem fs \<Longrightarrow> looked fs (set_ctx c fs)"
  by (rule lookedI [where c = c and x = "fs_scratch fs" and n = "fs_scratch_serial fs"]) (simp_all add: set_ctx_def)

lemma looked_refl: "fdev fs \<Longrightarrow> looked fs fs"
  using looked_set_ctx [OF stp_self fmem_self] by (simp add: set_ctx_self)

lemma looked_trans: "looked fs fs' \<Longrightarrow> looked fs' fs'' \<Longrightarrow> looked fs fs''"
  unfolding looked_def
  by (force simp: set_ctx_def stp_def fmem_def bmem_def intro: bstp_trans)

lemma looked_fields:
  assumes "looked fs fs'"
  shows "fmem fs' = fmem fs" "fs_sector_size fs' = fs_sector_size fs" "fs_sector_count fs' = fs_sector_count fs"
    "fs_index_sectors fs' = fs_index_sectors fs" "fs_scratch_size fs' = fs_scratch_size fs"
    "healthy fs \<Longrightarrow> healthy fs'" "fs_files fs' = fs_files fs" "fs_open_files fs' = fs_open_files fs"
  using assms by (auto simp: looked_def fmem_def bmem_def healthy_def stp_def bstp_def set_ctx_def)

lemma looked_fdev: "looked fs fs' \<Longrightarrow> fdev fs \<Longrightarrow> fdev fs'"
  by (auto simp: looked_def set_ctx_def fdev_def stp_def fmem_def bmem_def intro!: fuses_upd)

lemma looked_geom: "looked fs fs' \<Longrightarrow> geom fs \<Longrightarrow> geom fs'"
  using looked_fdev [of fs fs'] looked_fields [of fs fs'] by (simp add: geom_def)

lemma looked_bump: "looked fs fs' \<Longrightarrow> looked fs (fffs_scratch_bump fs')"
  by (elim lookedE) (rule lookedI, auto simp: fffs_scratch_bump_def Let_def)

lemma looked_scratch: "looked fs fs' \<Longrightarrow> looked fs (fs'\<lparr>fs_scratch := x\<rparr>)"
proof (elim lookedE)
  fix c y n
  assume "fs' = (set_ctx c fs)\<lparr>fs_scratch := y, fs_scratch_serial := n\<rparr>" "stp c fs" "mem c = fmem fs"
  then show ?thesis by (intro lookedI [where x = x and n = n]) simp_all
qed

section \<open>Erased spans\<close>

definition erased_span :: "'c fffs \<Rightarrow> nat \<Rightarrow> nat \<Rightarrow> bool" where
  "erased_span fs off n \<longleftrightarrow> sub_bytes off n (fmem fs) = replicate n 0xff"

lemma erased_span_looked: "looked fs fs' \<Longrightarrow> erased_span fs' off n = erased_span fs off n"
  by (simp add: erased_span_def looked_fields)

lemma erased_span_split:
  "k \<le> n \<Longrightarrow> off + n \<le> length (fmem fs) \<Longrightarrow>
     erased_span fs off n \<longleftrightarrow> erased_span fs off k \<and> erased_span fs (off + k) (n - k)"
  using sub_bytes_append [of off k "n - k" "fmem fs"]
    replicate_add [of k "n - k" "0xff :: byte"]
  by (simp add: erased_span_def append_eq_append_conv)

text \<open>The check reads in chunks of the scratch size and gives the verdict on the whole span.\<close>

lemma span_erased_rule:
  assumes "fdev fs" "fs_scratch_size fs \<noteq> 0" "off + n \<le> length (fmem fs)"
  shows "wp (fffs_flash_span_is_erased off n) (\<lambda>r fs'. looked fs fs' \<and>
    (r = Inr () \<and> erased_span fs off n \<or> r = Inl FFFS_ERR_NO_SPACE \<and> \<not> erased_span fs off n \<or>
     r = Inl FFFS_ERR_IO \<and> \<not> healthy fs)) fs"
  using assms
proof (induction n arbitrary: off fs rule: less_induct)
  case (less n)
  define k where "k = min n (fs_scratch_size fs)"
  show ?case
  proof (cases "n = 0")
    case True
    with less.prems show ?thesis
      by (subst wp_def, subst fffs_flash_span_is_erased.simps) (simp add: ret_def looked_refl erased_span_def sub_bytes_def)
  next
    case False
    then have k: "0 < k" "k \<le> n" "n - k < n" using less.prems by (auto simp: k_def)
    have run: "fffs_flash_span_is_erased off n fs =
        bindm (read_scratch off k) (\<lambda>chunk. seqm (modm fffs_scratch_bump)
          (if \<not> fffs_flash_bytes_erased chunk then throw FFFS_ERR_NO_SPACE
           else fffs_flash_span_is_erased (off + k) (n - k))) fs"
      using False unfolding k_def by (subst fffs_flash_span_is_erased.simps) (simp add: Let_def)
    note split = erased_span_split [OF k(2) less.prems(3)]
    have chunk: "fffs_flash_bytes_erased (sub_bytes off k (fmem fs)) \<longleftrightarrow> erased_span fs off k"
      using less.prems(3) k by (simp add: bytes_erased_iff erased_span_def)
    show ?thesis
    proof (rule wp_eqI, rule run, unfold read_scratch_def wp_bindm, rule read_rule [OF less.prems(1)], goal_cases)
      case (1 c)
      define fs1 where "fs1 = fffs_scratch_bump ((set_ctx c fs)\<lparr>fs_scratch :=
        put_bytes 0 (sub_bytes off k (fmem fs)) (fs_scratch (set_ctx c fs))\<rparr>)"
      have l: "looked fs fs1" unfolding fs1_def
        by (intro looked_bump looked_scratch looked_set_ctx 1)
      have *: "fdev fs1" "fs_scratch_size fs1 \<noteq> 0" "off + k + (n - k) \<le> length (fmem fs1)"
        using looked_fdev [OF l] looked_fields [OF l] less.prems k by auto
      have "wp (fffs_flash_span_is_erased (off + k) (n - k)) (\<lambda>r fs'. looked fs fs' \<and>
        (r = Inr () \<and> erased_span fs (off + k) (n - k) \<or>
         r = Inl FFFS_ERR_NO_SPACE \<and> \<not> erased_span fs (off + k) (n - k) \<or>
         r = Inl FFFS_ERR_IO \<and> \<not> healthy fs)) fs1"
        by (rule wp_mono [OF less.IH [OF k(3) *]])
          (use looked_trans [OF l] looked_fields [OF l] erased_span_looked [OF l] in auto)
      with chunk split l show ?case
        by (auto simp: wp_simps fs1_def split: sum.split elim!: wp_mono)
    next
      case (2 c)
      with less.prems k show ?case by (auto intro: looked_set_ctx)
    qed
  qed
qed

end

section \<open>The bytes of a record\<close>

definition md_bytes :: "fffs_md_record \<Rightarrow> byte list" where
  "md_bytes r = [md_state r] @ fffs_store_le16 (md_slot r) @ fffs_store_le16 (md_next r) @
     fffs_store_le16 (md_span_len r) @ fffs_store_le16 (md_data_off r) @ fffs_store_le16 (md_data_len r) @
     fffs_store_le32 (md_size_or_offset r) @ [md_type r]"

lemma length_md_bytes [simp]: "length (md_bytes r) = 16"
  by (simp add: md_bytes_def)

lemma md_bytes_load [codec]:
  "md_bytes r ! 0 = md_state r" "md_bytes r ! 15 = md_type r"
  "fffs_load_le16 (drop 1 (md_bytes r)) = md_slot r" "fffs_load_le16 (drop 3 (md_bytes r)) = md_next r"
  "fffs_load_le16 (drop 5 (md_bytes r)) = md_span_len r" "fffs_load_le16 (drop 7 (md_bytes r)) = md_data_off r"
  "fffs_load_le16 (drop 9 (md_bytes r)) = md_data_len r"
  "fffs_load_le32 (drop 11 (md_bytes r)) = md_size_or_offset r"
proof -
  show "md_bytes r ! 0 = md_state r" "md_bytes r ! 15 = md_type r"
    by (simp_all add: md_bytes_def fffs_store_le16_def fffs_store_le32_def)
  have "drop 1 (md_bytes r) = fffs_store_le16 (md_slot r) @ drop 3 (md_bytes r)"
    "drop 3 (md_bytes r) = fffs_store_le16 (md_next r) @ drop 5 (md_bytes r)"
    "drop 5 (md_bytes r) = fffs_store_le16 (md_span_len r) @ drop 7 (md_bytes r)"
    "drop 7 (md_bytes r) = fffs_store_le16 (md_data_off r) @ drop 9 (md_bytes r)"
    "drop 9 (md_bytes r) = fffs_store_le16 (md_data_len r) @ drop 11 (md_bytes r)"
    "drop 11 (md_bytes r) = fffs_store_le32 (md_size_or_offset r) @ drop 15 (md_bytes r)"
    by (simp_all add: md_bytes_def fffs_store_le16_def fffs_store_le32_def)
  then show "fffs_load_le16 (drop 1 (md_bytes r)) = md_slot r" "fffs_load_le16 (drop 3 (md_bytes r)) = md_next r"
    "fffs_load_le16 (drop 5 (md_bytes r)) = md_span_len r" "fffs_load_le16 (drop 7 (md_bytes r)) = md_data_off r"
    "fffs_load_le16 (drop 9 (md_bytes r)) = md_data_len r"
    "fffs_load_le32 (drop 11 (md_bytes r)) = md_size_or_offset r"
    by (simp_all only: load_store_le16 load_store_le32)
qed

text \<open>A record that a walk accepts at offset \<open>start\<close> of a sector.\<close>

definition md_wf :: "'c fffs \<Rightarrow> u16 \<Rightarrow> nat \<Rightarrow> fffs_md_record \<Rightarrow> bool" where
  "md_wf fs sector start r \<longleftrightarrow>
     (md_type r = FFFS_MD_TYPE_FILE_ROOT_V1 \<or> md_type r = FFFS_MD_TYPE_FILE_CONT_V1) \<and>
     md_live r = state_live (md_state r) \<and>
     (md_state r = 0xff \<or> fffs_lifecycle_valid_pair (md_state r) = FFFS_BITMIRROR_CLEARED) \<and>
     md_record_start r = start \<and> md_record_len r = FFFS_MD_FILE_RECORD_SIZE \<and>
     unat (md_data_off r) + unat (md_data_len r) \<le> start \<and>
     (md_state r \<noteq> 0xff \<longrightarrow> md_span_len r \<noteq> 0 \<and>
        unat sector + unat (md_span_len r) \<le> fs_sector_count fs \<and>
        (md_next r \<noteq> 0 \<longrightarrow> unat (fs_index_sectors fs) \<le> unat (md_next r) \<and>
           unat (md_next r) < fs_sector_count fs))"

lemma state_live_valid: "state_live st \<Longrightarrow> fffs_lifecycle_valid_pair st = FFFS_BITMIRROR_CLEARED"
  by (simp add: state_live_def fffs_lifecycle_is_live_def)

text \<open>What the second half of the decoder makes of sixteen record bytes.\<close>

definition md_parse :: "'c fffs \<Rightarrow> u16 \<Rightarrow> nat \<Rightarrow> byte \<Rightarrow> byte list \<Rightarrow> fffs_md_record \<times> fffs_md_walk_result" where
  "md_parse fs sector start type buf =
     (let record = zero_md_record\<lparr>md_type := type, md_record_start := start,
            md_record_len := FFFS_MD_FILE_RECORD_SIZE\<rparr>
      in if fffs_flash_bytes_erased buf then (record, FFFS_MD_WALK_END_ERASED)
         else
           let valid = fffs_lifecycle_valid_pair (buf ! 0);
               tombstone = fffs_lifecycle_tombstone_pair (buf ! 0);
               live = fffs_lifecycle_is_live valid tombstone;
               record = record\<lparr>md_state := buf ! 0, md_live := live,
                 md_slot := fffs_load_le16 (drop 1 buf),
                 md_next := fffs_load_le16 (drop 3 buf),
                 md_span_len := fffs_load_le16 (drop 5 buf),
                 md_data_off := fffs_load_le16 (drop 7 buf),
                 md_data_len := fffs_load_le16 (drop 9 buf),
                 md_size_or_offset := fffs_load_le32 (drop 11 buf)\<rparr>
           in if buf ! 0 \<noteq> 0xff \<and> \<not> live \<and> valid \<noteq> FFFS_BITMIRROR_CLEARED \<or>
                 unat (md_data_off record) + unat (md_data_len record) > start \<or>
                 buf ! 0 \<noteq> 0xff \<and> (md_span_len record = 0 \<or>
                   unat sector + unat (md_span_len record) > fs_sector_count fs) \<or>
                 buf ! 0 \<noteq> 0xff \<and> md_next record \<noteq> 0 \<and>
                   (unat (md_next record) < unat (fs_index_sectors fs) \<or>
                    unat (md_next record) \<ge> fs_sector_count fs)
              then (record, FFFS_MD_WALK_END_INVALID) else (record, FFFS_MD_WALK_RECORD))"

lemma decode_parse:
  "decode_file_md_record win sector cursor =
     bindm (fffs_sector_reader_view win sector (cursor - 1) 1) (\<lambda>(t, win).
       if t ! 0 = 0xff then ret (zero_md_record, FFFS_MD_WALK_END_ERASED, win)
       else if cursor < 26 then throw FFFS_ERR_CORRUPT
       else if t ! 0 \<noteq> FFFS_MD_TYPE_FILE_ROOT_V1 \<and> t ! 0 \<noteq> FFFS_MD_TYPE_FILE_CONT_V1
       then ret (zero_md_record\<lparr>md_type := t ! 0, md_record_start := cursor - 16,
              md_record_len := FFFS_MD_FILE_RECORD_SIZE\<rparr>, FFFS_MD_WALK_END_INVALID, win)
       else bindm (fffs_sector_reader_view win sector (cursor - 16) FFFS_MD_FILE_RECORD_SIZE)
         (\<lambda>(buf, win). bindm (getm id) (\<lambda>fs.
            case md_parse fs sector (cursor - 16) (t ! 0) buf of (rec, result) \<Rightarrow> ret (rec, result, win))))"
  unfolding decode_file_md_record_def Let_def split_def
  by (rule arg_cong2 [where f = bindm, OF refl], rule ext, rule if_cong [OF refl refl], rule if_cong,
      simp, rule refl, rule if_cong [OF refl refl], rule arg_cong2 [where f = bindm, OF refl], rule ext,
      rule arg_cong2 [where f = bindm, OF refl], rule ext) (auto simp: md_parse_def Let_def)

lemma md_parse_wf:
  assumes "md_wf fs sector start r"
  shows "md_parse fs sector start (md_type r) (md_bytes r) = (r, FFFS_MD_WALK_RECORD)"
proof -
  have "md_type r \<noteq> 0xff" using assms by (auto simp: md_wf_def)
  then have ne: "(fffs_flash_bytes_erased (md_bytes r)) = False"
    using md_bytes_load(2) [of r] by (auto simp: bytes_erased_iff dest: arg_cong [where f = "\<lambda>xs. xs ! 15"])
  have rec: "zero_md_record\<lparr>md_type := md_type r, md_record_start := start, md_record_len := 16,
      md_state := md_state r, md_live := fffs_lifecycle_is_live (fffs_lifecycle_valid_pair (md_state r))
        (fffs_lifecycle_tombstone_pair (md_state r)), md_slot := md_slot r, md_next := md_next r,
      md_span_len := md_span_len r, md_data_off := md_data_off r, md_data_len := md_data_len r,
      md_size_or_offset := md_size_or_offset r\<rparr> = r"
    using assms by (cases r) (simp add: md_wf_def zero_md_record_def state_live_def)
  show ?thesis
    unfolding md_parse_def Let_def md_bytes_load ne if_False rec using assms by (auto simp: md_wf_def)
qed

context reliable_flash
begin

definition viewed :: "'c fffs \<Rightarrow> u16 \<Rightarrow> nat \<Rightarrow> 'c fffs \<Rightarrow> fffs_sector_reader \<Rightarrow> bool" where
  "viewed fs sector cap fs' win' \<longleftrightarrow> looked fs fs' \<and> coherent fs win' \<and> rd_sector win' = sector \<and> rd_capacity win' = cap"

lemma coherent_looked: "looked fs fs' \<Longrightarrow> coherent fs' win = coherent fs win"
  by (simp add: coherent_def looked_fields)

lemma view_rule:
  assumes "geom fs" "coherent fs win" "unat sector < fs_sector_count fs" "off + sz \<le> fs_sector_size fs"
    "sz \<le> rd_capacity win"
  shows "wp (fffs_sector_reader_view win sector off sz) (\<lambda>r fs'. case r of
      Inr (bs, win') \<Rightarrow> viewed fs sector (rd_capacity win) fs' win' \<and>
        bs = sub_bytes (unat sector * fs_sector_size fs + off) sz (fmem fs)
    | Inl e \<Rightarrow> looked fs fs' \<and> e = FFFS_ERR_IO \<and> \<not> healthy fs) fs"
  by (rule reader_view_rule [OF assms])
    (auto simp: viewed_def looked_set_ctx coherent_looked [OF looked_set_ctx])

text \<open>Decoding a well-formed record gives the record.\<close>

lemma decode_rule:
  assumes geom: "geom fs" and win: "coherent fs win" "16 \<le> rd_capacity win"
    and sector: "unat sector < fs_sector_count fs"
    and cursor: "26 \<le> cursor" "cursor \<le> fs_sector_size fs"
    and bytes: "sub_bytes (unat sector * fs_sector_size fs + (cursor - 16)) 16 (fmem fs) = md_bytes r"
    and wf: "md_wf fs sector (cursor - 16) r"
  shows "wp (decode_file_md_record win sector cursor) (\<lambda>res fs'. case res of
      Inr (r', result, win') \<Rightarrow> viewed fs sector (rd_capacity win) fs' win' \<and> r' = r \<and> result = FFFS_MD_WALK_RECORD
    | Inl e \<Rightarrow> looked fs fs' \<and> e = FFFS_ERR_IO \<and> \<not> healthy fs) fs"
proof -
  let ?base = "unat sector * fs_sector_size fs"
  have fit: "?base + (cursor - 16) + 16 \<le> length (fmem fs)"
    using sector_fits [OF geom sector, of "cursor - 16" 16] cursor by simp
  have "sub_bytes (?base + (cursor - 16) + 15) 1 (fmem fs) = sub_bytes 15 1 (md_bytes r)"
    using bytes sub_bytes_sub_bytes [of 15 1 16 "?base + (cursor - 16)" "fmem fs"] by simp
  moreover have "?base + (cursor - 16) + 15 = ?base + (cursor - 1)" using cursor by simp
  ultimately have last: "sub_bytes (?base + (cursor - 1)) 1 (fmem fs) ! 0 = md_type r"
    by (simp add: md_bytes_load)
  have type: "md_type r \<noteq> 0xff" using wf by (auto simp: md_wf_def)
  have type2: "(md_type r \<noteq> 17 \<and> md_type r \<noteq> 18) = False" "(cursor < 26) = False"
    using wf cursor by (auto simp: md_wf_def)
  show ?thesis
    unfolding decode_parse wp_bindm
  proof (rule wp_mono [OF view_rule [OF geom win(1) sector]], goal_cases)
    case (3 res fs1)
    show ?case
    proof (cases res)
      case (Inr x)
      obtain t w1 where x: "x = (t, w1)" by (cases x)
      with 3 Inr have v: "viewed fs sector (rd_capacity win) fs1 w1" and t: "t ! 0 = md_type r"
        using last by auto
      then have l: "looked fs fs1" and w1: "coherent fs1 w1" "rd_capacity w1 = rd_capacity win"
        by (auto simp: viewed_def coherent_looked)
      note f = looked_fields [OF l]
      have "wp (fffs_sector_reader_view w1 sector (cursor - 16) 16) (\<lambda>res fs'. case res of
          Inr (bs, win') \<Rightarrow> viewed fs1 sector (rd_capacity win) fs' win' \<and> bs = md_bytes r
        | Inl e \<Rightarrow> looked fs1 fs' \<and> e = FFFS_ERR_IO \<and> \<not> healthy fs1) fs1"
        by (rule view_rule [OF looked_geom [OF l geom] w1(1), of sector "cursor - 16" 16,
              unfolded f(1-3) w1(2) bytes])
          (use sector cursor win(2) in simp_all)
      then show ?thesis
        unfolding Inr x sum.case prod.case t type2 if_False if_not_P [OF type] wp_bindm
      proof (rule wp_mono, goal_cases)
        case (1 res2 fs2)
        show ?case
        proof (cases res2)
          case (Inr y)
          obtain w2 where y: "y = (md_bytes r, w2)" and v2: "viewed fs1 sector (rd_capacity win) fs2 w2"
            using 1 Inr by (auto simp: viewed_def)
          have l2: "looked fs fs2" using v2 looked_trans [OF l] by (auto simp: viewed_def)
          have "viewed fs sector (rd_capacity win) fs2 w2"
            using v2 l2 coherent_looked [OF l] by (simp add: viewed_def)
          moreover have "md_wf fs2 sector (cursor - 16) r"
            using wf looked_fields [OF l2] by (simp add: md_wf_def)
          ultimately show ?thesis
            by (simp add: Inr y wp_simps md_parse_wf)
        qed (use 1 looked_trans [OF l] f in auto)
      qed
    qed (use 3 in auto)
  qed (use cursor win in auto)
qed

end

section \<open>The records of a sector\<close>

definition md_data_end :: "fffs_md_record \<Rightarrow> nat" where
  "md_data_end r = unat (md_data_off r) + unat (md_data_len r)"

text \<open>\<open>md_stored fs flash sector cursor claimed rs\<close>: below \<open>cursor\<close> the sector holds the records \<open>rs\<close>, and
  the data they and the earlier ones (up to \<open>claimed\<close>) describe stays below the metadata.\<close>

fun md_stored :: "'c fffs \<Rightarrow> byte list \<Rightarrow> u16 \<Rightarrow> nat \<Rightarrow> nat \<Rightarrow> fffs_md_record list \<Rightarrow> bool" where
  "md_stored fs flash sector cursor claimed [] \<longleftrightarrow> True"
| "md_stored fs flash sector cursor claimed (r # rs) \<longleftrightarrow> 26 \<le> cursor \<and>
     sub_bytes (unat sector * fs_sector_size fs + (cursor - 16)) 16 flash = md_bytes r \<and>
     md_wf fs sector (cursor - 16) r \<and>
     (rs \<noteq> [] \<longrightarrow> max claimed (md_data_end r) < cursor - 16) \<and>
     md_stored fs flash sector (cursor - 16) (max claimed (md_data_end r)) rs"

lemma md_wf_cong:
  "fs_sector_count fs' = fs_sector_count fs \<Longrightarrow> fs_index_sectors fs' = fs_index_sectors fs \<Longrightarrow>
     md_wf fs' sector start r = md_wf fs sector start r"
  by (simp add: md_wf_def)

lemma md_stored_cong:
  "fs_sector_size fs' = fs_sector_size fs \<Longrightarrow> fs_sector_count fs' = fs_sector_count fs \<Longrightarrow>
   fs_index_sectors fs' = fs_index_sectors fs \<Longrightarrow>
     md_stored fs' flash sector cursor claimed rs = md_stored fs flash sector cursor claimed rs"
  by (induction rs arbitrary: cursor claimed) (simp_all add: md_wf_cong [of fs' fs])

context reliable_flash
begin

lemma viewed_trans: "looked fs fs1 \<Longrightarrow> viewed fs1 sector cap fs2 win \<Longrightarrow> viewed fs sector cap fs2 win"
  by (auto simp: viewed_def coherent_looked intro: looked_trans)

lemma md_stored_looked:
  "looked fs fs' \<Longrightarrow> md_stored fs' (fmem fs') sector cursor claimed rs = md_stored fs (fmem fs) sector cursor claimed rs"
  using md_stored_cong [OF looked_fields(2-4)] by (simp add: looked_fields)

lemma walk_next_rule:
  assumes geom: "geom fs" and win: "coherent fs win" "16 \<le> rd_capacity win" "rd_sector win = sector"
    and sector: "unat sector < fs_sector_count fs"
    and walk: "walk_active walk" "walk_sector walk = sector" "walk_cursor walk \<le> fs_sector_size fs"
    and stored: "md_stored fs (fmem fs) sector (walk_cursor walk) (walk_claimed_data_end walk) (r # rs)"
  shows "wp (fffs_md_walk_next walk win) (\<lambda>res fs'. case res of
      Inr (walk', win', r', result) \<Rightarrow> viewed fs sector (rd_capacity win) fs' win' \<and> r' = r \<and>
        result = FFFS_MD_WALK_RECORD \<and>
        walk' = walk\<lparr>walk_cursor := walk_cursor walk - 16,
          walk_claimed_data_end := max (walk_claimed_data_end walk) (md_data_end r),
          walk_active := \<not> walk_cursor walk - 16 \<le> max (walk_claimed_data_end walk) (md_data_end r)\<rparr>
    | Inl e \<Rightarrow> looked fs fs' \<and> e = FFFS_ERR_IO \<and> \<not> healthy fs) fs"
proof -
  have c: "\<not> walk_cursor walk \<le> 10" "\<not> (\<not> walk_active walk \<or> sector \<noteq> rd_sector win)"
    and start: "md_record_start r = walk_cursor walk - 16"
    using stored walk win(3) by (auto simp: md_wf_def)
  have "wp (decode_file_md_record win sector (walk_cursor walk)) (\<lambda>res fs'. case res of
      Inr (r', result, win') \<Rightarrow> viewed fs sector (rd_capacity win) fs' win' \<and> r' = r \<and> result = FFFS_MD_WALK_RECORD
    | Inl e \<Rightarrow> looked fs fs' \<and> e = FFFS_ERR_IO \<and> \<not> healthy fs) fs"
    using stored walk(3) by (intro decode_rule [OF geom win(1,2) sector]) auto
  then show ?thesis
    unfolding fffs_md_walk_next_def if_not_P [OF c(1)] if_not_P [OF c(2)] wp_bindm walk(2)
  proof (rule wp_mono, goal_cases)
    case (1 res fs')
    then show ?case
      by (cases res) (auto simp: wp_simps Let_def start md_data_end_def walk(1))
  qed
qed

text \<open>Looking for the first record that matches.\<close>

definition seek_body where
  "seek_body P result r (u :: unit) =
     (if result \<noteq> FFFS_MD_WALK_RECORD then throw FFFS_ERR_CORRUPT
      else if \<not> P r then ret (Inr ()) else ret (Inl (r :: fffs_md_record)))"

lemma walk_find_rule:
  assumes "geom fs" "coherent fs win" "16 \<le> rd_capacity win" "rd_sector win = sector"
    and "unat sector < fs_sector_count fs"
    and "walk_active walk" "walk_sector walk = sector" "walk_cursor walk \<le> fs_sector_size fs"
    and "md_stored fs (fmem fs) sector (walk_cursor walk) (walk_claimed_data_end walk) rs"
    and "find P rs = Some r"
  shows "wp (md_walk_loop (seek_body P) walk win ()) (\<lambda>res fs'. looked fs fs' \<and>
    (res = Inr (Inl r) \<or> res = Inl FFFS_ERR_IO \<and> \<not> healthy fs)) fs"
  using assms
proof (induction rs arbitrary: fs walk win)
  case (Cons q rs)
  have run: "md_walk_loop (seek_body P) walk win () fs =
      bindm (fffs_md_walk_next walk win) (\<lambda>(walk', window', record, result).
        bindm (seek_body P result record ()) (\<lambda>r. case r of Inl b \<Rightarrow> ret (Inl b)
          | Inr acc' \<Rightarrow> md_walk_loop (seek_body P) walk' window' acc')) fs"
    using Cons.prems(6) by (subst md_walk_loop.simps) simp
  show ?case
  proof (rule wp_eqI, rule run, unfold wp_bindm, rule wp_mono [OF walk_next_rule [OF Cons.prems(1-9)]], goal_cases)
    case (1 res fs1)
    show ?case
    proof (cases res)
      case (Inr x)
      define walk1 where "walk1 = walk\<lparr>walk_cursor := walk_cursor walk - 16,
          walk_claimed_data_end := max (walk_claimed_data_end walk) (md_data_end q),
          walk_active := \<not> walk_cursor walk - 16 \<le> max (walk_claimed_data_end walk) (md_data_end q)\<rparr>"
      obtain win1 where x: "x = (walk1, win1, q, FFFS_MD_WALK_RECORD)"
        and v: "viewed fs sector (rd_capacity win) fs1 win1"
        using 1 Inr by (auto simp: walk1_def)
      then have l: "looked fs fs1" by (simp add: viewed_def)
      show ?thesis
      proof (cases "P q")
        case True
        with Cons.prems(10) l Inr x show ?thesis by (simp add: wp_simps seek_body_def)
      next
        case False
        then have find: "find P rs = Some r" using Cons.prems(10) by simp
        then have "rs \<noteq> []" by auto
        then have act: "walk_active walk1" using Cons.prems(9) by (auto simp: walk1_def)
        have "wp (md_walk_loop (seek_body P) walk1 win1 ()) (\<lambda>res fs'. looked fs1 fs' \<and>
            (res = Inr (Inl r) \<or> res = Inl FFFS_ERR_IO \<and> \<not> healthy fs1)) fs1"
          using v Cons.prems looked_fields [OF l] coherent_looked [OF l] md_stored_looked [OF l]
          by (intro Cons.IH looked_geom [OF l] act find) (auto simp: viewed_def walk1_def)
        then have "wp (md_walk_loop (seek_body P) walk1 win1 ()) (\<lambda>res fs'. looked fs fs' \<and>
            (res = Inr (Inl r) \<or> res = Inl FFFS_ERR_IO \<and> \<not> healthy fs)) fs1"
          by (rule wp_mono) (use looked_trans [OF l] looked_fields(6) [OF l] in auto)
        with False Inr x show ?thesis by (simp add: wp_simps seek_body_def)
      qed
    qed (use 1 in auto)
  qed
qed simp

end

lemma live_footer_decode:
  assumes "state_live st"
  shows "(ft_erased (fffs_decode_sector_footer (footer_with_state serial st)) \<or>
     ft_type (fffs_decode_sector_footer (footer_with_state serial st)) \<noteq> FFFS_SECTOR_TYPE_FILE \<or>
     \<not> ft_magic_valid (fffs_decode_sector_footer (footer_with_state serial st)) \<or>
     \<not> fffs_lifecycle_is_live (ft_valid_bits (fffs_decode_sector_footer (footer_with_state serial st)))
         (ft_tombstone_bits (fffs_decode_sector_footer (footer_with_state serial st)))) = False"
  using assms decode_footer_with_state [of serial st]
  by (simp add: fffs_decode_sector_footer_def state_live_def)

context reliable_flash
begin

lemma read_md_via:
  assumes geom: "geom fs" and sector: "data_sector fs sector"
    and footer: "footer_bytes fs sector = footer_with_state serial st" "state_live st"
    and loop: "\<And>fs1 win walk. looked fs fs1 \<Longrightarrow> coherent fs1 win \<Longrightarrow> rd_capacity win = 128 \<Longrightarrow>
      rd_sector win = sector \<Longrightarrow> walk_active walk \<Longrightarrow> walk_sector walk = sector \<Longrightarrow>
      walk_cursor walk = fs_sector_size fs - 10 \<Longrightarrow> walk_claimed_data_end walk = 0 \<Longrightarrow>
      wp (md_walk_loop (seek_body (\<lambda>r. md_record_matches_slot r slot mt)) walk win ())
        (\<lambda>res fs'. looked fs fs' \<and> R res) fs1"
  shows "wp (read_md_for_slot sector slot mt) (\<lambda>res fs'. looked fs fs' \<and>
    (case res of
       Inr r \<Rightarrow> R (Inr (Inl r))
     | Inl e \<Rightarrow> R (Inl e) \<or> R (Inr (Inr ())) \<or> e = FFFS_ERR_IO \<and> \<not> healthy fs)) fs"
proof -
  have ss: "256 \<le> fs_sector_size fs" using geom by (simp add: geom_def)
  have sc: "unat sector < fs_sector_count fs" using sector by (simp add: data_sector_def)
  have valid: "\<not> \<not> valid_data_sector fs sector"
    using sector by (auto simp: valid_data_sector_def data_sector_def)
  have foot: "sub_bytes (unat sector * fs_sector_size fs + (fs_sector_size fs - 10)) 10 (fmem fs) =
      footer_with_state serial st"
    using footer(1) ss by (simp add: footer_bytes_def fffs_sector_footer_offset_def)
  have body: "(\<lambda>result record _. if result \<noteq> FFFS_MD_WALK_RECORD then throw FFFS_ERR_CORRUPT
      else if \<not> md_record_matches_slot record slot mt then ret (Inr ()) else ret (Inl record)) =
      seek_body (\<lambda>r. md_record_matches_slot r slot mt)"
    by (simp add: seek_body_def fun_eq_iff)
  show ?thesis
    unfolding read_md_for_slot_def wp_bindm wp_getm sum.case id_apply Let_def if_not_P [OF valid] body
  proof (rule wp_mono [OF view_rule [OF geom coherent_fresh sc]], goal_cases)
    case (3 res fs1)
    show ?case
    proof (cases res)
      case (Inr x)
      obtain win where x: "x = (footer_with_state serial st, win)" and v: "viewed fs sector 128 fs1 win"
        using 3 Inr foot by (auto simp: sector_reader_def)
      then have l: "looked fs fs1" and w: "coherent fs1 win" "rd_capacity win = 128" "rd_sector win = sector"
        by (auto simp: viewed_def coherent_looked)
      note f = looked_fields [OF l]
      have init: "\<not> (rd_capacity win < 16 + 10 \<or> unat sector < unat (fs_index_sectors fs1) \<or>
          unat sector \<ge> fs_sector_count fs1)" "\<not> rd_sector win \<noteq> sector"
        using w sector f by (auto simp: data_sector_def)
      have "wp (md_walk_loop (seek_body (\<lambda>r. md_record_matches_slot r slot mt))
          (zero_walk\<lparr>walk_sector := sector, walk_cursor := fs_sector_size fs1 - 10,
             walk_live_bytes := of_nat 10, walk_active := True\<rparr>) win ())
          (\<lambda>res fs'. looked fs fs' \<and> R res) fs1"
        by (rule loop [OF l w]) (simp_all add: f zero_walk_def)
      then show ?thesis
        unfolding Inr x sum.case prod.case live_footer_decode [OF footer(2)] if_False fffs_md_walk_init_def
          wp_bindm wp_getm wp_ret id_apply if_not_P [OF init(1)] if_not_P [OF init(2)]
        by (rule wp_mono) (auto simp: wp_simps split: sum.splits)
    qed (use 3 in auto)
  qed (use ss in \<open>auto simp: sector_reader_def\<close>)
qed

lemma read_md_rule:
  assumes "geom fs" "data_sector fs sector"
    and "footer_bytes fs sector = footer_with_state serial st" "state_live st"
    and stored: "md_stored fs (fmem fs) sector (fs_sector_size fs - 10) 0 rs"
    and find: "find (\<lambda>r. md_record_matches_slot r slot mt) rs = Some r"
  shows "wp (read_md_for_slot sector slot mt) (\<lambda>res fs'. looked fs fs' \<and>
    (res = Inr r \<or> res = Inl FFFS_ERR_IO \<and> \<not> healthy fs)) fs"
proof (rule wp_mono [OF read_md_via [OF assms(1-4), where R = "\<lambda>res. res = Inr (Inl r) \<or> res = Inl FFFS_ERR_IO \<and> \<not> healthy fs"]],
    goal_cases)
  case (1 fs1 win walk)
  note f = looked_fields [OF 1(1)]
  have "wp (md_walk_loop (seek_body (\<lambda>r. md_record_matches_slot r slot mt)) walk win ()) (\<lambda>res fs'. looked fs1 fs' \<and>
      (res = Inr (Inl r) \<or> res = Inl FFFS_ERR_IO \<and> \<not> healthy fs1)) fs1"
    using 1 f assms(2) stored md_stored_looked [OF 1(1)]
    by (intro walk_find_rule [OF looked_geom [OF 1(1) assms(1)], where sector = sector and rs = rs] find)
      (auto simp: data_sector_def)
  then show ?case
    by (rule wp_mono) (use looked_trans [OF 1(1)] f(6) in auto)
qed (auto split: sum.splits)

end

section \<open>Writing records\<close>

text \<open>The record a reader gets from the bytes of \<open>extent_record\<close>.\<close>

definition extent_md ::
  "nat \<Rightarrow> u16 \<Rightarrow> byte \<Rightarrow> u16 \<Rightarrow> u16 \<Rightarrow> u16 \<Rightarrow> u32 \<Rightarrow> u16 \<Rightarrow> bool \<Rightarrow> fffs_md_record" where
  "extent_md start slot type data_off data_len span_len size_or_offset next live =
     \<lparr>md_type = type, md_state = (if live then FFFS_MD_FLAGS_VALID else 0xff), md_live = live,
      md_slot = slot, md_next = (if live then next else 0xffff),
      md_span_len = (if live then span_len else 0xffff), md_data_off = data_off, md_data_len = data_len,
      md_size_or_offset = (if type = FFFS_MD_TYPE_FILE_ROOT_V1 \<and> \<not> live then 0xffffffff else size_or_offset),
      md_record_start = start, md_record_len = FFFS_MD_FILE_RECORD_SIZE\<rparr>"

lemma replicate_4: "replicate 4 x = [x, x, x, x]"
  by (simp add: eval_nat_numeral)

lemma extent_record_bytes:
  "extent_record slot type data_off data_len span_len sz next live =
     md_bytes (extent_md start slot type data_off data_len span_len sz next live)"
  by (simp add: extent_record_def md_bytes_def extent_md_def store_ff replicate_4)

lemma state_live_ff: "\<not> state_live 0xff"
  by (simp add: state_live_iff)

lemma extent_md_wf:
  assumes "type = FFFS_MD_TYPE_FILE_ROOT_V1 \<or> type = FFFS_MD_TYPE_FILE_CONT_V1"
    and "unat data_off + unat data_len \<le> start"
    and "live \<Longrightarrow> span_len \<noteq> 0 \<and> unat sector + unat span_len \<le> fs_sector_count fs \<and>
      (next \<noteq> 0 \<longrightarrow> data_sector fs next)"
  shows "md_wf fs sector start (extent_md start slot type data_off data_len span_len sz next live)"
  using assms state_live_valid [OF live_VALID] state_live_ff
  by (auto simp: md_wf_def extent_md_def data_sector_def)

text \<open>Programming links, size and state over an uncommitted record gives the committed one.\<close>

lemma commit_bytes:
  assumes "type = FFFS_MD_TYPE_FILE_ROOT_V1"
  shows "nor_program 0 [FFFS_MD_FLAGS_VALID] (nor_program 11 (fffs_store_le32 sz)
      (nor_program 3 (fffs_store_le16 next @ fffs_store_le16 span_len)
        (extent_record slot type data_off data_len s0 z0 n0 False))) =
    extent_record slot type data_off data_len span_len sz next True"
  using assms
  by (simp add: extent_record_def fffs_store_le16_def fffs_store_le32_def nor_program_def
      sub_bytes_def put_bytes_def replicate_4)

text \<open>Appending a record below the others.\<close>

definition claims :: "nat \<Rightarrow> fffs_md_record list \<Rightarrow> nat" where
  "claims claimed rs = fold (\<lambda>r. max (md_data_end r)) rs claimed"

lemma md_stored_snoc:
  "md_stored fs flash sector cursor claimed (rs @ [r]) \<longleftrightarrow>
     md_stored fs flash sector cursor claimed rs \<and> 26 \<le> cursor - 16 * length rs \<and>
     sub_bytes (unat sector * fs_sector_size fs + (cursor - 16 * length rs - 16)) 16 flash = md_bytes r \<and>
     md_wf fs sector (cursor - 16 * length rs - 16) r \<and>
     (rs \<noteq> [] \<longrightarrow> claims claimed rs < cursor - 16 * length rs)"
proof (induction rs arbitrary: cursor claimed)
  case (Cons q rs)
  have "cursor - 16 - 16 * length rs = cursor - 16 * length (q # rs)" by simp
  then show ?case
    unfolding append_Cons md_stored.simps Cons.IH
    by (cases "rs = []") (auto simp: claims_def max.commute)
qed (auto simp: claims_def)

text \<open>Only the bytes below the footer matter.\<close>

lemma md_stored_flash:
  assumes "sub_bytes (unat sector * fs_sector_size fs) n flash' = sub_bytes (unat sector * fs_sector_size fs) n flash"
    and "cursor \<le> n"
  shows "md_stored fs flash' sector cursor claimed rs = md_stored fs flash sector cursor claimed rs"
  using assms(2)
proof (induction rs arbitrary: cursor claimed)
  case (Cons r rs)
  have "sub_bytes (unat sector * fs_sector_size fs + (cursor - 16)) 16 flash' =
      sub_bytes (unat sector * fs_sector_size fs + (cursor - 16)) 16 flash" if "26 \<le> cursor"
    using sub_bytes_sub_bytes [of "cursor - 16" 16 n "unat sector * fs_sector_size fs" flash']
      sub_bytes_sub_bytes [of "cursor - 16" 16 n "unat sector * fs_sector_size fs" flash] assms(1) that Cons.prems
    by simp
  with Cons show ?case by auto
qed simp

context reliable_flash
begin

text \<open>\<open>kept fs fs'\<close>: the device still works and the geometry is the same.\<close>

definition kept :: "'c fffs \<Rightarrow> 'c fffs \<Rightarrow> bool" where
  "kept fs fs' \<longleftrightarrow> geom fs' \<and> healthy fs' \<and> fs_sector_size fs' = fs_sector_size fs \<and>
     fs_sector_count fs' = fs_sector_count fs \<and> fs_index_sectors fs' = fs_index_sectors fs \<and>
     length (fmem fs') = length (fmem fs)"

lemma kept_trans: "kept fs fs' \<Longrightarrow> kept fs' fs'' \<Longrightarrow> kept fs fs''"
  by (simp add: kept_def)

lemma kept_refl: "geom fs \<Longrightarrow> healthy fs \<Longrightarrow> kept fs fs"
  by (simp add: kept_def)

lemma looked_kept: "looked fs fs' \<Longrightarrow> geom fs \<Longrightarrow> healthy fs \<Longrightarrow> kept fs fs'"
  by (simp add: kept_def looked_geom looked_fields)

lemma program_ok:
  assumes "geom fs" "healthy fs" "off + length data \<le> length (fmem fs)"
  shows "wp (fffs_flash_program_aligned off data) (\<lambda>r fs'. r = Inr () \<and> kept fs fs' \<and>
    fmem fs' = nor_program off data (fmem fs)) fs"
  by (rule program_rule [OF geom_fdev [OF assms(1)]])
    (use assms geom_set_ctx [OF assms(1)] stp_healthy in \<open>auto simp: kept_def\<close>)

definition sector_holds :: "'c fffs \<Rightarrow> u16 \<Rightarrow> u32 \<Rightarrow> byte \<Rightarrow> fffs_md_record list \<Rightarrow> bool" where
  "sector_holds fs sector serial st rs \<longleftrightarrow> data_sector fs sector \<and>
     footer_bytes fs sector = footer_with_state serial st \<and> state_live st \<and>
     md_stored fs (fmem fs) sector (fs_sector_size fs - 10) 0 rs"

lemma footer_bytes_eq:
  "geom fs \<Longrightarrow> footer_bytes fs sector =
     sub_bytes (unat sector * fs_sector_size fs + (fs_sector_size fs - 10)) 10 (fmem fs)"
  by (simp add: footer_bytes_def fffs_sector_footer_offset_def geom_def)

lemma mark_full_rule:
  assumes "geom fs" "healthy fs" "sector_holds fs sector serial st rs"
  shows "wp (fffs_mark_sector_full sector) (\<lambda>r fs'. r = Inr () \<and> kept fs fs' \<and>
    sector_holds fs' sector serial (st AND FFFS_LIFECYCLE_FULL) rs \<and>
    only (unat sector * fs_sector_size fs + (fs_sector_size fs - 10))
      (unat sector * fs_sector_size fs + fs_sector_size fs) (fmem fs) (fmem fs')) fs"
proof -
  let ?o = "fffs_sector_footer_offset fs sector" and ?base = "unat sector * fs_sector_size fs"
  have sec: "unat sector < fs_sector_count fs" using assms(3) by (simp add: sector_holds_def data_sector_def)
  note fit = footer_fits [OF assms(1) sec]
  have o: "?o = ?base + (fs_sector_size fs - 10)" using assms(1) by (simp add: fffs_sector_footer_offset_def geom_def)
  have run: "fffs_mark_sector_full sector fs = fffs_flash_program_aligned (?o + 5) [FFFS_SECTOR_FLAGS_FULL] fs"
    by (simp add: fffs_mark_sector_full_def bindm_getm)
  have live: "state_live (st AND FFFS_LIFECYCLE_FULL)"
    using assms(3) by (auto simp: sector_holds_def lifecycle_bits bit_simps)
  show ?thesis
  proof (rule wp_eqI, rule run, rule wp_mono [OF program_ok [OF assms(1,2)]], goal_cases)
    case (2 r fs')
    then have k: "kept fs fs'" and m: "fmem fs' = nor_program (?o + 5) [FFFS_SECTOR_FLAGS_FULL] (fmem fs)" by auto
    have foot: "sub_bytes ?o 10 (fmem fs') = footer_with_state serial (st AND FFFS_LIFECYCLE_FULL)"
      using program_inside [of 5 "[FFFS_SECTOR_FLAGS_FULL]" 10 ?o "fmem fs"] fit assms(3) m
      by (simp add: sector_holds_def footer_bytes_def program_state_byte)
    have "sub_bytes ?base (fs_sector_size fs - 10) (fmem fs') = sub_bytes ?base (fs_sector_size fs - 10) (fmem fs)"
      unfolding m using fit o by (intro sub_bytes_nor_program_disjoint) auto
    from md_stored_flash [OF this order_refl] assms(3)
    have "md_stored fs (fmem fs') sector (fs_sector_size fs - 10) 0 rs" by (simp add: sector_holds_def)
    moreover have "only (?base + (fs_sector_size fs - 10)) (?base + fs_sector_size fs) (fmem fs) (fmem fs')"
      unfolding m using o fit assms(1) by (intro only_program) (auto simp: geom_def)
    ultimately show ?case
      using k foot live assms(3) 2
        md_stored_cong [of fs' fs] o footer_bytes_eq [of fs']
      by (auto simp: kept_def sector_holds_def data_sector_def)
  qed (use fit in simp)
qed

end

lemma program_over_erased:
  assumes "sub_bytes a n m = replicate n 0xff" "a + n \<le> length m" "length data = n"
  shows "sub_bytes a n (nor_program a data m) = data"
  using program_erased [of a data m] assms by simp

lemma md_stored_above:
  assumes "sub_bytes (unat sector * fs_sector_size fs + lo) n flash' = sub_bytes (unat sector * fs_sector_size fs + lo) n flash"
    and "lo + 16 * length rs \<le> cursor" "cursor \<le> lo + n"
  shows "md_stored fs flash' sector cursor claimed rs = md_stored fs flash sector cursor claimed rs"
  using assms(2,3)
proof (induction rs arbitrary: cursor claimed)
  case (Cons r rs)
  have "unat sector * fs_sector_size fs + lo + (cursor - 16 - lo) = unat sector * fs_sector_size fs + (cursor - 16)"
    using Cons.prems by simp
  with sub_bytes_sub_bytes [of "cursor - 16 - lo" 16 n "unat sector * fs_sector_size fs + lo" flash']
      sub_bytes_sub_bytes [of "cursor - 16 - lo" 16 n "unat sector * fs_sector_size fs + lo" flash] assms(1) Cons.prems
  have "sub_bytes (unat sector * fs_sector_size fs + (cursor - 16)) 16 flash' =
      sub_bytes (unat sector * fs_sector_size fs + (cursor - 16)) 16 flash"
    by simp
  with Cons show ?case by auto
qed simp

context reliable_flash
begin

definition md_room :: "'c fffs \<Rightarrow> u16 \<Rightarrow> fffs_md_record list \<Rightarrow> nat \<Rightarrow> bool" where
  "md_room fs sector rs start \<longleftrightarrow> start = fs_sector_size fs - 10 - 16 * length rs - 16 \<and>
     26 \<le> fs_sector_size fs - 10 - 16 * length rs \<and>
     (rs \<noteq> [] \<longrightarrow> claims 0 rs < fs_sector_size fs - 10 - 16 * length rs) \<and>
     erased_span fs (unat sector * fs_sector_size fs + start) 16"

lemma holds_fresh:
  assumes geom: "geom fs" and sector: "data_sector fs sector" and room: "md_room fs sector [] start"
    and foot: "footer_bytes fs sector = replicate 10 0xff"
    and k: "kept fs fs'" and wf: "md_wf fs sector start r"
    and m: "fmem fs' = nor_program (unat sector * fs_sector_size fs + start)
      (md_bytes r @ fffs_encode_sector_footer serial True) (fmem fs)"
  shows "sector_holds fs' sector serial FFFS_SECTOR_FLAGS_VALID [r]"
proof -
  let ?base = "unat sector * fs_sector_size fs" and ?tail = "md_bytes r @ fffs_encode_sector_footer serial True"
  have sec: "unat sector < fs_sector_count fs" using sector by (simp add: data_sector_def)
  have start: "start = fs_sector_size fs - 26" and ss: "26 \<le> fs_sector_size fs - 10"
    using room by (auto simp: md_room_def)
  have fit: "?base + start + 26 \<le> length (fmem fs)"
    using sector_fits [OF geom sec, of start 26] start ss by simp
  have foot_at: "?base + start + 16 = ?base + (fs_sector_size fs - 10)" using start ss by simp
  have "sub_bytes (?base + start) (16 + 10) (fmem fs) = replicate 16 0xff @ replicate 10 0xff"
    unfolding sub_bytes_append foot_at footer_bytes_eq [OF geom, symmetric] foot
    using room unfolding md_room_def erased_span_def by blast
  then have er: "sub_bytes (?base + start) 26 (fmem fs) = replicate 26 0xff"
    by (simp add: replicate_add [symmetric])
  have tail: "sub_bytes (?base + start) 26 (fmem fs') = ?tail"
    unfolding m by (rule program_over_erased [OF er fit]) simp
  have "sub_bytes (?base + start) 16 (fmem fs') = md_bytes r"
    using sub_bytes_sub_bytes [of 0 16 26 "?base + start" "fmem fs'"] tail by simp
  moreover have "sub_bytes (?base + start + 16) 10 (fmem fs') = fffs_encode_sector_footer serial True"
    using sub_bytes_sub_bytes [of 16 10 26 "?base + start" "fmem fs'"] tail by (simp add: sub_bytes_def)
  ultimately show ?thesis
    using k sector wf start ss footer_bytes_eq [of fs'] foot_at
    by (simp add: sector_holds_def kept_def encode_footer_state data_sector_def md_wf_cong [of fs' fs])
qed

lemma holds_append:
  assumes geom: "geom fs" and room: "md_room fs sector rs start" and holds: "sector_holds fs sector serial st rs"
    and k: "kept fs fs'" and wf: "md_wf fs sector start r"
    and m: "fmem fs' = nor_program (unat sector * fs_sector_size fs + start) (md_bytes r) (fmem fs)"
  shows "sector_holds fs' sector serial st (rs @ [r])"
proof -
  let ?base = "unat sector * fs_sector_size fs"
  have sec: "unat sector < fs_sector_count fs" using holds by (simp add: sector_holds_def data_sector_def)
  have start: "start = fs_sector_size fs - 10 - 16 * length rs - 16"
    and ss: "26 \<le> fs_sector_size fs - 10 - 16 * length rs" using room by (auto simp: md_room_def)
  have fit: "?base + fs_sector_size fs \<le> length (fmem fs)"
    using sector_fits [OF geom sec, of 0 "fs_sector_size fs"] by simp
  have rec: "sub_bytes (?base + start) 16 (fmem fs') = md_bytes r"
    unfolding m using room fit start ss
    by (intro program_over_erased) (auto simp: md_room_def erased_span_def)
  have foot: "sub_bytes (?base + (fs_sector_size fs - 10)) 10 (fmem fs') =
      sub_bytes (?base + (fs_sector_size fs - 10)) 10 (fmem fs)"
    unfolding m using fit start ss by (intro sub_bytes_nor_program_disjoint) auto
  have "sub_bytes (?base + (start + 16)) (16 * length rs) (fmem fs') =
      sub_bytes (?base + (start + 16)) (16 * length rs) (fmem fs)"
    unfolding m using fit start ss by (intro sub_bytes_nor_program_disjoint) auto
  from md_stored_above [OF this] holds start ss
  have old: "md_stored fs (fmem fs') sector (fs_sector_size fs - 10) 0 rs"
    by (simp add: sector_holds_def)
  have "md_stored fs (fmem fs') sector (fs_sector_size fs - 10) 0 (rs @ [r])"
    using old room rec wf start ss by (auto simp: md_stored_snoc md_room_def)
  then show ?thesis
    using k holds foot footer_bytes_eq [of fs'] footer_bytes_eq [OF geom] md_stored_cong [of fs' fs]
    by (auto simp: sector_holds_def kept_def data_sector_def)
qed

end

text \<open>Two states with the same device and geometry.\<close>

definition same_core :: "'c fffs \<Rightarrow> 'c fffs \<Rightarrow> bool" where
  "same_core fs fs' \<longleftrightarrow> fs_backend fs' = fs_backend fs \<and> fs_sector_size fs' = fs_sector_size fs \<and>
     fs_sector_count fs' = fs_sector_count fs \<and> fs_index_sectors fs' = fs_index_sectors fs"

lemma same_core_upd:
  "same_core fs (fffs_alloc_map_mark_used sec fs)" "same_core fs (fs\<lparr>fs_next_sector_serial := n\<rparr>)"
  by (auto simp: same_core_def fffs_alloc_map_mark_used_def split: option.split)

context reliable_flash
begin

lemma same_core_facts:
  assumes "same_core fs fs'"
  shows "fmem fs' = fmem fs" "geom fs' = geom fs" "healthy fs' = healthy fs" "data_sector fs' = data_sector fs"
    "footer_bytes fs' = footer_bytes fs" "md_room fs' = md_room fs" "md_wf fs' = md_wf fs"
    "sector_holds fs' = sector_holds fs" "kept x fs \<Longrightarrow> kept x fs'"
    "geom fs \<Longrightarrow> healthy fs \<Longrightarrow> kept fs fs'"
proof -
  have f: "fs_sector_size fs' = fs_sector_size fs" "fs_sector_count fs' = fs_sector_count fs"
    "fs_index_sectors fs' = fs_index_sectors fs" "fs_backend fs' = fs_backend fs"
    using assms by (simp_all add: same_core_def)
  show m: "fmem fs' = fmem fs" using f by (simp add: fmem_def)
  show g: "geom fs' = geom fs" and h: "healthy fs' = healthy fs" and d: "data_sector fs' = data_sector fs"
    using f m by (simp_all add: geom_def fdev_def healthy_def data_sector_def fun_eq_iff)
  show b: "footer_bytes fs' = footer_bytes fs"
    using f m by (simp add: footer_bytes_def fffs_sector_footer_offset_def fun_eq_iff)
  show "md_room fs' = md_room fs" using f m by (simp add: md_room_def erased_span_def fun_eq_iff)
  show "md_wf fs' = md_wf fs" using f by (simp add: md_wf_def fun_eq_iff)
  show "sector_holds fs' = sector_holds fs"
    using f(1) md_stored_cong [OF f(1-3)] by (simp add: sector_holds_def b m d fun_eq_iff)
  show "kept x fs \<Longrightarrow> kept x fs'" "geom fs \<Longrightarrow> healthy fs \<Longrightarrow> kept fs fs'"
    using f m g h by (simp_all add: kept_def)
qed

text \<open>A sector that has become full is marked, in its footer and in the allocation map.\<close>

lemma full_hint_rule:
  assumes "geom fs" "healthy fs" "sector_holds fs sector serial st rs"
  shows "wp (if b then seqm (fffs_mark_sector_full sector) (modm (fffs_alloc_map_mark_used sector)) else ret ())
    (\<lambda>r fs'. r = Inr () \<and> kept fs fs' \<and> (\<exists>st'. sector_holds fs' sector serial st' rs) \<and>
      only (unat sector * fs_sector_size fs + (fs_sector_size fs - 10))
        (unat sector * fs_sector_size fs + fs_sector_size fs) (fmem fs) (fmem fs')) fs"
proof (cases b)
  case True
  then show ?thesis
    unfolding if_P [OF True] wp_seqm
    by (intro wp_mono [OF mark_full_rule [OF assms]])
      (auto simp: wp_simps same_core_facts [OF same_core_upd(1)])
qed (use assms in \<open>auto simp: wp_simps kept_refl\<close>)

lemma program_extent_rule:
  assumes geom: "geom fs" and healthy: "healthy fs" and sector: "data_sector fs sector"
    and type: "type = FFFS_MD_TYPE_FILE_ROOT_V1 \<or> type = FFFS_MD_TYPE_FILE_CONT_V1"
    and room: "md_room fs sector rs (unat record_off)"
    and wf: "md_wf fs sector (unat record_off) (extent_md (unat record_off) slot type data_off data_len span_len sz next live)"
    and pre: "if write_footer then rs = [] \<and> footer_bytes fs sector = replicate 10 0xff
      else \<exists>serial st. sector_holds fs sector serial st rs"
  shows "wp (fffs_program_extent_metadata sector slot type data_off record_off write_footer data_len span_len sz next live)
    (\<lambda>r fs'. r = Inr () \<and> kept fs fs' \<and> (\<exists>serial st. sector_holds fs' sector serial st
      (rs @ [extent_md (unat record_off) slot type data_off data_len span_len sz next live])) \<and>
      only (unat sector * fs_sector_size fs + unat record_off)
        (unat sector * fs_sector_size fs + fs_sector_size fs) (fmem fs) (fmem fs')) fs"
proof -
  let ?r = "extent_md (unat record_off) slot type data_off data_len span_len sz next live"
  let ?base = "unat sector * fs_sector_size fs"
  have sec: "unat sector < fs_sector_count fs" using sector by (simp add: data_sector_def)
  have t: "(type \<noteq> FFFS_MD_TYPE_FILE_ROOT_V1 \<and> type \<noteq> FFFS_MD_TYPE_FILE_CONT_V1) = False" using type by auto
  have start: "unat record_off + 16 + 10 \<le> fs_sector_size fs"
    using room geom by (auto simp: md_room_def geom_def)
  have fit: "?base + unat record_off + 26 \<le> length (fmem fs)"
    using sector_fits [OF geom sec, of "unat record_off" 26] start by simp
  have hint: "only (?base + unat record_off) (?base + fs_sector_size fs) (fmem fs) (fmem fs2)"
    if "only (?base + unat record_off) (?base + fs_sector_size fs) (fmem fs) (fmem fs1)"
      "only (?base + (fs_sector_size fs - 10)) (?base + fs_sector_size fs) (fmem fs1) (fmem fs2)" for fs1 fs2
    by (rule only_trans [OF that(1) only_mono [OF that(2)]]) (use start in simp_all)
  show ?thesis
  proof (cases write_footer)
    case False
    then obtain serial st where holds: "sector_holds fs sector serial st rs" using pre by auto
    show ?thesis
      unfolding fffs_program_extent_metadata_def t if_False Let_def if_not_P [OF False] wp_bindm wp_ret wp_getm
        sum.case id_apply wp_seqm extent_record_bytes [where start = "unat record_off"]
    proof (rule wp_mono [OF program_ok [OF geom healthy]], goal_cases)
      case (2 r fs1)
      then have k: "kept fs fs1" and m: "fmem fs1 = nor_program (?base + unat record_off) (md_bytes ?r) (fmem fs)"
        and r: "r = Inr ()" by auto
      have "sector_holds fs1 sector serial st (rs @ [?r])" by (rule holds_append [OF geom room holds k wf m])
      moreover have "only (?base + unat record_off) (?base + fs_sector_size fs) (fmem fs) (fmem fs1)"
        unfolding m using start fit by (intro only_program) auto
      ultimately show ?case
        unfolding r sum.case using k hint by (intro wp_mono [OF full_hint_rule]) (auto simp: kept_def)
    qed (use fit in simp)
  next
    case True
    then have rs: "rs = []" and foot: "footer_bytes fs sector = replicate 10 0xff" using pre by auto
    let ?serial = "fs_next_sector_serial fs"
    define fs0 where "fs0 = fs\<lparr>fs_next_sector_serial := (if ?serial + 1 = 0 then 1 else ?serial + 1)\<rparr>"
    have core: "same_core fs fs0" by (simp add: fs0_def same_core_upd)
    note c = same_core_facts [OF core]
    have size: "fs_sector_size fs0 = fs_sector_size fs" by (simp add: fs0_def)
    have pre0: "geom fs0" "healthy fs0" "data_sector fs0 sector" "md_room fs0 sector [] (unat record_off)"
      "footer_bytes fs0 sector = replicate 10 0xff" "md_wf fs0 sector (unat record_off) ?r"
      using geom healthy sector room foot wf rs by (simp_all add: c)
    show ?thesis
      unfolding fffs_program_extent_metadata_def t if_False Let_def if_P [OF True] claim_sector_serial_def
        wp_bindm wp_seqm wp_modm wp_ret wp_getm sum.case id_apply fs0_def [symmetric]
        extent_record_bytes [where start = "unat record_off"]
    proof (rule wp_mono [OF program_ok [OF pre0(1,2)]], goal_cases)
      case (2 r fs1)
      then have k: "kept fs0 fs1" and r: "r = Inr ()"
        and m: "fmem fs1 = nor_program (unat sector * fs_sector_size fs0 + unat record_off)
          (md_bytes ?r @ fffs_encode_sector_footer ?serial True) (fmem fs0)" by auto
      have "sector_holds fs1 sector ?serial FFFS_SECTOR_FLAGS_VALID [?r]"
        by (rule holds_fresh [OF pre0(1,3-5) k pre0(6) m])
      moreover have "kept fs fs1" using k c(1) size by (simp add: kept_def fs0_def)
      moreover have "only (?base + unat record_off) (?base + fs_sector_size fs) (fmem fs) (fmem fs1)"
        unfolding m c size using start fit by (intro only_program) auto
      ultimately show ?case
        unfolding r sum.case rs append_Nil using hint by (intro wp_mono [OF full_hint_rule]) (auto simp: kept_def)
    qed (use fit c size in simp)
  qed
qed

end

lemma commit_bytes_cont:
  assumes "type = FFFS_MD_TYPE_FILE_CONT_V1"
  shows "nor_program 0 [FFFS_MD_FLAGS_VALID] (nor_program 3 (fffs_store_le16 next @ fffs_store_le16 span_len)
        (extent_record slot type data_off data_len s0 sz n0 False)) =
    extent_record slot type data_off data_len span_len sz next True"
  using assms
  by (simp add: extent_record_def fffs_store_le16_def fffs_store_le32_def nor_program_def
      sub_bytes_def put_bytes_def replicate_4)

fun md_closed :: "'c fffs \<Rightarrow> byte list \<Rightarrow> u16 \<Rightarrow> nat \<Rightarrow> nat \<Rightarrow> fffs_md_record list \<Rightarrow> bool" where
  "md_closed fs flash sector cursor claimed [] \<longleftrightarrow>
     10 < cursor \<longrightarrow> flash ! (unat sector * fs_sector_size fs + (cursor - 1)) = 0xff"
| "md_closed fs flash sector cursor claimed (r # rs) \<longleftrightarrow>
     max claimed (md_data_end r) < cursor - 16 \<longrightarrow>
     md_closed fs flash sector (cursor - 16) (max claimed (md_data_end r)) rs"

lemma md_closed_cong:
  "fs_sector_size fs' = fs_sector_size fs \<Longrightarrow>
     md_closed fs' flash sector cursor claimed rs = md_closed fs flash sector cursor claimed rs"
  by (induction rs arbitrary: cursor claimed) simp_all

context reliable_flash
begin

lemma md_closed_looked:
  "looked fs fs' \<Longrightarrow> md_closed fs' (fmem fs') sector cursor claimed rs = md_closed fs (fmem fs) sector cursor claimed rs"
  using md_closed_cong [OF looked_fields(2)] by (simp add: looked_fields)

lemma walk_end_rule:
  assumes geom: "geom fs" and win: "coherent fs win" "16 \<le> rd_capacity win" "rd_sector win = sector"
    and sector: "unat sector < fs_sector_count fs"
    and walk: "walk_active walk" "walk_sector walk = sector" "walk_cursor walk \<le> fs_sector_size fs"
    and closed: "md_closed fs (fmem fs) sector (walk_cursor walk) (walk_claimed_data_end walk) []"
  shows "wp (md_walk_loop (seek_body P) walk win ()) (\<lambda>res fs'. looked fs fs' \<and>
    (res = Inl FFFS_ERR_CORRUPT \<or> res = Inl FFFS_ERR_IO \<and> \<not> healthy fs)) fs"
proof -
  have run: "md_walk_loop (seek_body P) walk win () fs =
      bindm (fffs_md_walk_next walk win) (\<lambda>(walk', window', record, result).
        bindm (seek_body P result record ()) (\<lambda>r. case r of Inl b \<Rightarrow> ret (Inl b)
          | Inr acc' \<Rightarrow> md_walk_loop (seek_body P) walk' window' acc')) fs"
    using walk(1) by (subst md_walk_loop.simps) simp
  have c: "\<not> (\<not> walk_active walk \<or> sector \<noteq> rd_sector win)" using walk win by simp
  show ?thesis
  proof (cases "walk_cursor walk \<le> 10")
    case True
    show ?thesis
      by (rule wp_eqI, rule run)
        (simp add: fffs_md_walk_next_def walk win True wp_simps seek_body_def looked_refl geom_fdev [OF geom])
  next
    case False
    let ?pos = "unat sector * fs_sector_size fs + (walk_cursor walk - 1)"
    have "?pos + 1 \<le> length (fmem fs)"
      using sector_fits [OF geom sector, of "walk_cursor walk - 1" 1] walk(3) False by simp
    then have ff: "sub_bytes ?pos 1 (fmem fs) ! 0 = 0xff" using closed False by simp
    have "wp (fffs_md_walk_next walk win) (\<lambda>res fs'. looked fs fs' \<and>
        (case res of Inr (_, _, _, result) \<Rightarrow> result = FFFS_MD_WALK_END_ERASED
         | Inl e \<Rightarrow> e = FFFS_ERR_IO \<and> \<not> healthy fs)) fs"
      unfolding fffs_md_walk_next_def walk(2) if_not_P [OF c] if_not_P [OF False] wp_bindm decode_parse
      by (rule wp_mono [OF view_rule [OF geom win(1) sector]])
        (use walk(3) False win(2) ff in \<open>auto simp: wp_simps viewed_def split: sum.splits\<close>)
    then have "wp (bindm (fffs_md_walk_next walk win) (\<lambda>(walk', window', record, result).
        bindm (seek_body P result record ()) (\<lambda>r. case r of Inl b \<Rightarrow> ret (Inl b)
          | Inr acc' \<Rightarrow> md_walk_loop (seek_body P) walk' window' acc')))
        (\<lambda>res fs'. looked fs fs' \<and> (res = Inl FFFS_ERR_CORRUPT \<or> res = Inl FFFS_ERR_IO \<and> \<not> healthy fs)) fs"
      unfolding wp_bindm by (rule wp_mono) (auto simp: wp_simps seek_body_def split: sum.splits)
    with run show ?thesis by (rule wp_eqI)
  qed
qed

lemma walk_absent_rule:
  assumes "geom fs" "coherent fs win" "16 \<le> rd_capacity win" "rd_sector win = sector"
    and "unat sector < fs_sector_count fs"
    and "walk_active walk" "walk_sector walk = sector" "walk_cursor walk \<le> fs_sector_size fs"
    and "md_stored fs (fmem fs) sector (walk_cursor walk) (walk_claimed_data_end walk) rs"
    and "md_closed fs (fmem fs) sector (walk_cursor walk) (walk_claimed_data_end walk) rs"
    and "find P rs = None"
  shows "wp (md_walk_loop (seek_body P) walk win ()) (\<lambda>res fs'. looked fs fs' \<and>
    (res = Inl FFFS_ERR_CORRUPT \<or> res = Inr (Inr ()) \<or> res = Inl FFFS_ERR_IO \<and> \<not> healthy fs)) fs"
  using assms
proof (induction rs arbitrary: fs walk win)
  case Nil
  then show ?case by (intro wp_mono [OF walk_end_rule [of fs win sector walk]]) auto
next
  case (Cons q rs)
  have run: "md_walk_loop (seek_body P) walk win () fs =
      bindm (fffs_md_walk_next walk win) (\<lambda>(walk', window', record, result).
        bindm (seek_body P result record ()) (\<lambda>r. case r of Inl b \<Rightarrow> ret (Inl b)
          | Inr acc' \<Rightarrow> md_walk_loop (seek_body P) walk' window' acc')) fs"
    using Cons.prems(6) by (subst md_walk_loop.simps) simp
  show ?case
  proof (rule wp_eqI, rule run, unfold wp_bindm, rule wp_mono [OF walk_next_rule [OF Cons.prems(1-9)]], goal_cases)
    case (1 res fs1)
    show ?case
    proof (cases res)
      case (Inr x)
      define walk1 where "walk1 = walk\<lparr>walk_cursor := walk_cursor walk - 16,
          walk_claimed_data_end := max (walk_claimed_data_end walk) (md_data_end q),
          walk_active := \<not> walk_cursor walk - 16 \<le> max (walk_claimed_data_end walk) (md_data_end q)\<rparr>"
      obtain win1 where x: "x = (walk1, win1, q, FFFS_MD_WALK_RECORD)"
        and v: "viewed fs sector (rd_capacity win) fs1 win1"
        using 1 Inr by (auto simp: walk1_def)
      then have l: "looked fs fs1" by (simp add: viewed_def)
      have notP: "\<not> P q" "find P rs = None" using Cons.prems(11) by (simp_all split: if_splits)
      have "wp (md_walk_loop (seek_body P) walk1 win1 ()) (\<lambda>res fs'. looked fs fs' \<and>
          (res = Inl FFFS_ERR_CORRUPT \<or> res = Inr (Inr ()) \<or> res = Inl FFFS_ERR_IO \<and> \<not> healthy fs)) fs1"
      proof (cases "walk_active walk1")
        case True
        have "wp (md_walk_loop (seek_body P) walk1 win1 ()) (\<lambda>res fs'. looked fs1 fs' \<and>
            (res = Inl FFFS_ERR_CORRUPT \<or> res = Inr (Inr ()) \<or> res = Inl FFFS_ERR_IO \<and> \<not> healthy fs1)) fs1"
          using v Cons.prems looked_fields [OF l] coherent_looked [OF l] md_stored_looked [OF l] md_closed_looked [OF l] True
          by (intro Cons.IH looked_geom [OF l] notP(2)) (auto simp: viewed_def walk1_def)
        then show ?thesis by (rule wp_mono) (use looked_trans [OF l] looked_fields(6) [OF l] in auto)
      next
        case False
        then show ?thesis by (subst wp_def, subst md_walk_loop.simps) (simp add: ret_def l)
      qed
      with notP Inr x show ?thesis by (simp add: wp_simps seek_body_def)
    qed (use 1 in auto)
  qed
qed

lemma read_md_absent:
  assumes "geom fs" "sector_holds fs sector serial st rs"
    and "md_closed fs (fmem fs) sector (fs_sector_size fs - 10) 0 rs"
    and "find (\<lambda>r. md_record_matches_slot r slot mt) rs = None"
  shows "wp (read_md_for_slot sector slot mt) (\<lambda>res fs'. looked fs fs' \<and> (\<exists>e. res = Inl e)) fs"
proof -
  have h: "data_sector fs sector" "footer_bytes fs sector = footer_with_state serial st" "state_live st"
    "md_stored fs (fmem fs) sector (fs_sector_size fs - 10) 0 rs"
    using assms(2) by (auto simp: sector_holds_def)
  show ?thesis
  proof (rule wp_mono [OF read_md_via [OF assms(1) h(1-3), where R = "\<lambda>res. \<nexists>r. res = Inr (Inl r)"]], goal_cases)
    case (1 fs1 win walk)
    note f = looked_fields [OF 1(1)]
    have "wp (md_walk_loop (seek_body (\<lambda>r. md_record_matches_slot r slot mt)) walk win ()) (\<lambda>res fs'. looked fs1 fs' \<and>
        (res = Inl FFFS_ERR_CORRUPT \<or> res = Inr (Inr ()) \<or> res = Inl FFFS_ERR_IO \<and> \<not> healthy fs1)) fs1"
      using 1 f h assms(3) md_stored_looked [OF 1(1)] md_closed_looked [OF 1(1)]
      by (intro walk_absent_rule [OF looked_geom [OF 1(1) assms(1)], where sector = sector and rs = rs] assms(4))
        (auto simp: data_sector_def)
    then show ?case
      by (rule wp_mono) (use looked_trans [OF 1(1)] in auto)
  qed (auto split: sum.splits)
qed

end

lemma find_append_None: "find P xs = None \<Longrightarrow> find P (xs @ ys) = find P ys"
  by (induction xs) (simp_all split: if_splits)

context reliable_flash
begin

text \<open>Programming inside the sixteen bytes at \<open>a\<close> leaves everything above them alone.\<close>

definition patched :: "nat \<Rightarrow> nat \<Rightarrow> byte list \<Rightarrow> 'c fffs \<Rightarrow> 'c fffs \<Rightarrow> bool" where
  "patched a stop bytes fs fs' \<longleftrightarrow> kept fs fs' \<and> sub_bytes a 16 (fmem fs') = bytes \<and>
     sub_bytes (a + 16) (stop - (a + 16)) (fmem fs') = sub_bytes (a + 16) (stop - (a + 16)) (fmem fs) \<and>
     only a stop (fmem fs) (fmem fs')"

lemma patch_ok:
  assumes "patched a stop bytes fs fs1" "k + length data \<le> 16" "a + 16 \<le> stop" "stop \<le> length (fmem fs)"
  shows "wp (fffs_flash_program_aligned (a + k) data)
    (\<lambda>r fs'. r = Inr () \<and> patched a stop (nor_program k data bytes) fs fs') fs1"
proof -
  have g: "geom fs1" "healthy fs1" "length (fmem fs1) = length (fmem fs)"
    using assms(1) by (simp_all add: patched_def kept_def)
  show ?thesis
  proof (rule wp_mono [OF program_ok [OF g(1,2)]], goal_cases)
    case (2 r fs2)
    then have m: "fmem fs2 = nor_program (a + k) data (fmem fs1)" and k: "kept fs1 fs2" by auto
    have "sub_bytes a 16 (fmem fs2) = nor_program k data bytes"
      using program_inside [of k data 16 a "fmem fs1"] assms g m by (simp add: patched_def)
    moreover have "sub_bytes (a + 16) (stop - (a + 16)) (fmem fs2) = sub_bytes (a + 16) (stop - (a + 16)) (fmem fs1)"
      unfolding m using assms g by (intro sub_bytes_nor_program_disjoint) auto
    moreover have "only a stop (fmem fs1) (fmem fs2)"
      unfolding m using assms g by (intro only_program) auto
    ultimately show ?case
      using 2 assms(1) kept_trans [OF _ k] by (auto simp: patched_def intro: only_trans)
  qed (use assms g in simp)
qed

lemma patched_refl: "geom fs \<Longrightarrow> healthy fs \<Longrightarrow> sub_bytes a 16 (fmem fs) = bytes \<Longrightarrow> patched a stop bytes fs fs"
  by (simp add: patched_def kept_refl)

text \<open>Replacing the last record of a sector.\<close>

lemma holds_replace_last:
  assumes geom: "geom fs" and holds: "sector_holds fs sector serial st (rs @ [u])"
    and start: "start = fs_sector_size fs - 10 - 16 * length rs - 16"
    and patched: "patched (unat sector * fs_sector_size fs + start) (unat sector * fs_sector_size fs + fs_sector_size fs)
      (md_bytes r) fs fs'"
    and wf: "md_wf fs sector start r"
  shows "sector_holds fs' sector serial st (rs @ [r])"
proof -
  let ?base = "unat sector * fs_sector_size fs" and ?ss = "fs_sector_size fs"
  have k: "kept fs fs'" using patched by (simp add: patched_def)
  have room: "26 \<le> ?ss - 10 - 16 * length rs" using holds by (simp add: sector_holds_def md_stored_snoc)
  have up: "sub_bytes (?base + (start + 16)) (?ss - start - 16) (fmem fs') =
      sub_bytes (?base + (start + 16)) (?ss - start - 16) (fmem fs)"
  proof -
    have "?base + ?ss - (?base + start + 16) = ?ss - start - 16" by simp
    with patched show ?thesis by (simp add: patched_def add.assoc)
  qed
  have old: "md_stored fs (fmem fs') sector (?ss - 10) 0 rs"
    using md_stored_above [OF up, of rs "?ss - 10" 0] holds start room
    by (simp add: sector_holds_def md_stored_snoc)
  define d where "d = ?ss - 10 - (start + 16)"
  have d: "d + 10 \<le> ?ss - start - 16" and at: "?base + (start + 16) + d = ?base + (?ss - 10)"
    using start room by (simp_all add: d_def)
  have "sub_bytes (?base + (?ss - 10)) 10 (fmem fs') = sub_bytes (?base + (?ss - 10)) 10 (fmem fs)"
    unfolding at [symmetric] sub_bytes_sub_bytes [OF d, symmetric] up by (rule refl)
  moreover have "md_stored fs (fmem fs') sector (?ss - 10) 0 (rs @ [r])"
    using old holds patched wf start by (auto simp: md_stored_snoc sector_holds_def patched_def)
  ultimately show ?thesis
    using k holds footer_bytes_eq [of fs'] footer_bytes_eq [OF geom] md_stored_cong [of fs' fs]
    by (auto simp: sector_holds_def kept_def data_sector_def)
qed

lemma read_md_holds:
  assumes "geom fs" "sector_holds fs sector serial st rs"
    and "find (\<lambda>r. md_record_matches_slot r slot mt) rs = Some r"
  shows "wp (read_md_for_slot sector slot mt) (\<lambda>res fs'. looked fs fs' \<and>
    (res = Inr r \<or> res = Inl FFFS_ERR_IO \<and> \<not> healthy fs)) fs"
  using assms by (intro read_md_rule) (auto simp: sector_holds_def)

lemma looked_holds: "looked fs fs' \<Longrightarrow> sector_holds fs' = sector_holds fs"
  using md_stored_looked [of fs fs']
  by (simp add: sector_holds_def data_sector_def footer_bytes_def fffs_sector_footer_offset_def looked_fields fun_eq_iff)

text \<open>The commit of an extent written earlier: its links, for a root its size, then its state.\<close>

lemma finish_extent_rule:
  assumes geom: "geom fs" and healthy: "healthy fs"
    and type: "type = FFFS_MD_TYPE_FILE_ROOT_V1 \<or> type = FFFS_MD_TYPE_FILE_CONT_V1"
    and start: "start = fs_sector_size fs - 10 - 16 * length rs - 16"
    and holds: "sector_holds fs sector serial st
      (rs @ [extent_md start (f_slot file) type data_off data_len s0 sz n0 False])"
    and fresh: "find (\<lambda>r. md_record_matches_slot r (f_slot file) FFFS_MD_MATCH_UNCOMMITTED) rs = None"
    and root: "type = FFFS_MD_TYPE_FILE_CONT_V1 \<Longrightarrow> total_size = sz"
    and wf: "md_wf fs sector start (extent_md start (f_slot file) type data_off data_len span_len total_size next True)"
  shows "wp (fffs_finish_extent_metadata file sector next span_len total_size (type = FFFS_MD_TYPE_FILE_ROOT_V1) True False)
    (\<lambda>r fs'. r = Inr () \<and> kept fs fs' \<and> (\<exists>st. sector_holds fs' sector serial st
      (rs @ [extent_md start (f_slot file) type data_off data_len span_len total_size next True])) \<and>
      only (unat sector * fs_sector_size fs + start)
        (unat sector * fs_sector_size fs + fs_sector_size fs) (fmem fs) (fmem fs')) fs"
proof -
  let ?u = "extent_md start (f_slot file) type data_off data_len s0 sz n0 False"
  let ?r = "extent_md start (f_slot file) type data_off data_len span_len total_size next True"
  let ?a = "unat sector * fs_sector_size fs + start"
  let ?stop = "unat sector * fs_sector_size fs + fs_sector_size fs"
  have sec: "unat sector < fs_sector_count fs" using holds by (simp add: sector_holds_def data_sector_def)
  have room: "26 \<le> fs_sector_size fs - 10 - 16 * length rs"
    and u: "sub_bytes ?a 16 (fmem fs) = md_bytes ?u"
    using holds start by (simp_all add: sector_holds_def md_stored_snoc)
  have stop: "?a + 16 \<le> ?stop" "?stop \<le> length (fmem fs)"
    using start room sector_fits [OF geom sec, of 0 "fs_sector_size fs"] by simp_all
  have find: "find (\<lambda>r. md_record_matches_slot r (f_slot file) FFFS_MD_MATCH_UNCOMMITTED) (rs @ [?u]) = Some ?u"
    using fresh by (simp add: find_append_None md_record_matches_slot_def extent_md_def)
  show ?thesis
    unfolding fffs_finish_extent_metadata_def read_uncommitted_metadata_for_slot_def wp_bindm
  proof (rule wp_mono [OF read_md_holds [OF geom holds find]], goal_cases)
    case (1 res fs1)
    then have l: "looked fs fs1" and res: "res = Inr ?u" using healthy by auto
    note f = looked_fields [OF l]
    have p0: "patched ?a ?stop (md_bytes ?u) fs fs1"
      using u f looked_kept [OF l geom healthy] by (simp add: patched_def)
    have s: "md_record_start ?u = start" by (simp add: extent_md_def)
    define b1 where "b1 = nor_program 3 (fffs_store_le16 next @ fffs_store_le16 span_len) (md_bytes ?u)"
    define b2 where "b2 = (if type = FFFS_MD_TYPE_FILE_ROOT_V1 then nor_program 11 (fffs_store_le32 total_size) b1 else b1)"
    have b3: "nor_program 0 [FFFS_MD_FLAGS_VALID] b2 = md_bytes ?r"
      using type root commit_bytes [of type] commit_bytes_cont [of type]
      by (auto simp: b2_def b1_def extent_record_bytes [where start = start, symmetric])
    have step1: "wp (fffs_flash_program_aligned (?a + 3) (fffs_store_le16 next @ fffs_store_le16 span_len))
        (\<lambda>r fs'. r = Inr () \<and> patched ?a ?stop b1 fs fs') fs1"
      unfolding b1_def by (rule patch_ok [OF p0 _ stop]) simp
    have step2: "wp (whenm (type = FFFS_MD_TYPE_FILE_ROOT_V1) (fffs_flash_program_aligned (?a + 11) (fffs_store_le32 total_size)))
        (\<lambda>r fs'. r = Inr () \<and> patched ?a ?stop b2 fs fs') fs2" if "patched ?a ?stop b1 fs fs2" for fs2
      using patch_ok [OF that _ stop, of 11 "fffs_store_le32 total_size"] that by (auto simp: b2_def wp_whenm)
    have step3: "wp (fffs_flash_program_aligned ?a [FFFS_MD_FLAGS_VALID])
        (\<lambda>r fs'. r = Inr () \<and> patched ?a ?stop (md_bytes ?r) fs fs') fs2" if "patched ?a ?stop b2 fs fs2" for fs2
      using patch_ok [OF that _ stop, of 0 "[FFFS_MD_FLAGS_VALID]"] by (simp add: b3)
    have step4: "wp (if c then seqm (fffs_mark_sector_full sector) (modm (fffs_alloc_map_mark_used sector)) else ret ())
        (\<lambda>r fs'. r = Inr () \<and> kept fs fs' \<and> (\<exists>st. sector_holds fs' sector serial st (rs @ [?r])) \<and>
          only ?a ?stop (fmem fs) (fmem fs')) fs2"
      if "patched ?a ?stop (md_bytes ?r) fs fs2" for fs2 c
    proof -
      have k: "kept fs fs2" and o: "only ?a ?stop (fmem fs) (fmem fs2)" using that by (simp_all add: patched_def)
      have up: "only ?a ?stop (fmem fs) (fmem fs3)"
        if "only (unat sector * fs_sector_size fs + (fs_sector_size fs - 10)) ?stop (fmem fs2) (fmem fs3)" for fs3
        by (rule only_trans [OF o only_mono [OF that]]) (use start in simp_all)
      have "sector_holds fs2 sector serial st (rs @ [?r])"
        by (rule holds_replace_last [OF geom holds start that wf])
      then show ?thesis
        using k kept_trans [OF k] up by (intro wp_mono [OF full_hint_rule]) (auto simp: kept_def)
    qed
    show ?case
      unfolding res sum.case wp_getm id_apply Let_def wp_seqm f(2) s
      by (rule wp_mono [OF step1], elim conjE, hypsubst, unfold sum.case,
          rule wp_mono [OF step2], assumption, elim conjE, hypsubst, unfold sum.case wp_whenm if_True,
          rule wp_mono [OF step3], assumption, elim conjE, hypsubst, unfold sum.case if_False,
          rule step4)
  qed
qed

end

context reliable_flash
begin

text \<open>A record written into a fresh sector whose bytes above the data are erased.\<close>

lemma erased_sub: "erased_span fs off n \<Longrightarrow> a + k \<le> n \<Longrightarrow> erased_span fs (off + a) k"
  unfolding erased_span_def by (rule sub_bytes_part)

definition blank_above :: "'c fffs \<Rightarrow> u16 \<Rightarrow> nat \<Rightarrow> bool" where
  "blank_above fs sector data_end \<longleftrightarrow>
     erased_span fs (unat sector * fs_sector_size fs + data_end) (fs_sector_size fs - data_end)"

lemma blank_room:
  assumes "geom fs" "blank_above fs sector data_end" "data_end \<le> start" "start = fs_sector_size fs - 26"
  shows "md_room fs sector [] start" "footer_bytes fs sector = replicate 10 0xff"
proof -
  let ?base = "unat sector * fs_sector_size fs"
  have ss: "256 \<le> fs_sector_size fs" using assms(1) by (simp add: geom_def)
  have "erased_span fs (?base + data_end + (start - data_end)) 16"
    "erased_span fs (?base + data_end + (fs_sector_size fs - 10 - data_end)) 10"
    by (rule erased_sub [OF assms(2) [unfolded blank_above_def]], use assms(3,4) ss in simp)+
  moreover have "?base + data_end + (start - data_end) = ?base + start"
    "?base + data_end + (fs_sector_size fs - 10 - data_end) = ?base + (fs_sector_size fs - 10)"
    using assms(3,4) ss by simp_all
  ultimately show "md_room fs sector [] start" "footer_bytes fs sector = replicate 10 0xff"
    using assms(4) ss footer_bytes_eq [OF assms(1)] by (simp_all add: md_room_def erased_span_def)
qed

lemma blank_closed:
  assumes "geom fs" "unat sector < fs_sector_count fs" "blank_above fs sector (md_data_end r)"
    and o: "only (unat sector * fs_sector_size fs + start) stop (fmem fs) (fmem fs')"
    and "fs_sector_size fs' = fs_sector_size fs" "start = fs_sector_size fs - 26"
  shows "md_closed fs' (fmem fs') sector (fs_sector_size fs' - 10) 0 [r]"
proof -
  let ?base = "unat sector * fs_sector_size fs"
  have ss: "256 \<le> fs_sector_size fs" using assms(1) by (simp add: geom_def)
  have fit: "?base + fs_sector_size fs \<le> length (fmem fs)"
    using sector_fits [OF assms(1,2), of 0 "fs_sector_size fs"] by simp
  have "fmem fs' ! (?base + (start - 1)) = 0xff" if "md_data_end r < start"
  proof -
    have "erased_span fs (?base + md_data_end r + (start - 1 - md_data_end r)) 1"
      by (rule erased_sub [OF assms(3) [unfolded blank_above_def]]) (use assms(6) that ss in simp)
    moreover have "?base + md_data_end r + (start - 1 - md_data_end r) = ?base + (start - 1)" using that by simp
    ultimately have "erased_span fs (?base + (start - 1)) 1" by (simp only:)
    then have "sub_bytes (?base + (start - 1)) 1 (fmem fs) ! 0 = 0xff" by (simp add: erased_span_def)
    moreover have "?base + (start - 1) < length (fmem fs)" using fit assms(6) ss by simp
    ultimately show ?thesis using o that by (simp add: only_def)
  qed
  with assms(5,6) show ?thesis by (simp add: diff_diff_add)
qed

end

section \<open>Properties\<close>

text \<open>C9: The two-phase commit of a root extent.  After \<open>fffs_begin_extent_metadata\<close> into a sector
  whose bytes above the staged data are erased, a lookup of the slot does not find the file; after
  \<open>fffs_finish_extent_metadata\<close> it returns exactly the record written: slot, type, data range, and the
  link, span length and size of the second phase.\<close>

theorem two_phase_commit:
  assumes "emu.geom fs" and "emu.healthy fs" and "data_sector fs sector" and "f_head file = sector"
    and "unat record_off = fs_sector_size fs - 26"
    and "emu.blank_above fs sector (unat data_off + unat (f_root_payload_offset file + data_len))"
    and "unat data_off + unat (f_root_payload_offset file + data_len) \<le> unat record_off"
    and "span_len \<noteq> 0" and "unat sector + unat span_len \<le> fs_sector_count fs"
    and "next \<noteq> 0 \<longrightarrow> data_sector fs next"
  shows "wp (seqm (fffs_begin_extent_metadata file sector data_off record_off True data_len file_offset)
      (bindm (trym (fffs_read_md_for_slot sector (f_slot file))) (\<lambda>before.
        seqm (fffs_finish_extent_metadata file sector next span_len total_size True True False)
          (bindm (fffs_read_md_for_slot sector (f_slot file)) (\<lambda>after. ret (before, after))))))
    (\<lambda>r fs'. \<exists>e. r = Inr (Inl e, extent_md (unat record_off) (f_slot file) FFFS_MD_TYPE_FILE_ROOT_V1
       data_off (f_root_payload_offset file + data_len) span_len total_size next True)) fs"
proof -
  let ?len = "f_root_payload_offset file + data_len"
  let ?u = "extent_md (unat record_off) (f_slot file) FFFS_MD_TYPE_FILE_ROOT_V1 data_off ?len 0 0 0 False"
  let ?r = "extent_md (unat record_off) (f_slot file) FFFS_MD_TYPE_FILE_ROOT_V1 data_off ?len span_len total_size next True"
  note room = emu.blank_room [OF assms(1,6,7,5)]
  have u: "md_wf fs sector (unat record_off) ?u" and r: "md_wf fs sector (unat record_off) ?r"
    using assms by (auto intro!: extent_md_wf)
  have sec: "unat sector < fs_sector_count fs" using assms(3) by (simp add: data_sector_def)
  have data_end: "md_data_end ?u = unat data_off + unat ?len" by (simp add: md_data_end_def extent_md_def)
  have phase1: "wp (fffs_begin_extent_metadata file sector data_off record_off True data_len file_offset)
      (\<lambda>r fs'. r = Inr () \<and> emu.kept fs fs' \<and> (\<exists>serial st. emu.sector_holds fs' sector serial st [?u]) \<and>
        only (unat sector * fs_sector_size fs + unat record_off)
          (unat sector * fs_sector_size fs + fs_sector_size fs) (emu.fmem fs) (emu.fmem fs')) fs"
    using emu.program_extent_rule [OF assms(1-3) _ room(1), where write_footer = True] room(2) u assms(4)
    by (simp add: fffs_begin_extent_metadata_def Let_def)
  show ?thesis
    unfolding wp_seqm
  proof (rule wp_mono [OF phase1], elim conjE exE, goal_cases)
    case (1 res fs1 serial st)
    have g1: "emu.geom fs1" "emu.healthy fs1" and size: "fs_sector_size fs1 = fs_sector_size fs"
      using 1 by (simp_all add: emu.kept_def)
    have closed: "md_closed fs1 (emu.fmem fs1) sector (fs_sector_size fs1 - 10) 0 [?u]"
      using emu.blank_closed [OF assms(1) sec _ 1(3) size assms(5)] assms(6) data_end by metis
    note kept = 1(2) and holds = 1(4)
    have hidden: "find (\<lambda>r. md_record_matches_slot r (f_slot file) FFFS_MD_MATCH_LIVE) [?u] = None"
      by (simp add: md_record_matches_slot_def extent_md_def)
    show ?case
      unfolding \<open>res = Inr ()\<close> sum.case wp_bindm wp_trym wp_seqm fffs_read_md_for_slot_def
    proof (rule wp_mono [OF emu.read_md_absent [OF g1(1) 1(4) closed hidden]], elim conjE exE, goal_cases)
      case (1 res2 fs2 e)
      have l: "emu.looked fs1 fs2" using 1 by blast
      have g2: "emu.geom fs2" "emu.healthy fs2" "emu.sector_holds fs2 sector serial st ([] @ [?u])"
        "md_wf fs2 sector (unat record_off) ?r" "unat record_off = fs_sector_size fs2 - 10 - 16 * length [] - 16"
        using emu.looked_geom [OF l g1(1)] emu.looked_fields [OF l] emu.looked_holds [OF l] g1 holds r assms(5) kept
        by (auto simp: emu.kept_def md_wf_def)
      have "wp (fffs_finish_extent_metadata file sector next span_len total_size
            (FFFS_MD_TYPE_FILE_ROOT_V1 = FFFS_MD_TYPE_FILE_ROOT_V1) True False)
          (\<lambda>r fs'. r = Inr () \<and> emu.kept fs2 fs' \<and> (\<exists>st. emu.sector_holds fs' sector serial st ([] @ [?r]))) fs2"
        by (rule wp_mono [OF emu.finish_extent_rule [OF g2(1,2) _ g2(5,3) _ _ g2(4)]]) auto
      then have fin: "wp (fffs_finish_extent_metadata file sector next span_len total_size True True False)
          (\<lambda>r fs'. r = Inr () \<and> emu.kept fs2 fs' \<and> (\<exists>st. emu.sector_holds fs' sector serial st [?r])) fs2"
        by simp
      show ?case
        unfolding \<open>res2 = Inl e\<close> sum.case
      proof (rule wp_mono [OF fin], elim conjE exE, goal_cases)
        case (1 res3 fs3 st3)
        have "find (\<lambda>r. md_record_matches_slot r (f_slot file) FFFS_MD_MATCH_LIVE) [?r] = Some ?r"
          by (simp add: md_record_matches_slot_def extent_md_def)
        note look = emu.read_md_holds [OF _ 1(3) this]
        show ?case
          unfolding \<open>res3 = Inr ()\<close> sum.case
          by (rule wp_mono [OF look]) (use 1 in \<open>auto simp: emu.kept_def wp_simps\<close>)
      qed
    qed
  qed
qed

lemma find_append_Some: "find P xs = Some x \<Longrightarrow> find P (xs @ ys) = Some x"
  by (induction xs) (simp_all split: if_splits)

text \<open>C11: Several files share a sector.  Writing a live record below the records a sector already
  holds succeeds on a device without failures; the new file's slot then finds exactly the new record,
  and every slot that had a live record there still finds it, unchanged.\<close>

theorem extent_append_lookup:
  assumes "emu.geom fs" and "emu.healthy fs"
    and "emu.sector_holds fs sector serial st rs" and "emu.md_room fs sector rs (unat record_off)"
    and "type = FFFS_MD_TYPE_FILE_ROOT_V1 \<or> type = FFFS_MD_TYPE_FILE_CONT_V1"
    and "unat data_off + unat data_len \<le> unat record_off"
    and "span_len \<noteq> 0" and "unat sector + unat span_len \<le> fs_sector_count fs"
    and "next \<noteq> 0 \<longrightarrow> data_sector fs next"
    and "find (\<lambda>r. md_record_matches_slot r slot FFFS_MD_MATCH_LIVE) rs = None"
    and "find (\<lambda>r. md_record_matches_slot r other FFFS_MD_MATCH_LIVE) rs = Some q"
  shows "wp (seqm (fffs_program_extent_metadata sector slot type data_off record_off False data_len span_len
        size_or_offset next True)
      (bindm (fffs_read_md_for_slot sector slot) (\<lambda>new.
        bindm (fffs_read_md_for_slot sector other) (\<lambda>old. ret (new, old)))))
    (\<lambda>r fs'. r = Inr (extent_md (unat record_off) slot type data_off data_len span_len size_or_offset next True, q)) fs"
proof -
  let ?r = "extent_md (unat record_off) slot type data_off data_len span_len size_or_offset next True"
  have sec: "data_sector fs sector" using assms(3) by (simp add: emu.sector_holds_def)
  have wf: "md_wf fs sector (unat record_off) ?r" using assms by (auto intro!: extent_md_wf)
  have new: "find (\<lambda>r. md_record_matches_slot r slot FFFS_MD_MATCH_LIVE) (rs @ [?r]) = Some ?r"
    using assms(10) by (simp add: find_append_None md_record_matches_slot_def extent_md_def)
  have old: "find (\<lambda>r. md_record_matches_slot r other FFFS_MD_MATCH_LIVE) (rs @ [?r]) = Some q"
    using assms(11) by (simp add: find_append_Some)
  show ?thesis
    unfolding wp_seqm
  proof (rule wp_mono [OF emu.program_extent_rule [OF assms(1,2) sec assms(5,4) wf, where write_footer = False]],
      use assms(3) in auto, goal_cases)
    case (1 fs1 serial1 st1)
    from 1 have holds1: "emu.sector_holds fs1 sector serial1 st1 (rs @ [?r])" by blast
    from 1 have g: "emu.geom fs1" "emu.healthy fs1" by (simp_all add: emu.kept_def)
    show ?case
      unfolding wp_bindm fffs_read_md_for_slot_def
    proof (rule wp_mono [OF emu.read_md_holds [OF g(1) holds1 new]], goal_cases)
      case (1 res fs2)
      then have l: "emu.looked fs1 fs2" and res: "res = Inr ?r" using g(2) by auto
      have h: "emu.geom fs2" "emu.healthy fs2" "emu.sector_holds fs2 sector serial1 st1 (rs @ [?r])"
        using emu.looked_geom [OF l g(1)] emu.looked_fields(6) [OF l g(2)] emu.looked_holds [OF l] holds1 by simp_all
      show ?case
        unfolding res sum.case
        by (rule wp_mono [OF emu.read_md_holds [OF h(1,3) old]]) (use h(2) in \<open>auto simp: wp_simps\<close>)
    qed
  qed
qed


text \<open>C25: The erased-span check reads the span in pieces of the scratch buffer and gives the verdict on
  the whole of it: success exactly when every byte is \<open>0xff\<close>, \<open>FFFS_ERR_NO_SPACE\<close> otherwise.  It always
  returns and does not change the flash.\<close>

theorem span_is_erased_exact:
  assumes "emu.geom fs" and "emu.healthy fs" and "fs_scratch_size fs \<noteq> 0" and "off + n \<le> length (emu.fmem fs)"
  shows "wp (fffs_flash_span_is_erased off n) (\<lambda>r fs'.
    r = (if \<forall>i < n. emu.fmem fs ! (off + i) = 0xff then Inr () else Inl FFFS_ERR_NO_SPACE) \<and>
    emu.fmem fs' = emu.fmem fs) fs"
proof -
  have "emu.erased_span fs off n \<longleftrightarrow> (\<forall>i < n. emu.fmem fs ! (off + i) = 0xff)"
    using assms(4) by (simp add: emu.erased_span_def list_eq_iff_nth_eq)
  then show ?thesis
    by (intro wp_mono [OF emu.span_erased_rule [OF emu.geom_fdev [OF assms(1)] assms(3,4)]])
      (use assms(2) in \<open>auto simp: emu.looked_fields\<close>)
qed

text \<open>The four-sector emulator: a committed root in its last sector.\<close>

definition example_handle :: fffs_file where
  "example_handle = zero_file\<lparr>f_head := 3, f_slot := 7, f_root_payload_offset := 5\<rparr>"

lemma example_fs_blank: "emu.blank_above example_fs 3 25"
  unfolding emu.blank_above_def emu.erased_span_def example_fs_mem
  by (simp add: example_fs_def sub_bytes_def)

theorem two_phase_commit_witness:
  "wp (seqm (fffs_begin_extent_metadata example_handle 3 0 230 True 20 0)
      (bindm (trym (fffs_read_md_for_slot 3 7)) (\<lambda>before.
        seqm (fffs_finish_extent_metadata example_handle 3 0 1 20 True True False)
          (bindm (fffs_read_md_for_slot 3 7) (\<lambda>after. ret (before, after))))))
    (\<lambda>r fs'. \<exists>e. r = Inr (Inl e, extent_md 230 7 FFFS_MD_TYPE_FILE_ROOT_V1 0 25 1 20 0 True)) example_fs"
  using two_phase_commit [OF example_fs_geom example_fs_sector, of example_handle 230 0 20 1 0 0 20] example_fs_blank
  by (simp add: example_handle_def zero_file_def example_fs_def zero_fs_def)

theorem span_is_erased_exact_witness:
  "wp (fffs_flash_span_is_erased 768 256) (\<lambda>r fs'. r = Inr () \<and>
    emu.fmem fs' = emu.fmem (example_fs\<lparr>fs_scratch_size := 64\<rparr>)) (example_fs\<lparr>fs_scratch_size := 64\<rparr>)"
proof -
  let ?fs = "example_fs\<lparr>fs_scratch_size := 64\<rparr>"
  have m: "emu.fmem ?fs = replicate 1024 0xff" using example_fs_mem by (simp add: emu.fmem_def)
  have "emu.geom ?fs" "emu.healthy ?fs"
    using example_fs_geom m example_fs_mem by (simp_all add: emu.geom_def emu.fdev_def emu.healthy_def)
  from span_is_erased_exact [OF this, of 768 256] m show ?thesis
    by (auto elim!: wp_mono split: if_splits)
qed

definition example_root :: fffs_md_record where
  "example_root = extent_md 230 7 FFFS_MD_TYPE_FILE_ROOT_V1 0 25 1 20 0 True"

definition example_fs_root :: "ffsv_flash fffs" where
  "example_fs_root = snd (the (fffs_program_extent_metadata 3 7 FFFS_MD_TYPE_FILE_ROOT_V1 0 230 True 25 1 20 0 True
     example_fs))"

lemma example_fs_root_facts:
  "emu.geom example_fs_root" "emu.healthy example_fs_root"
  "\<exists>serial st. emu.sector_holds example_fs_root 3 serial st [example_root]"
  "emu.md_room example_fs_root 3 [example_root] 214" "fs_sector_count example_fs_root = 4"
  "only 998 1024 (replicate 1024 0xff) (emu.fmem example_fs_root)" "fs_sector_size example_fs_root = 256"
proof -
  have size: "fs_sector_size example_fs = 256" "fs_sector_count example_fs = 4"
    by (simp_all add: example_fs_def zero_fs_def)
  have b: "25 \<le> (230 :: nat)" "230 = fs_sector_size example_fs - 26" by (simp_all add: size)
  have wf: "md_wf example_fs 3 (unat (230 :: u16)) (extent_md (unat (230 :: u16)) 7 FFFS_MD_TYPE_FILE_ROOT_V1 0 25 1 20 0 True)"
    using size by (intro extent_md_wf) auto
  have room: "emu.md_room example_fs 3 [] (unat (230 :: u16))" and foot: "emu.footer_bytes example_fs 3 = replicate 10 0xff"
    using emu.blank_room [OF example_fs_geom(1) example_fs_blank b] by simp_all
  have "wp (fffs_program_extent_metadata 3 7 FFFS_MD_TYPE_FILE_ROOT_V1 0 230 True 25 1 20 0 True)
    (\<lambda>r fs'. r = Inr () \<and> emu.kept example_fs fs' \<and> (\<exists>serial st. emu.sector_holds fs' 3 serial st ([] @ [example_root])) \<and>
      only (768 + 230) 1024 (emu.fmem example_fs) (emu.fmem fs')) example_fs"
    using emu.program_extent_rule [OF example_fs_geom example_fs_sector _ room wf, where write_footer = True] foot size
    by (simp add: example_root_def)
  then have k: "emu.kept example_fs example_fs_root"
    and h: "\<exists>serial st. emu.sector_holds example_fs_root 3 serial st [example_root]"
    and o: "only 998 1024 (replicate 1024 0xff) (emu.fmem example_fs_root)"
    unfolding wp_iff example_fs_root_def example_fs_mem append_Nil by (elim exE conjE, simp, blast?)+
  show "only 998 1024 (replicate 1024 0xff) (emu.fmem example_fs_root)" by (rule o)
  show "emu.geom example_fs_root" "emu.healthy example_fs_root" "fs_sector_count example_fs_root = 4"
    "fs_sector_size example_fs_root = 256"
    using k size by (simp_all add: emu.kept_def)
  show "\<exists>serial st. emu.sector_holds example_fs_root 3 serial st [example_root]" by (rule h)
  have "sub_bytes 982 16 (emu.fmem example_fs_root) = replicate 16 0xff"
    using o by (intro nth_equalityI) (auto simp: only_def)
  then show "emu.md_room example_fs_root 3 [example_root] 214"
    using k size by (simp add: emu.md_room_def emu.erased_span_def emu.kept_def claims_def example_root_def
        md_data_end_def extent_md_def)
qed

theorem extent_append_lookup_witness:
  "wp (seqm (fffs_program_extent_metadata 3 9 FFFS_MD_TYPE_FILE_ROOT_V1 25 214 False 30 1 25 0 True)
      (bindm (fffs_read_md_for_slot 3 9) (\<lambda>new.
        bindm (fffs_read_md_for_slot 3 7) (\<lambda>old. ret (new, old)))))
    (\<lambda>r fs'. r = Inr (extent_md 214 9 FFFS_MD_TYPE_FILE_ROOT_V1 25 30 1 25 0 True, example_root)) example_fs_root"
proof -
  from example_fs_root_facts(3) obtain serial st
    where h: "emu.sector_holds example_fs_root 3 serial st [example_root]" by blast
  have "md_slot example_root = 7" "md_live example_root" by (simp_all add: example_root_def extent_md_def)
  then show ?thesis
    using extent_append_lookup [OF example_fs_root_facts(1,2) h, of 214 FFFS_MD_TYPE_FILE_ROOT_V1 25 30 1 0 9 7 example_root 25]
      example_fs_root_facts(4,5)
    by (simp add: md_record_matches_slot_def)
qed

end
