(* ===== verification/Fffs_Confine.thy ===== *)
theory Fffs_Confine
  imports Fffs_Handles Fffs_Extent
begin

unbundle bit_operations_syntax

text \<open>
  Where an operation may write.  \<open>confined ss lo hi m\<close> says that on sectors of size \<open>ss\<close> the step \<open>m\<close> changes
  no flash byte outside \<open>[lo, hi)\<close>, for every content of the flash and every failure the device may inject;
  it is closed under the combinators, so the metadata walk, the tombstones and finally one whole step of the
  collector (\<^verbatim>\<open>gc_step\<close> in \<^verbatim>\<open>src/fffs_gc.c\<close>) inherit it from the three device accesses.
\<close>

section \<open>Confined operations\<close>

named_theorems conf "confined for the combinators and the operations"

lemma only_torn: "torn_program off data m m' \<Longrightarrow> lo \<le> off \<Longrightarrow> off + length data \<le> hi \<Longrightarrow> only lo hi m m'"
  by (auto simp: only_def torn_program_def)

lemma only_torn_erase: "torn_erase off n m m' \<Longrightarrow> lo \<le> off \<Longrightarrow> off + n \<le> hi \<Longrightarrow> only lo hi m m'"
  by (auto simp: only_def torn_erase_def)

lemma only_erase: "off + n \<le> length m \<Longrightarrow> lo \<le> off \<Longrightarrow> off + n \<le> hi \<Longrightarrow> only lo hi m (nor_erase off n m)"
  by (auto simp: only_def nth_nor_erase)

context flash_device
begin

definition onto :: "nat \<Rightarrow> 'c fffs \<Rightarrow> bool" where
  "onto ss fs \<longleftrightarrow> dev fs \<and> fs_sector_size fs = ss"

definition strays :: "nat \<Rightarrow> nat \<Rightarrow> nat \<Rightarrow> 'c fffs \<Rightarrow> 'c fffs \<Rightarrow> bool" where
  "strays ss lo hi fs fs' \<longleftrightarrow> onto ss fs' \<and> only lo hi (fmem fs) (fmem fs')"

definition confined :: "nat \<Rightarrow> nat \<Rightarrow> nat \<Rightarrow> ('c, 'a) fsop \<Rightarrow> bool" where
  "confined ss lo hi m \<longleftrightarrow> (\<forall>fs. onto ss fs \<longrightarrow> wlp m (\<lambda>_. strays ss lo hi fs) fs)"

lemma strays_trans: "strays ss lo hi fs fs1 \<Longrightarrow> strays ss lo hi fs1 fs2 \<Longrightarrow> strays ss lo hi fs fs2"
  by (auto simp: strays_def intro: only_trans)

lemma strays_refl: "onto ss fs \<Longrightarrow> strays ss lo hi fs fs"
  by (simp add: strays_def)

lemma confinedI: "(\<And>fs. onto ss fs \<Longrightarrow> wlp m (\<lambda>_. strays ss lo hi fs) fs) \<Longrightarrow> confined ss lo hi m"
  by (simp add: confined_def)

lemma confinedD: "confined ss lo hi m \<Longrightarrow> onto ss fs \<Longrightarrow> wlp m (\<lambda>_. strays ss lo hi fs) fs"
  by (simp add: confined_def)

text \<open>Going on from a state reached inside the range.\<close>

lemma confined_from: "confined ss lo hi m \<Longrightarrow> strays ss lo hi fs fs1 \<Longrightarrow> wlp m (\<lambda>_. strays ss lo hi fs) fs1"
  by (rule wlp_mono [OF confinedD]) (auto simp: strays_def intro: only_trans)

lemma confined_getm:
  assumes "\<And>fs. fs_sector_size fs = ss \<Longrightarrow> confined ss lo hi (k (f fs))"
  shows "confined ss lo hi (bindm (getm f) k)"
proof (rule confinedI)
  fix fs
  assume o: "onto ss fs"
  then have "fs_sector_size fs = ss" by (simp add: onto_def)
  from confinedD [OF assms [OF this] o] show "wlp (bindm (getm f) k) (\<lambda>_. strays ss lo hi fs) fs"
    by (simp add: wp_simps)
qed

lemma confined_base [conf]:
  "confined ss lo hi (ret v)" "confined ss lo hi (throw e)" "confined ss lo hi (getm g)" "confined ss lo hi (of_res x)"
  by (simp_all add: confined_def wp_simps strays_refl)

lemma confined_modm [conf]:
  "(\<And>fs. fs_backend (g fs) = fs_backend fs \<and> fs_sector_size (g fs) = fs_sector_size fs) \<Longrightarrow> confined ss lo hi (modm g)"
  by (simp add: confined_def wp_simps strays_def onto_def dev_def fmem_def)

lemma confined_bindm [conf]:
  assumes "confined ss lo hi m" "\<And>v. confined ss lo hi (k v)"
  shows "confined ss lo hi (bindm m k)"
proof (rule confinedI)
  fix fs
  assume "onto ss fs"
  then show "wlp (bindm m k) (\<lambda>_. strays ss lo hi fs) fs"
    unfolding wlp_bindm
    by (rule wlp_mono [OF confinedD [OF assms(1)]]) (auto intro: confined_from [OF assms(2)] split: sum.split)
qed

lemma confined_seqm [conf]: "confined ss lo hi m \<Longrightarrow> confined ss lo hi k \<Longrightarrow> confined ss lo hi (seqm m k)"
  by (simp add: seqm_def confined_bindm)

lemma confined_trym [conf]: "confined ss lo hi m \<Longrightarrow> confined ss lo hi (trym m)"
  by (simp add: confined_def wp_simps)

lemma confined_whenm [conf]: "(b \<Longrightarrow> confined ss lo hi m) \<Longrightarrow> confined ss lo hi (whenm b m)"
  by (simp add: whenm_def confined_base)

lemma confined_cases [conf]:
  "(b \<Longrightarrow> confined ss lo hi m) \<Longrightarrow> (\<not> b \<Longrightarrow> confined ss lo hi n) \<Longrightarrow> confined ss lo hi (if b then m else n)"
  "confined ss lo hi n \<Longrightarrow> (\<And>v. confined ss lo hi (k v)) \<Longrightarrow> confined ss lo hi (case_option n k x)"
  "(\<And>e. confined ss lo hi (g e)) \<Longrightarrow> (\<And>v. confined ss lo hi (h v)) \<Longrightarrow> confined ss lo hi (case_sum g h y)"
  "(\<And>a b. confined ss lo hi (j a b)) \<Longrightarrow> confined ss lo hi (case_prod j p)"
  "(\<And>a b. confined ss lo hi (j' a b y')) \<Longrightarrow> confined ss lo hi (case_prod j' p' y')"
  by (simp_all split: option.split sum.split prod.split)

lemma confined_wp:
  assumes "\<And>fs. dev fs \<Longrightarrow> wp m (\<lambda>r fs'. \<exists>c. fs' = set_ctx c fs \<and> ok c \<and> only lo hi (fmem fs) (mem c)) fs"
  shows "confined ss lo hi m"
proof (rule confinedI)
  fix fs
  assume o: "onto ss fs"
  then have d: "dev fs" by (simp add: onto_def)
  show "wlp m (\<lambda>_. strays ss lo hi fs) fs"
    by (rule wp_imp_wlp, rule wp_mono [OF assms [OF d]])
      (use o dev_set_ctx [OF d] in \<open>auto simp: strays_def onto_def only_def\<close>)
qed

lemma confined_read [conf]: "confined ss lo hi (fffs_flash_read off n)"
  by (rule confined_wp, rule flash_read_wp) auto

lemma confined_program:
  assumes "lo \<le> off" "off + length data \<le> hi"
  shows "confined ss lo hi (fffs_flash_program_aligned off data)"
proof (rule confined_wp, rule flash_program_aligned_wp, goal_cases)
  case (2 fs c)
  then have "only lo hi (fmem fs) (mem c)" using assms by (cases "data = []") (auto intro: only_program)
  with 2 show ?case by blast
qed (use assms in \<open>auto intro: only_torn\<close>)

lemma confined_erase:
  assumes "lo \<le> off" "off + n \<le> hi"
  shows "confined ss lo hi (fs_backend_erase off n)"
proof (rule confined_wp, rule fs_backend_erase_wp, goal_cases)
  case (2 fs c)
  then have "only lo hi (fmem fs) (mem c)" using assms by (simp add: only_erase)
  with 2 show ?case by blast
qed (use assms in \<open>auto intro: only_torn_erase\<close>)

lemma confined_reads [conf]:
  "confined ss lo hi (read_scratch off n)" "confined ss lo hi (fffs_sector_reader_view win sector off n)"
  unfolding read_scratch_def fffs_sector_reader_view_def Let_def by (intro conf; simp)+

lemma confined_span [conf]: "confined ss lo hi (fffs_flash_span_is_erased off n)"
proof (rule confinedI)
  fix fs
  assume o: "onto ss fs"
  show "wlp (fffs_flash_span_is_erased off n) (\<lambda>_. strays ss lo hi fs) fs"
    unfolding wlp_iff
  proof (intro allI impI)
    fix r fs'
    assume "fffs_flash_span_is_erased off n fs = Some (r, fs')"
    then have "onto ss fs \<longrightarrow> strays ss lo hi fs (snd (r, fs'))"
    proof (rule fffs_flash_span_is_erased.raw_induct
        [where P = "\<lambda>off n fs y. onto ss fs \<longrightarrow> strays ss lo hi fs (snd y)", rotated], goal_cases)
      case (1 f off n fs y)
      have f: "confined ss lo hi (f o' n')" for o' n'
        by (rule confinedI) (use 1(1) in \<open>force simp: wlp_iff\<close>)
      have "confined ss lo hi (bindm (read_scratch off k) (\<lambda>chunk. seqm (modm fffs_scratch_bump)
          (if \<not> fffs_flash_bytes_erased chunk then throw FFFS_ERR_NO_SPACE else f (off + k) (n - k))))" for k
        by (intro conf f) (simp add: fffs_scratch_bump_def Let_def)
      note k = confinedD [OF this, unfolded wlp_iff]
      show ?case
        using 1(2) k by (cases y) (auto simp: ret_def Let_def strays_refl split: if_splits)
    qed
    with o show "strays ss lo hi fs fs'" by simp
  qed
qed

lemma confined_walk [conf]:
  "confined ss lo hi (decode_file_md_record win sector cursor)"
  "confined ss lo hi (fffs_md_walk_init sector win)" "confined ss lo hi (fffs_md_walk_next walk win)"
proof -
  show d: "confined ss lo hi (decode_file_md_record win sector cursor)" for win sector cursor
    unfolding decode_file_md_record_def Let_def by (intro conf)
  show "confined ss lo hi (fffs_md_walk_init sector win)" "confined ss lo hi (fffs_md_walk_next walk win)"
    unfolding fffs_md_walk_init_def fffs_md_walk_next_def Let_def by (intro conf d)+
qed

text \<open>A walk that starts inside the sector yields records inside the sector.\<close>

lemma walk_next_start:
  assumes "fffs_md_walk_next walk w fs = Some (Inr (walk', w', record, result), fs')"
  shows "(result = FFFS_MD_WALK_RECORD \<longrightarrow> md_record_start record < walk_cursor walk) \<and>
    walk_cursor walk' \<le> walk_cursor walk"
  using assms decode_start [of w "walk_sector walk" "walk_cursor walk" fs]
  by (auto simp: fffs_md_walk_next_def bindm_def throw_def ret_def Let_def
      split: option.splits sum.splits prod.splits if_splits intro: less_imp_le)

lemma confined_walk_loop:
  assumes body: "\<And>result rec acc. (result = FFFS_MD_WALK_RECORD \<Longrightarrow> md_record_start rec < n) \<Longrightarrow>
      confined ss lo hi (body result rec acc)"
    and "walk_cursor walk \<le> n"
  shows "confined ss lo hi (md_walk_loop body walk w acc)"
proof (rule confinedI)
  fix fs
  assume o: "onto ss fs"
  show "wlp (md_walk_loop body walk w acc) (\<lambda>_. strays ss lo hi fs) fs"
    unfolding wlp_iff
  proof (intro allI impI)
    fix r fs'
    assume "md_walk_loop body walk w acc fs = Some (r, fs')"
    then have "body = body \<longrightarrow> walk_cursor walk \<le> n \<longrightarrow> onto ss fs \<longrightarrow> strays ss lo hi fs (snd (r, fs'))"
    proof (rule md_walk_loop.raw_induct
        [where P = "\<lambda>bd walk w acc fs y. bd = body \<longrightarrow> walk_cursor walk \<le> n \<longrightarrow> onto ss fs \<longrightarrow> strays ss lo hi fs (snd y)",
         rotated], goal_cases)
      case (1 f bd walk w acc fs y)
      have f: "confined ss lo hi (f body walk w acc)" if "walk_cursor walk \<le> n" for walk w acc
        by (rule confinedI) (use 1(1) that in \<open>force simp: wlp_iff\<close>)
      show ?case
      proof (intro impI)
        assume bd: "bd = body" and c: "walk_cursor walk \<le> n" and o: "onto ss fs"
        show "strays ss lo hi fs (snd y)"
        proof (cases "walk_active walk")
          case True
          have run: "bindm (fffs_md_walk_next walk w) (\<lambda>(walk', window', record, result).
              bindm (body result record acc) (\<lambda>r. case r of Inl b \<Rightarrow> ret (Inl b)
                | Inr acc' \<Rightarrow> f body walk' window' acc')) fs = Some y"
            using 1(2) True bd by simp
          have "wlp (bindm (fffs_md_walk_next walk w) (\<lambda>(walk', window', record, result).
              bindm (body result record acc) (\<lambda>r. case r of Inl b \<Rightarrow> ret (Inl b)
                | Inr acc' \<Rightarrow> f body walk' window' acc'))) (\<lambda>_. strays ss lo hi fs) fs"
            unfolding wlp_bindm
          proof (subst wlp_iff, intro allI impI)
            fix res fs1
            assume next': "fffs_md_walk_next walk w fs = Some (res, fs1)"
            with confinedD [OF confined_walk(3) o] have s1: "strays ss lo hi fs fs1" by (simp add: wlp_iff)
            show "case res of Inl e \<Rightarrow> strays ss lo hi fs fs1
              | Inr v \<Rightarrow> wlp (case v of (walk', window', record, result) \<Rightarrow>
                  bindm (body result record acc) (\<lambda>r. case r of Inl b \<Rightarrow> ret (Inl b)
                    | Inr acc' \<Rightarrow> f body walk' window' acc')) (\<lambda>_. strays ss lo hi fs) fs1"
            proof (cases res)
              case (Inr v)
              obtain walk' w' md result where v: "v = (walk', w', md, result)" by (cases v)
              note st = walk_next_start [OF next' [unfolded Inr v]]
              have "confined ss lo hi (bindm (body result md acc) (\<lambda>r. case r of Inl b \<Rightarrow> ret (Inl b)
                    | Inr acc' \<Rightarrow> f body walk' w' acc'))"
                by (intro conf body f) (use st c in auto)
              from confined_from [OF this s1] Inr v show ?thesis by simp
            qed (use s1 in simp)
          qed
          with run show ?thesis by (cases y) (simp add: wlp_iff)
        next
          case False
          with 1(2) o show ?thesis by (auto simp: ret_def strays_refl)
        qed
      qed
    qed
    with assms(2) o show "strays ss lo hi fs fs'" by simp
  qed
qed

end

context flash_device
begin

lemma confined_walk_any:
  "(\<And>result rec acc. confined ss lo hi (body result rec acc)) \<Longrightarrow> confined ss lo hi (md_walk_loop body walk w acc)"
  by (rule confined_walk_loop [where n = "walk_cursor walk"]) auto

lemma confined_init_loop:
  assumes body: "\<And>result rec acc. (result = FFFS_MD_WALK_RECORD \<Longrightarrow> md_record_start rec < ss) \<Longrightarrow>
      confined ss lo hi (body result rec acc)"
    and k: "\<And>v. confined ss lo hi (k v)"
  shows "confined ss lo hi (bindm (fffs_md_walk_init sector win) (\<lambda>(walk, win). bindm (md_walk_loop body walk win acc) k))"
proof (rule confinedI)
  fix fs
  assume o: "onto ss fs"
  have loop: "confined ss lo hi (bindm (md_walk_loop body walk w acc) k)" if "walk_cursor walk \<le> ss" for walk w
    by (intro confined_bindm confined_walk_loop [where n = ss] body k that)
  have "wlp (fffs_md_walk_init sector win) (\<lambda>r fs'. fs' = fs \<and> (\<forall>walk w. r = Inr (walk, w) \<longrightarrow> walk_cursor walk \<le> ss)) fs"
    using o by (auto simp: fffs_md_walk_init_def wp_simps onto_def)
  then show "wlp (bindm (fffs_md_walk_init sector win) (\<lambda>(walk, win). bindm (md_walk_loop body walk win acc) k))
      (\<lambda>_. strays ss lo hi fs) fs"
    unfolding wlp_bindm [of "fffs_md_walk_init sector win"]
    by (rule wlp_mono) (use o confinedD [OF loop o] in \<open>auto simp: strays_refl split: sum.split\<close>)
qed

lemma confined_md [conf]:
  "confined ss lo hi (read_md_for_slot sec slot mt)" "confined ss lo hi (fffs_read_md_for_slot sec slot)"
  "confined ss lo hi (fffs_index_head_for_slot slot)"
proof -
  have body: "confined ss lo hi (if result \<noteq> FFFS_MD_WALK_RECORD then throw FFFS_ERR_CORRUPT
      else if \<not> md_record_matches_slot rec slot mt then ret (Inr ()) else ret (Inl rec))" for result rec slot mt
    by (intro conf)
  show r: "confined ss lo hi (read_md_for_slot sec slot mt)" for sec slot mt
    unfolding read_md_for_slot_def Let_def
    by (intro conf confined_walk_any body)
  show "confined ss lo hi (fffs_read_md_for_slot sec slot)"
    unfolding fffs_read_md_for_slot_def by (rule r)
  show "confined ss lo hi (fffs_index_head_for_slot slot)"
    unfolding fffs_index_head_for_slot_def by (intro conf)
qed

lemma confined_reachable [conf]:
  "confined ss lo hi (reachable_loop left slot cur sec)" "confined ss lo hi (sector_is_reachable_from_chain slot head sec)"
proof -
  show r: "confined ss lo hi (reachable_loop left slot cur sec)" for left cur
    by (induction left arbitrary: cur) (simp_all only: reachable_loop.simps Let_def, (intro conf; simp)+)
  show "confined ss lo hi (sector_is_reachable_from_chain slot head sec)"
    unfolding sector_is_reachable_from_chain_def by (intro conf r)
qed

text \<open>Operations on sector \<open>sec\<close> stay in it.\<close>

lemma confined_tombstone:
  assumes "unat sec * ss = lo" "lo + ss \<le> hi" "10 \<le> ss"
  shows "confined ss lo hi (fffs_tombstone_sector sec)"
    "confined ss lo hi (fffs_tombstone_metadata_for_slot sec slot acct)"
proof -
  show "confined ss lo hi (fffs_tombstone_sector sec)"
    unfolding fffs_tombstone_sector_def
    by (rule confined_getm, rule confined_program)
      (use assms in \<open>simp_all add: fffs_sector_footer_offset_def\<close>)
  have prog: "confined ss lo hi (fffs_flash_program_aligned (unat sec * ss + md_record_start rec) [FFFS_MD_FLAGS_TOMBSTONED])"
    if "md_record_start rec < ss" for rec
    using that assms by (intro confined_program) auto
  have body: "confined ss lo hi (if result = FFFS_MD_WALK_END_INVALID then throw FFFS_ERR_CORRUPT
      else if result \<noteq> FFFS_MD_WALK_RECORD then ret (Inl False)
      else if \<not> md_live rec \<or> md_slot rec \<noteq> slot then ret (Inr ())
      else seqm (fffs_flash_program_aligned (unat sec * ss + md_record_start rec) [FFFS_MD_FLAGS_TOMBSTONED])
        (if acct = FFFS_TOMBSTONE_COMMITTED_DELETE \<and> md_type rec = FFFS_MD_TYPE_FILE_ROOT_V1
         then seqm (modm (fffs_fsinfo_note_committed_delete (md_size_or_offset rec))) (ret (Inl True))
         else ret (Inl False)))"
    if "result = FFFS_MD_WALK_RECORD \<Longrightarrow> md_record_start rec < ss" for result rec
    using that
    by (intro conf prog) (auto simp: fffs_fsinfo_note_committed_delete_def fffs_fsinfo_invalidate_committed_def)
  show "confined ss lo hi (fffs_tombstone_metadata_for_slot sec slot acct)"
    unfolding fffs_tombstone_metadata_for_slot_def Let_def
    by (rule confined_getm, simp only: id_apply, intro confined_init_loop body conf)
qed

end

lemma gc_upd_device:
  "fs_backend (gc_advance s b fs) = fs_backend fs" "fs_sector_size (gc_advance s b fs) = fs_sector_size fs"
  "fs_backend (gc_deactivate fs) = fs_backend fs" "fs_sector_size (gc_deactivate fs) = fs_sector_size fs"
  "fs_backend (gc_note_live md fs) = fs_backend fs" "fs_sector_size (gc_note_live md fs) = fs_sector_size fs"
  "fs_backend (gc_update_compaction_candidate sec n fs) = fs_backend fs"
  "fs_sector_size (gc_update_compaction_candidate sec n fs) = fs_sector_size fs"
  "fs_backend (fffs_alloc_map_mark_unknown sec fs) = fs_backend fs"
  "fs_sector_size (fffs_alloc_map_mark_unknown sec fs) = fs_sector_size fs"
  "fs_backend (fffs_alloc_map_mark_used sec fs) = fs_backend fs"
  "fs_sector_size (fffs_alloc_map_mark_used sec fs) = fs_sector_size fs"
  by (auto simp: gc_advance_def gc_deactivate_def gc_note_live_def gc_update_compaction_candidate_def
      fffs_alloc_map_mark_unknown_def fffs_alloc_map_mark_used_def Let_def split: option.split)

context flash_device
begin

lemma confined_gc:
  assumes s: "s < 65536" and ss: "10 \<le> ss"
  shows "confined ss (s * ss) (s * ss + ss) (gc_erase s)"
    "confined ss (s * ss) (s * ss + ss) (gc_tombstone s)"
    "confined ss (s * ss) (s * ss + ss) (gc_finish_live s res)"
    "confined ss (s * ss) (s * ss + ss) (gc_classify_record s rec)"
    "confined ss (s * ss) (s * ss + ss) (gc_visit s win)"
proof -
  have u: "unat (of_nat s :: u16) * ss = s * ss" using s by simp
  note t = confined_tombstone [OF u order_refl ss]
  show "confined ss (s * ss) (s * ss + ss) (gc_erase s)"
    unfolding gc_erase_def
    by (rule confined_getm, simp only: id_apply, intro confined_erase conf) (simp_all add: gc_upd_device)
  show tomb: "confined ss (s * ss) (s * ss + ss) (gc_tombstone s)"
    unfolding gc_tombstone_def by (intro t conf) (simp add: gc_upd_device)
  show fin: "confined ss (s * ss) (s * ss + ss) (gc_finish_live s res)" for res
    unfolding gc_finish_live_def Let_def by (intro conf) (simp_all add: gc_upd_device)
  show cl: "confined ss (s * ss) (s * ss + ss) (gc_classify_record s rec)" for rec
    unfolding gc_classify_record_def by (intro t conf)
  show "confined ss (s * ss) (s * ss + ss) (gc_visit s win)"
    unfolding gc_visit_def Let_def by (intro tomb fin cl conf) (simp_all add: gc_upd_device)
qed

lemma gc_step_strays:
  assumes "s = normalized_data_cursor fs (fs_gc_cursor fs)" "s < 65536" "10 \<le> fs_sector_size fs" "dev fs"
    and "gc_step use_map fs = Some (r, fs')"
  shows "only (s * fs_sector_size fs) (s * fs_sector_size fs + fs_sector_size fs) (fmem fs) (fmem fs')"
proof -
  let ?ss = "fs_sector_size fs"
  note gc = confined_gc [OF assms(2,3)]
  have "confined ?ss (s * ?ss) (s * ?ss + ?ss) (bindm (getm id) (\<lambda>fs.
       seqm (whenm (s \<noteq> fs_gc_cursor fs) (modm (\<lambda>fs. fs\<lparr>fs_gc_md :=
              (fs_gc_md fs)\<lparr>walk_live_seen := False, walk_active := False\<rparr>\<rparr>)))
       (if use_map \<and> fffs_alloc_map_maybe_used fs (of_nat s)
        then seqm (modm (gc_advance s False)) (ret (FFFS_GC_SCANNED, True))
        else if fffs_alloc_compaction_reserved fs (of_nat s)
        then seqm (modm (gc_advance s False)) (ret (FFFS_GC_SCANNED, True))
        else if fffs_sector_is_open_for_writing fs (of_nat s)
        then seqm (modm (gc_advance s True)) (ret (FFFS_GC_SCANNED, True))
        else
          bindm (fffs_sector_reader_view (md_window (of_nat s)) (of_nat s)
                  (fs_sector_size fs - FFFS_SECTOR_FOOTER_SIZE) FFFS_SECTOR_FOOTER_SIZE)
            (\<lambda>(footer_bytes, window).
               let footer = fffs_decode_sector_footer footer_bytes in
               bindm
                 (if ft_erased footer then
                    bindm (trym (fffs_flash_span_is_erased (s * fs_sector_size fs) (fs_sector_size fs)))
                      (\<lambda>r. case r of
                         Inr _ \<Rightarrow> seqm (modm (fffs_alloc_map_mark_unknown (of_nat s)))
                           (seqm (modm (gc_advance s False)) (ret FFFS_GC_ERASED))
                       | Inl err \<Rightarrow> if err \<noteq> FFFS_ERR_NO_SPACE then throw err else gc_erase s)
                  else if ft_type footer \<noteq> FFFS_SECTOR_TYPE_FILE \<or> \<not> ft_magic_valid footer \<or>
                    ft_valid_bits footer = FFFS_BITMIRROR_MIXED \<or>
                    ft_tombstone_bits footer = FFFS_BITMIRROR_MIXED \<or>
                    ft_state footer = 0xff \<or> ft_tombstone_bits footer = FFFS_BITMIRROR_CLEARED
                  then gc_erase s
                  else if \<not> fffs_lifecycle_is_live (ft_valid_bits footer) (ft_tombstone_bits footer)
                  then throw FFFS_ERR_CORRUPT
                  else gc_visit s window)
                 (\<lambda>action. ret (action, False))))))" (is "confined _ _ _ ?m")
    unfolding Let_def by (intro gc conf) (simp_all add: gc_upd_device)
  from confinedD [OF this] assms(4) have w: "wlp ?m (\<lambda>_. strays ?ss (s * ?ss) (s * ?ss + ?ss) fs) fs"
    by (simp add: onto_def)
  show ?thesis
  proof (cases "fs_sector_count fs \<le> unat (fs_index_sectors fs)")
    case True
    with assms(5) show ?thesis by (auto simp: gc_step_def bindm_getm ret_def)
  next
    case False
    have "gc_step use_map fs = ?m fs"
      unfolding gc_step_def bindm_getm id_apply Let_def assms(1) [symmetric] if_not_P [OF False] by (rule refl)
    with w assms(5) show ?thesis by (simp add: wlp_iff strays_def)
  qed
qed

end

section \<open>Properties\<close>

text \<open>C10: One collector step writes only to the sector under its cursor, whatever the flash holds and
  however the device fails; and to no sector at all when that sector is reserved for compaction or
  open for writing, in which case the step only moves the cursor on.\<close>

theorem gc_step_confined:
  assumes "emu.dev fs" and "10 \<le> fs_sector_size fs" and "fs_sector_count fs \<le> 65536"
    and "unat (fs_index_sectors fs) < fs_sector_count fs"
    and "s = normalized_data_cursor fs (fs_gc_cursor fs)"
    and "gc_step use_map fs = Some (r, fs')"
  shows "only (s * fs_sector_size fs) (s * fs_sector_size fs + fs_sector_size fs) (emu.fmem fs) (emu.fmem fs') \<and>
    (fffs_alloc_compaction_reserved fs (of_nat s) \<or> fffs_sector_is_open_for_writing fs (of_nat s) \<longrightarrow>
       r = Inr (FFFS_GC_SCANNED, True) \<and> fs_backend fs' = fs_backend fs \<and>
       fs_gc_cursor fs' = fffs_next_data_sector fs s)"
proof -
  have "s < 65536" using assms(3-5) by (auto simp: normalized_data_cursor_def)
  from emu.gc_step_strays [OF assms(5) this assms(2,1,6)]
  have "only (s * fs_sector_size fs) (s * fs_sector_size fs + fs_sector_size fs) (emu.fmem fs) (emu.fmem fs')" .
  moreover have "r = Inr (FFFS_GC_SCANNED, True) \<and> fs_backend fs' = fs_backend fs \<and>
       fs_gc_cursor fs' = fffs_next_data_sector fs s"
    if "fffs_alloc_compaction_reserved fs (of_nat s) \<or> fffs_sector_is_open_for_writing fs (of_nat s)"
    using assms(4,6) that
    by (auto simp: gc_step_def bindm_getm Let_def assms(5) [symmetric] seqm_def bindm_modm ret_def whenm_def bindm_ret
        gc_advance_def fffs_next_data_sector_def split: if_splits)
  ultimately show ?thesis by blast
qed

definition example_writing :: "ffsv_flash fffs" where
  "example_writing = example_fs\<lparr>fs_open_files := [5],
     fs_files := (\<lambda>_. zero_file)(5 := zero_file\<lparr>f_flags := FFFS_O_WRONLY, f_head := 2, f_current := 2\<rparr>)\<rparr>"

lemma example_writing_fields:
  "fs_sector_size example_writing = 256" "fs_sector_count example_writing = 4" "fs_index_sectors example_writing = 2"
  "emu.dev example_writing" "fs_gc_cursor example_writing = 0"
  using example_backend_uses
  by (simp_all add: example_writing_def example_fs_def zero_fs_def emu.dev_def)

theorem gc_step_confined_witness:
  "\<exists>fs'. gc_step False example_writing = Some (Inr (FFFS_GC_SCANNED, True), fs') \<and>
     fs_backend fs' = fs_backend example_writing \<and> fs_gc_cursor fs' = 3 \<and>
     only 512 768 (emu.fmem example_writing) (emu.fmem fs')"
proof -
  note f = example_writing_fields
  have o: "fffs_sector_is_open_for_writing example_writing 2"
    by (simp add: fffs_sector_is_open_for_writing_def example_writing_def open_for_writing_def zero_file_def)
  have s: "2 = normalized_data_cursor example_writing (fs_gc_cursor example_writing)"
    by (simp add: normalized_data_cursor_def f)
  have "\<exists>r fs'. gc_step False example_writing = Some (r, fs')"
    using runsD [OF gc_step_total, of example_writing False] example_backend_uses
    using o s f by (auto simp: gc_step_def bindm_getm Let_def s [symmetric] seqm_def bindm_modm ret_def whenm_def
        bindm_ret)
  then obtain r fs' where run: "gc_step False example_writing = Some (r, fs')" by blast
  from gc_step_confined [OF f(4) _ _ _ s run] o run show ?thesis
    by (simp add: f fffs_next_data_sector_def)
qed

end
