(* ===== verification/Fffs_Windows.thy ===== *)
theory Fffs_Windows
  imports Fffs_Confine
begin

unbundle bit_operations_syntax

text \<open>
  Where new data goes.  The first half gives the search for a free window in a sector
  (\<^verbatim>\<open>fffs_find_sector_free_window\<close>) its exact meaning on sectors that hold a list of records and on erased
  sectors; the second half is about the allocation scan over the data sectors.
\<close>

section \<open>The records a window has to clear\<close>

text \<open>A record that makes the search give the sector up: a continuation extent under normal allocation, or
  a live record of the slot that must not appear twice.\<close>

definition window_blocked :: "u16 \<Rightarrow> bool \<Rightarrow> fffs_md_record \<Rightarrow> bool" where
  "window_blocked reject_slot normal_allocation r \<longleftrightarrow>
     normal_allocation \<and> md_type r = FFFS_MD_TYPE_FILE_CONT_V1 \<or> md_live r \<and> md_slot r = reject_slot"

definition window_acc :: "fffs_md_record list \<Rightarrow> nat \<times> nat \<times> nat \<Rightarrow> nat \<times> nat \<times> nat" where
  "window_acc rs = fold (\<lambda>r (top, start, n). (max top (md_data_end r), md_record_start r, n + 1)) rs"

lemma md_stored_acc:
  "md_stored fs flash sector cursor claimed rs \<Longrightarrow>
     window_acc rs (claimed, cursor, n) = (claims claimed rs, cursor - 16 * length rs, n + length rs)"
  by (induction rs arbitrary: cursor claimed n) (auto simp: window_acc_def claims_def md_wf_def max.commute)

context reliable_flash
begin

lemma md_walk_step: "walk_active walk \<Longrightarrow> md_walk_loop body walk win acc fs =
    bindm (fffs_md_walk_next walk win) (\<lambda>(walk', window', record, result).
      bindm (body result record acc) (\<lambda>r. case r of Inl b \<Rightarrow> ret (Inl b)
        | Inr acc' \<Rightarrow> md_walk_loop body walk' window' acc')) fs"
  by (subst md_walk_loop.simps) simp

lemma mark_full_returns:
  assumes "geom fs" "healthy fs" "sector_holds fs sector serial st rs"
  shows "wp (seqm (trym (fffs_mark_sector_full sector)) (throw e)) (\<lambda>r _. r = Inl e) fs"
  using wp_mono [OF mark_full_rule [OF assms]] by (simp add: wp_simps seqm_def)

lemma sector_holds_looked:
  "looked fs fs' \<Longrightarrow> geom fs \<Longrightarrow> sector_holds fs' sector serial st rs = sector_holds fs sector serial st rs"
  using md_stored_looked [of fs fs'] looked_geom [of fs fs']
  by (simp add: sector_holds_def data_sector_def footer_bytes_eq looked_fields)

lemma walk_next_end:
  assumes geom: "geom fs" and win: "coherent fs win" "16 \<le> rd_capacity win" "rd_sector win = sector"
    and sector: "unat sector < fs_sector_count fs"
    and walk: "walk_active walk" "walk_sector walk = sector" "walk_cursor walk \<le> fs_sector_size fs"
    and closed: "md_closed fs (fmem fs) sector (walk_cursor walk) (walk_claimed_data_end walk) []"
  shows "wp (fffs_md_walk_next walk win) (\<lambda>res fs'. looked fs fs' \<and>
    (case res of Inr (_, _, _, result) \<Rightarrow> result \<noteq> FFFS_MD_WALK_RECORD \<and> result \<noteq> FFFS_MD_WALK_END_INVALID
     | Inl e \<Rightarrow> e = FFFS_ERR_IO \<and> \<not> healthy fs)) fs"
proof (cases "walk_cursor walk \<le> 10")
  case True
  then show ?thesis by (simp add: fffs_md_walk_next_def walk win wp_simps looked_refl geom_fdev [OF geom])
next
  case False
  let ?pos = "unat sector * fs_sector_size fs + (walk_cursor walk - 1)"
  have c: "\<not> (\<not> walk_active walk \<or> sector \<noteq> rd_sector win)" using walk win by simp
  have "?pos + 1 \<le> length (fmem fs)"
    using sector_fits [OF geom sector, of "walk_cursor walk - 1" 1] walk(3) False by simp
  then have ff: "sub_bytes ?pos 1 (fmem fs) ! 0 = 0xff" using closed False by simp
  show ?thesis
    unfolding fffs_md_walk_next_def walk(2) if_not_P [OF c] if_not_P [OF False] wp_bindm decode_parse
    by (rule wp_mono [OF view_rule [OF geom win(1) sector]])
      (use walk(3) False win(2) ff in \<open>auto simp: wp_simps viewed_def split: sum.splits\<close>)
qed

text \<open>What the walk of the search leaves: the accumulated bounds, or \<open>FFFS_ERR_NO_SPACE\<close> at a blocking record.\<close>

definition walked :: "u16 \<Rightarrow> bool \<Rightarrow> fffs_md_record list \<Rightarrow> nat \<times> nat \<times> nat \<Rightarrow> 'c fffs \<Rightarrow>
    (nat \<times> nat \<times> nat + nat \<times> nat \<times> nat) res \<Rightarrow> 'c fffs \<Rightarrow> bool" where
  "walked slot normal rs acc fs res fs' \<longleftrightarrow>
     (if list_ex (window_blocked slot normal) rs then res = Inl FFFS_ERR_NO_SPACE
      else looked fs fs' \<and> (res = Inr (Inl (window_acc rs acc)) \<or> res = Inr (Inr (window_acc rs acc))))"

lemma window_walk_rule:
  assumes "geom fs" "coherent fs win" "16 \<le> rd_capacity win" "rd_sector win = sector"
    and "unat sector < fs_sector_count fs"
    and "walk_active walk" "walk_sector walk = sector" "walk_cursor walk \<le> fs_sector_size fs"
    and "md_stored fs (fmem fs) sector (walk_cursor walk) (walk_claimed_data_end walk) rs"
    and "md_closed fs (fmem fs) sector (walk_cursor walk) (walk_claimed_data_end walk) rs"
    and "healthy fs" "sector_holds fs sector serial st all_rs"
  shows "wp (md_walk_loop (free_window_step sector slot normal) walk win acc) (walked slot normal rs acc fs) fs"
  using assms
proof (induction rs arbitrary: fs walk win acc)
  case Nil
  obtain top start n where acc: "acc = (top, start, n)" by (cases acc)
  show ?case
    by (rule wp_eqI, rule md_walk_step [OF Nil.prems(6)], unfold wp_bindm,
        rule wp_mono [OF walk_next_end [OF Nil.prems(1-8,10)]])
      (use Nil.prems(11) acc in \<open>auto simp: walked_def window_acc_def wp_simps free_window_step_def split: sum.splits\<close>)
next
  case (Cons q rs)
  obtain top start n where acc: "acc = (top, start, n)" by (cases acc)
  show ?case
  proof (rule wp_eqI, rule md_walk_step [OF Cons.prems(6)], unfold wp_bindm,
      rule wp_mono [OF walk_next_rule [OF Cons.prems(1-9)]], goal_cases)
    case (1 res fs1)
    show ?case
    proof (cases res)
      case (Inr x)
      define walk1 where "walk1 = walk\<lparr>walk_cursor := walk_cursor walk - 16,
          walk_claimed_data_end := max (walk_claimed_data_end walk) (md_data_end q),
          walk_active := \<not> walk_cursor walk - 16 \<le> max (walk_claimed_data_end walk) (md_data_end q)\<rparr>"
      obtain win1 where x: "x = (walk1, win1, q, FFFS_MD_WALK_RECORD)"
        and v: "viewed fs sector (rd_capacity win) fs1 win1"
        using 1 Inr by (auto simp: walk1_def)
      then have l: "looked fs fs1" by (simp add: viewed_def)
      have full: "wp (seqm (trym (fffs_mark_sector_full sector)) (throw e)) (\<lambda>r _. r = Inl e) fs1" for e
        using Cons.prems(11,12) looked_fields(6) [OF l] sector_holds_looked [OF l Cons.prems(1)]
        by (intro mark_full_returns [OF looked_geom [OF l Cons.prems(1)], of sector serial st all_rs]) simp_all
      let ?acc = "(max top (md_data_end q), md_record_start q, n + 1)"
      have "wp (md_walk_loop (free_window_step sector slot normal) walk1 win1 ?acc)
          (walked slot normal rs ?acc fs) fs1"
      proof (cases "walk_active walk1")
        case True
        have "wp (md_walk_loop (free_window_step sector slot normal) walk1 win1 ?acc)
            (walked slot normal rs ?acc fs1) fs1"
          using v Cons.prems looked_fields [OF l] coherent_looked [OF l] md_stored_looked [OF l] md_closed_looked [OF l]
            sector_holds_looked [OF l] True
          by (intro Cons.IH looked_geom [OF l]) (auto simp: viewed_def walk1_def)
        then show ?thesis by (rule wp_mono) (use looked_trans [OF l] in \<open>auto simp: walked_def split: if_splits\<close>)
      next
        case False
        then have "rs = []" using Cons.prems(9) by (auto simp: walk1_def)
        with False show ?thesis
          by (subst wp_def, subst md_walk_loop.simps) (simp add: ret_def l walked_def window_acc_def)
      qed
      with full [of FFFS_ERR_NO_SPACE] Inr x acc show ?thesis
        by (auto simp: wp_simps free_window_step_def walked_def window_blocked_def window_acc_def md_data_end_def
            elim!: wp_mono split: if_splits sum.splits)
    qed (use 1 Cons.prems(11) in auto)
  qed
qed

text \<open>The verdict on the gap between the data and the records.\<close>

definition window_open :: "'c fffs \<Rightarrow> u16 \<Rightarrow> u16 \<Rightarrow> nat \<Rightarrow> nat \<Rightarrow> bool" where
  "window_open fs sector min_free data_off record_off \<longleftrightarrow> data_off + unat min_free \<le> record_off \<and>
     erased_span fs (unat sector * fs_sector_size fs + data_off) (record_off - data_off)"

lemma window_open_looked: "looked fs fs' \<Longrightarrow> window_open fs' = window_open fs"
  by (simp add: window_open_def looked_fields erased_span_looked fun_eq_iff)

lemma window_tail_rule:
  assumes geom: "geom fs" and ok: "healthy fs" and scratch: "fs_scratch_size fs \<noteq> 0"
    and holds: "sector_holds fs sector serial st rs" and l: "looked fs fs2" and off: "record_off \<le> fs_sector_size fs"
  shows "wp (if n \<ge> FFFS_ALLOC_MAX_MD_RECORDS_PER_SECTOR
       then seqm (trym (fffs_mark_sector_full sector)) (throw FFFS_ERR_NO_SPACE)
       else if record_off < data_off \<or> record_off - data_off < unat min_free
       then seqm (if normal then trym (fffs_mark_sector_full sector) else ret (Inr ())) (throw FFFS_ERR_NO_SPACE)
       else seqm (fffs_flash_span_is_erased (unat sector * fs_sector_size fs + data_off) (record_off - data_off))
         (ret v))
    (\<lambda>r fs'. if n < FFFS_ALLOC_MAX_MD_RECORDS_PER_SECTOR \<and> window_open fs sector min_free data_off record_off
       then looked fs fs' \<and> r = Inr v else r = Inl FFFS_ERR_NO_SPACE) fs2"
proof -
  have full: "wp (seqm (trym (fffs_mark_sector_full sector)) (throw e)) (\<lambda>r _. r = Inl e) fs2" for e
    using ok holds looked_fields(6) [OF l] sector_holds_looked [OF l geom]
    by (intro mark_full_returns [OF looked_geom [OF l geom], of sector serial st rs]) simp_all
  have sc: "unat sector < fs_sector_count fs" using holds by (simp add: sector_holds_def data_sector_def)
  have "wp (seqm (fffs_flash_span_is_erased (unat sector * fs_sector_size fs + data_off) (record_off - data_off)) (ret v))
      (\<lambda>r fs'. if erased_span fs (unat sector * fs_sector_size fs + data_off) (record_off - data_off)
         then looked fs fs' \<and> r = Inr v else r = Inl FFFS_ERR_NO_SPACE) fs2" if "data_off \<le> record_off"
    unfolding wp_seqm
    by (rule wp_mono [OF span_erased_rule [OF looked_fdev [OF l geom_fdev [OF geom]]]])
      (use that off scratch ok sector_fits [OF geom sc, of data_off "record_off - data_off"] looked_fields [OF l]
        erased_span_looked [OF l] looked_trans [OF l] in \<open>auto simp: wp_simps\<close>)
  note span = this
  consider "n \<ge> 32" | "n < 32" "\<not> data_off + unat min_free \<le> record_off" | "n < 32" "data_off + unat min_free \<le> record_off"
    by linarith
  then show ?thesis
  proof cases
    case 1
    with full show ?thesis by simp
  next
    case 2
    then have "record_off < data_off \<or> record_off - data_off < unat min_free" by linarith
    with 2 full show ?thesis by (cases normal) (simp_all add: window_open_def wp_seqm wp_ret wp_throw)
  next
    case 3
    then have "\<not> (record_off < data_off \<or> record_off - data_off < unat min_free)" "data_off \<le> record_off" by linarith+
    with 3 span show ?thesis by (simp add: window_open_def)
  qed
qed

lemma free_window_rule:
  assumes geom: "geom fs" and ok: "healthy fs" and scratch: "fs_scratch_size fs \<noteq> 0"
    and holds: "sector_holds fs sector serial st rs"
    and closed: "md_closed fs (fmem fs) sector (fs_sector_size fs - 10) 0 rs"
    and off: "record_off = fs_sector_size fs - 10 - 16 * length rs - 16" and data: "data_off = claims 0 rs"
  shows "wp (fffs_find_sector_free_window sector min_free slot normal) (\<lambda>r fs'.
    if \<not> (normal \<and> fffs_lifecycle_hint_pair st = FFFS_BITMIRROR_CLEARED) \<and>
       \<not> list_ex (window_blocked slot normal) rs \<and> length rs < FFFS_ALLOC_MAX_MD_RECORDS_PER_SECTOR \<and>
       window_open fs sector min_free data_off record_off
    then looked fs fs' \<and> r = Inr (of_nat data_off, of_nat record_off, False, of_nat (length rs))
    else r = Inl FFFS_ERR_NO_SPACE) fs"
proof -
  let ?base = "unat sector * fs_sector_size fs"
  have ss: "256 \<le> fs_sector_size fs" using geom by (simp add: geom_def)
  have h: "data_sector fs sector" "footer_bytes fs sector = footer_with_state serial st" "state_live st"
    "md_stored fs (fmem fs) sector (fs_sector_size fs - 10) 0 rs"
    using holds by (auto simp: sector_holds_def)
  have sc: "unat sector < fs_sector_count fs" using h(1) by (simp add: data_sector_def)
  have valid: "\<not> (unat sector < unat (fs_index_sectors fs) \<or> unat sector \<ge> fs_sector_count fs)"
    using h(1) by (auto simp: data_sector_def)
  have foot: "sub_bytes (?base + (fs_sector_size fs - 10)) 10 (fmem fs) = footer_with_state serial st"
    using h(2) ss by (simp add: footer_bytes_def fffs_sector_footer_offset_def)
  let ?view = "fffs_decode_sector_footer (footer_with_state serial st)"
  have view: "ft_erased ?view = False"
    "(ft_type ?view \<noteq> FFFS_SECTOR_TYPE_FILE \<or> \<not> ft_magic_valid ?view \<or>
      \<not> fffs_lifecycle_is_live (ft_valid_bits ?view) (ft_tombstone_bits ?view)) = False"
    "ft_full_bits ?view = fffs_lifecycle_hint_pair st"
    using live_footer_decode [OF h(3), of serial] decode_footer_with_state(3) [of serial st]
    by (auto simp: fffs_decode_sector_footer_def)
  show ?thesis
    unfolding fffs_find_sector_free_window_def wp_bindm wp_getm sum.case id_apply Let_def if_not_P [OF valid]
  proof (rule wp_mono [OF view_rule [OF geom coherent_fresh sc]], goal_cases)
    case (3 res fs1)
    show ?case
    proof (cases res)
      case (Inr x)
      obtain win where x: "x = (footer_with_state serial st, win)" and v: "viewed fs sector 128 fs1 win"
        using 3 Inr foot by (auto simp: sector_reader_def)
      then have l: "looked fs fs1" and w: "coherent fs1 win" "rd_capacity win = 128" "rd_sector win = sector"
        by (auto simp: viewed_def coherent_looked)
      note f = looked_fields [OF l]
      define walk where "walk = zero_walk\<lparr>walk_sector := sector, walk_cursor := fs_sector_size fs1 - 10,
          walk_live_bytes := of_nat 10, walk_active := True\<rparr>"
      have init: "fffs_md_walk_init sector win fs1 = Some (Inr (walk, win), fs1)"
        using w sc valid by (simp add: fffs_md_walk_init_def bindm_getm f ret_def walk_def)
      have "wp (md_walk_loop (free_window_step sector slot normal) walk win (0, fs_sector_size fs - 10, 0))
          (walked slot normal rs (0, fs_sector_size fs - 10, 0) fs1) fs1"
        using w f sc h(4) closed md_stored_looked [OF l] md_closed_looked [OF l] ok holds
        by (intro window_walk_rule [OF looked_geom [OF l geom], where sector = sector and serial = serial and st = st
              and all_rs = rs])
          (auto simp: walk_def zero_walk_def sector_holds_looked [OF l geom])
      note walked = this
      have init_wp: "wp (fffs_md_walk_init sector win) Q fs1 = Q (Inr (walk, win)) fs1" for Q
        by (simp add: wp_def init)
      have acc: "window_acc rs (0, fs_sector_size fs - 10, 0) = (data_off, fs_sector_size fs - 10 - 16 * length rs, length rs)"
        using md_stored_acc [OF h(4), of 0] data by simp
      note tail = window_tail_rule [OF geom ok scratch holds, where record_off = record_off and n = "length rs"
          and data_off = data_off and min_free = min_free and normal = normal]
      show ?thesis
      proof (cases "normal \<and> fffs_lifecycle_hint_pair st = FFFS_BITMIRROR_CLEARED")
        case True
        then show ?thesis unfolding Inr x sum.case prod.case view if_False by (simp add: wp_throw)
      next
        case False
        show ?thesis
          unfolding Inr x sum.case prod.case view if_False if_not_P [OF False] wp_bindm init_wp
        proof (rule wp_mono [OF walked], goal_cases)
          case (1 r fs2)
          show ?case
          proof (cases "list_ex (window_blocked slot normal) rs")
            case True
            with 1 show ?thesis by (simp add: walked_def)
          next
            case False
            define a where "a = (data_off, fs_sector_size fs - 10 - 16 * length rs, length rs)"
            have l2: "looked fs fs2" and r: "r = Inr (Inl a) \<or> r = Inr (Inr a)"
              using 1 False looked_trans [OF l] by (auto simp: walked_def acc a_def)
            have r: "(case r of Inl e \<Rightarrow> P e | Inr v \<Rightarrow> wp (case case v of Inl acc \<Rightarrow> acc | Inr acc \<Rightarrow> acc of
                (x, y, z) \<Rightarrow> F x y z) Q fs2) = wp (F data_off (fs_sector_size fs - 10 - 16 * length rs) (length rs)) Q fs2" for P F Q
              using r by (auto simp: a_def)
            show ?thesis
              unfolding r off [symmetric]
              by (rule wp_mono [OF tail [OF l2]]) (use False \<open>\<not> (normal \<and> _)\<close> off in auto)
          qed
        qed
      qed
    qed (use 3 ok in auto)
  qed (use ss in \<open>auto simp: sector_reader_def\<close>)
qed

text \<open>An erased sector is one window.\<close>

lemma free_window_blank:
  assumes geom: "geom fs" and ok: "healthy fs" and scratch: "fs_scratch_size fs \<noteq> 0"
    and sector: "data_sector fs sector" and blank: "blank_above fs sector 0" and free: "unat min_free \<le> fs_sector_size fs - 26"
  shows "wp (fffs_find_sector_free_window sector min_free slot normal) (\<lambda>r fs'. looked fs fs' \<and>
    r = Inr (0, of_nat (fs_sector_size fs - 26), True, 0)) fs"
proof -
  have ss: "256 \<le> fs_sector_size fs" using geom by (simp add: geom_def)
  have sc: "unat sector < fs_sector_count fs" using sector by (simp add: data_sector_def)
  have valid: "\<not> (unat sector < unat (fs_index_sectors fs) \<or> unat sector \<ge> fs_sector_count fs)"
    using sector by (auto simp: data_sector_def)
  have foot: "sub_bytes (unat sector * fs_sector_size fs + (fs_sector_size fs - 10)) 10 (fmem fs) = replicate 10 0xff"
    using blank_room(2) [OF geom blank _ refl] ss by (simp add: footer_bytes_def fffs_sector_footer_offset_def)
  have erased: "ft_erased (fffs_decode_sector_footer (replicate 10 0xff))"
    by (simp add: fffs_decode_sector_footer_def bytes_erased_all)
  have fits: "unat sector * fs_sector_size fs + fs_sector_size fs \<le> length (fmem fs)"
    using sector_fits [OF geom sc, of 0 "fs_sector_size fs"] by simp
  show ?thesis
    unfolding fffs_find_sector_free_window_def wp_bindm wp_getm sum.case id_apply Let_def if_not_P [OF valid]
  proof (rule wp_mono [OF view_rule [OF geom coherent_fresh sc]], goal_cases)
    case (3 res fs1)
    show ?case
    proof (cases res)
      case (Inr x)
      obtain win where x: "x = (replicate 10 0xff, win)" and v: "viewed fs sector 128 fs1 win"
        using 3 Inr foot by (auto simp: sector_reader_def)
      then have l: "looked fs fs1" by (simp add: viewed_def)
      note f = looked_fields [OF l]
      have small: "\<not> (fs_sector_size fs - 10 < 16 \<or> fs_sector_size fs - 10 - 16 < unat min_free)" using ss free by simp
      have "erased_span fs1 (unat sector * fs_sector_size fs) (fs_sector_size fs)"
        using blank erased_span_looked [OF l] by (simp add: blank_above_def)
      then have "wp (fffs_flash_span_is_erased (unat sector * fs_sector_size fs) (fs_sector_size fs))
          (\<lambda>r fs'. looked fs fs' \<and> r = Inr ()) fs1"
        by (intro wp_mono [OF span_erased_rule [OF looked_fdev [OF l geom_fdev [OF geom]]]])
          (use f fits scratch ok looked_trans [OF l] in auto)
      then show ?thesis
        unfolding Inr x sum.case prod.case if_P [OF erased] if_not_P [OF small] wp_seqm
        by (rule wp_mono) (auto simp: wp_ret)
    qed (use 3 ok in auto)
  qed (use ss in \<open>auto simp: sector_reader_def\<close>)
qed

end

section \<open>Properties of windows\<close>

text \<open>C15: On a sector that holds the records \<open>rs\<close>, the search for a free window succeeds exactly when the
  sector is not marked full (for normal allocation), no record blocks it, the record limit is not reached, and
  the gap between the highest data byte any record claims and the place of the next record is large enough and
  erased; it then returns precisely that gap, and the flash is as before.  In every other case it reports
  \<open>FFFS_ERR_NO_SPACE\<close>.  It always returns.\<close>

theorem free_window_exact:
  assumes "emu.geom fs" and "emu.healthy fs" and "fs_scratch_size fs \<noteq> 0"
    and "emu.sector_holds fs sector serial st rs"
    and "md_closed fs (emu.fmem fs) sector (fs_sector_size fs - 10) 0 rs"
    and "record_off = fs_sector_size fs - 10 - 16 * length rs - 16" and "data_off = claims 0 rs"
  shows "wp (fffs_find_sector_free_window sector min_free slot normal) (\<lambda>r fs'.
    if \<not> (normal \<and> fffs_lifecycle_hint_pair st = FFFS_BITMIRROR_CLEARED) \<and>
       \<not> list_ex (window_blocked slot normal) rs \<and> length rs < FFFS_ALLOC_MAX_MD_RECORDS_PER_SECTOR \<and>
       emu.window_open fs sector min_free data_off record_off
    then emu.fmem fs' = emu.fmem fs \<and> r = Inr (of_nat data_off, of_nat record_off, False, of_nat (length rs))
    else r = Inl FFFS_ERR_NO_SPACE) fs"
  by (rule wp_mono [OF emu.free_window_rule [OF assms]]) (auto simp: emu.looked_fields split: if_splits)

text \<open>The sector of the committed example root has room for 189 bytes below a second record.\<close>

lemma example_root_fields:
  "md_live example_root" "md_slot example_root = 7" "md_data_end example_root = 25"
  "md_type example_root = FFFS_MD_TYPE_FILE_ROOT_V1"
  by (simp_all add: example_root_def extent_md_def md_data_end_def)

theorem free_window_exact_witness:
  "\<exists>fs'. fffs_find_sector_free_window 3 32 9 False (example_fs_root\<lparr>fs_scratch_size := 64\<rparr>) =
     Some (Inr (25, 214, False, 1), fs') \<and> emu.fmem fs' = emu.fmem example_fs_root"
proof -
  let ?fs = "example_fs_root\<lparr>fs_scratch_size := 64\<rparr>"
  note f = example_fs_root_facts
  obtain serial st where h: "emu.sector_holds example_fs_root 3 serial st [example_root]" using f(3) by blast
  have m: "emu.fmem ?fs = emu.fmem example_fs_root" by (simp add: emu.fmem_def)
  have g: "emu.geom ?fs" "emu.healthy ?fs"
    using f(1,2) m by (simp_all add: emu.geom_def emu.fdev_def emu.healthy_def)
  have h': "emu.sector_holds ?fs 3 serial st [example_root]"
    using h m md_wf_cong [of ?fs example_fs_root]
    by (simp add: emu.sector_holds_def data_sector_def emu.footer_bytes_def fffs_sector_footer_offset_def)
  have byte: "emu.fmem example_fs_root ! i = 0xff" if "i < 998" for i
    using f(6) that by (simp add: only_def)
  have closed: "md_closed ?fs (emu.fmem ?fs) 3 (fs_sector_size ?fs - 10) 0 [example_root]"
    using byte by (simp add: m f(7) example_root_fields)
  have len: "length (emu.fmem example_fs_root) = 1024" using f(6) by (simp add: only_def)
  have open_: "emu.window_open ?fs 3 32 25 214"
    using byte len by (simp add: emu.window_open_def emu.erased_span_def m f(7) list_eq_iff_nth_eq)
  show ?thesis
    using free_window_exact [OF g _ h' closed refl refl, of 32 9 False] open_
    by (simp add: f(7) claims_def example_root_fields window_blocked_def wp_iff m)
qed

section \<open>Allocation by scanning\<close>

definition allocatable :: "'c fffs \<Rightarrow> nat \<Rightarrow> u16 \<Rightarrow> bool" where
  "allocatable fs p sector \<longleftrightarrow> data_sector fs sector \<and> \<not> fffs_sector_is_open_for_writing fs sector \<and>
     \<not> sector_reserved_by_other fs p sector"

lemma allocatable_settled: "settled fs' = settled fs \<Longrightarrow> allocatable fs' = allocatable fs"
  by (simp add: settled_defs allocatable_def data_sector_def fffs_sector_is_open_for_writing_def
      sector_reserved_by_other_def fun_eq_iff)

lemma next_data_sector_range:
  "unat (fs_index_sectors fs) < fs_sector_count fs \<Longrightarrow>
     unat (fs_index_sectors fs) \<le> fffs_next_data_sector fs s \<and> fffs_next_data_sector fs s < fs_sector_count fs"
  by (simp add: fffs_next_data_sector_def Let_def)

lemma alloc_scan_picks:
  assumes "unat (fs_index_sectors fs) < fs_sector_count fs" "fs_sector_count fs \<le> 65536"
    and "unat (fs_index_sectors fs) \<le> s" "s < fs_sector_count fs"
  shows "wlp (alloc_scan p skip continuation left s)
    (\<lambda>r fs'. \<forall>sector. r = Inr sector \<longrightarrow> allocatable fs p sector \<and> skip \<noteq> Some sector) fs"
  using assms
proof (induction left arbitrary: s fs)
  case 0
  then show ?case by (simp add: wp_simps)
next
  case (Suc left)
  have geo: "fs_sector_count fs' = fs_sector_count fs" "fs_index_sectors fs' = fs_index_sectors fs"
    if "settled fs' = settled fs" for fs' :: "'a fffs"
    using that by (simp_all add: settled_defs)
  have go: "wlp (alloc_scan p skip continuation left (fffs_next_data_sector fs s))
    (\<lambda>r fs''. \<forall>sector. r = Inr sector \<longrightarrow> allocatable fs p sector \<and> skip \<noteq> Some sector) fs'"
    if st: "settled fs' = settled fs" for fs' :: "'a fffs"
    using Suc.IH [of fs' "fffs_next_data_sector fs s"] Suc.prems next_data_sector_range [of fs s]
      geo [OF st] allocatable_settled [OF st] by simp
  have u: "unat (of_nat s :: u16) = s" using Suc.prems by simp
  have look: "wlp (trym (fffs_find_sector_free_window (of_nat s) m slot True)) (\<lambda>r fs1. settled fs1 = settled fs) fs" for m slot
    unfolding wlp_iff by (intro allI impI) (rule keepsD [OF keeps_trym [OF md_frame4(1)]])
  have pick: "allocatable fs p (of_nat s) \<and> skip \<noteq> Some (of_nat s)"
    if "\<not> (case skip of Some k \<Rightarrow> s = unat k | None \<Rightarrow> False)"
      "\<not> (fffs_sector_is_open_for_writing fs (of_nat s) \<or> sector_reserved_by_other fs p (of_nat s))"
    using that Suc.prems u by (auto simp: allocatable_def data_sector_def)
  show ?case
    unfolding alloc_scan.simps wlp_bindm wlp_getm sum.case id_apply Let_def
  proof (simp only: wlp_if, intro if_bool_eq_conj [THEN iffD2] conjI impI go refl, unfold wlp_bindm, goal_cases)
    case 1
    note guards = 1(1,2)
    show ?case
    proof (rule wlp_mono [OF look], goal_cases)
      case (1 r fs1)
      note st = 1
      show ?case
      proof (cases r)
        case (Inr v)
        show ?thesis
        proof (cases v)
          case (Inl err)
          with Inr go [OF st] show ?thesis by (simp add: wp_simps)
        next
          case (Inr x)
          obtain d ro nf n where x: "x = (d, ro, nf, n)" by (cases x)
          have res: "wlp (alloc_scan p skip continuation left (fffs_next_data_sector fs s))
              (\<lambda>r fs''. \<forall>sector. r = Inr sector \<longrightarrow> allocatable fs p sector \<and> skip \<noteq> Some sector)
              (fffs_alloc_map_mark_used sec (fs1\<lparr>fs_compaction_reserve_sectors := a, fs_compaction_reserve_count := b\<rparr>))" for sec a b
            using st by (intro go) simp
          from pick [OF guards] \<open>r = Inr v\<close> Inr x go [OF st] res show ?thesis
            by (cases continuation) (simp_all add: wp_simps)
        qed
      qed simp
    qed
  qed
qed

text \<open>C21: The allocation scan hands out only sectors that are free to take: a data sector, not one
  that another handle is writing or has reserved, and not the sector the caller asked to skip.\<close>

theorem alloc_scan_safe:
  assumes "fs_sector_count fs \<le> 65536" and "alloc_sector_once p skip fs = Some (Inr sector, fs')"
  shows "allocatable fs p sector \<and> skip \<noteq> Some sector"
proof (cases "fs_sector_count fs \<le> unat (fs_index_sectors fs)")
  case True
  with assms(2) show ?thesis by (simp add: alloc_sector_once_def bindm_getm throw_def)
next
  case False
  have "unat (fs_index_sectors fs) \<le> start_cursor fs \<and> start_cursor fs < fs_sector_count fs"
    using False by (auto simp: start_cursor_def)
  with alloc_scan_picks [of fs "start_cursor fs" p skip "f_current (fs_files fs p) \<noteq> 0"
      "fs_sector_count fs - unat (fs_index_sectors fs)"] assms False
  show ?thesis by (simp add: alloc_sector_once_def bindm_getm wlp_iff)
qed

text \<open>A handle that continues a file on the erased four-sector device gets sector 2.\<close>

definition example_continue :: "ffsv_flash fffs" where
  "example_continue = example_fs\<lparr>fs_scratch_size := 64,
     fs_files := (\<lambda>_. zero_file)(5 := zero_file\<lparr>f_flags := FFFS_O_WRONLY, f_head := 3, f_current := 3\<rparr>)\<rparr>"

theorem alloc_scan_safe_witness:
  "\<exists>fs'. alloc_sector_once 5 (Some 3) example_continue = Some (Inr 2, fs') \<and> allocatable example_continue 5 2"
proof -
  let ?fs = example_continue
  have f: "fs_sector_size ?fs = 256" "fs_sector_count ?fs = 4" "fs_index_sectors ?fs = 2" "fs_alloc_cursor ?fs = 0"
    "fs_open_files ?fs = []" "fs_compaction_reserve_count ?fs = 0" "fs_alloc_map ?fs = None"
    "f_current (fs_files ?fs 5) = 3"
    by (simp_all add: example_continue_def example_fs_def zero_fs_def)
  have m: "emu.fmem ?fs = replicate 1024 0xff" using example_fs_mem by (simp add: emu.fmem_def example_continue_def)
  have g: "emu.geom ?fs" "emu.healthy ?fs"
    using example_fs_geom m example_fs_mem by (simp_all add: emu.geom_def emu.fdev_def emu.healthy_def example_continue_def)
  have blank: "emu.blank_above ?fs 2 0"
    unfolding emu.blank_above_def emu.erased_span_def m by (simp add: f sub_bytes_def)
  have "wp (fffs_find_sector_free_window 2 128 (f_slot (fs_files ?fs 5)) True)
      (\<lambda>r fs'. emu.looked ?fs fs' \<and> r = Inr (0, of_nat (fs_sector_size ?fs - 26), True, 0)) ?fs"
    by (rule emu.free_window_blank [OF g _ _ blank])
      (simp_all add: example_continue_def example_fs_def zero_fs_def data_sector_def)
  note window = this
  have start: "start_cursor ?fs = 2" by (simp add: start_cursor_def f)
  have free: "\<not> (fffs_sector_is_open_for_writing ?fs 2 \<or> sector_reserved_by_other ?fs 5 2)"
    "\<not> fffs_alloc_compaction_reserved ?fs 2" "\<not> fffs_alloc_map_maybe_used ?fs 2"
    by (simp_all add: f fffs_sector_is_open_for_writing_def sector_reserved_by_other_def
        fffs_alloc_compaction_reserved_def fffs_alloc_map_maybe_used_def)
  have "wp (alloc_scan 5 (Some 3) True (Suc 1) 2) (\<lambda>r fs'. r = Inr 2) ?fs"
    using free
    by (subst alloc_scan.simps, simp add: wp_bindm wp_getm Let_def wp_trym del: One_nat_def)
      (rule wp_mono [OF window], auto simp: wp_simps)
  then have scan: "wp (alloc_scan 5 (Some 3) True 2 2) (\<lambda>r fs'. r = Inr 2) ?fs"
    by (simp only: Suc_1)
  have "wp (alloc_sector_once 5 (Some 3)) (\<lambda>r fs'. r = Inr 2) ?fs"
    using scan by (simp add: alloc_sector_once_def wp_bindm wp_getm f start del: alloc_scan.simps)
  then obtain fs' where run: "alloc_sector_once 5 (Some 3) ?fs = Some (Inr 2, fs')" by (auto elim: wpE)
  from alloc_scan_safe [OF _ this] run f(2) show ?thesis by simp
qed

end
