(* ===== verification/Fffs_Stream.thy ===== *)
theory Fffs_Stream
  imports Fffs_Windows
begin

unbundle bit_operations_syntax

text \<open>
  Files as byte streams.  \<open>streams fs f es rest\<close> says that a handle positioned in an extent, with the extents
  \<open>es\<close> to follow, has the bytes \<open>rest\<close> before it; reading takes a prefix of them, across extents and whatever
  part of them is in the handle's cache.  \<open>staged fs f bytes\<close> says that an extent being written holds \<open>bytes\<close>,
  partly on flash and partly in the cache; writing appends to them.  The loops of \<^verbatim>\<open>fffs_read\<close> and \<^verbatim>\<open>fffs_write\<close> in
  \<^verbatim>\<open>src/fffs_file.c\<close> are shown to return.
\<close>

section \<open>Arithmetic\<close>

lemma unat_ucast_u16 [simp]: "unat (ucast (x :: u16) :: u32) = unat x"
  by (simp add: unsigned_ucast_eq take_bit_nat_eq_self_iff less_trans [OF unat_u16_less])

lemma unat_plus_u32: "unat (x :: u32) + k < 4294967296 \<Longrightarrow> unat (x + of_nat k) = unat x + k"
  by (simp add: unat_word_ariths unat_of_nat)

lemma unat_plus_u16: "unat (x :: u16) + k < 65536 \<Longrightarrow> unat (x + of_nat k) = unat x + k"
  by (simp add: unat_word_ariths)

lemma md_stored_room:
  "md_stored fs flash sector cursor claimed rs \<Longrightarrow> r \<in> set rs \<Longrightarrow> cursor \<le> n \<Longrightarrow>
     unat (md_data_off r) + unat (md_data_len r) \<le> n"
proof (induction rs arbitrary: cursor claimed)
  case (Cons q rs)
  have "md_wf fs sector (cursor - 16) q" using Cons.prems(1) by simp
  then have "unat (md_data_off q) + unat (md_data_len q) \<le> cursor - 16" by (simp add: md_wf_def)
  with Cons.IH [of "cursor - 16" "max claimed (md_data_end q)"] Cons.prems show ?case by (cases "r = q") simp_all
qed simp

section \<open>The extents of a file\<close>

context reliable_flash
begin

definition extent_data :: "'c fffs \<Rightarrow> u16 \<times> fffs_md_record \<Rightarrow> byte list" where
  "extent_data fs = (\<lambda>(s, r). sub_bytes (unat s * fs_sector_size fs + unat (md_data_off r)) (unat (md_data_len r)) (fmem fs))"

text \<open>The record a lookup of \<open>slot\<close> in sector \<open>s\<close> gives.\<close>

definition finds :: "'c fffs \<Rightarrow> u16 \<Rightarrow> u16 \<Rightarrow> fffs_md_record \<Rightarrow> bool" where
  "finds fs s slot r \<longleftrightarrow> (\<exists>serial st rs. sector_holds fs s serial st rs \<and>
     find (\<lambda>r. md_record_matches_slot r slot FFFS_MD_MATCH_LIVE) rs = Some r)"

text \<open>The extents that follow one in sector \<open>cur\<close>: the next sector while a span lasts, then its link.\<close>

fun chain :: "'c fffs \<Rightarrow> u16 \<Rightarrow> u16 \<Rightarrow> u16 \<Rightarrow> u16 \<Rightarrow> (u16 \<times> fffs_md_record) list \<Rightarrow> bool" where
  "chain fs slot cur span nxt [] \<longleftrightarrow> True"
| "chain fs slot cur span nxt ((s, r) # es) \<longleftrightarrow> s = (if span > 1 then cur + 1 else nxt) \<and> s \<noteq> 0 \<and>
     finds fs s slot r \<and> chain fs slot s (md_span_len r) (md_next r) es"

text \<open>\<open>steady fs fs'\<close>: a working device with the same geometry and the same bytes.\<close>

definition steady :: "'c fffs \<Rightarrow> 'c fffs \<Rightarrow> bool" where
  "steady fs fs' \<longleftrightarrow> kept fs fs' \<and> fmem fs' = fmem fs"

lemma steady_refl: "geom fs \<Longrightarrow> healthy fs \<Longrightarrow> steady fs fs"
  by (simp add: steady_def kept_refl)

lemma steady_trans: "steady fs fs' \<Longrightarrow> steady fs' fs'' \<Longrightarrow> steady fs fs''"
  by (auto simp: steady_def intro: kept_trans)

lemma looked_steady: "looked fs fs' \<Longrightarrow> geom fs \<Longrightarrow> healthy fs \<Longrightarrow> steady fs fs'"
  by (simp add: steady_def looked_kept looked_fields)

lemma steady_upd_file: "steady fs (upd_file p f fs') = steady fs fs'"
  by (simp add: steady_def kept_def upd_file_def geom_def fdev_def healthy_def fmem_def)

lemma steady_holds: "steady fs fs' \<Longrightarrow> sector_holds fs' = sector_holds fs"
  using md_stored_cong [of fs' fs]
  by (simp add: steady_def kept_def sector_holds_def data_sector_def footer_bytes_def fffs_sector_footer_offset_def fun_eq_iff)

lemma steady_chain: "steady fs fs' \<Longrightarrow> chain fs' slot cur span nxt es = chain fs slot cur span nxt es"
  by (induction es arbitrary: cur span nxt) (auto simp: finds_def steady_holds)

lemma steady_data: "steady fs fs' \<Longrightarrow> extent_data fs' = extent_data fs"
  by (simp add: extent_data_def steady_def kept_def)

section \<open>Reading\<close>

definition extent_base :: "'c fffs \<Rightarrow> fffs_file \<Rightarrow> nat" where
  "extent_base fs f = unat (f_current f) * fs_sector_size fs + unat (f_data_offset f)"

definition cache_agrees :: "'c fffs \<Rightarrow> fffs_file \<Rightarrow> bool" where
  "cache_agrees fs f \<longleftrightarrow> unat (f_cache_data_pos f) + f_cache_len f \<le> unat (f_current_data_len f) \<and>
     take (f_cache_len f) (f_cache f) =
       sub_bytes (extent_base fs f + unat (f_cache_data_pos f)) (f_cache_len f) (fmem fs)"

definition at_extent :: "'c fffs \<Rightarrow> fffs_file \<Rightarrow> bool" where
  "at_extent fs f \<longleftrightarrow> unat (f_current f) < fs_sector_count fs \<and>
     unat (f_data_offset f) + unat (f_current_data_len f) \<le> fs_sector_size fs \<and>
     unat (f_current_data_pos f) \<le> unat (f_current_data_len f) \<and> (f_cache_len f \<noteq> 0 \<longrightarrow> cache_agrees fs f)"

definition streams :: "'c fffs \<Rightarrow> fffs_file \<Rightarrow> (u16 \<times> fffs_md_record) list \<Rightarrow> byte list \<Rightarrow> bool" where
  "streams fs f es rest \<longleftrightarrow> at_extent fs f \<and>
     chain fs (f_slot f) (f_current f) (f_span_len f) (f_current_next f) es \<and>
     rest = sub_bytes (extent_base fs f + unat (f_current_data_pos f))
         (unat (f_current_data_len f) - unat (f_current_data_pos f)) (fmem fs) @ concat (map (extent_data fs) es)"

lemma steady_streams: "steady fs fs' \<Longrightarrow> streams fs' f es rest = streams fs f es rest"
  by (simp add: streams_def at_extent_def cache_agrees_def extent_base_def steady_chain steady_data)
    (simp add: steady_def kept_def)

lemma extent_fits:
  assumes "geom fs" "at_extent fs f" "k + n \<le> unat (f_current_data_len f)"
  shows "extent_base fs f + k + n \<le> length (fmem fs)"
  using sector_fits [OF assms(1), of "unat (f_current f)" "unat (f_data_offset f) + k" n] assms(2,3)
  by (simp add: at_extent_def extent_base_def)

lemma remaining_eq:
  "at_extent fs f \<Longrightarrow> unat (ucast (f_current_data_len f) - f_current_data_pos f) =
     unat (f_current_data_len f) - unat (f_current_data_pos f)"
  by (simp add: at_extent_def unat_sub_if_size word_le_nat_alt)

text \<open>The state after a step of the read path: the bytes are the same, and the handle is \<open>f'\<close>.\<close>

definition stepped :: "nat \<Rightarrow> 'c fffs \<Rightarrow> fffs_file \<Rightarrow> 'c fffs \<Rightarrow> bool" where
  "stepped p fs f' fs' \<longleftrightarrow> steady fs fs' \<and> fs_files fs' p = f'"

lemma stepped_upd: "stepped p fs f fs' \<Longrightarrow> stepped p fs (g f) (upd_file p g fs')"
  by (simp add: stepped_def steady_upd_file) (simp add: upd_file_def)

lemma looked_stepped: "looked fs fs' \<Longrightarrow> geom fs \<Longrightarrow> healthy fs \<Longrightarrow> stepped p fs (fs_files fs p) fs'"
  by (simp add: stepped_def looked_steady looked_fields)

lemma read_ok:
  assumes "geom fs" "healthy fs" "off + n \<le> length (fmem fs)"
  shows "wp (fffs_flash_read off n) (\<lambda>r fs'. r = Inr (sub_bytes off n (fmem fs)) \<and> looked fs fs') fs"
  by (rule read_rule [OF geom_fdev [OF assms(1)]]) (use assms looked_set_ctx in auto)

lemma fill_rule:
  assumes "geom fs" "healthy fs" "fs_files fs p = f" "at_extent fs f"
    and "n = min (unat (f_current_data_len f) - unat (f_current_data_pos f)) 256"
  shows "wp (fill_read_cache p) (\<lambda>r fs'. r = Inr () \<and> stepped p fs
    (f\<lparr>f_cache := put_bytes 0 (sub_bytes (extent_base fs f + unat (f_current_data_pos f)) n (fmem fs)) (f_cache f),
       f_cache_data_pos := f_current_data_pos f, f_cache_len := n\<rparr>) fs') fs"
proof -
  have fit: "extent_base fs f + unat (f_current_data_pos f) + n \<le> length (fmem fs)"
    using assms by (intro extent_fits) (auto simp: at_extent_def)
  show ?thesis
    unfolding fill_read_cache_def wp_bindm wp_getm sum.case id_apply Let_def assms(3) remaining_eq [OF assms(4)]
      assms(5) [symmetric] data_address_def extent_base_def [symmetric]
    by (rule wp_mono [OF read_ok [OF assms(1,2) fit]])
      (use assms(1-3) in \<open>auto simp: mod_file_def wp_modm intro!: stepped_upd dest: looked_stepped [of _ _ p]\<close>)
qed

lemma take_rest:
  assumes "geom fs" "streams fs f es rest" "k \<le> unat (f_current_data_len f) - unat (f_current_data_pos f)"
  shows "take k rest = sub_bytes (extent_base fs f + unat (f_current_data_pos f)) k (fmem fs)"
proof -
  let ?l = "unat (f_current_data_len f) - unat (f_current_data_pos f)"
  have "extent_base fs f + unat (f_current_data_pos f) + ?l \<le> length (fmem fs)"
    using assms by (intro extent_fits) (auto simp: streams_def at_extent_def)
  with assms(2,3) show ?thesis
    by (auto simp: streams_def sub_bytes_def min_def)
qed

text \<open>One round delivers the next bytes of the extent and only touches the cache.\<close>

definition delivers :: "nat \<Rightarrow> 'c fffs \<Rightarrow> (u16 \<times> fffs_md_record) list \<Rightarrow> byte list \<Rightarrow> nat \<Rightarrow> byte list res \<Rightarrow> 'c fffs \<Rightarrow> bool" where
  "delivers p fs es rest want r fs' \<longleftrightarrow> (\<exists>k f' a b c. f' = (fs_files fs p)\<lparr>f_cache := a, f_cache_data_pos := b, f_cache_len := c\<rparr> \<and>
     r = Inr (take k rest) \<and> k \<le> want \<and>
     k \<le> unat (f_current_data_len f') - unat (f_current_data_pos f') \<and>
     (f_current_data_pos f' < ucast (f_current_data_len f') \<longrightarrow> 0 < k) \<and>
     stepped p fs f' fs' \<and> streams fs f' es rest)"

lemma streams_cache:
  "streams fs f es rest \<Longrightarrow> c \<noteq> 0 \<longrightarrow> cache_agrees fs (f\<lparr>f_cache := a, f_cache_data_pos := b, f_cache_len := c\<rparr>) \<Longrightarrow>
     streams fs (f\<lparr>f_cache := a, f_cache_data_pos := b, f_cache_len := c\<rparr>) es rest"
  by (simp add: streams_def at_extent_def extent_base_def)

lemma piece_cached:
  assumes geom: "geom fs" "healthy fs" and f: "fs_files fs p = f" and str: "streams fs f es rest" and want: "0 < want"
    and hit: "read_cache_has_remaining f"
  shows "wp (read_piece p want) (delivers p fs es rest want) fs"
proof -
  define n k where "n = min want (unat (f_current_data_len f) - unat (f_current_data_pos f))"
    and "k = min n (f_cache_len f - (unat (f_current_data_pos f) - unat (f_cache_data_pos f)))"
  have at: "at_extent fs f" using str by (simp add: streams_def)
  have h: "f_cache_len f \<noteq> 0" "unat (f_cache_data_pos f) \<le> unat (f_current_data_pos f)"
    "unat (f_current_data_pos f) < unat (f_cache_data_pos f) + f_cache_len f"
    using hit by (simp_all add: read_cache_has_remaining_def word_le_nat_alt)
  have agree: "cache_agrees fs f" using at h(1) by (simp add: at_extent_def)
  have pos: "unat (f_current_data_pos f - f_cache_data_pos f) = unat (f_current_data_pos f) - unat (f_cache_data_pos f)"
    using h(2) by (simp add: unat_sub_if_size word_le_nat_alt)
  have k: "k \<le> want" "k \<le> unat (f_current_data_len f) - unat (f_current_data_pos f)"
    "f_current_data_pos f < ucast (f_current_data_len f) \<Longrightarrow> 0 < k"
    "unat (f_current_data_pos f) - unat (f_cache_data_pos f) + k \<le> f_cache_len f"
    using h want by (auto simp: k_def n_def word_less_nat_alt)
  have "sub_bytes (unat (f_current_data_pos f) - unat (f_cache_data_pos f)) k (f_cache f) =
      sub_bytes (unat (f_current_data_pos f) - unat (f_cache_data_pos f)) k (take (f_cache_len f) (f_cache f))"
    using k(4) by (simp add: sub_bytes_def take_drop min_def)
  also have "\<dots> = take k rest"
    using agree take_rest [OF geom(1) str k(2)] k(4) h(2) by (simp add: cache_agrees_def)
  finally have piece: "sub_bytes (unat (f_current_data_pos f) - unat (f_cache_data_pos f)) k (f_cache f) = take k rest" .
  have "delivers p fs es rest want (Inr (take k rest)) fs"
    unfolding delivers_def
    by (rule exI [of _ k], rule exI [of _ f], rule exI [of _ "f_cache f"], rule exI [of _ "f_cache_data_pos f"],
        rule exI [of _ "f_cache_len f"])
      (use f str k steady_refl [OF geom] in \<open>auto simp: stepped_def\<close>)
  then show ?thesis
    unfolding read_piece_def wp_bindm wp_getm sum.case id_apply Let_def f if_P [OF hit] wp_ret pos
      remaining_eq [OF at] n_def [symmetric] k_def [symmetric] piece .
qed

lemma piece_filled:
  assumes geom: "geom fs" "healthy fs" and f: "fs_files fs p = f" and str: "streams fs f es rest" and want: "0 < want"
    and hit: "\<not> read_cache_has_remaining f"
    and small: "min want (unat (f_current_data_len f) - unat (f_current_data_pos f)) < 256"
  shows "wp (read_piece p want) (delivers p fs es rest want) fs"
proof -
  define n k where "n = min (unat (f_current_data_len f) - unat (f_current_data_pos f)) 256" and "k = min want n"
  have at: "at_extent fs f" using str by (simp add: streams_def)
  have n: "n \<le> unat (f_current_data_len f) - unat (f_current_data_pos f)" by (simp add: n_def)
  have k: "k \<le> want" "k \<le> unat (f_current_data_len f) - unat (f_current_data_pos f)"
    "f_current_data_pos f < ucast (f_current_data_len f) \<Longrightarrow> 0 < k" "k \<le> n"
    using want by (auto simp: k_def n_def word_less_nat_alt)
  define data where "data = sub_bytes (extent_base fs f + unat (f_current_data_pos f)) n (fmem fs)"
  have data: "data = take n rest" using take_rest [OF geom(1) str n] by (simp add: data_def)
  have fit: "extent_base fs f + unat (f_current_data_pos f) + n \<le> length (fmem fs)"
    using n at by (intro extent_fits [OF geom(1)]) (auto simp: at_extent_def)
  then have len: "length data = n" by (simp add: data_def)
  define f' where "f' = f\<lparr>f_cache := put_bytes 0 data (f_cache f), f_cache_data_pos := f_current_data_pos f, f_cache_len := n\<rparr>"
  have "unat (f_current_data_pos f) + n \<le> unat (f_current_data_len f)" using n at unfolding at_extent_def by linarith
  then have agree: "cache_agrees fs f'"
    using len by (simp add: cache_agrees_def f'_def extent_base_def data_def put_bytes_def)
  have str': "streams fs f' es rest" using streams_cache [OF str] agree by (simp add: f'_def)
  have piece: "take (min want (f_cache_len f')) (f_cache f') = take k rest"
    using k(4) len data by (simp add: f'_def put_bytes_def k_def min_def)
  have fill: "wp (fill_read_cache p) (\<lambda>r fs'. r = Inr () \<and> stepped p fs f' fs') fs"
    using fill_rule [OF geom f at n_def] by (simp add: f'_def data_def)
  have deliv: "delivers p fs es rest want (Inr (take k rest)) fs'" if "stepped p fs f' fs'" for fs'
    unfolding delivers_def
    by (rule exI [of _ k], rule exI [of _ f'], rule exI [of _ "put_bytes 0 data (f_cache f)"],
        rule exI [of _ "f_current_data_pos f"], rule exI [of _ n])
      (use f str' k that in \<open>auto simp: f'_def\<close>)
  show ?thesis
    unfolding read_piece_def wp_bindm wp_getm sum.case id_apply Let_def f if_not_P [OF hit] remaining_eq [OF at]
      if_P [OF small] wp_seqm get_file_def
    by (rule wp_mono [OF fill]) (auto simp: wp_ret stepped_def [of p fs f'] piece deliv [unfolded stepped_def])
qed

lemma piece_direct:
  assumes geom: "geom fs" "healthy fs" and f: "fs_files fs p = f" and str: "streams fs f es rest" and want: "0 < want"
    and hit: "\<not> read_cache_has_remaining f"
    and large: "\<not> min want (unat (f_current_data_len f) - unat (f_current_data_pos f)) < 256"
  shows "wp (read_piece p want) (delivers p fs es rest want) fs"
proof -
  define k where "k = min want (unat (f_current_data_len f) - unat (f_current_data_pos f))"
  define f' where "f' = f\<lparr>f_cache_len := 0\<rparr>"
  have at: "at_extent fs f" using str by (simp add: streams_def)
  have k: "k \<le> want" "k \<le> unat (f_current_data_len f) - unat (f_current_data_pos f)" "0 < k"
    using large by (auto simp: k_def)
  have fit: "extent_base fs f + unat (f_current_data_pos f) + k \<le> length (fmem fs)"
    using k(2) at by (intro extent_fits [OF geom(1)]) (auto simp: at_extent_def)
  have up: "stepped p fs f' (upd_file p (\<lambda>f. f\<lparr>f_cache_len := 0\<rparr>) fs)"
    unfolding f'_def by (rule stepped_upd) (simp add: stepped_def steady_refl geom f)
  let ?fs = "upd_file p (\<lambda>f. f\<lparr>f_cache_len := 0\<rparr>) fs"
  have g: "geom ?fs" "healthy ?fs" "fmem ?fs = fmem fs" "fs_files ?fs p = f'"
    using up by (simp_all add: stepped_def steady_def kept_def)
  have str': "streams fs f' es rest"
    using streams_cache [OF str, where c = 0 and a = "f_cache f" and b = "f_cache_data_pos f"] by (simp add: f'_def)
  have deliv: "delivers p fs es rest want (Inr (take k rest)) fs'" if "looked ?fs fs'" for fs'
    unfolding delivers_def
    by (rule exI [of _ k], rule exI [of _ f'], rule exI [of _ "f_cache f"], rule exI [of _ "f_cache_data_pos f"],
        rule exI [of _ 0])
      (use f str' k up looked_stepped [OF that g(1,2), of p] steady_trans [of fs ?fs fs']
       in \<open>auto simp: f'_def stepped_def\<close>)
  show ?thesis
    unfolding read_piece_def wp_bindm wp_getm sum.case id_apply Let_def f if_not_P [OF hit] remaining_eq [OF at]
      k_def [symmetric] if_not_P [OF large [folded k_def]] wp_seqm mod_file_def wp_modm data_address_def extent_base_def [symmetric]
    by (rule wp_mono [OF read_ok [OF g(1,2)]])
      (use fit g(3) deliv take_rest [OF geom(1) str k(2)] in auto)
qed

lemma piece_rule:
  assumes "geom fs" "healthy fs" "streams fs (fs_files fs p) es rest" "0 < want"
  shows "wp (read_piece p want) (delivers p fs es rest want) fs"
  using piece_cached [OF assms(1,2) refl assms(3,4)] piece_filled [OF assms(1,2) refl assms(3,4)]
    piece_direct [OF assms(1,2) refl assms(3,4)] by blast

lemma streams_advance:
  assumes "streams fs f es rest" "geom fs" "k \<le> unat (f_current_data_len f) - unat (f_current_data_pos f)"
  shows "streams fs (f\<lparr>f_current_data_pos := f_current_data_pos f + of_nat k, f_pos := q\<rparr>) es (drop k rest)"
proof -
  have at: "at_extent fs f" using assms(1) by (simp add: streams_def)
  have small: "unat (f_current_data_pos f) + k \<le> unat (f_current_data_len f)"
    using assms(3) at unfolding at_extent_def by linarith
  have pos: "unat (f_current_data_pos f + of_nat k) = unat (f_current_data_pos f) + k"
    using small unat_u16_less [of "f_current_data_len f"] by (intro unat_plus_u32) linarith
  have fit: "extent_base fs f + unat (f_current_data_pos f) + (unat (f_current_data_len f) - unat (f_current_data_pos f)) \<le> length (fmem fs)"
    using at by (intro extent_fits [OF assms(2)]) (auto simp: at_extent_def)
  have "drop k (sub_bytes (extent_base fs f + unat (f_current_data_pos f)) (unat (f_current_data_len f) - unat (f_current_data_pos f)) (fmem fs)) =
      sub_bytes (extent_base fs f + (unat (f_current_data_pos f) + k)) (unat (f_current_data_len f) - (unat (f_current_data_pos f) + k)) (fmem fs)"
    by (simp add: sub_bytes_def drop_take add.commute add.left_commute)
  with assms(1,3) fit small show ?thesis
    by (auto simp: streams_def at_extent_def cache_agrees_def extent_base_def pos)
qed

lemma next_rule:
  assumes geom: "geom fs" "healthy fs" and f: "fs_files fs p = f" and str: "streams fs f ((s, r) # es) rest"
    and stop: "unat (f_current_data_len f) = unat (f_current_data_pos f)"
  shows "wp (read_next_extent p) (\<lambda>res fs'. res = Inr () \<and> stepped p fs (enter_extent s r f) fs' \<and>
    streams fs (enter_extent s r f) es rest) fs"
proof -
  have c: "s = following_sector f" "s \<noteq> 0" "finds fs s (f_slot f) r" "chain fs (f_slot f) s (md_span_len r) (md_next r) es"
    using str by (auto simp: streams_def following_sector_def)
  from c(3) obtain serial st rs where h: "sector_holds fs s serial st rs"
    and found: "find (\<lambda>r. md_record_matches_slot r (f_slot f) FFFS_MD_MATCH_LIVE) rs = Some r"
    by (auto simp: finds_def)
  have look: "wp (fffs_read_md_for_slot s (f_slot f)) (\<lambda>res fs'. looked fs fs' \<and> res = Inr r) fs"
    unfolding fffs_read_md_for_slot_def
    by (rule wp_mono [OF read_md_holds [OF geom(1) h found]]) (use geom(2) in auto)
  have sec: "unat s < fs_sector_count fs" using h by (simp add: sector_holds_def data_sector_def)
  have room: "unat (md_data_off r) + unat (md_data_len r) \<le> fs_sector_size fs"
  proof -
    have "r \<in> set rs" using found by (simp add: find_Some_iff) (metis nth_mem)
    with h show ?thesis using md_stored_room [of fs "fmem fs" s "fs_sector_size fs - 10" 0 rs r "fs_sector_size fs"]
      by (simp add: sector_holds_def)
  qed
  have "streams fs (enter_extent s r f) es rest"
    using str c sec room stop by (auto simp: streams_def enter_extent_def at_extent_def extent_base_def extent_data_def sub_bytes_def)
  then show ?thesis
    unfolding read_next_extent_def get_file_def wp_bindm wp_getm sum.case f c(1) [symmetric] if_not_P [OF c(2)]
    by (intro wp_mono [OF look])
      (use looked_stepped [OF _ geom, of _ p] f in \<open>auto simp: mod_file_def wp_modm intro!: stepped_upd\<close>)
qed

text \<open>The handle after \<open>k\<close> bytes.\<close>

definition advanced :: "nat \<Rightarrow> 'c fffs \<Rightarrow> nat \<Rightarrow> 'c fffs \<Rightarrow> bool" where
  "advanced p fs k fs' \<longleftrightarrow> steady fs fs' \<and>
     (let f = fs_files fs p; f' = fs_files fs' p in f_pos f' = f_pos f + of_nat k \<and> f_size f' = f_size f \<and>
        f_flags f' = f_flags f \<and> f_closed f' = f_closed f \<and> f_head f' = f_head f \<and> f_slot f' = f_slot f)"

lemma advanced_trans:
  "advanced p fs k fs' \<Longrightarrow> advanced p fs' l fs'' \<Longrightarrow> advanced p fs (k + l) fs''"
  by (auto simp: advanced_def Let_def intro: steady_trans)

lemma read_loop_rule:
  assumes "geom fs" "healthy fs" "streams fs (fs_files fs p) es rest" "length sofar + length (take n rest) = want" "n \<le> length rest"
  shows "wp (read_loop p want sofar) (\<lambda>r fs'. r = Inr (sofar @ take n rest) \<and> advanced p fs n fs' \<and>
    (\<exists>es'. streams fs' (fs_files fs' p) es' (drop n rest))) fs"
  using assms
proof (induction "n + length es" arbitrary: fs sofar es rest n rule: less_induct)
  case less
  let ?f = "fs_files fs p"
  let ?Q = "\<lambda>r fs'. r = Inr (sofar @ take n rest) \<and> advanced p fs n fs' \<and> (\<exists>es'. streams fs' (fs_files fs' p) es' (drop n rest))"
  have at: "at_extent fs ?f" using less.prems(3) by (simp add: streams_def)
  show ?case
  proof (cases "n = 0")
    case True
    have "streams fs ?f es (drop 0 rest)" "advanced p fs 0 fs"
      using less.prems by (simp_all add: advanced_def steady_refl Let_def)
    with True less.prems(4) show ?thesis
      by (subst wp_def, subst read_loop.simps) (auto simp: ret_def)
  next
    case False
    have go: "length sofar < want" and left: "want - length sofar = n" using False less.prems(4,5) by auto
    have round: "wp (bindm (read_piece p (want - length sofar)) (\<lambda>piece.
          seqm (mod_file p (\<lambda>f. f\<lparr>f_current_data_pos := f_current_data_pos f + of_nat (length piece),
                 f_pos := f_pos f + of_nat (length piece)\<rparr>))
            (read_loop p want (sofar @ piece)))) ?Q fs1"
      if s1: "advanced p fs 0 fs1" and str1: "streams fs1 (fs_files fs1 p) es1 rest"
        and shrink: "length es1 \<le> length es"
          "f_current_data_pos (fs_files fs1 p) < ucast (f_current_data_len (fs_files fs1 p)) \<or> length es1 < length es"
      for fs1 es1
    proof -
      have g1: "geom fs1" "healthy fs1" using s1 by (simp_all add: advanced_def steady_def kept_def)
      have "wp (read_piece p n) (delivers p fs1 es1 rest n) fs1"
        using False by (intro piece_rule [OF g1 str1]) simp
      then show ?thesis
        unfolding left wp_bindm
      proof (rule wp_mono)
        fix r fs2
        assume "delivers p fs1 es1 rest n r fs2"
        then obtain k f' a b c where f': "f' = (fs_files fs1 p)\<lparr>f_cache := a, f_cache_data_pos := b, f_cache_len := c\<rparr>"
          and r: "r = Inr (take k rest)" and k: "k \<le> n" "k \<le> unat (f_current_data_len f') - unat (f_current_data_pos f')"
            "f_current_data_pos f' < ucast (f_current_data_len f') \<longrightarrow> 0 < k"
          and st: "stepped p fs1 f' fs2" and str2: "streams fs1 f' es1 rest"
          unfolding delivers_def by blast
        have len: "length (take k rest) = k" using k(1) less.prems(5) by simp
        define g where "g = (\<lambda>f :: fffs_file. f\<lparr>f_current_data_pos := f_current_data_pos f + of_nat k, f_pos := f_pos f + of_nat k\<rparr>)"
        define fs3 where "fs3 = upd_file p g fs2"
        have st3: "stepped p fs1 (g f') fs3" unfolding fs3_def by (rule stepped_upd [OF st])
        have g3: "geom fs3" "healthy fs3" "fs_files fs3 p = g f'" using st3 by (simp_all add: stepped_def steady_def kept_def)
        have adv: "advanced p fs1 k fs3" using st3 f' by (simp add: advanced_def stepped_def g_def Let_def)
        have "streams fs1 (g f') es1 (drop k rest)"
          unfolding g_def by (rule streams_advance [OF str2 g1(1) k(2)])
        then have str3: "streams fs3 (fs_files fs3 p) es1 (drop k rest)"
          using steady_streams [of fs1 fs3] st3 by (simp add: stepped_def)
        have "n - k + length es1 < n + length es" using k(1,3) shrink f' False by (cases "k = 0") auto
        then have "wp (read_loop p want (sofar @ take k rest)) (\<lambda>r fs'. r = Inr ((sofar @ take k rest) @ take (n - k) (drop k rest)) \<and>
            advanced p fs3 (n - k) fs' \<and> (\<exists>es'. streams fs' (fs_files fs' p) es' (drop (n - k) (drop k rest)))) fs3"
          by (rule less.hyps [OF _ g3(1,2) str3]) (use less.prems(4,5) k(1) in auto)
        moreover have "take k rest @ take (n - k) (drop k rest) = take n rest"
          using k(1) by (simp add: take_add [symmetric])
        moreover have "drop (n - k) (drop k rest) = drop n rest" using k(1) by simp
        ultimately have "wp (read_loop p want (sofar @ take k rest)) ?Q fs3"
          using advanced_trans [OF advanced_trans [OF s1 adv], of "n - k"] k(1) by (auto elim!: wp_mono)
        then show "case r of Inl e \<Rightarrow> ?Q (Inl e) fs2 | Inr v \<Rightarrow> wp (seqm (mod_file p (\<lambda>f. f\<lparr>f_current_data_pos := f_current_data_pos f + of_nat (length v),
                 f_pos := f_pos f + of_nat (length v)\<rparr>)) (read_loop p want (sofar @ v))) ?Q fs2"
          unfolding r sum.case len wp_seqm mod_file_def wp_modm g_def [symmetric] fs3_def [symmetric] by simp
      qed
    qed
    define M :: "('c, byte list) fsop" where "M = seqm (whenm (f_current_data_pos ?f \<ge> ucast (f_current_data_len ?f)) (read_next_extent p))
        (bindm (read_piece p (want - length sofar)) (\<lambda>piece.
          seqm (mod_file p (\<lambda>f. f\<lparr>f_current_data_pos := f_current_data_pos f + of_nat (length piece),
                 f_pos := f_pos f + of_nat (length piece)\<rparr>))
            (read_loop p want (sofar @ piece))))"
    have "read_loop p want sofar fs = M fs"
      by (subst read_loop.simps) (simp add: go M_def)
    moreover have "wp M ?Q fs"
      proof (cases "f_current_data_pos ?f \<ge> ucast (f_current_data_len ?f)")
        case True
        then have stop: "unat (f_current_data_len ?f) = unat (f_current_data_pos ?f)"
          using at by (simp add: at_extent_def word_le_nat_alt)
        have "es \<noteq> []" using less.prems(3,5) False stop by (auto simp: streams_def sub_bytes_def)
        then obtain s r es' where es: "es = (s, r) # es'" by (cases es) auto
        show ?thesis
          unfolding M_def wp_seqm wp_whenm if_P [OF True]
        proof (rule wp_mono [OF next_rule [OF less.prems(1,2) refl less.prems(3) [unfolded es] stop]], goal_cases)
          case (1 res fs1)
          then have "advanced p fs 0 fs1" by (simp add: advanced_def stepped_def enter_extent_def Let_def)
          moreover have "streams fs1 (fs_files fs1 p) es' rest"
            using 1 steady_streams [of fs fs1] by (simp add: stepped_def)
          ultimately show ?case using round [of fs1 es'] 1 es by simp
        qed
      next
        case no: False
        then have "f_current_data_pos ?f < ucast (f_current_data_len ?f)" by simp
        moreover have "advanced p fs 0 fs" using steady_refl [OF less.prems(1,2)] by (simp add: advanced_def Let_def)
        ultimately have "wp (bindm (read_piece p (want - length sofar)) (\<lambda>piece.
          seqm (mod_file p (\<lambda>f. f\<lparr>f_current_data_pos := f_current_data_pos f + of_nat (length piece),
                 f_pos := f_pos f + of_nat (length piece)\<rparr>))
            (read_loop p want (sofar @ piece)))) ?Q fs"
          using less.prems(3) by (intro round [of fs es]) simp_all
        with no show ?thesis unfolding M_def wp_seqm wp_whenm by simp
      qed
    ultimately show ?thesis by (simp only: wp_def)
  qed
qed

definition reading :: "'c fffs \<Rightarrow> nat \<Rightarrow> byte list \<Rightarrow> bool" where
  "reading fs p rest \<longleftrightarrow> geom fs \<and> healthy fs \<and> \<not> f_closed (fs_files fs p) \<and>
     f_flags (fs_files fs p) AND FFFS_O_RDONLY \<noteq> 0 \<and> f_pos (fs_files fs p) \<le> f_size (fs_files fs p) \<and>
     length rest = unat (f_size (fs_files fs p) - f_pos (fs_files fs p)) \<and>
     (\<exists>es. streams fs (fs_files fs p) es rest)"

lemma read_rule_stream:
  assumes "reading fs p rest"
  shows "wp (fffs_read p n) (\<lambda>r fs'. r = Inr (take n rest) \<and> reading fs' p (drop n rest) \<and> fmem fs' = fmem fs) fs"
proof -
  let ?f = "fs_files fs p"
  from assms obtain es where r: "geom fs" "healthy fs" "\<not> (f_closed ?f \<or> f_flags ?f AND FFFS_O_RDONLY = 0)"
    "f_pos ?f \<le> f_size ?f" "length rest = unat (f_size ?f - f_pos ?f)" "streams fs ?f es rest"
    by (auto simp: reading_def)
  define m where "m = min n (length rest)"
  have m: "take m rest = take n rest" "drop m rest = drop n rest" "m \<le> length rest" by (auto simp: m_def min_def)
  have fin: "reading fs' p (drop n rest) \<and> fmem fs' = fmem fs"
    if adv: "advanced p fs m fs'" and str: "\<exists>es'. streams fs' (fs_files fs' p) es' (drop m rest)" for fs'
  proof -
    have len: "unat (f_size ?f) - unat (f_pos ?f) = length rest"
      using r(4,5) by (simp add: unat_sub_if_size word_le_nat_alt)
    have le: "unat (f_pos ?f) \<le> unat (f_size ?f)" using r(4) by (simp add: word_le_nat_alt)
    have "unat (f_pos ?f + of_nat m) = unat (f_pos ?f) + m"
      using len le m(3) unat_u32_less [of "f_size ?f"] by (intro unat_plus_u32) linarith
    note pos = this
    have a: "f_pos (fs_files fs' p) = f_pos ?f + of_nat m" "f_size (fs_files fs' p) = f_size ?f"
      "f_flags (fs_files fs' p) = f_flags ?f" "f_closed (fs_files fs' p) = f_closed ?f" "geom fs'" "healthy fs'" "fmem fs' = fmem fs"
      using adv by (simp_all add: advanced_def Let_def steady_def kept_def)
    have le': "f_pos ?f + of_nat m \<le> f_size ?f" unfolding word_le_nat_alt pos using len le m(3) by linarith
    have "unat (f_size ?f - (f_pos ?f + of_nat m)) = unat (f_size ?f) - (unat (f_pos ?f) + m)"
      using le' pos by (simp only: unat_sub)
    then have "length (drop m rest) = unat (f_size ?f - (f_pos ?f + of_nat m))"
      unfolding length_drop using len by linarith
    with a le' str r(3) show ?thesis unfolding reading_def m(2) [symmetric] a by simp
  qed
  show ?thesis
  proof (cases "m = 0")
    case True
    have "advanced p fs m fs" using steady_refl [OF r(1,2)] True by (simp add: advanced_def Let_def)
    from fin [OF this] r(5,6) m True show ?thesis
      by (auto simp: fffs_read_def get_file_def wp_simps Let_def r(3) m_def [symmetric] min.commute)
  next
    case False
    have "wp (read_loop p m []) (\<lambda>r fs'. r = Inr (take n rest) \<and> reading fs' p (drop n rest) \<and> fmem fs' = fmem fs) fs"
      by (rule wp_mono [OF read_loop_rule [OF r(1,2,6) _ m(3)]]) (use m fin in \<open>auto simp: m_def\<close>)
    moreover have "min n (unat (f_size ?f - f_pos ?f)) = m" using r(5) by (simp add: m_def)
    ultimately show ?thesis
      unfolding fffs_read_def get_file_def wp_bindm wp_getm sum.case if_not_P [OF r(3)] Let_def
      using False by (simp only: if_False)
  qed
qed

end

section \<open>Writing\<close>

definition extent_prefix :: "fffs_file \<Rightarrow> nat" where
  "extent_prefix f = (if f_current f = f_head f then unat (f_root_payload_offset f) else 0)"

definition extent_room :: "fffs_file \<Rightarrow> nat" where
  "extent_room f = unat (f_current_metadata_offset f) - unat (f_data_offset f)"

text \<open>The handle after \<open>k\<close> more bytes: only cache, write offset, data length and size differ.\<close>

definition filled :: "nat \<Rightarrow> fffs_file \<Rightarrow> fffs_file \<Rightarrow> bool" where
  "filled k f f' \<longleftrightarrow> f' = f\<lparr>f_cache := f_cache f', f_cache_len := f_cache_len f',
     f_current_write_offset := f_current_write_offset f', f_current_data_len := f_current_data_len f',
     f_size := f_size f + of_nat k\<rparr>"

lemma filled_trans: "filled k f f' \<Longrightarrow> filled l f' f'' \<Longrightarrow> filled (k + l) f f''"
  by (cases f, cases f', cases f'') (simp add: filled_def add.assoc)

lemma filled_refl: "filled 0 f f"
  by (simp add: filled_def)

lemma filled_fields:
  assumes "filled k f f'"
  shows "f_current f' = f_current f" "f_data_offset f' = f_data_offset f" "f_head f' = f_head f"
    "f_current_metadata_offset f' = f_current_metadata_offset f" "f_closed f' = f_closed f"
    "f_flags f' = f_flags f" "f_root_payload_offset f' = f_root_payload_offset f"
  using assms by (cases f, cases f', simp add: filled_def)+

definition stage :: "byte list \<Rightarrow> nat \<Rightarrow> fffs_file \<Rightarrow> fffs_file" where
  "stage src n f = f\<lparr>f_cache := put_bytes (f_cache_len f) (take n src) (f_cache f), f_cache_len := f_cache_len f + n,
     f_current_data_len := f_current_data_len f + of_nat n, f_size := f_size f + of_nat n\<rparr>"

lemma filled_stage: "filled n f (stage src n f)"
  by (simp add: filled_def stage_def)

lemma take_put_bytes:
  "a + length xs \<le> length ys \<Longrightarrow> take (a + length xs) (put_bytes a xs ys) = take a ys @ xs"
  by (simp add: put_bytes_def)

context reliable_flash
begin

text \<open>\<open>moved p fs f' fs'\<close>: only the device and the handle \<open>p\<close>, now \<open>f'\<close>, have changed.\<close>

definition moved :: "nat \<Rightarrow> 'c fffs \<Rightarrow> fffs_file \<Rightarrow> 'c fffs \<Rightarrow> bool" where
  "moved p fs f' fs' \<longleftrightarrow> kept fs fs' \<and> (\<exists>c. fs' = (set_ctx c fs)\<lparr>fs_files := (fs_files fs)(p := f')\<rparr>)"

lemma fmem_upd_file [simp]: "fmem (upd_file p g fs) = fmem fs"
  by (simp add: fmem_def upd_file_def)

lemma kept_upd_file [simp]: "kept fs (upd_file p g fs') = kept fs fs'"
  by (simp add: kept_def upd_file_def geom_def fdev_def healthy_def fmem_def)

lemma moved_refl: "geom fs \<Longrightarrow> healthy fs \<Longrightarrow> moved p fs (fs_files fs p) fs"
  unfolding moved_def
  by (rule conjI, simp add: kept_refl, rule exI [of _ "be_ctx (fs_backend fs)"]) (simp add: set_ctx_self)

lemma moved_upd: "moved p fs f fs' \<Longrightarrow> moved p fs (g f) (upd_file p g fs')"
  by (simp add: moved_def) (auto simp: upd_file_def)

lemma moved_trans: "moved p fs f fs' \<Longrightarrow> moved p fs' f' fs'' \<Longrightarrow> moved p fs f' fs''"
  by (auto simp: moved_def set_ctx_def intro: kept_trans)

lemma moved_fields:
  assumes "moved p fs f fs'"
  shows "fs_files fs' p = f" "fs_sector_size fs' = fs_sector_size fs" "fs_sector_count fs' = fs_sector_count fs"
    "be_program_granule (fs_backend fs') = be_program_granule (fs_backend fs)" "geom fs'" "healthy fs'"
    "length (fmem fs') = length (fmem fs)"
  using assms by (auto simp: moved_def kept_def set_ctx_def)

lemma program_moved:
  assumes "geom fs" "healthy fs" "off + length data \<le> length (fmem fs)"
  shows "wp (fffs_flash_program_aligned off data) (\<lambda>r fs'. r = Inr () \<and> moved p fs (fs_files fs p) fs' \<and>
    fmem fs' = nor_program off data (fmem fs)) fs"
proof (rule program_rule [OF geom_fdev [OF assms(1)]], goal_cases)
  case (1 c)
  then have "kept fs (set_ctx c fs)"
    using assms geom_set_ctx [OF assms(1)] stp_healthy by (auto simp: kept_def)
  then have "moved p fs (fs_files fs p) (set_ctx c fs)"
    unfolding moved_def by (intro conjI exI [of _ c]) (simp_all add: set_ctx_def)
  with 1 show ?case by simp
qed (use assms in auto)

text \<open>\<open>staged fs f bytes\<close>: the extent the handle is filling holds \<open>bytes\<close>, a prefix of them on flash and the
  rest in the cache, and the flash from there to the place of the record is erased.\<close>

definition write_address :: "'c fffs \<Rightarrow> fffs_file \<Rightarrow> nat" where
  "write_address fs f = unat (f_current f) * fs_sector_size fs + unat (f_current_write_offset f)"

definition staged :: "'c fffs \<Rightarrow> fffs_file \<Rightarrow> byte list \<Rightarrow> bool" where
  "staged fs f bytes \<longleftrightarrow> unat (f_current f) < fs_sector_count fs \<and>
     unat (f_current_metadata_offset f) \<le> fs_sector_size fs \<and>
     unat (f_data_offset f) \<le> unat (f_current_write_offset f) \<and>
     f_cache_len f \<le> 256 \<and> length (f_cache f) = 256 \<and>
     unat (f_current_write_offset f) + f_cache_len f \<le> unat (f_current_metadata_offset f) \<and>
     bytes = sub_bytes (extent_base fs f) (unat (f_current_write_offset f) - unat (f_data_offset f)) (fmem fs) @
       take (f_cache_len f) (f_cache f) \<and>
     erased_span fs (write_address fs f) (unat (f_current_metadata_offset f) - unat (f_current_write_offset f))"

lemma staged_length:
  assumes "geom fs" "staged fs f bytes"
  shows "length bytes = unat (f_current_write_offset f) - unat (f_data_offset f) + f_cache_len f"
proof -
  have "unat (f_current f) * fs_sector_size fs + unat (f_data_offset f) +
      (unat (f_current_write_offset f) - unat (f_data_offset f)) \<le> length (fmem fs)"
    using assms by (intro sector_fits) (auto simp: staged_def)
  with assms(2) show ?thesis by (simp add: staged_def extent_base_def)
qed

text \<open>Programming the first \<open>m\<close> bytes of the cache.\<close>

lemma flush_program:
  assumes "geom fs" "staged fs f bytes" "m \<le> f_cache_len f"
    and "fmem fs' = nor_program (write_address fs f) (take m (f_cache f)) (fmem fs)"
  shows "sub_bytes (write_address fs f) m (fmem fs') = take m (f_cache f)"
    and "sub_bytes (extent_base fs f) (unat (f_current_write_offset f) - unat (f_data_offset f)) (fmem fs') =
      sub_bytes (extent_base fs f) (unat (f_current_write_offset f) - unat (f_data_offset f)) (fmem fs)"
    and "sub_bytes (write_address fs f + m) (unat (f_current_metadata_offset f) - unat (f_current_write_offset f) - m) (fmem fs') =
      replicate (unat (f_current_metadata_offset f) - unat (f_current_write_offset f) - m) 0xff"
    and "only (extent_base fs f) (unat (f_current f) * fs_sector_size fs + unat (f_current_metadata_offset f)) (fmem fs) (fmem fs')"
proof -
  let ?wo = "unat (f_current_write_offset f)" and ?do = "unat (f_data_offset f)" and ?me = "unat (f_current_metadata_offset f)"
  have s: "?me \<le> fs_sector_size fs" "?do \<le> ?wo" "length (f_cache f) = 256" "?wo + f_cache_len f \<le> ?me"
    "unat (f_current f) < fs_sector_count fs" "f_cache_len f \<le> 256"
    "sub_bytes (write_address fs f) (?me - ?wo) (fmem fs) = replicate (?me - ?wo) 0xff"
    using assms(2) by (simp_all add: staged_def erased_span_def)
  have fit: "unat (f_current f) * fs_sector_size fs + ?wo + (?me - ?wo) \<le> length (fmem fs)"
    using s by (intro sector_fits [OF assms(1)]) auto
  have len: "length (take m (f_cache f)) = m" using s assms(3) by simp
  have base: "write_address fs f = extent_base fs f + (?wo - ?do)" using s(2) by (simp add: write_address_def extent_base_def)
  have m: "write_address fs f + m \<le> length (fmem fs)" using fit s(4) assms(3) by (simp add: write_address_def)
  have er: "sub_bytes (write_address fs f) m (fmem fs) = replicate m 0xff"
    using sub_bytes_part [OF s(7), of 0 m] s(4) assms(3) by simp
  show "sub_bytes (write_address fs f) m (fmem fs') = take m (f_cache f)"
    using program_erased [of "write_address fs f" "take m (f_cache f)" "fmem fs"] er m assms(4) unfolding len by simp
  show "sub_bytes (extent_base fs f) (?wo - ?do) (fmem fs') = sub_bytes (extent_base fs f) (?wo - ?do) (fmem fs)"
    unfolding assms(4) using base m len by (intro sub_bytes_nor_program_disjoint) auto
  have "sub_bytes (write_address fs f + m) (?me - ?wo - m) (fmem fs') = sub_bytes (write_address fs f + m) (?me - ?wo - m) (fmem fs)"
    unfolding assms(4) using m len fit s(4) assms(3)
    by (intro sub_bytes_nor_program_disjoint) (auto simp: write_address_def)
  then show "sub_bytes (write_address fs f + m) (?me - ?wo - m) (fmem fs') = replicate (?me - ?wo - m) 0xff"
    using sub_bytes_part [OF s(7), of m "?me - ?wo - m"] s(4) assms(3) by simp
  show "only (extent_base fs f) (unat (f_current f) * fs_sector_size fs + ?me) (fmem fs) (fmem fs')"
    unfolding assms(4) using base m len s(4) assms(3) by (intro only_program) (auto simp: write_address_def)
qed

text \<open>A full cache is programmed as it is when the granule divides its size.\<close>

lemma flush_full:
  assumes geom: "geom fs" "healthy fs" and f: "fs_files fs p = f" and st: "staged fs f bytes"
    and gran: "256 mod be_program_granule (fs_backend fs) = 0" and full: "f_cache_len f = 256"
  shows "wp (flush_write_cache p False) (\<lambda>r fs'. r = Inr () \<and>
    moved p fs (f\<lparr>f_current_write_offset := f_current_write_offset f + 256, f_cache_len := 0\<rparr>) fs' \<and>
    staged fs' (f\<lparr>f_current_write_offset := f_current_write_offset f + 256, f_cache_len := 0\<rparr>) bytes \<and>
    only (extent_base fs f) (unat (f_current f) * fs_sector_size fs + unat (f_current_metadata_offset f)) (fmem fs) (fmem fs')) fs"
proof -
  let ?wo = "unat (f_current_write_offset f)" and ?do = "unat (f_data_offset f)" and ?me = "unat (f_current_metadata_offset f)"
  let ?f = "f\<lparr>f_current_write_offset := f_current_write_offset f + 256, f_cache_len := 0\<rparr>"
  have s: "?me \<le> fs_sector_size fs" "?do \<le> ?wo" "length (f_cache f) = 256" "?wo + 256 \<le> ?me"
    "unat (f_current f) < fs_sector_count fs" "bytes = sub_bytes (extent_base fs f) (?wo - ?do) (fmem fs) @ f_cache f"
    using st full by (simp_all add: staged_def)
  have wo: "unat (f_current_write_offset f + 256) = ?wo + 256"
    using unat_plus_u16 [of "f_current_write_offset f" 256] le_less_trans [OF s(4) unat_u16_less] by simp
  have addr: "write_address fs f + 256 \<le> length (fmem fs)"
    using sector_fits [OF geom(1) s(5), of ?wo 256] s(1,4) by (simp add: write_address_def)
  have ne: "\<not> (256 < be_program_granule (fs_backend fs))" using dvd_imp_le [of _ "256 :: nat"] gran by (auto simp: not_less)
  have n: "flush_length (be_program_granule (fs_backend fs)) 256 False = 256" using gran by (simp add: flush_length_def)
  have fin: "staged fs' ?f bytes" if m: "fmem fs' = nor_program (write_address fs f) (take 256 (f_cache f)) (fmem fs)" "moved p fs ?f fs'" for fs'
  proof -
    note fl = flush_program [OF geom(1) st _ m(1), unfolded full, OF order_refl]
    note mf = moved_fields [OF m(2)]
    have "sub_bytes (extent_base fs f) (?wo + 256 - ?do) (fmem fs') = bytes"
      using sub_bytes_append [of "extent_base fs f" "?wo - ?do" 256 "fmem fs'"] fl(1,2) s(2,3,6)
      by (simp add: write_address_def extent_base_def)
    then show ?thesis
      using fl(3) s mf by (simp add: staged_def wo extent_base_def write_address_def erased_span_def add.assoc)
  qed
  define a where "a = write_address fs f"
  have run: "flush_write_cache p False fs = seqm (fffs_flash_program_aligned a (take 256 (f_cache f)))
      (mod_file p (\<lambda>f. f\<lparr>f_current_write_offset := f_current_write_offset f + of_nat 256,
        f_cache := (if 256 < f_cache_len f then put_bytes 0 (sub_bytes 256 (f_cache_len f - 256) (f_cache f)) (f_cache f) else f_cache f),
        f_cache_len := f_cache_len f - min 256 (f_cache_len f)\<rparr>)) fs"
    using ne by (simp add: flush_write_cache_def bindm_getm f full n Let_def whenm_def seqm_def bindm_ret get_file_def write_address_def a_def
        cong: if_cong)
  show ?thesis
  proof (rule wp_eqI, rule run, unfold wp_seqm mod_file_def wp_modm, rule wp_mono [OF program_moved [OF geom, where p = p]], goal_cases)
    case (2 r fs')
    let ?g = "\<lambda>f. f\<lparr>f_current_write_offset := f_current_write_offset f + of_nat 256,
        f_cache := (if 256 < f_cache_len f then put_bytes 0 (sub_bytes 256 (f_cache_len f - 256) (f_cache f)) (f_cache f) else f_cache f),
        f_cache_len := f_cache_len f - min 256 (f_cache_len f)\<rparr>"
    have g: "?g f = ?f" using full by simp
    have mv: "moved p fs ?f (upd_file p ?g fs')"
      using moved_upd [of p fs f fs' ?g] 2 f unfolding g by simp
    have m: "fmem (upd_file p ?g fs') = nor_program (write_address fs f) (take 256 (f_cache f)) (fmem fs)" using 2 by (simp add: a_def)
    have "staged (upd_file p ?g fs') ?f bytes" by (rule fin [OF m mv])
    moreover have "only (extent_base fs f) (unat (f_current f) * fs_sector_size fs + ?me) (fmem fs) (fmem (upd_file p ?g fs'))"
      using flush_program(4) [OF geom(1) st _ m, unfolded full, OF order_refl] by simp
    ultimately show ?case using 2 mv by simp
  qed (use addr s(3) in \<open>simp add: a_def\<close>)
qed

definition writing :: "'c fffs \<Rightarrow> nat \<Rightarrow> byte list \<Rightarrow> bool" where
  "writing fs p bytes \<longleftrightarrow> geom fs \<and> healthy fs \<and> 256 mod be_program_granule (fs_backend fs) = 0 \<and>
     (let f = fs_files fs p in \<not> f_closed f \<and> f_flags f AND FFFS_O_WRONLY \<noteq> 0 \<and> staged fs f bytes \<and>
       f_cache_len f < 256 \<and> length bytes = extent_prefix f + unat (f_current_data_len f))"

lemma staged_stage:
  assumes "staged fs f bytes" "n \<le> length src" "f_cache_len f + n \<le> 256"
    "unat (f_current_write_offset f) + f_cache_len f + n \<le> unat (f_current_metadata_offset f)"
  shows "staged fs (stage src n f) (bytes @ take n src)"
proof -
  have "take (f_cache_len f + n) (put_bytes (f_cache_len f) (take n src) (f_cache f)) = take (f_cache_len f) (f_cache f) @ take n src"
    using take_put_bytes [of "f_cache_len f" "take n src" "f_cache f"] assms by (simp add: staged_def)
  moreover have "length (put_bytes (f_cache_len f) (take n src) (f_cache f)) = 256"
    using assms by (simp add: staged_def)
  ultimately show ?thesis
    using assms by (simp add: staged_def stage_def write_address_def extent_base_def)
qed

text \<open>\<open>wrote p fs k fs'\<close>: the handle took \<open>k\<close> bytes, and the flash changed only between the extent's data and its
  record.\<close>

definition wrote :: "nat \<Rightarrow> 'c fffs \<Rightarrow> nat \<Rightarrow> 'c fffs \<Rightarrow> bool" where
  "wrote p fs k fs' \<longleftrightarrow> moved p fs (fs_files fs' p) fs' \<and> filled k (fs_files fs p) (fs_files fs' p) \<and>
     (let f = fs_files fs p in only (extent_base fs f)
       (unat (f_current f) * fs_sector_size fs + unat (f_current_metadata_offset f)) (fmem fs) (fmem fs'))"

lemma wrote_trans:
  assumes "wrote p fs k fs'" "wrote p fs' l fs''"
  shows "wrote p fs (k + l) fs''"
proof -
  have f: "filled k (fs_files fs p) (fs_files fs' p)" using assms(1) by (simp add: wrote_def)
  note ff = filled_fields [OF f]
  have "fs_sector_size fs' = fs_sector_size fs" using assms(1) moved_fields(2) unfolding wrote_def by blast
  with assms ff show ?thesis
    unfolding wrote_def Let_def extent_base_def
    by (auto intro: moved_trans only_trans filled_trans)
qed

lemma wrote_refl: "geom fs \<Longrightarrow> healthy fs \<Longrightarrow> wrote p fs 0 fs"
  by (simp add: wrote_def moved_refl filled_refl)

lemma write_round:
  assumes w: "writing fs p bytes" and f: "f = fs_files fs p"
    and n: "n \<le> length src" "f_cache_len f + n \<le> 256" "length bytes + n \<le> extent_room f"
  shows "wp (seqm (mod_file p (stage src n)) (whenm (f_cache_len f + n = 256) (flush_write_cache p False)))
    (\<lambda>r fs'. r = Inr () \<and> writing fs' p (bytes @ take n src) \<and> wrote p fs n fs') fs"
proof -
  have geom: "geom fs" "healthy fs" and gran: "256 mod be_program_granule (fs_backend fs) = 0"
    and st: "staged fs f bytes" and o: "\<not> f_closed f" "f_flags f AND FFFS_O_WRONLY \<noteq> 0"
    and len: "length bytes = extent_prefix f + unat (f_current_data_len f)"
    using w by (simp_all add: writing_def f Let_def)
  have sl: "length bytes = unat (f_current_write_offset f) - unat (f_data_offset f) + f_cache_len f"
    by (rule staged_length [OF geom(1) st])
  have do: "unat (f_data_offset f) \<le> unat (f_current_write_offset f)"
    "unat (f_current_write_offset f) + f_cache_len f \<le> unat (f_current_metadata_offset f)"
    using st by (simp_all add: staged_def)
  have room: "unat (f_current_write_offset f) + f_cache_len f + n \<le> unat (f_current_metadata_offset f)"
    using n(3) sl do unfolding extent_room_def by linarith
  define f1 where "f1 = stage src n f"
  define fs1 where "fs1 = upd_file p (stage src n) fs"
  have st1: "staged fs f1 (bytes @ take n src)"
    unfolding f1_def by (rule staged_stage [OF st n(1,2) room])
  have mv1: "moved p fs f1 fs1"
    using moved_upd [OF moved_refl [OF geom], of p "stage src n"] by (simp add: f1_def fs1_def f)
  note m1 = moved_fields [OF mv1]
  have mem1: "fmem fs1 = fmem fs" by (simp add: fs1_def)
  have st1': "staged fs1 f1 (bytes @ take n src)"
    using st1 m1 mem1 by (simp add: staged_def extent_base_def write_address_def erased_span_def)
  have "unat (f_current_data_len f) + n < 65536"
    using n(3) len unat_u16_less [of "f_current_metadata_offset f"] unfolding extent_room_def by linarith
  then have dl: "unat (f_current_data_len f1) = unat (f_current_data_len f) + n"
    unfolding f1_def stage_def by (simp add: unat_plus_u16)
  have len1: "length (bytes @ take n src) = extent_prefix f1 + unat (f_current_data_len f1)"
    using len n(1) dl by (simp add: extent_prefix_def f1_def stage_def)
  have same1: "f_closed f1 = f_closed f" "f_flags f1 = f_flags f" "f_cache_len f1 = f_cache_len f + n"
    by (simp_all add: f1_def stage_def)
  have w1: "wrote p fs n fs1"
    using mv1 m1(1) filled_stage [of n f src] mem1 by (simp add: wrote_def f1_def f Let_def)
  show ?thesis
  proof (cases "f_cache_len f + n = 256")
    case False
    have "writing fs1 p (bytes @ take n src)"
      unfolding writing_def Let_def m1(1) using m1 gran o same1 st1' len1 False n(2) by simp
    with False w1 show ?thesis by (simp add: mod_file_def wp_simps fs1_def [symmetric])
  next
    case True
    let ?f2 = "f1\<lparr>f_current_write_offset := f_current_write_offset f1 + 256, f_cache_len := 0\<rparr>"
    have "wp (flush_write_cache p False) (\<lambda>r fs2. r = Inr () \<and> moved p fs1 ?f2 fs2 \<and> staged fs2 ?f2 (bytes @ take n src) \<and>
        only (extent_base fs1 f1) (unat (f_current f1) * fs_sector_size fs1 + unat (f_current_metadata_offset f1)) (fmem fs1) (fmem fs2)) fs1"
      using gran m1 True same1 by (intro flush_full [OF m1(5,6,1) st1']) simp_all
    then have "wp (flush_write_cache p False) (\<lambda>r fs2. r = Inr () \<and> writing fs2 p (bytes @ take n src) \<and> wrote p fs n fs2) fs1"
    proof (rule wp_mono, goal_cases)
      case (1 r fs2)
      then have mv2: "moved p fs1 ?f2 fs2" and st2: "staged fs2 ?f2 (bytes @ take n src)"
        and on: "only (extent_base fs1 f1) (unat (f_current f1) * fs_sector_size fs1 + unat (f_current_metadata_offset f1)) (fmem fs1) (fmem fs2)"
        by auto
      note m2 = moved_fields [OF mv2]
      have "wrote p fs1 0 fs2" using mv2 m2(1) m1(1) on by (simp add: wrote_def filled_def Let_def)
      from wrote_trans [OF w1 this] have "wrote p fs n fs2" by simp
      moreover have "writing fs2 p (bytes @ take n src)"
        unfolding writing_def Let_def m2(1) using m2 m1 gran o same1 st2 len1 by (simp add: extent_prefix_def)
      ultimately show ?case using 1 by simp
    qed
    with True show ?thesis by (simp add: mod_file_def wp_simps fs1_def [symmetric])
  qed
qed

lemma write_loop_rule:
  assumes "writing fs p bytes" "length bytes + length src \<le> extent_room (fs_files fs p)"
  shows "wp (write_loop p src) (\<lambda>r fs'. r = Inr () \<and> writing fs' p (bytes @ src) \<and> wrote p fs (length src) fs') fs"
  using assms
proof (induction "length src" arbitrary: fs bytes src rule: less_induct)
  case less
  let ?f = "fs_files fs p"
  have geom: "geom fs" "healthy fs" and len: "length bytes = extent_prefix ?f + unat (f_current_data_len ?f)" and cl: "f_cache_len ?f < 256"
    using less.prems(1) by (simp_all add: writing_def Let_def)
  show ?case
  proof (cases "src = []")
    case True
    then show ?thesis
      using less.prems(1) wrote_refl [OF geom] by (subst wp_def, subst write_loop.simps) (simp add: ret_def)
  next
    case False
    have cap: "current_extent_capacity ?f = extent_room ?f - extent_prefix ?f"
      by (simp add: current_extent_capacity_def extent_room_def extent_prefix_def Let_def)
    have pos: "0 < length src" using False by simp
    have no: "\<not> unat (f_current_data_len ?f) \<ge> current_extent_capacity ?f"
      unfolding cap using less.prems(2) len pos by linarith
    define n where "n = min (length src) (min (current_extent_capacity ?f - unat (f_current_data_len ?f)) (256 - f_cache_len ?f))"
    have n: "n \<le> length src" "f_cache_len ?f + n \<le> 256" "length bytes + n \<le> extent_room ?f" "0 < n"
      using less.prems(2) len pos cl no unfolding n_def cap by auto
    define M :: "('c, unit) fsop" where "M = seqm (mod_file p (stage src n))
        (seqm (whenm (f_cache_len ?f + n = 256) (flush_write_cache p False)) (write_loop p (drop n src)))"
    have "write_loop p src fs = M fs"
      using False no by (subst write_loop.simps)
        (simp add: M_def n_def stage_def [abs_def] get_file_def bindm_getm Let_def whenm_def seqm_def bindm_ret)
    moreover have "wp M (\<lambda>r fs'. r = Inr () \<and> writing fs' p (bytes @ src) \<and> wrote p fs (length src) fs') fs"
    proof -
      have "wp (seqm (seqm (mod_file p (stage src n)) (whenm (f_cache_len ?f + n = 256) (flush_write_cache p False)))
          (write_loop p (drop n src)))
        (\<lambda>r fs'. r = Inr () \<and> writing fs' p (bytes @ src) \<and> wrote p fs (length src) fs') fs"
        unfolding wp_seqm [of "seqm _ _"]
      proof (rule wp_mono [OF write_round [OF less.prems(1) refl n(1-3)]], goal_cases)
        case (1 r fs1)
        then have w1: "writing fs1 p (bytes @ take n src)" and wr: "wrote p fs n fs1" and r: "r = Inr ()" by auto
        have "extent_room (fs_files fs1 p) = extent_room ?f"
          using filled_fields [of n ?f "fs_files fs1 p"] wr by (simp add: wrote_def extent_room_def)
        then have "wp (write_loop p (drop n src)) (\<lambda>r fs'. r = Inr () \<and> writing fs' p ((bytes @ take n src) @ drop n src) \<and>
            wrote p fs1 (length (drop n src)) fs') fs1"
          using n less.prems(2) by (intro less.hyps [OF _ w1]) auto
        then show ?case
          unfolding r sum.case by (rule wp_mono) (use wrote_trans [OF wr, of "length src - n"] n(1) in auto)
      qed
      then show ?thesis unfolding M_def wp_seqm by (simp add: sum.case_distrib cong: sum.case_cong)
    qed
    ultimately show ?thesis by (simp only: wp_def)
  qed
qed

lemma write_rule_stream:
  assumes "writing fs p bytes" "length bytes + length src \<le> extent_room (fs_files fs p)"
  shows "wp (fffs_write p src) (\<lambda>r fs'. r = Inr () \<and> writing fs' p (bytes @ src) \<and> wrote p fs (length src) fs') fs"
  using write_loop_rule [OF assms] assms(1)
  by (simp add: fffs_write_def get_file_def wp_bindm wp_getm writing_def Let_def)

end

end
