(* ===== verification/Fffs_Lookup.thy ===== *)
theory Fffs_Lookup
  imports Fffs_Stream
begin

unbundle bit_operations_syntax

text \<open>
  Finding a file by its name.  \<open>stored fs name content\<close> says what a file is on a mounted file system: probing
  from the hash of the name reaches a committed root extent that carries the name, and the payloads of its
  extents, in chain order, are the content.  Opening a stored file for reading gives a reader of exactly the
  content.  The last section is the flush of a writer's cache when the file is closed.
\<close>

section \<open>Root extents\<close>

text \<open>A root extent starts with the name; the attribute length is zero.\<close>

definition root_prefix :: "byte list \<Rightarrow> byte list" where
  "root_prefix name = [of_nat (length name)] @ name @ [0]"

definition file_name :: "byte list \<Rightarrow> bool" where
  "file_name name \<longleftrightarrow> name \<noteq> [] \<and> length name \<le> FFFS_MAX_NAME \<and> 0 \<notin> set name"

lemma root_prefix_length [simp]: "length (root_prefix name) = length name + 2"
  by (simp add: root_prefix_def)

lemma root_prefix_nth:
  assumes "file_name name" "length name + 2 \<le> k"
  shows "unat (take k (root_prefix name @ rest) ! 0) = length name"
    "take k (root_prefix name @ rest) ! (length name + 1) = 0"
    "c_string (sub_bytes 1 (length name) (take k (root_prefix name @ rest))) = name"
proof -
  have len: "length name < 256" using assms(1) by (simp add: file_name_def)
  show "unat (take k (root_prefix name @ rest) ! 0) = length name"
    using assms len by (simp add: root_prefix_def unat_of_nat)
  show "take k (root_prefix name @ rest) ! (length name + 1) = 0"
    using assms by (simp add: root_prefix_def nth_append)
  have "sub_bytes 1 (length name) (take k (root_prefix name @ rest)) = name"
    using assms(2) by (simp add: root_prefix_def sub_bytes_def drop_take min_def)
  then show "c_string (sub_bytes 1 (length name) (take k (root_prefix name @ rest))) = name"
    using assms(1) by (simp add: c_string_def file_name_def takeWhile_eq_all_conv) (metis)
qed

text \<open>What is left of the payload in the caller's cache.\<close>

definition prefetched :: "byte list \<Rightarrow> fffs_read_cache_view option \<Rightarrow> fffs_read_cache_view option \<Rightarrow> bool" where
  "prefetched payload cache cache' \<longleftrightarrow> (case cache of None \<Rightarrow> cache' = None
     | Some c \<Rightarrow> (\<exists>c'. cache' = Some c' \<and> cv_capacity c' = cv_capacity c \<and> cv_data_pos c' = 0 \<and>
         cv_len c' \<le> length payload \<and> take (cv_len c') (cv_data c') = take (cv_len c') payload))"

context reliable_flash
begin

definition root_at :: "'c fffs \<Rightarrow> u16 \<Rightarrow> u16 \<Rightarrow> fffs_md_record \<Rightarrow> byte list \<Rightarrow> byte list \<Rightarrow> bool" where
  "root_at fs s slot r name payload \<longleftrightarrow> finds fs s slot r \<and> md_type r = FFFS_MD_TYPE_FILE_ROOT_V1 \<and>
     file_name name \<and> extent_data fs (s, r) = root_prefix name @ payload"

lemma finds_facts:
  assumes "finds fs s slot r"
  shows "unat s < fs_sector_count fs" "unat (md_data_off r) + unat (md_data_len r) \<le> fs_sector_size fs"
    "data_sector fs s" "md_live r" "md_slot r = slot"
proof -
  from assms obtain serial st rs where h: "sector_holds fs s serial st rs"
    and found: "find (\<lambda>r. md_record_matches_slot r slot FFFS_MD_MATCH_LIVE) rs = Some r"
    by (auto simp: finds_def)
  show "data_sector fs s" "unat s < fs_sector_count fs" using h by (simp_all add: sector_holds_def data_sector_def)
  have r: "r \<in> set rs" "md_record_matches_slot r slot FFFS_MD_MATCH_LIVE"
    using found by (auto simp: find_Some_iff)
  show "md_live r" "md_slot r = slot" using r(2) by (auto simp: md_record_matches_slot_def split: if_splits)
  show "unat (md_data_off r) + unat (md_data_len r) \<le> fs_sector_size fs"
    using md_stored_room [OF _ r(1), of fs "fmem fs" s "fs_sector_size fs - 10" 0 "fs_sector_size fs"] h
    by (simp add: sector_holds_def)
qed

lemma finds_room:
  assumes "finds fs s slot r"
  shows "unat (md_data_off r) + unat (md_data_len r) \<le> fs_sector_size fs - 10"
proof -
  from assms obtain serial st rs where h: "sector_holds fs s serial st rs"
    and found: "find (\<lambda>r. md_record_matches_slot r slot FFFS_MD_MATCH_LIVE) rs = Some r"
    by (auto simp: finds_def)
  have "r \<in> set rs" using found by (auto simp: find_Some_iff)
  with h show ?thesis
    using md_stored_room [of fs "fmem fs" s "fs_sector_size fs - 10" 0 rs r "fs_sector_size fs - 10"]
    by (simp add: sector_holds_def)
qed

lemma extent_data_length:
  assumes "geom fs" "finds fs s slot r"
  shows "length (extent_data fs (s, r)) = unat (md_data_len r)"
  using sector_fits [OF assms(1) finds_facts(1,2) [OF assms(2)]] by (simp add: extent_data_def)

lemma look_rule:
  assumes "geom fs" "healthy fs" "finds fs s slot r"
  shows "wp (fffs_read_md_for_slot s slot) (\<lambda>res fs'. looked fs fs' \<and> res = Inr r) fs"
proof -
  from assms(3) obtain serial st rs where h: "sector_holds fs s serial st rs"
    and found: "find (\<lambda>r. md_record_matches_slot r slot FFFS_MD_MATCH_LIVE) rs = Some r"
    by (auto simp: finds_def)
  show ?thesis
    unfolding fffs_read_md_for_slot_def
    by (rule wp_mono [OF read_md_holds [OF assms(1) h found]]) (use assms(2) in auto)
qed

lemma root_prefix_rule:
  assumes geom: "geom fs" "healthy fs" and root: "root_at fs s slot r name payload"
    and cache: "\<And>c. cache = Some c \<Longrightarrow> cv_capacity c = 256"
  shows "wp (read_root_prefix s (md_data_off r) (md_data_len r) sz cache) (\<lambda>res fs'. looked fs fs' \<and>
    (\<exists>cache'. res = Inr (\<lparr>st_name = name, st_size = sz\<rparr>, md_data_off r + of_nat (length name + 2),
       md_data_len r - of_nat (length name + 2), cache') \<and> prefetched payload cache cache')) fs"
proof -
  have name: "file_name name" and data: "extent_data fs (s, r) = root_prefix name @ payload" and find: "finds fs s slot r"
    using root by (simp_all add: root_at_def)
  note ff = finds_facts [OF find]
  have len: "unat (md_data_len r) = length name + 2 + length payload"
    using extent_data_length [OF geom(1) find] data by simp
  have ge: "\<not> md_data_len r < 2" using len name by (auto simp: word_less_nat_alt file_name_def)
  define buf_size :: nat where "buf_size = (case cache of None \<Rightarrow> 34 | Some c \<Rightarrow> 256)"
  define k where "k = min (unat (md_data_len r)) buf_size"
  define buf where "buf = sub_bytes (unat s * fs_sector_size fs + unat (md_data_off r)) k (fmem fs)"
  have nl: "length name \<le> 32" "0 < length name" using name by (simp_all add: file_name_def)
  have k: "length name + 2 \<le> k" "k \<le> unat (md_data_len r)"
    using nl len by (auto simp: k_def buf_size_def split: option.splits)
  have fit: "unat s * fs_sector_size fs + unat (md_data_off r) + k \<le> length (fmem fs)"
    using k(2) ff(2) by (intro sector_fits [OF geom(1) ff(1)]) simp
  have "buf = take k (extent_data fs (s, r))"
    using k(2) by (simp add: buf_def extent_data_def sub_bytes_def min_def)
  then have buf: "buf = take k (root_prefix name @ payload)" unfolding data .
  note bn = root_prefix_nth [OF name k(1), of payload, folded buf]
  have cap: "(case cache of None \<Rightarrow> None | Some c \<Rightarrow> if cv_capacity c \<ge> 32 + 2 then Some c else None) = cache"
    "(case cache of None \<Rightarrow> 32 + 2 | Some c \<Rightarrow> cv_capacity c) = buf_size"
    using cache by (cases cache; simp add: buf_size_def)+
  have rest: "sub_bytes (length name + 2) (k - (length name + 2)) buf = take (k - (length name + 2)) payload"
    unfolding buf using k(1) by (simp add: sub_bytes_def drop_take min_def)
  have pay: "k - (length name + 2) \<le> length payload" using k(2) len by simp
  have ok: "\<not> (unat (buf ! 0) = 0 \<or> unat (buf ! 0) > 32 \<or> 1 + unat (buf ! 0) \<ge> unat (md_data_len r) \<or> 1 + unat (buf ! 0) \<ge> k)"
    "\<not> 1 + unat (buf ! 0) + 1 + unat (buf ! (1 + unat (buf ! 0))) > unat (md_data_len r)"
    using bn nl k len by auto
  have off: "1 + unat (buf ! 0) + 1 + unat (buf ! (1 + unat (buf ! 0))) = length name + 2" using bn by simp
  have c': "prefetched payload cache (case cache of None \<Rightarrow> cache
      | Some c \<Rightarrow> Some (c\<lparr>cv_data := put_bytes 0 (sub_bytes (length name + 2) (k - (length name + 2)) buf) (put_bytes 0 buf (cv_data c)),
          cv_len := k - (length name + 2), cv_data_pos := 0\<rparr>))"
    unfolding prefetched_def rest using pay by (cases cache) (auto simp: put_bytes_def)
  show ?thesis
    unfolding read_root_prefix_def if_not_P [OF ge] wp_bindm wp_getm sum.case id_apply Let_def cap k_def [symmetric]
  proof (rule wp_mono [OF read_ok [OF geom fit]], goal_cases)
    case (1 res fs1)
    then have res: "res = Inr buf" by (simp add: buf_def)
    show ?case
      unfolding res sum.case if_not_P [OF ok(1)] off if_not_P [OF ok(2) [unfolded off]] wp_ret
      unfolding bn(1) bn(3) using 1 c' by blast
  qed
qed

lemma root_md_rule:
  assumes geom: "geom fs" "healthy fs" and root: "root_at fs s slot r name payload"
    and cache: "\<And>c. cache = Some c \<Longrightarrow> cv_capacity c = 256"
  shows "wp (fffs_read_file_root_md s slot True cache) (\<lambda>res fs'. looked fs fs' \<and>
    (\<exists>cache'. res = Inr \<lparr>root_st = Some \<lparr>st_name = name, st_size = md_size_or_offset r\<rparr>,
       root_data_off = md_data_off r + of_nat (length name + 2), root_data_len = md_data_len r - of_nat (length name + 2),
       root_next = md_next r, root_span_len = md_span_len r, root_size = md_size_or_offset r, root_cache = cache'\<rparr> \<and>
     prefetched payload cache cache')) fs"
proof -
  have find: "finds fs s slot r" and type: "\<not> md_type r \<noteq> FFFS_MD_TYPE_FILE_ROOT_V1" using root by (simp_all add: root_at_def)
  show ?thesis
    unfolding fffs_read_file_root_md_def wp_bindm
  proof (rule wp_mono [OF look_rule [OF geom find]], goal_cases)
    case (1 res fs1)
    then have l: "looked fs fs1" and res: "res = Inr r" by simp_all
    have g1: "geom fs1" "healthy fs1" using looked_geom [OF l] looked_fields [OF l] geom by simp_all
    have "root_at fs1 s slot r name payload"
      using root steady_holds [OF looked_steady [OF l geom]] steady_data [OF looked_steady [OF l geom]]
      by (simp add: root_at_def finds_def)
    from root_prefix_rule [OF g1 this cache] show ?case
      unfolding res sum.case if_not_P [OF type] wp_if wp_bindm
      by (simp, rule_tac wp_mono, assumption) (use looked_trans [OF l] in \<open>auto simp: wp_ret\<close>)
  qed
qed

section \<open>Resolving a name\<close>

text \<open>Probing from slot \<open>c\<close> with \<open>n\<close> probes left reaches the root \<open>r\<close> of \<open>name\<close>: the slots before it are free or hold
  roots of other names.\<close>

fun resolves ::
  "'c fffs \<Rightarrow> byte list \<Rightarrow> nat \<Rightarrow> u16 \<Rightarrow> u16 \<Rightarrow> u16 \<Rightarrow> fffs_md_record \<Rightarrow> byte list \<Rightarrow> bool" where
  "resolves fs name 0 c slot head r payload \<longleftrightarrow> False"
| "resolves fs name (Suc n) c slot head r payload \<longleftrightarrow> c \<noteq> 0 \<and> (case cache_map fs c of
       None \<Rightarrow> resolves fs name n (fffs_next_slot c) slot head r payload
     | Some h \<Rightarrow> slot = c \<and> head = h \<and> root_at fs h c r name payload \<or>
         (\<exists>r' name' payload'. root_at fs h c r' name' payload' \<and> name' \<noteq> name \<and>
            resolves fs name n (fffs_next_slot c) slot head r payload))"

lemma looked_cache: "looked fs fs' \<Longrightarrow> cache_map fs' = cache_map fs \<and> cache_inv fs' = cache_inv fs"
  by (auto simp: looked_def cache_map_def cache_inv_def set_ctx_def)

lemma looked_root_at: "looked fs fs' \<Longrightarrow> geom fs \<Longrightarrow> healthy fs \<Longrightarrow> root_at fs' = root_at fs"
  using steady_holds [of fs fs'] steady_data [of fs fs'] looked_steady [of fs fs']
  by (simp add: root_at_def finds_def fun_eq_iff)

lemma looked_resolves:
  "looked fs fs' \<Longrightarrow> geom fs \<Longrightarrow> healthy fs \<Longrightarrow>
     resolves fs' name n c slot head r payload = resolves fs name n c slot head r payload"
  by (induction n arbitrary: c) (simp_all add: looked_cache looked_root_at cong: option.case_cong)

lemma prefetched_chain:
  "prefetched p1 cache cache1 \<Longrightarrow> prefetched p2 cache1 cache2 \<Longrightarrow> prefetched p2 cache cache2"
  by (auto simp: prefetched_def split: option.splits)

text \<open>What resolution returns for a root.\<close>

definition resolution :: "u16 \<Rightarrow> u16 \<Rightarrow> fffs_md_record \<Rightarrow> byte list \<Rightarrow> fffs_read_cache_view option \<Rightarrow> resolved" where
  "resolution slot head r name cache = \<lparr>rs_slot = slot, rs_head = head, rs_root = Some
     \<lparr>root_st = Some \<lparr>st_name = name, st_size = md_size_or_offset r\<rparr>,
      root_data_off = md_data_off r + of_nat (length name + 2), root_data_len = md_data_len r - of_nat (length name + 2),
      root_next = md_next r, root_span_len = md_span_len r, root_size = md_size_or_offset r, root_cache = cache\<rparr>\<rparr>"

lemma resolve_rule:
  assumes "geom fs" "healthy fs" "cache_inv fs" "resolves fs name n c slot head r payload"
    and "\<And>v. cache = Some v \<Longrightarrow> cv_capacity v = 256"
  shows "wp (resolve_loop name n c free cache) (\<lambda>res fs'. looked fs fs' \<and>
    (\<exists>cache'. res = Inr (resolution slot head r name cache') \<and> prefetched payload cache cache')) fs"
  using assms
proof (induction n arbitrary: c free cache fs)
  case (Suc n)
  have c: "c \<noteq> 0" using Suc.prems(4) by simp
  have look: "wp (fffs_index_head_for_slot c) Q fs = Q (Inr (cache_map fs c)) fs" for Q
    by (simp add: wp_def cache_head_for_slot [OF Suc.prems(3) c])
  show ?case
  proof (cases "cache_map fs c")
    case None
    then have "resolves fs name n (fffs_next_slot c) slot head r payload" using Suc.prems(4) by simp
    from Suc.IH [OF Suc.prems(1-3) this Suc.prems(5)] show ?thesis
      by (simp add: wp_bindm look None wp_getm)
  next
    case (Some h)
    have miss: ?thesis if rt: "root_at fs h c r' name' payload'" and ne: "name' \<noteq> name"
      and go: "resolves fs name n (fffs_next_slot c) slot head r payload" for r' name' payload'
    proof -
      have "wp (fffs_read_file_root_md h c True cache) (\<lambda>res fs1. looked fs fs1 \<and> (\<exists>root cache1. res = Inr root \<and>
          root_st root = Some \<lparr>st_name = name', st_size = md_size_or_offset r'\<rparr> \<and> root_cache root = cache1 \<and>
          prefetched payload' cache cache1)) fs"
        by (rule wp_mono [OF root_md_rule [OF Suc.prems(1,2) rt Suc.prems(5)]]) auto
      then show ?thesis
        unfolding resolve_loop.simps wp_bindm look Some sum.case option.case
      proof (rule wp_mono, goal_cases)
        case (1 res fs1)
        then obtain root cache1 where l: "looked fs fs1" and res: "res = Inr root"
          and root: "root_st root = Some \<lparr>st_name = name', st_size = md_size_or_offset r'\<rparr>" "root_cache root = cache1"
          and pre: "prefetched payload' cache cache1" by blast
        have g1: "geom fs1" "healthy fs1" "cache_inv fs1"
          using looked_geom [OF l] looked_fields [OF l] looked_cache [OF l] Suc.prems by simp_all
        have cap: "cv_capacity v = 256" if "cache1 = Some v" for v
          using pre that Suc.prems(5) by (auto simp: prefetched_def split: option.splits)
        have "wp (resolve_loop name n (fffs_next_slot c) free cache1) (\<lambda>res fs'. looked fs1 fs' \<and>
            (\<exists>cache'. res = Inr (resolution slot head r name cache') \<and> prefetched payload cache1 cache')) fs1"
          using go looked_resolves [OF l Suc.prems(1,2)] cap by (intro Suc.IH [OF g1]) simp_all
        then show ?case
          unfolding res sum.case root option.map fffs_stat.select_convs
          using ne by (auto elim!: wp_mono intro: looked_trans [OF l] prefetched_chain [OF pre])
      qed
    qed
    from Suc.prems(4) Some consider "slot = c" "head = h" "root_at fs h c r name payload"
      | "\<exists>r' name' payload'. root_at fs h c r' name' payload' \<and> name' \<noteq> name \<and>
            resolves fs name n (fffs_next_slot c) slot head r payload" by auto
    then show ?thesis
    proof cases
      case 1
      show ?thesis
        unfolding resolve_loop.simps wp_bindm look Some sum.case option.case
        by (rule wp_mono [OF root_md_rule [OF Suc.prems(1,2) 1(3) Suc.prems(5)]])
          (auto simp: wp_ret resolution_def 1)
    next
      case 2
      then show ?thesis using miss by blast
    qed
  qed
qed simp

section \<open>Opening for reading\<close>

text \<open>\<open>stored fs name content\<close>: a lookup of \<open>name\<close> reaches a committed root whose extents hold \<open>content\<close>.\<close>

definition stored :: "'c fffs \<Rightarrow> byte list \<Rightarrow> byte list \<Rightarrow> bool" where
  "stored fs name content \<longleftrightarrow> (\<exists>slot head r payload es.
     resolves fs name (FFFS_MAX_PROBE_DISTANCE + 1) (fffs_normalize_slot_base (fffs_hash16 name)) slot head r payload \<and>
     root_at fs head slot r name payload \<and> chain fs slot head (md_span_len r) (md_next r) es \<and>
     content = payload @ concat (map (extent_data fs) es) \<and> unat (md_size_or_offset r) = length content)"

lemma open_streams:
  assumes geom: "geom fs" and small: "fs_sector_size fs \<le> 65536" and root: "root_at fs head slot r name payload"
    and ch: "chain fs slot head (md_span_len r) (md_next r) es"
    and pre: "prefetched payload (Some v) (Some c)"
    and f: "f_current f = head" "f_slot f = slot" "f_data_offset f = md_data_off r + of_nat (length name + 2)"
      "f_current_data_len f = md_data_len r - of_nat (length name + 2)" "f_span_len f = md_span_len r"
      "f_current_next f = md_next r" "f_current_data_pos f = 0" "f_cache f = cv_data c" "f_cache_len f = cv_len c"
      "f_cache_data_pos f = cv_data_pos c"
  shows "streams fs f es (payload @ concat (map (extent_data fs) es))"
proof -
  have find: "finds fs head slot r" and data: "extent_data fs (head, r) = root_prefix name @ payload"
    using root by (simp_all add: root_at_def)
  note ff = finds_facts [OF find]
  have len: "unat (md_data_len r) = length name + 2 + length payload"
    using extent_data_length [OF geom find] data by simp
  have lim: "unat (md_data_off r) + unat (md_data_len r) \<le> fs_sector_size fs - 10" by (rule finds_room [OF find])
  have off: "unat (md_data_off r + of_nat (length name + 2)) = unat (md_data_off r) + (length name + 2)"
    using lim len small geom by (intro unat_plus_u16) (simp add: geom_def)
  have "unat (of_nat (length name + 2) :: u16) = length name + 2" using len unat_u16_less [of "md_data_len r"] by (intro unat_of_nat_u16) linarith
  moreover from this have "(of_nat (length name + 2) :: u16) \<le> md_data_len r" unfolding word_le_nat_alt using len by linarith
  ultimately have dl: "unat (md_data_len r - of_nat (length name + 2)) = length payload"
    using len by (simp only: unat_sub)
  have base: "extent_base fs f = unat head * fs_sector_size fs + unat (md_data_off r) + (length name + 2)"
    unfolding extent_base_def f off by simp
  have pay: "sub_bytes (extent_base fs f) (length payload) (fmem fs) = payload"
  proof -
    have "sub_bytes (length name + 2) (length payload) (extent_data fs (head, r)) = payload"
      unfolding data by (simp add: sub_bytes_def)
    then show ?thesis unfolding extent_data_def base prod.case
      using sub_bytes_sub_bytes [of "length name + 2" "length payload" "unat (md_data_len r)"] len by simp
  qed
  have cv: "cv_data_pos c = 0" "cv_len c \<le> length payload" "take (cv_len c) (cv_data c) = take (cv_len c) payload"
    using pre by (simp_all add: prefetched_def)
  have "sub_bytes (extent_base fs f) (cv_len c) (fmem fs) = take (cv_len c) (sub_bytes (extent_base fs f) (length payload) (fmem fs))"
    using cv(2) by (simp add: sub_bytes_def min_def)
  then have ag: "cache_agrees fs f" unfolding cache_agrees_def using cv dl by (simp add: f pay)
  have "at_extent fs f"
    unfolding at_extent_def using ff(1) lim len off dl ag by (simp add: f)
  then show ?thesis
    unfolding streams_def using ch pay dl by (simp add: f)
qed

lemma same_upd:
  assumes "geom fs" "healthy fs"
  shows "steady fs (upd_file p g fs)" "steady fs (register_open_file p fs)"
  using steady_refl [OF assms]
  by (simp_all add: steady_upd_file register_open_file_def)
    (simp add: steady_def kept_def upd_file_def geom_def fdev_def healthy_def fmem_def)

lemma looked_upd: "geom fs \<Longrightarrow> healthy fs \<Longrightarrow> cache_inv fs \<Longrightarrow>
    geom (upd_file p g fs) \<and> healthy (upd_file p g fs) \<and> cache_inv (upd_file p g fs)"
  using same_upd(1) [of fs p g] by (simp add: steady_def kept_def) (simp add: cache_inv_def upd_file_def)

lemma resolves_upd:
  assumes "geom fs" "healthy fs"
  shows "resolves (upd_file p g fs) name n c slot head r payload = resolves fs name n c slot head r payload"
proof -
  have "root_at (upd_file p g fs) = root_at fs"
    using steady_holds [OF same_upd(1) [OF assms]] steady_data [OF same_upd(1) [OF assms]]
    by (simp add: root_at_def finds_def fun_eq_iff)
  moreover have "cache_map (upd_file p g fs) = cache_map fs" by (simp add: cache_map_def upd_file_def)
  ultimately show ?thesis by (induction n arbitrary: c) (simp_all cong: option.case_cong)
qed

lemma open_read_rule:
  assumes geom: "geom fs" "healthy fs" and inv: "cache_inv fs" and small: "fs_sector_size fs \<le> 65536"
    and st: "stored fs name content"
  shows "wp (fffs_open q name FFFS_O_RDONLY) (\<lambda>r fs'. r = Inr () \<and> reading fs' q content \<and> fmem fs' = fmem fs) fs"
proof -
  from st obtain slot head r payload es where
    res: "resolves fs name (FFFS_MAX_PROBE_DISTANCE + 1) (fffs_normalize_slot_base (fffs_hash16 name)) slot head r payload"
    and root: "root_at fs head slot r name payload" and ch: "chain fs slot head (md_span_len r) (md_next r) es"
    and content: "content = payload @ concat (map (extent_data fs) es)" and size: "unat (md_size_or_offset r) = length content"
    by (auto simp: stored_def)
  have name: "name \<noteq> []" "\<not> length name > 32" using root by (auto simp: root_at_def file_name_def)
  define v where "v = \<lparr>cv_data = f_cache zero_file, cv_capacity = 256, cv_len = 0, cv_data_pos = 0\<rparr>"
  define fs1 where "fs1 = upd_file q (\<lambda>_. zero_file) fs"
  have g1: "geom fs1" "healthy fs1" "cache_inv fs1" using looked_upd [OF geom inv] by (simp_all add: fs1_def)
  have s1: "steady fs fs1" unfolding fs1_def by (rule same_upd(1) [OF geom])
  have res1: "resolves fs1 name (FFFS_MAX_PROBE_DISTANCE + 1) (fffs_normalize_slot_base (fffs_hash16 name)) slot head r payload"
    using res resolves_upd [OF geom] by (simp add: fs1_def)
  have resolve: "wp (fffs_index_resolve name (Some v)) (\<lambda>res fs'. looked fs1 fs' \<and>
      (\<exists>cache'. res = Inr (resolution slot head r name cache') \<and> prefetched payload (Some v) cache')) fs1"
    unfolding fffs_index_resolve_def using name resolve_rule [OF g1 res1, of "Some v" None] by (simp add: v_def)
  have flags: "open_flags_valid 1" "(1 :: u32) AND 1 \<noteq> 0" "(1 :: u32) AND 2 = 0" by (simp_all add: open_flags_valid_def)
  have fin: "wp (seqm (mod_file q (\<lambda>f. f\<lparr>f_fs := True, f_flags := 1, f_slot := slot, f_head := head\<rparr>))
      (open_read q (resolution slot head r name (Some c)) (the (rs_root (resolution slot head r name (Some c))))))
      (\<lambda>r fs'. r = Inr () \<and> reading fs' q content \<and> fmem fs' = fmem fs) fs2"
    if l: "looked fs1 fs2" and pre: "prefetched payload (Some v) (Some c)" for fs2 c
  proof -
    define fs3 where "fs3 = upd_file q (\<lambda>f. f\<lparr>f_fs := True, f_flags := 1, f_slot := slot, f_head := head\<rparr>) fs2"
    have s2: "steady fs fs2" using steady_trans [OF s1 looked_steady [OF l g1(1,2)]] .
    then have g2: "geom fs2" "healthy fs2" by (simp_all add: steady_def kept_def)
    have s3: "steady fs fs3" unfolding fs3_def by (rule steady_trans [OF s2 same_upd(1) [OF g2]])
    have g3: "geom fs3" "healthy fs3" using s3 by (simp_all add: steady_def kept_def)
    have find3: "finds fs3 head slot r" using root steady_holds [OF s3] by (simp add: root_at_def finds_def)
    define h where "h = (\<lambda>(record :: fffs_md_record) (f :: fffs_file). f\<lparr>f_cache := cv_data c, f_cache_len := cv_len c, f_cache_data_pos := cv_data_pos c,
        f_data_offset := md_data_off r + of_nat (length name + 2), f_size := md_size_or_offset r, f_current := head,
        f_current_data_len := md_data_len r - of_nat (length name + 2), f_span_len := md_span_len record, f_current_next := md_next r,
        f_name := name\<rparr>)"
    have "wp (fffs_read_md_for_slot head slot) (\<lambda>res fs4. res = Inr r \<and> steady fs fs4 \<and> fs_files fs4 = fs_files fs3) fs3"
      by (rule wp_mono [OF look_rule [OF g3 find3]])
        (use steady_trans [OF s3] looked_steady [OF _ g3] looked_fields in blast)
    then have "wp (bindm (fffs_read_md_for_slot head slot) (\<lambda>record. seqm (mod_file q (h record)) (modm (register_open_file q))))
        (\<lambda>r fs'. r = Inr () \<and> reading fs' q content \<and> fmem fs' = fmem fs) fs3"
      unfolding wp_bindm
    proof (rule wp_mono, goal_cases)
      case (1 res fs4)
      define fs5 where "fs5 = register_open_file q (upd_file q (h r) fs4)"
      have s4: "steady fs fs4" using 1 by simp
      then have g4: "geom fs4" "healthy fs4" by (simp_all add: steady_def kept_def)
      have s5: "steady fs fs5"
        unfolding fs5_def using s4 same_upd(1) [OF g4, of q "h r"] same_upd(2) [of "upd_file q (h r) fs4" q]
        by (auto simp: steady_def kept_def)
      define f where "f = fs_files fs5 q"
      have f: "f = (h r (fs_files fs3 q))\<lparr>f_open_registered := True\<rparr>"
        using 1 unfolding f_def fs5_def register_open_file_def by (simp add: upd_file_def)
      have fs2q: "fs_files fs2 q = zero_file" using looked_fields(7) [OF l] by (simp add: fs1_def upd_file_def)
      have f': "f = (h r (zero_file\<lparr>f_fs := True, f_flags := 1, f_slot := slot, f_head := head\<rparr>))\<lparr>f_open_registered := True\<rparr>"
        using f fs2q by (simp add: fs3_def upd_file_def)
      have "streams fs f es content"
        unfolding content by (rule open_streams [OF geom(1) small root ch pre]) (simp_all add: f' h_def zero_file_def)
      then have str: "streams fs5 f es content" using steady_streams [OF s5] by simp
      have "reading fs5 q content"
        unfolding reading_def f_def [symmetric]
        using s5 str size by (auto simp: f' h_def zero_file_def steady_def kept_def)
      with 1 s5 show ?case by (simp add: wp_simps mod_file_def fs5_def steady_def)
    qed
    then show ?thesis
      unfolding open_read_def Let_def wp_seqm mod_file_def wp_modm fs3_def [symmetric] sum.case resolution_def
      by (simp add: h_def mod_file_def)
  qed
  show ?thesis
    unfolding fffs_open_def Let_def wp_seqm mod_file_def wp_modm sum.case fs1_def [symmetric]
    using flags
    by (simp add: wp_bindm v_def [symmetric])
      (rule wp_mono [OF resolve], use fin in \<open>auto simp: prefetched_def resolution_def mod_file_def\<close>)
qed

section \<open>The last flush\<close>

text \<open>All of \<open>bytes\<close> is on flash and the rest of the extent is erased.\<close>

definition flushed :: "'c fffs \<Rightarrow> fffs_file \<Rightarrow> byte list \<Rightarrow> bool" where
  "flushed fs f bytes \<longleftrightarrow> sub_bytes (extent_base fs f) (length bytes) (fmem fs) = bytes \<and>
     erased_span fs (extent_base fs f + length bytes) (extent_room f - length bytes)"

lemma flushed_program:
  assumes "geom fs" "staged fs f bytes"
    and "fmem fs' = nor_program (write_address fs f) (take (f_cache_len f) (f_cache f)) (fmem fs)"
    and "fs_sector_size fs' = fs_sector_size fs"
  shows "flushed fs' f bytes"
proof -
  let ?wo = "unat (f_current_write_offset f)" and ?do = "unat (f_data_offset f)" and ?me = "unat (f_current_metadata_offset f)"
  note fl = flush_program [OF assms(1,2) order_refl assms(3)]
  have s: "?do \<le> ?wo" "?wo + f_cache_len f \<le> ?me"
    "bytes = sub_bytes (extent_base fs f) (?wo - ?do) (fmem fs) @ take (f_cache_len f) (f_cache f)"
    using assms(2) by (simp_all add: staged_def)
  have len: "length bytes = ?wo - ?do + f_cache_len f" by (rule staged_length [OF assms(1,2)])
  have base: "extent_base fs' f = extent_base fs f" using assms(4) by (simp add: extent_base_def)
  have addr: "write_address fs f = extent_base fs f + (?wo - ?do)" using s(1) by (simp add: write_address_def extent_base_def)
  have "sub_bytes (extent_base fs f) (length bytes) (fmem fs') = bytes"
    unfolding len sub_bytes_append using fl(1,2) s(3) addr by simp
  moreover have "extent_base fs f + length bytes = write_address fs f + f_cache_len f"
    "extent_room f - length bytes = ?me - ?wo - f_cache_len f"
    using s len addr by (simp_all add: extent_room_def)
  ultimately show ?thesis
    using fl(3) by (simp add: flushed_def erased_span_def base)
qed

lemma flush_final:
  assumes geom: "geom fs" "healthy fs" and f: "fs_files fs p = f" and st: "staged fs f bytes"
    and gran: "256 mod be_program_granule (fs_backend fs) = 0"
    and pad: "write_address fs f + flush_length (be_program_granule (fs_backend fs)) (f_cache_len f) True \<le> length (fmem fs)"
  shows "wp (flush_write_cache p True) (\<lambda>r fs'. r = Inr () \<and> (\<exists>f'. moved p fs f' fs' \<and> filled 0 f f' \<and>
      f_current_data_len f' = f_current_data_len f) \<and> flushed fs' f bytes \<and>
    only (extent_base fs f) (unat (f_current f) * fs_sector_size fs + unat (f_current_metadata_offset f)) (fmem fs) (fmem fs')) fs"
proof (cases "f_cache_len f = 0")
  case True
  have "flushed fs f bytes" by (rule flushed_program [OF geom(1) st]) (simp_all add: True)
  with True f moved_refl [OF geom, of p] filled_refl [of f] show ?thesis
    by (auto simp: flush_write_cache_def wp_bindm wp_getm Let_def wp_ret)
next
  case False
  define g n where "g = be_program_granule (fs_backend fs)" and "n = flush_length g (f_cache_len f) True"
  have g: "0 < g" using gran by (cases "g = 0") (simp_all add: g_def)
  have cl: "f_cache_len f \<le> 256" "length (f_cache f) = 256" using st by (simp_all add: staged_def)
  have n: "f_cache_len f \<le> n" "n \<le> 256" "n \<noteq> 0"
    using flush_length_facts [OF g _ cl(1), of True] gran False by (auto simp: g_def n_def)
  define pd :: "fffs_file \<Rightarrow> fffs_file" where "pd = (\<lambda>f'. if n > f_cache_len f then f'\<lparr>f_cache :=
      put_bytes (f_cache_len f) (replicate (n - f_cache_len f) 0xff) (f_cache f')\<rparr> else f')"
  define data where "data = take n (f_cache (pd f))"
  have data: "data = take (f_cache_len f) (f_cache f) @ replicate (n - f_cache_len f) 0xff"
    using n cl by (auto simp: data_def pd_def put_bytes_def)
  define fs1 where "fs1 = upd_file p pd fs"
  have mv1: "moved p fs (pd f) fs1" using moved_upd [OF moved_refl [OF geom, of p], of pd] f by (simp add: fs1_def)
  note m1 = moved_fields [OF mv1]
  define q where "q = (\<lambda>f :: fffs_file. f\<lparr>f_current_write_offset := f_current_write_offset f + of_nat n,
       f_cache := (if n < f_cache_len f then put_bytes 0 (sub_bytes n (f_cache_len f - n) (f_cache f)) (f_cache f) else f_cache f),
       f_cache_len := f_cache_len f - min n (f_cache_len f)\<rparr>)"
  have addr: "unat (f_current (pd f)) * fs_sector_size fs + unat (f_current_write_offset (pd f)) = write_address fs f"
    by (simp add: pd_def write_address_def)
  have fits: "write_address fs f + length data \<le> length (fmem fs1)"
    using pad m1(7) n cl by (simp add: data n_def g_def)
  have prog: "wp (fffs_flash_program_aligned (write_address fs f) data) (\<lambda>r fs2. r = Inr () \<and> moved p fs1 (pd f) fs2 \<and>
      fmem fs2 = nor_program (write_address fs f) (take (f_cache_len f) (f_cache f)) (fmem fs)) fs1"
  proof (rule wp_mono [OF program_moved [OF m1(5,6) fits, of p]], goal_cases)
    case (1 r fs2)
    have "fmem fs1 = fmem fs" by (simp add: fs1_def)
    with 1 m1(1) show ?case
      using nor_program_pad [of "write_address fs f" 0 "take (f_cache_len f) (f_cache f)" "n - f_cache_len f" "fmem fs"] fits cl
      by (simp add: data)
  qed
  have "wp (seqm (fffs_flash_program_aligned (write_address fs f) data) (mod_file p q)) (\<lambda>r fs'. r = Inr () \<and>
      (\<exists>f'. moved p fs f' fs' \<and> filled 0 f f' \<and> f_current_data_len f' = f_current_data_len f) \<and> flushed fs' f bytes \<and>
      only (extent_base fs f) (unat (f_current f) * fs_sector_size fs + unat (f_current_metadata_offset f)) (fmem fs) (fmem fs')) fs1"
    unfolding wp_seqm mod_file_def wp_modm
  proof (rule wp_mono [OF prog], goal_cases)
    case (1 r fs2)
    then have mv: "moved p fs (q (pd f)) (upd_file p q fs2)" using moved_upd [OF moved_trans [OF mv1], of "pd f" fs2 q] by simp
    have mem: "fmem (upd_file p q fs2) = nor_program (write_address fs f) (take (f_cache_len f) (f_cache f)) (fmem fs)"
      using 1 by simp
    have "filled 0 f (q (pd f))" "f_current_data_len (q (pd f)) = f_current_data_len f"
      by (auto simp: filled_def q_def pd_def)
    with mv have "\<exists>f'. moved p fs f' (upd_file p q fs2) \<and> filled 0 f f' \<and> f_current_data_len f' = f_current_data_len f" by blast
    with 1 flushed_program [OF geom(1) st mem moved_fields(2) [OF mv]] flush_program(4) [OF geom(1) st order_refl mem]
    show ?case by simp
  qed
  then have "wp (seqm (mod_file p pd) (seqm (fffs_flash_program_aligned (write_address fs f) data) (mod_file p q)))
      (\<lambda>r fs'. r = Inr () \<and>
      (\<exists>f'. moved p fs f' fs' \<and> filled 0 f f' \<and> f_current_data_len f' = f_current_data_len f) \<and> flushed fs' f bytes \<and>
      only (extent_base fs f) (unat (f_current f) * fs_sector_size fs + unat (f_current_metadata_offset f)) (fmem fs) (fmem fs')) fs"
    by (simp add: wp_def seqm_def bindm_def mod_file_def modm_def fs1_def)
  moreover have "flush_write_cache p True fs = seqm (mod_file p pd) (seqm (fffs_flash_program_aligned (write_address fs f) data) (mod_file p q)) fs"
  proof (cases "n > f_cache_len f")
    case True
    then have "pd = (\<lambda>f'. f'\<lparr>f_cache := put_bytes (f_cache_len f) (replicate (n - f_cache_len f) 0xff) (f_cache f')\<rparr>)"
      by (simp add: pd_def fun_eq_iff)
    then show ?thesis
      using True False n(3) addr f
      by (simp add: flush_write_cache_def bindm_getm Let_def whenm_def seqm_def q_def data_def get_file_def mod_file_def
        modm_def bindm_def getm_def upd_file_def g_def [symmetric] n_def [symmetric] write_address_def cong: if_cong)
  next
    case no: False
    then have pd: "pd = (\<lambda>f'. f')" by (simp add: pd_def)
    have "upd_file p (\<lambda>f'. f') fs = fs" by (simp add: upd_file_def)
    then show ?thesis
      using no False n(3) addr f
      by (simp add: flush_write_cache_def bindm_getm Let_def whenm_def seqm_def q_def data_def get_file_def mod_file_def pd
        modm_def bindm_def getm_def g_def [symmetric] n_def [symmetric] write_address_def ret_def cong: if_cong)
  qed
  ultimately show ?thesis by (simp only: wp_def)
qed

end

end
