(* ===== verification/Fffs_Publish.thy ===== *)
theory Fffs_Publish
  imports Fffs_Lookup
begin

unbundle bit_operations_syntax

text \<open>
  Closing a new file.  \<open>fills fs p name content\<close> describes a handle that is writing the first extent of a file
  that does not exist yet.  Writing keeps it; closing flushes the cache, writes and commits the record, appends
  the journal record, and leaves a state in which the file is stored with its content and every other file is
  stored as before (\<open>published\<close>).
\<close>

lemma sub_bytes_only:
  assumes "only lo hi m m'" "a + n \<le> length m" "a + n \<le> lo \<or> hi \<le> a"
  shows "sub_bytes a n m' = sub_bytes a n m"
  using assms by (intro nth_equalityI) (auto simp: only_def)

lemma wp_keeps: "keeps v m \<Longrightarrow> wp m Q fs \<Longrightarrow> wp m (\<lambda>r fs'. Q r fs' \<and> v fs' = v fs) fs"
  by (auto simp: keeps_def wp_iff)

lemma flush_slack: "flush_length g n True \<le> n + g"
proof -
  have "(n + g - 1) div g * g \<le> n + g - 1" by (rule div_times_less_eq_dividend)
  then have "(n + g - 1) div g * g \<le> n + g" by linarith
  then show ?thesis by (simp add: flush_length_def Let_def)
qed

text \<open>The commit of a single-sector root is the commit of the record followed by the journal record.\<close>

lemma finish_then_append:
  "fffs_finish_extent_metadata file sector 0 1 sz b1 b2 True fs =
     seqm (fffs_finish_extent_metadata file sector 0 1 sz b1 b2 False) (fffs_append_index_record (f_slot file) (f_head file)) fs"
proof -
  have ret: "bindm m ret = m" for m :: "('c, 'd) fsop"
    by (rule ext) (simp add: bindm_def ret_def split: option.splits sum.splits)
  have left: "bindm (ret v) k = k v" for v :: 'd and k :: "'d \<Rightarrow> ('c, 'e) fsop"
    by (rule ext) (simp add: bindm_def ret_def)
  have assoc: "bindm (bindm m k) l = bindm m (\<lambda>x. bindm (k x) l)" for m :: "('c, 'd) fsop" and k :: "'d \<Rightarrow> ('c, 'e) fsop" and l :: "'e \<Rightarrow> ('c, 'g) fsop"
    by (rule ext) (simp add: bindm_def split: option.splits sum.splits)
  show ?thesis
    by (simp add: fffs_finish_extent_metadata_def seqm_def assoc whenm_def left ret Let_def)
qed

text \<open>A journal record as bytes.\<close>

definition rec_bytes :: "u16 \<times> u16 \<Rightarrow> byte list" where
  "rec_bytes rec = fffs_store_le16 (fst rec) @ fffs_store_le16 (snd rec)"

context reliable_flash
begin

section \<open>The journal\<close>

text \<open>The bytes of the index sectors.  \<open>quiet fs fs'\<close>: journal and cache are as they were; \<open>logged fs rec fs'\<close>: \<open>rec\<close> was
  added at the end of the journal and to the cache.\<close>

definition index_bytes :: "'c fffs \<Rightarrow> byte list" where
  "index_bytes fs = take (unat (fs_index_sectors fs) * fs_sector_size fs) (fmem fs)"

definition quiet :: "'c fffs \<Rightarrow> 'c fffs \<Rightarrow> bool" where
  "quiet fs fs' \<longleftrightarrow> journal fs' = journal fs \<and> index_bytes fs' = index_bytes fs"

definition logged :: "'c fffs \<Rightarrow> u16 \<times> u16 \<Rightarrow> 'c fffs \<Rightarrow> bool" where
  "logged fs rec fs' \<longleftrightarrow> fs_oldest_index_sector fs' = fs_oldest_index_sector fs \<and>
     fs_index_sequence_count fs' = fs_index_sequence_count fs \<and> fs_active_index_sector fs' = fs_active_index_sector fs \<and>
     fs_active_index_serial fs' = fs_active_index_serial fs \<and> fs_next_index_offset fs' = fs_next_index_offset fs + 4 \<and>
     only (fs_next_index_offset fs) (fs_next_index_offset fs + 4) (index_bytes fs) (index_bytes fs') \<and>
     sub_bytes (fs_next_index_offset fs) 4 (index_bytes fs') = rec_bytes rec \<and> cache_map fs' = slot_upd rec (cache_map fs)"

lemma quiet_trans: "quiet fs fs1 \<Longrightarrow> quiet fs1 fs2 \<Longrightarrow> quiet fs fs2"
  by (simp add: quiet_def)

lemma quiet_logged: "quiet fs fs1 \<Longrightarrow> logged fs1 rec fs2 \<Longrightarrow> logged fs rec fs2"
  by (auto simp: quiet_def logged_def journal_def cache_map_def)

lemma logged_quiet: "logged fs rec fs1 \<Longrightarrow> quiet fs1 fs2 \<Longrightarrow> logged fs rec fs2"
  by (auto simp: quiet_def logged_def journal_def cache_map_def)

lemma quiet_above:
  assumes "kept fs fs'" "journal fs' = journal fs" "only lo hi (fmem fs) (fmem fs')" "unat (fs_index_sectors fs) * fs_sector_size fs \<le> lo"
  shows "quiet fs fs'"
proof -
  have "take (unat (fs_index_sectors fs) * fs_sector_size fs) (fmem fs') = take (unat (fs_index_sectors fs) * fs_sector_size fs) (fmem fs)"
    using assms(3,4) by (intro nth_equalityI) (auto simp: only_def)
  with assms(1,2) show ?thesis by (simp add: quiet_def index_bytes_def kept_def)
qed

definition journal_room :: "'c fffs \<Rightarrow> u16 \<Rightarrow> bool" where
  "journal_room fs slot \<longleftrightarrow> cache_inv fs \<and> card (insert slot (dom (cache_map fs))) \<le> fs_index_hash_table_size fs - 1 \<and>
     \<not> index_full fs \<and> fs_active_index_sector fs < unat (fs_index_sectors fs) \<and>
     unat (fs_index_sectors fs) \<le> fs_sector_count fs \<and> erased_span fs (fs_next_index_offset fs) 4"

lemma journal_fits:
  assumes "geom fs" "journal_room fs slot"
  shows "fs_next_index_offset fs + 4 \<le> unat (fs_index_sectors fs) * fs_sector_size fs"
    "fs_next_index_offset fs + 4 \<le> length (fmem fs)"
proof -
  have j: "fs_next_index_offset fs + 4 \<le> (fs_active_index_sector fs + 1) * fs_sector_size fs"
    "fs_active_index_sector fs + 1 \<le> unat (fs_index_sectors fs)" "unat (fs_index_sectors fs) \<le> fs_sector_count fs"
    using assms(2) by (simp_all add: journal_room_def index_full_def)
  show a: "fs_next_index_offset fs + 4 \<le> unat (fs_index_sectors fs) * fs_sector_size fs"
    using j(1) mult_le_mono1 [OF j(2), of "fs_sector_size fs"] by simp
  show "fs_next_index_offset fs + 4 \<le> length (fmem fs)"
    using order_trans [OF a mult_le_mono1 [OF j(3)]] assms(1) by (simp add: geom_def)
qed

lemma journal_cong:
  assumes "journal_room fs slot" "kept fs fs'" "journal fs' = journal fs"
    and "sub_bytes (fs_next_index_offset fs) 4 (fmem fs') = sub_bytes (fs_next_index_offset fs) 4 (fmem fs)"
  shows "journal_room fs' slot" "cache_map fs' = cache_map fs" "fs_next_index_offset fs' = fs_next_index_offset fs"
  using assms by (simp_all add: journal_room_def journal_def kept_def cache_inv_def cache_map_def index_full_def erased_span_def)

lemma append_rule:
  assumes "geom fs" "healthy fs" "journal_room fs slot" "slot \<noteq> 0"
  shows "wp (fffs_append_index_record slot head) (\<lambda>r fs'. r = Inr () \<and> kept fs fs' \<and>
    only (fs_next_index_offset fs) (fs_next_index_offset fs + 4) (fmem fs) (fmem fs') \<and>
    cache_inv fs' \<and> logged fs (slot, head) fs' \<and> pinned fs' = pinned fs) fs"
proof -
  note fits = journal_fits [OF assms(1,3)]
  have j: "cache_inv fs" "card (insert slot (dom (cache_map fs))) \<le> fs_index_hash_table_size fs - 1" "\<not> index_full fs"
    "fs_next_index_offset fs + 4 \<le> length (fmem fs)" "sub_bytes (fs_next_index_offset fs) 4 (fmem fs) = replicate 4 0xff"
    using assms(3) journal_fits(2) [OF assms(1,3)] by (simp_all add: journal_room_def erased_span_def)
  have "wp (fffs_append_index_record slot head) (\<lambda>r fs'. r = Inr () \<and> kept fs fs' \<and>
    only (fs_next_index_offset fs) (fs_next_index_offset fs + 4) (fmem fs) (fmem fs') \<and>
    cache_inv fs' \<and> logged fs (slot, head) fs') fs" (is "wp _ ?Q _")
  proof (rule wp_eqI, rule append_not_full [OF j(3)], unfold wp_seqm,
      rule wp_mono [OF program_index_record_rule [OF geom_fdev [OF assms(1)] j(4,5)]], goal_cases)
    case (1 r fs1)
    then obtain c where c: "r = Inr ()" "fs1 = set_ctx c fs" "stp c fs" "length (mem c) = length (fmem fs)"
      "only (fs_next_index_offset fs) (fs_next_index_offset fs + 4) (fmem fs) (mem c)"
      "sub_bytes (fs_next_index_offset fs) 4 (mem c) = rec_bytes (slot, head)"
      using assms(2) by (cases r) (auto simp: wrote_record_def only_def rec_bytes_def)
    have k1: "kept fs fs1" using c assms(1,2) geom_set_ctx [OF assms(1)] stp_healthy by (auto simp: kept_def)
    let ?fs2 = "fs1\<lparr>fs_next_index_offset := fs_next_index_offset fs1 + 4\<rparr>"
    from cache_set [of ?fs2 slot head] assms(4) j c(2) obtain t where
      t: "fffs_index_set slot head ?fs2 = Some (Inr (), ?fs2\<lparr>fs_index_cache := t\<rparr>)"
        "cache_inv (?fs2\<lparr>fs_index_cache := t\<rparr>)"
        "cache_map (?fs2\<lparr>fs_index_cache := t\<rparr>) = slot_upd (slot, head) (cache_map fs)" by auto
    have core: "same_core fs1 (?fs2\<lparr>fs_index_cache := t\<rparr>)" by (simp add: same_core_def)
    have m1: "fmem fs1 = mem c" using c(2) by simp
    note sc = same_core_facts [OF core]
    have ib: "index_bytes (?fs2\<lparr>fs_index_cache := t\<rparr>) = take (unat (fs_index_sectors fs) * fs_sector_size fs) (mem c)"
      unfolding index_bytes_def sc(1) m1 using c(2) by simp
    have "logged fs (slot, head) (?fs2\<lparr>fs_index_cache := t\<rparr>)"
      unfolding logged_def ib
      using c(2) t(3) fits c(4,5) c(6) [symmetric] by (auto simp: index_bytes_def only_def sub_bytes_def drop_take min_def)
    then have "?Q (Inr ()) (?fs2\<lparr>fs_index_cache := t\<rparr>)" unfolding sc(1) using sc(9) [OF k1] t(2) c(5) m1 by simp
    then have "wp (fffs_index_set slot head) ?Q ?fs2" using t(1) by (simp add: wp_def)
    then show ?case by (simp add: c(1) wp_modm)
  qed
  from wp_keeps [OF append_frame(2) this] show ?thesis by (auto elim!: wp_mono)
qed

section \<open>Sectors a write leaves alone\<close>

lemma holds_cong:
  assumes "geom fs" "kept fs fs'" "data_sector fs s"
    and "sub_bytes (unat s * fs_sector_size fs) (fs_sector_size fs) (fmem fs') = sub_bytes (unat s * fs_sector_size fs) (fs_sector_size fs) (fmem fs)"
  shows "sector_holds fs' s serial st rs = sector_holds fs s serial st rs"
    "extent_data fs' (s, r) = extent_data fs (s, r) \<or> \<not> unat (md_data_off r) + unat (md_data_len r) \<le> fs_sector_size fs"
proof -
  have k: "geom fs'" "fs_sector_size fs' = fs_sector_size fs" "fs_sector_count fs' = fs_sector_count fs" "fs_index_sectors fs' = fs_index_sectors fs"
    using assms(2) by (simp_all add: kept_def)
  have ss: "256 \<le> fs_sector_size fs" using assms(1) by (simp add: geom_def)
  have part: "sub_bytes (unat s * fs_sector_size fs + a) n (fmem fs') = sub_bytes (unat s * fs_sector_size fs + a) n (fmem fs)"
    if "a + n \<le> fs_sector_size fs" for a n
    using sub_bytes_sub_bytes [OF that, of "unat s * fs_sector_size fs" "fmem fs'"]
      sub_bytes_sub_bytes [OF that, of "unat s * fs_sector_size fs" "fmem fs"] assms(4) by simp
  have "footer_bytes fs' s = footer_bytes fs s"
    using part [of "fs_sector_size fs - 10" 10] ss k footer_bytes_eq [OF assms(1)] footer_bytes_eq [OF k(1)] by simp
  moreover have "md_stored fs' (fmem fs') s (fs_sector_size fs' - 10) 0 rs = md_stored fs (fmem fs) s (fs_sector_size fs - 10) 0 rs"
    using md_stored_flash [OF assms(4), of "fs_sector_size fs - 10" 0 rs] md_stored_cong [of fs' fs] k by simp
  ultimately show "sector_holds fs' s serial st rs = sector_holds fs s serial st rs"
    using k by (simp add: sector_holds_def data_sector_def)
  show "extent_data fs' (s, r) = extent_data fs (s, r) \<or> \<not> unat (md_data_off r) + unat (md_data_len r) \<le> fs_sector_size fs"
    using part [of "unat (md_data_off r)" "unat (md_data_len r)"] k by (auto simp: extent_data_def)
qed

section \<open>Publishing a root keeps the other files\<close>

text \<open>\<open>spares fs s fs'\<close>: every data sector but \<open>s\<close> has the bytes it had.\<close>

definition spares :: "'c fffs \<Rightarrow> u16 \<Rightarrow> 'c fffs \<Rightarrow> bool" where
  "spares fs s fs' \<longleftrightarrow> kept fs fs' \<and> (\<forall>t. data_sector fs t \<longrightarrow> t \<noteq> s \<longrightarrow>
     sub_bytes (unat t * fs_sector_size fs) (fs_sector_size fs) (fmem fs') = sub_bytes (unat t * fs_sector_size fs) (fs_sector_size fs) (fmem fs))"

definition unused :: "'c fffs \<Rightarrow> u16 \<Rightarrow> bool" where
  "unused fs s \<longleftrightarrow> (\<forall>serial st rs. \<not> sector_holds fs s serial st rs)"

lemma spares_finds:
  assumes "geom fs" "spares fs s fs'" "unused fs s" "finds fs t slot r"
  shows "finds fs' t slot r" "extent_data fs' (t, r) = extent_data fs (t, r)"
proof -
  have k: "kept fs fs'" using assms(2) by (simp add: spares_def)
  have ne: "t \<noteq> s" using assms(3,4) by (auto simp: unused_def finds_def)
  note ff = finds_facts [OF assms(4)]
  have same: "sub_bytes (unat t * fs_sector_size fs) (fs_sector_size fs) (fmem fs') = sub_bytes (unat t * fs_sector_size fs) (fs_sector_size fs) (fmem fs)"
    using assms(2) ne ff(3) by (simp add: spares_def)
  show "finds fs' t slot r" using assms(4) holds_cong(1) [OF assms(1) k ff(3) same] by (simp add: finds_def)
  show "extent_data fs' (t, r) = extent_data fs (t, r)" using holds_cong(2) [OF assms(1) k ff(3) same] ff(2) by blast
qed

lemma spares_chain:
  assumes "geom fs" "spares fs s fs'" "unused fs s"
  shows "chain fs slot cur span nxt es \<Longrightarrow>
    chain fs' slot cur span nxt es \<and> map (extent_data fs') es = map (extent_data fs) es"
proof (induction es arbitrary: cur span nxt)
  case (Cons e es)
  obtain t r where e: "e = (t, r)" by (cases e)
  have "finds fs t slot r" using Cons.prems unfolding e chain.simps by blast
  note sf = spares_finds [OF assms this]
  with Cons.IH [of t "md_span_len r" "md_next r"] Cons.prems show ?case unfolding e chain.simps list.map by blast
qed simp

lemma spares_root:
  assumes "geom fs" "spares fs s fs'" "unused fs s" "root_at fs t slot r name payload"
  shows "root_at fs' t slot r name payload"
proof -
  have "finds fs t slot r" using assms(4) by (simp add: root_at_def)
  from spares_finds [OF assms(1-3) this] assms(4) show ?thesis by (simp add: root_at_def)
qed

lemma spares_resolves:
  assumes "geom fs" "spares fs s fs'" "unused fs s"
    and map: "cache_map fs' = (cache_map fs)(slot0 \<mapsto> s)" "slot0 \<notin> dom (cache_map fs)"
    and new: "root_at fs' s slot0 r0 name0 payload0" "name \<noteq> name0"
  shows "resolves fs name n c slot head r payload \<Longrightarrow> resolves fs' name n c slot head r payload"
proof (induction n arbitrary: c)
  case (Suc n)
  show ?case
  proof (cases "c = slot0")
    case True
    then have "cache_map fs c = None" using map(2) by auto
    with Suc True map(1) new show ?thesis by auto
  next
    case False
    then have same: "cache_map fs' c = cache_map fs c" using map(1) by simp
    show ?thesis
      using Suc same spares_root [OF assms(1-3)] by (cases "cache_map fs c") (auto, blast+)
  qed
qed simp

lemma spares_stored:
  assumes "geom fs" "spares fs s fs'" "unused fs s"
    and "cache_map fs' = (cache_map fs)(slot0 \<mapsto> s)" "slot0 \<notin> dom (cache_map fs)"
    and "root_at fs' s slot0 r0 name0 payload0" "name \<noteq> name0" "stored fs name content"
  shows "stored fs' name content"
proof -
  from assms(8) obtain slot head r payload es where
    s: "resolves fs name (FFFS_MAX_PROBE_DISTANCE + 1) (fffs_normalize_slot_base (fffs_hash16 name)) slot head r payload"
    "root_at fs head slot r name payload" "chain fs slot head (md_span_len r) (md_next r) es"
    "content = payload @ concat (map (extent_data fs) es)" "unat (md_size_or_offset r) = length content"
    unfolding stored_def by blast
  show ?thesis
    unfolding stored_def
    using spares_resolves [OF assms(1-7) s(1)] spares_root [OF assms(1-3) s(2)] spares_chain [OF assms(1-3) s(3)] s(4,5)
    by metis
qed

text \<open>With an unchanged cache no file is affected.\<close>

definition retains :: "'c fffs \<Rightarrow> 'c fffs \<Rightarrow> bool" where
  "retains fs fs' \<longleftrightarrow> (\<forall>name content. stored fs name content \<longrightarrow> stored fs' name content)"

lemma spares_retains:
  assumes "geom fs" "spares fs s fs'" "unused fs s" "cache_map fs' = cache_map fs"
  shows "retains fs fs'"
proof -
  have res: "resolves fs name n c slot head r payload \<Longrightarrow> resolves fs' name n c slot head r payload" for name n c slot head r payload
  proof (induction n arbitrary: c)
    case (Suc n)
    then show ?case
      using assms(4) spares_root [OF assms(1-3)] by (cases "cache_map fs c") (auto, blast+)
  qed simp
  show ?thesis
    unfolding retains_def stored_def
    using res spares_root [OF assms(1-3)] spares_chain [OF assms(1-3)] by metis
qed

section \<open>Closing a new file\<close>

text \<open>A handle that fills the one extent of a new file, in a sector without a footer.\<close>

definition fresh_root :: "'c fffs \<Rightarrow> fffs_file \<Rightarrow> byte list \<Rightarrow> bool" where
  "fresh_root fs f name \<longleftrightarrow> file_name name \<and> f_fs f \<and> f_current f = f_head f \<and> f_span_head f = f_head f \<and> f_head f \<noteq> 0 \<and>
     data_sector fs (f_head f) \<and> f_old_head f = 0 \<and> f_current_needs_footer f \<and>
     unat (f_current_metadata_offset f) = fs_sector_size fs - 26 \<and>
     f_slot f = fffs_normalize_slot_base (fffs_hash16 name) \<and> unat (f_root_payload_offset f) = length name + 2"

definition blank_tail :: "'c fffs \<Rightarrow> u16 \<Rightarrow> bool" where
  "blank_tail fs s \<longleftrightarrow> erased_span fs (unat s * fs_sector_size fs + (fs_sector_size fs - 26)) 26"

lemma blank_tail_unused:
  assumes "geom fs" "blank_tail fs s"
  shows "unused fs s"
proof -
  have ss: "256 \<le> fs_sector_size fs" using assms(1) by (simp add: geom_def)
  have "erased_span fs (unat s * fs_sector_size fs + (fs_sector_size fs - 26) + 16) 10"
    using assms(2) unfolding blank_tail_def by (rule erased_sub) simp
  moreover have "unat s * fs_sector_size fs + (fs_sector_size fs - 26) + 16 = unat s * fs_sector_size fs + (fs_sector_size fs - 10)"
    using ss by simp
  ultimately have foot: "footer_bytes fs s = replicate 10 0xff"
    by (simp only: footer_bytes_eq [OF assms(1)] erased_span_def)
  show ?thesis
    unfolding unused_def
  proof (intro allI notI)
    fix serial st rs assume "sector_holds fs s serial st rs"
    then have "state_live (footer_with_state serial st ! 5)" "footer_with_state serial st = replicate 10 0xff"
      using foot by (simp_all add: sector_holds_def footer_with_state_def)
    then show False using state_live_ff by simp
  qed
qed

text \<open>The data length of the record counts the name.\<close>

lemma root_len:
  assumes "unat (f_root_payload_offset f) = a" "unat (f_current_data_len f) = b" "a + b < 65536"
  shows "unat (f_root_payload_offset f + f_current_data_len f) = a + b"
  using assms by (simp add: unat_word_ariths)

lemma close_extent_rule:
  assumes geom: "geom fs" "healthy fs" and f: "fs_files fs p = f" and fr: "fresh_root fs f name"
    and fl: "flushed fs f bytes" and len: "length bytes = extent_prefix f + unat (f_current_data_len f)"
    and fit: "length bytes \<le> extent_room f" "unat (f_data_offset f) \<le> unat (f_current_metadata_offset f)" and tail: "blank_tail fs (f_head f)"
  shows "wp (close_extent p) (\<lambda>r fs'. r = Inr () \<and> (\<exists>serial st. sector_holds fs' (f_head f) serial st
      [extent_md (fs_sector_size fs - 26) (f_slot f) FFFS_MD_TYPE_FILE_ROOT_V1 (f_data_offset f) (of_nat (length bytes)) 0 0 0 False]) \<and>
    kept fs fs' \<and> settled fs' = settled fs \<and>
    only (unat (f_head f) * fs_sector_size fs + (fs_sector_size fs - 26)) (unat (f_head f) * fs_sector_size fs + fs_sector_size fs)
      (fmem fs) (fmem fs')) fs"
proof -
  let ?s = "f_head f" and ?me = "f_current_metadata_offset f" and ?do = "f_data_offset f"
  let ?len = "f_root_payload_offset f + f_current_data_len f"
  have r: "f_current f = ?s" "f_span_head f = ?s" "data_sector fs ?s" "f_current_needs_footer f"
    "unat ?me = fs_sector_size fs - 26" using fr by (simp_all add: fresh_root_def)
  have ss: "256 \<le> fs_sector_size fs" using geom(1) by (simp add: geom_def)
  have room: "unat ?do + length bytes \<le> unat ?me" using fit by (simp add: extent_room_def)
  have lt: "length bytes < 65536" using room unat_u16_less [of ?me] by linarith
  have ul: "unat ?len = length bytes" using root_len [of f _ "unat (f_current_data_len f)"] len lt r(1) by (simp add: extent_prefix_def)
  have le: "?len = of_nat (length bytes)" by (simp flip: ul)
  have e1: "sub_bytes (unat ?s * fs_sector_size fs + (unat ?do + length bytes)) (unat ?me - unat ?do - length bytes) (fmem fs) =
      replicate (unat ?me - unat ?do - length bytes) 0xff"
    using fl r(1) by (simp add: flushed_def erased_span_def extent_base_def extent_room_def add.assoc)
  have e2: "sub_bytes (unat ?s * fs_sector_size fs + unat ?me) 26 (fmem fs) = replicate 26 0xff"
    using tail r(5) by (simp add: blank_tail_def erased_span_def)
  have "sub_bytes (unat ?s * fs_sector_size fs + (unat ?do + length bytes)) ((unat ?me - unat ?do - length bytes) + 26) (fmem fs) =
      replicate ((unat ?me - unat ?do - length bytes) + 26) 0xff"
    unfolding sub_bytes_append e1 replicate_add using e2 room by simp
  moreover have "(unat ?me - unat ?do - length bytes) + 26 = fs_sector_size fs - (unat ?do + length bytes)" using r(5) room ss by simp
  ultimately have blank: "blank_above fs ?s (unat ?do + length bytes)" by (simp only: blank_above_def erased_span_def)
  note br = blank_room [OF geom(1) blank room r(5)]
  have wf: "md_wf fs ?s (unat ?me) (extent_md (unat ?me) (f_slot f) FFFS_MD_TYPE_FILE_ROOT_V1 ?do ?len 0 0 0 False)"
    using room ul by (intro extent_md_wf) simp_all
  have "wp (fffs_begin_extent_metadata f ?s ?do ?me True (f_current_data_len f) (f_current_file_offset f))
    (\<lambda>r fs'. (r = Inr () \<and> kept fs fs' \<and> (\<exists>serial st. sector_holds fs' ?s serial st
      ([] @ [extent_md (unat ?me) (f_slot f) FFFS_MD_TYPE_FILE_ROOT_V1 ?do ?len 0 0 0 False])) \<and>
      only (unat ?s * fs_sector_size fs + unat ?me) (unat ?s * fs_sector_size fs + fs_sector_size fs) (fmem fs) (fmem fs')) \<and>
      settled fs' = settled fs) fs"
    unfolding fffs_begin_extent_metadata_def Let_def if_P [OF refl]
    by (rule wp_keeps [OF md_frame5 program_extent_rule [OF geom r(3) _ br(1) wf]]) (simp_all add: br(2))
  then show ?thesis
    unfolding close_extent_def get_file_def wp_bindm wp_getm sum.case f
    using r by (simp add: le, elim wp_mono) auto
qed

text \<open>\<open>patches fs s fs'\<close>: moreover only the last 26 bytes of \<open>s\<close> may differ.\<close>

definition patches :: "'c fffs \<Rightarrow> u16 \<Rightarrow> 'c fffs \<Rightarrow> bool" where
  "patches fs s fs' \<longleftrightarrow> spares fs s fs' \<and> sub_bytes (unat s * fs_sector_size fs) (fs_sector_size fs - 26) (fmem fs') =
     sub_bytes (unat s * fs_sector_size fs) (fs_sector_size fs - 26) (fmem fs)"

lemma spares_trans: "spares fs s fs1 \<Longrightarrow> spares fs1 s fs2 \<Longrightarrow> spares fs s fs2"
  by (auto simp: spares_def kept_def data_sector_def)

lemma patches_trans: "patches fs s fs1 \<Longrightarrow> patches fs1 s fs2 \<Longrightarrow> patches fs s fs2"
  using spares_trans [of fs s fs1 fs2] by (simp add: patches_def) (simp add: spares_def kept_def)

lemma sector_span: "t \<noteq> (s :: u16) \<Longrightarrow> unat t * ss + ss \<le> unat s * ss \<or> unat s * ss + ss \<le> unat t * ss"
proof -
  assume "t \<noteq> s"
  then have "unat t \<noteq> unat s" by (simp add: word_unat_eq_iff)
  then have "unat t + 1 \<le> unat s \<or> unat s + 1 \<le> unat t" by linarith
  then show ?thesis using mult_le_mono1 [of "unat t + 1" "unat s" ss] mult_le_mono1 [of "unat s + 1" "unat t" ss] by auto
qed

lemma data_sector_fits:
  assumes "geom fs" "data_sector fs t"
  shows "unat t * fs_sector_size fs + fs_sector_size fs \<le> length (fmem fs)"
proof -
  have "unat t < fs_sector_count fs" using assms(2) by (simp add: data_sector_def)
  from sector_fits [OF assms(1) this, of 0 "fs_sector_size fs"] show ?thesis by simp
qed

lemma index_below: "data_sector fs t \<Longrightarrow> unat (fs_index_sectors fs) * fs_sector_size fs \<le> unat t * fs_sector_size fs"
  by (simp add: data_sector_def)

lemma spares_within:
  assumes "geom fs" "kept fs fs'" "only lo hi (fmem fs) (fmem fs')"
    "unat s * fs_sector_size fs \<le> lo" "hi \<le> unat s * fs_sector_size fs + fs_sector_size fs"
  shows "spares fs s fs'"
  unfolding spares_def
proof (intro conjI allI impI assms(2))
  fix t assume t: "data_sector fs t" "t \<noteq> s"
  have "unat t * fs_sector_size fs + fs_sector_size fs \<le> length (fmem fs)" by (rule data_sector_fits [OF assms(1) t(1)])
  then show "sub_bytes (unat t * fs_sector_size fs) (fs_sector_size fs) (fmem fs') = sub_bytes (unat t * fs_sector_size fs) (fs_sector_size fs) (fmem fs)"
    using sector_span [OF t(2), of "fs_sector_size fs"] assms(4,5) by (intro sub_bytes_only [OF assms(3)]) auto
qed

lemma patches_tail:
  assumes "geom fs" "kept fs fs'" "data_sector fs s"
    "only (unat s * fs_sector_size fs + (fs_sector_size fs - 26)) (unat s * fs_sector_size fs + fs_sector_size fs) (fmem fs) (fmem fs')"
  shows "patches fs s fs'"
proof -
  have "unat s * fs_sector_size fs + (fs_sector_size fs - 26) \<le> length (fmem fs)"
    using data_sector_fits [OF assms(1,3)] by simp
  then show ?thesis
    using spares_within [OF assms(1,2,4)] sub_bytes_only [OF assms(4)] by (simp add: patches_def)
qed

lemma below_sectors:
  assumes "geom fs" "kept fs fs'" "only lo hi (fmem fs) (fmem fs')" "hi \<le> unat (fs_index_sectors fs) * fs_sector_size fs"
    and "data_sector fs t"
  shows "sub_bytes (unat t * fs_sector_size fs) (fs_sector_size fs) (fmem fs') = sub_bytes (unat t * fs_sector_size fs) (fs_sector_size fs) (fmem fs)"
proof -
  have "unat t * fs_sector_size fs + fs_sector_size fs \<le> length (fmem fs)"
    by (rule data_sector_fits [OF assms(1,5)])
  moreover have "hi \<le> unat t * fs_sector_size fs"
    by (rule order_trans [OF assms(4) index_below [OF assms(5)]])
  ultimately show ?thesis by (intro sub_bytes_only [OF assms(3)]) auto
qed

lemma patches_index:
  assumes "geom fs" "kept fs fs'" "only lo hi (fmem fs) (fmem fs')" "hi \<le> unat (fs_index_sectors fs) * fs_sector_size fs"
    and "data_sector fs s"
  shows "patches fs s fs'" "sector_holds fs' s = sector_holds fs s"
proof -
  note same = below_sectors [OF assms(1-4)]
  show "patches fs s fs'"
    using assms(2) same sub_bytes_sub_bytes [of 0 "fs_sector_size fs - 26" "fs_sector_size fs" "unat s * fs_sector_size fs" "fmem fs"]
      sub_bytes_sub_bytes [of 0 "fs_sector_size fs - 26" "fs_sector_size fs" "unat s * fs_sector_size fs" "fmem fs'"] same [OF assms(5)]
    unfolding patches_def spares_def by auto
  show "sector_holds fs' s = sector_holds fs s"
    using holds_cong(1) [OF assms(1,2,5) same [OF assms(5)]] by (simp add: fun_eq_iff)
qed

lemma index_untouched:
  assumes "journal_room fs slot" "geom fs" "only lo hi (fmem fs) (fmem fs')" "data_sector fs s" "unat s * fs_sector_size fs \<le> lo"
  shows "sub_bytes (fs_next_index_offset fs) 4 (fmem fs') = sub_bytes (fs_next_index_offset fs) 4 (fmem fs)"
proof -
  have "fs_next_index_offset fs + 4 \<le> unat s * fs_sector_size fs"
    by (rule order_trans [OF journal_fits(1) [OF assms(2,1)] index_below [OF assms(4)]])
  then show ?thesis using assms(5) journal_fits(2) [OF assms(2,1)] by (intro sub_bytes_only [OF assms(3)]) auto
qed

text \<open>The record is committed, then the journal names it.\<close>

definition root_md :: "'c fffs \<Rightarrow> fffs_file \<Rightarrow> nat \<Rightarrow> fffs_md_record" where
  "root_md fs f n = extent_md (fs_sector_size fs - 26) (f_slot f) FFFS_MD_TYPE_FILE_ROOT_V1 (f_data_offset f) (of_nat n) 1 (f_size f) 0 True"

lemma finish_settled: "keeps settled (fffs_finish_extent_metadata f s 0 1 sz b1 b2 False)"
  unfolding fffs_finish_extent_metadata_def Let_def whenm_def by (intro frame; simp)

lemma commit_rule:
  assumes geom: "geom fs" "healthy fs" and fr: "fresh_root fs f name" and jr: "journal_room fs (f_slot f)"
    and holds: "sector_holds fs (f_head f) serial st
      [extent_md (fs_sector_size fs - 26) (f_slot f) FFFS_MD_TYPE_FILE_ROOT_V1 (f_data_offset f) (of_nat n) 0 0 0 False]"
    and fit: "unat (f_data_offset f) + n \<le> fs_sector_size fs - 26" "n < 65536"
  shows "wp (fffs_finish_extent_metadata f (f_head f) 0 1 (f_size f) True True True) (\<lambda>r fs'. r = Inr () \<and>
    (\<exists>st. sector_holds fs' (f_head f) serial st [root_md fs f n]) \<and> patches fs (f_head f) fs' \<and>
    cache_inv fs' \<and> logged fs (f_slot f, f_head f) fs' \<and> pinned fs' = pinned fs) fs"
proof -
  let ?s = "f_head f"
  have sec: "data_sector fs ?s" and slot: "f_slot f \<noteq> 0"
    using fr usable_normalize by (auto simp: fresh_root_def usable_slot_def)
  have ss: "256 \<le> fs_sector_size fs" using geom(1) by (simp add: geom_def)
  have "unat (of_nat n :: u16) = n" using fit(2) by (simp add: unat_of_nat)
  then have wf: "md_wf fs ?s (fs_sector_size fs - 26) (root_md fs f n)"
    unfolding root_md_def using fit sec by (intro extent_md_wf) (auto simp: data_sector_def)
  have start: "fs_sector_size fs - 26 = fs_sector_size fs - 10 - 16 * length [] - 16" by simp
  have holds': "sector_holds fs ?s serial st ([] @ [extent_md (fs_sector_size fs - 26) (f_slot f) FFFS_MD_TYPE_FILE_ROOT_V1
      (f_data_offset f) (of_nat n) 0 0 0 False])" using holds by simp
  have "wp (fffs_finish_extent_metadata f ?s 0 1 (f_size f) (FFFS_MD_TYPE_FILE_ROOT_V1 = FFFS_MD_TYPE_FILE_ROOT_V1) True False)
      (\<lambda>r fs'. r = Inr () \<and> kept fs fs' \<and> (\<exists>st. sector_holds fs' ?s serial st ([] @ [root_md fs f n])) \<and>
      only (unat ?s * fs_sector_size fs + (fs_sector_size fs - 26)) (unat ?s * fs_sector_size fs + fs_sector_size fs) (fmem fs) (fmem fs')) fs"
    unfolding root_md_def
    by (rule finish_extent_rule [OF geom _ start holds' _ _ wf [unfolded root_md_def]]) simp_all
  then have fin: "wp (fffs_finish_extent_metadata f ?s 0 1 (f_size f) True True False) (\<lambda>r fs'. (r = Inr () \<and> kept fs fs' \<and>
      (\<exists>st. sector_holds fs' ?s serial st [root_md fs f n]) \<and>
      only (unat ?s * fs_sector_size fs + (fs_sector_size fs - 26)) (unat ?s * fs_sector_size fs + fs_sector_size fs) (fmem fs) (fmem fs')) \<and>
      settled fs' = settled fs) fs"
    by (intro wp_keeps [OF finish_settled]) simp
  show ?thesis
  proof (rule wp_eqI, rule finish_then_append, unfold wp_seqm, rule wp_mono [OF fin], goal_cases)
    case (1 r fs1)
    then have k1: "kept fs fs1" "geom fs1" "healthy fs1" "data_sector fs1 ?s" "journal fs1 = journal fs" "pinned fs1 = pinned fs"
      and size: "fs_sector_size fs1 = fs_sector_size fs"
      using sec by (auto simp: kept_def data_sector_def settled_def pinned_def)
    from 1 obtain st1 where h1: "sector_holds fs1 ?s serial st1 [root_md fs f n]"
      and o1: "only (unat ?s * fs_sector_size fs + (fs_sector_size fs - 26)) (unat ?s * fs_sector_size fs + fs_sector_size fs) (fmem fs) (fmem fs1)"
      and r: "r = Inr ()" by blast
    note jc = journal_cong [OF jr k1(1,5) index_untouched [OF jr geom(1) o1 sec le_add1]]
    note p1 = patches_tail [OF geom(1) k1(1) sec o1]
    have q1: "quiet fs fs1"
      by (rule quiet_above [OF k1(1,5) o1]) (rule trans_le_add1 [OF index_below [OF sec]])
    show ?case
      unfolding r sum.case
    proof (rule wp_mono [OF append_rule [OF k1(2,3) jc(1) slot, of ?s]], goal_cases)
      case (1 r2 fs2)
      then have k2: "kept fs1 fs2" and o2: "only (fs_next_index_offset fs1) (fs_next_index_offset fs1 + 4) (fmem fs1) (fmem fs2)" by blast+
      note pi = patches_index [OF k1(2) k2 o2 journal_fits(1) [OF k1(2) jc(1)] k1(4)]
      have "sector_holds fs2 ?s serial st1 [root_md fs f n]" using h1 by (simp only: pi(2))
      then show ?case using 1 patches_trans [OF p1 pi(1)] quiet_logged [OF q1] k1(6) by (intro conjI exI [of _ st1]) simp_all
    qed
  qed
qed

text \<open>Bookkeeping in RAM does not change what is stored.\<close>

lemma steady_stored:
  assumes "steady fs fs'" "cache_map fs' = cache_map fs"
  shows "stored fs' = stored fs"
proof -
  have ra: "root_at fs' = root_at fs"
    using steady_holds [OF assms(1)] steady_data [OF assms(1)] by (simp add: root_at_def finds_def fun_eq_iff)
  have "resolves fs' name n c slot head r payload = resolves fs name n c slot head r payload" for name n c slot head r payload
    by (induction n arbitrary: c) (simp_all add: ra assms(2) cong: option.case_cong)
  then show ?thesis
    unfolding stored_def [abs_def] ra steady_data [OF assms(1)] steady_chain [OF assms(1)] by simp
qed

definition idle :: "'c fffs \<Rightarrow> 'c fffs \<Rightarrow> bool" where
  "idle fs fs' \<longleftrightarrow> same_core fs fs' \<and> journal fs' = journal fs"

lemma idle_trans: "idle fs fs1 \<Longrightarrow> idle fs1 fs2 \<Longrightarrow> idle fs fs2"
  by (simp add: idle_def same_core_def)

lemma idle_upd:
  "idle fs (upd_file p g fs)" "idle fs (fffs_fsinfo_note_committed_add n fs)"
  "idle fs (fffs_alloc_release_reservation p fs)" "idle fs (unregister_open_file p fs)"
proof -
  have m: "idle fs (mark_unknown_from a n fs)" for a n
    by (induction n arbitrary: a fs)
      (auto simp: idle_def same_core_def journal_def fffs_alloc_map_mark_unknown_def split: option.splits)
  have u: "idle fs (upd_file p g fs)" for g fs by (simp add: idle_def same_core_def journal_def upd_file_def)
  then show "idle fs (upd_file p g fs)" .
  show "idle fs (fffs_alloc_release_reservation p fs)"
    using idle_trans [OF m u] by (simp add: fffs_alloc_release_reservation_def Let_def) (simp add: idle_def same_core_def)
  show "idle fs (fffs_fsinfo_note_committed_add n fs)" "idle fs (unregister_open_file p fs)"
    by (auto simp: idle_def same_core_def journal_def fffs_fsinfo_note_committed_add_def unregister_open_file_def upd_file_def)
qed

text \<open>The journal names the root of the file \<open>name\<close> in a new record.\<close>

definition announced :: "'c fffs \<Rightarrow> byte list \<Rightarrow> 'c fffs \<Rightarrow> bool" where
  "announced fs name fs' \<longleftrightarrow> (\<exists>s r payload. logged fs (fffs_normalize_slot_base (fffs_hash16 name), s) fs' \<and>
     root_at fs' s (fffs_normalize_slot_base (fffs_hash16 name)) r name payload)"

definition published :: "'c fffs \<Rightarrow> byte list \<Rightarrow> byte list \<Rightarrow> 'c fffs \<Rightarrow> bool" where
  "published fs name content fs' \<longleftrightarrow> kept fs fs' \<and> cache_inv fs' \<and> stored fs' name content \<and>
     (\<forall>other c. other \<noteq> name \<longrightarrow> stored fs other c \<longrightarrow> stored fs' other c) \<and> announced fs name fs'"

lemma published_idle:
  assumes "published fs name content fs1" "idle fs1 fs2"
  shows "published fs name content fs2"
proof -
  have k: "kept fs fs1" using assms(1) by (simp add: published_def)
  then have g: "geom fs1" "healthy fs1" by (simp_all add: kept_def)
  have core: "same_core fs1 fs2" using assms(2) by (simp add: idle_def)
  note sc = same_core_facts [OF core]
  have st: "steady fs1 fs2" "kept fs fs2" using sc(1) sc(10) [OF g] sc(9) [OF k] by (simp_all add: steady_def)
  have c: "cache_map fs2 = cache_map fs1" "cache_inv fs2 = cache_inv fs1" using assms(2) by (simp_all add: idle_def journal_def cache_map_def cache_inv_def)
  have q: "quiet fs1 fs2" using assms(2) core sc(1) by (simp add: quiet_def idle_def index_bytes_def same_core_def)
  have ra: "root_at fs2 = root_at fs1"
    using steady_holds [OF st(1)] steady_data [OF st(1)] by (simp add: root_at_def finds_def fun_eq_iff)
  then have "announced fs name fs2" using assms(1) logged_quiet [OF _ q] by (auto simp: published_def announced_def)
  then show ?thesis using assms(1) st(2) c steady_stored [OF st(1) c(1)] by (simp add: published_def)
qed

lemma published_before:
  assumes "published fs1 name content fs2" "retains fs fs1" "quiet fs fs1" "kept fs fs1"
  shows "published fs name content fs2"
proof -
  have "announced fs1 name fs2" using assms(1) by (simp add: published_def)
  then have "announced fs name fs2" unfolding announced_def using quiet_logged [OF assms(3)] by blast
  with assms kept_trans [OF assms(4)] show ?thesis by (auto simp: published_def retains_def)
qed

lemma published_intro:
  assumes geom: "geom fs" and sp: "spares fs s fs'" and un: "unused fs s" and inv: "cache_inv fs'"
    and log: "logged fs (slot, s) fs'" "s \<noteq> 0" and map: "cache_map fs slot = None"
    and slot: "slot = fffs_normalize_slot_base (fffs_hash16 name)"
    and root: "root_at fs' s slot r name content" and size: "unat (md_size_or_offset r) = length content"
  shows "published fs name content fs'"
proof -
  have upd: "cache_map fs' = (cache_map fs)(slot \<mapsto> s)" using log by (simp add: logged_def slot_upd_def)
  have "slot \<noteq> 0" using usable_normalize slot by (simp add: usable_slot_def)
  then have "resolves fs' name (Suc 50) slot slot s r content" using upd root unfolding resolves.simps by simp
  then have "stored fs' name content"
    unfolding stored_def slot [symmetric] using root size
    by (intro exI [of _ slot] exI [of _ s] exI [of _ r] exI [of _ content] exI [of _ "[]"]) simp
  moreover have "stored fs' other c" if "other \<noteq> name" "stored fs other c" for other c
    by (rule spares_stored [OF geom sp un upd _ root that]) (use map in auto)
  moreover have "announced fs name fs'" using log root unfolding announced_def slot by blast
  ultimately show ?thesis using sp inv by (simp add: published_def spares_def)
qed

text \<open>The handle \<open>p\<close> is filling the first extent of the new file \<open>name\<close>, which has \<open>content\<close> so far.\<close>

definition fills :: "'c fffs \<Rightarrow> nat \<Rightarrow> byte list \<Rightarrow> byte list \<Rightarrow> bool" where
  "fills fs p name content \<longleftrightarrow> (let f = fs_files fs p in writing fs p (root_prefix name @ content) \<and> fresh_root fs f name \<and>
     unat (f_size f) = length content \<and> blank_tail fs (f_head f) \<and> journal_room fs (f_slot f) \<and> cache_map fs (f_slot f) = None \<and>
     be_program_granule (fs_backend fs) \<le> 16)"

lemma commit_close:
  assumes "fs_files fs p = f" "fresh_root fs f name"
    and fin: "wp (fffs_finish_extent_metadata f (f_head f) 0 1 (f_size f) True True True) (\<lambda>r fs'. r = Inr () \<and> Q fs' \<and>
      fs_files fs' = fs_files fs) fs"
    and idle: "\<And>fs1 fs2. Q fs1 \<Longrightarrow> idle fs1 fs2 \<Longrightarrow> Q fs2"
  shows "wp (close_commit p) (\<lambda>r fs'. r = Inr () \<and> Q fs') fs"
proof -
  have f: "f_current f = f_head f" "f_span_head f = f_head f" "f_head f \<noteq> 0" "f_old_head f = 0" "0 \<noteq> f_head f"
    using assms(2) by (auto simp: fresh_root_def)
  have len: "pending_span_len f = 1" using f by (simp add: pending_span_len_def)
  define K :: "fffs_file \<Rightarrow> ('c, unit) fsop" where "K = (\<lambda>file. seqm (modm (fffs_fsinfo_note_committed_add (f_size file)))
       (if f_old_head file \<noteq> 0
        then bindm (fffs_invalidate_old_chain (f_slot file) (f_old_head file) (f_old_next file) True)
          (\<lambda>(_, root_accounted). modm (\<lambda>fs.
             if fffs_fsinfo_committed_valid fs \<and> \<not> root_accounted
             then fffs_fsinfo_invalidate_committed fs else fs))
        else ret ()))"
  define F where "F = seqm (fffs_finish_extent_metadata f (f_head f) 0 1 (f_size f) True True True)
      (mod_file p (\<lambda>f. f\<lparr>f_span_head := 0\<rparr>) :: ('c, unit) fsop)"
  have refresh: "close_refresh_old p fs = ret () fs"
    using f assms(1) by (simp add: close_refresh_old_def get_file_def bindm_getm)
  have flush: "flush_pending_span_head p 0 True fs = F fs"
    using f len assms(1) by (simp add: flush_pending_span_head_def get_file_def bindm_getm Let_def F_def)
  have "close_commit p fs = seqm (close_refresh_old p) (seqm (flush_pending_span_head p 0 True) (seqm (ret ()) (bindm (get_file p) K))) fs"
    using f assms(1) by (simp add: close_commit_def K_def get_file_def bindm_getm Let_def)
  also have "\<dots> = seqm F (bindm (get_file p) K) fs"
    using refresh flush by (simp add: seqm_def bindm_def ret_def split: option.split sum.split)
  finally have "close_commit p fs = seqm F (bindm (get_file p) K) fs" .
  then show ?thesis
  proof (rule wp_eqI, unfold F_def wp_seqm wp_bindm, goal_cases)
    case 1
    show ?case
    proof (rule wp_mono [OF fin], goal_cases)
      case (1 r fs1)
      let ?fs2 = "upd_file p (\<lambda>f. f\<lparr>f_span_head := 0\<rparr>) fs1"
      have "Q (fffs_fsinfo_note_committed_add (f_size f) ?fs2)"
        using 1 idle idle_upd(1,2) by blast
      moreover have "fs_files ?fs2 p = f\<lparr>f_span_head := 0\<rparr>" using 1 assms(1) by (simp add: upd_file_def)
      ultimately show ?case using 1 f by (simp add: wp_simps mod_file_def get_file_def K_def)
    qed
  qed
qed

lemma root_found:
  assumes geom: "geom fs" and p: "patches fs s fs'" and h: "sector_holds fs' s serial st [root_md fs f (length bytes)]"
    and fl: "flushed fs f bytes" and f: "f_current f = s" and fit: "unat (f_data_offset f) + length bytes \<le> fs_sector_size fs - 26"
    and lt: "length bytes < 65536" and name: "file_name name" "bytes = root_prefix name @ content"
  shows "root_at fs' s (f_slot f) (root_md fs f (length bytes)) name content"
proof -
  let ?r = "root_md fs f (length bytes)"
  have n: "unat (md_data_len ?r) = length bytes" "md_data_off ?r = f_data_offset f" "md_type ?r = FFFS_MD_TYPE_FILE_ROOT_V1"
    using lt by (simp_all add: root_md_def extent_md_def unat_of_nat)
  have size: "fs_sector_size fs' = fs_sector_size fs" and
    same: "sub_bytes (unat s * fs_sector_size fs) (fs_sector_size fs - 26) (fmem fs') = sub_bytes (unat s * fs_sector_size fs) (fs_sector_size fs - 26) (fmem fs)"
    using p by (simp_all add: patches_def spares_def kept_def)
  have "extent_data fs' (s, ?r) = sub_bytes (unat s * fs_sector_size fs + unat (f_data_offset f)) (length bytes) (fmem fs)"
    using sub_bytes_sub_bytes [OF fit, of "unat s * fs_sector_size fs" "fmem fs'"]
      sub_bytes_sub_bytes [OF fit, of "unat s * fs_sector_size fs" "fmem fs"] same size n
    by (simp add: extent_data_def)
  then have "extent_data fs' (s, ?r) = bytes" using fl f by (simp add: flushed_def extent_base_def)
  moreover have "finds fs' s (f_slot f) ?r"
    using h unfolding finds_def by (intro exI [of _ serial] exI [of _ st] exI [of _ "[?r]"])
      (simp add: md_record_matches_slot_def root_md_def extent_md_def)
  ultimately show ?thesis using n(3) name by (simp add: root_at_def)
qed

lemma fresh_root_cong: "fresh_root fs f name \<Longrightarrow> kept fs fs' \<Longrightarrow> filled 0 f f' \<Longrightarrow> fresh_root fs' f' name"
  by (cases f, cases f') (auto simp: fresh_root_def kept_def data_sector_def filled_def)

text \<open>All bytes are flushed: what is left is the record, its commit and the journal.\<close>

definition ready :: "'c fffs \<Rightarrow> fffs_file \<Rightarrow> byte list \<Rightarrow> byte list \<Rightarrow> bool" where
  "ready fs f name bytes \<longleftrightarrow> geom fs \<and> healthy fs \<and> fresh_root fs f name \<and> flushed fs f bytes \<and>
     length bytes = extent_prefix f + unat (f_current_data_len f) \<and> unat (f_data_offset f) + length bytes \<le> unat (f_current_metadata_offset f) \<and>
     blank_tail fs (f_head f) \<and> journal_room fs (f_slot f) \<and> cache_map fs (f_slot f) = None"

lemma flush_phase:
  assumes cl: "fills fs p name content" and f: "f = fs_files fs p"
  shows "wp (flush_write_cache p True) (\<lambda>r fs'. r = Inr () \<and> spares fs (f_head f) fs' \<and> cache_map fs' = cache_map fs \<and>
    ready fs' (fs_files fs' p) name (root_prefix name @ content) \<and> f_size (fs_files fs' p) = f_size f \<and> quiet fs fs') fs"
proof -
  define bytes where "bytes = root_prefix name @ content"
  have w: "writing fs p bytes" "fresh_root fs f name" "blank_tail fs (f_head f)" "journal_room fs (f_slot f)" "cache_map fs (f_slot f) = None" "be_program_granule (fs_backend fs) \<le> 16"
    using cl by (simp_all add: fills_def Let_def f bytes_def)
  have geom: "geom fs" "healthy fs" "256 mod be_program_granule (fs_backend fs) = 0" and st: "staged fs f bytes"
    and len: "length bytes = extent_prefix f + unat (f_current_data_len f)"
    using w(1) by (simp_all add: writing_def Let_def f)
  have fr: "f_current f = f_head f" "data_sector fs (f_head f)" "unat (f_current_metadata_offset f) = fs_sector_size fs - 26"
    using w(2) by (simp_all add: fresh_root_def)
  let ?s = "f_head f" and ?me = "unat (f_current_metadata_offset f)"
  have fit: "unat (f_data_offset f) + length bytes \<le> ?me"
    using st staged_length [OF geom(1) st] by (simp_all add: staged_def)
  have lo: "unat ?s * fs_sector_size fs \<le> extent_base fs f" using fr(1) by (simp add: extent_base_def)
  have stop: "unat ?s * fs_sector_size fs + (fs_sector_size fs - 26) + 26 \<le> length (fmem fs)"
    using data_sector_fits [OF geom(1) fr(2)] geom(1) by (simp add: geom_def)
  have pad: "write_address fs f + flush_length (be_program_granule (fs_backend fs)) (f_cache_len f) True \<le> length (fmem fs)"
    using flush_slack [of "be_program_granule (fs_backend fs)" "f_cache_len f"] w(6) st fr(1,3) stop by (simp add: write_address_def staged_def)
  show ?thesis
  proof (rule wp_mono [OF flush_final [OF geom(1,2) f [symmetric] st geom(3) pad]], goal_cases)
    case (1 r fs1)
    then obtain f1 where mv: "moved p fs f1 fs1" and fi: "filled 0 f f1" "f_current_data_len f1 = f_current_data_len f"
      and fl: "flushed fs1 f bytes" and r: "r = Inr ()" and
      o1: "only (extent_base fs f) (unat (f_current f) * fs_sector_size fs + ?me) (fmem fs) (fmem fs1)" by blast
    note m1 = moved_fields [OF mv] and ff = filled_fields [OF fi(1)]
    have k1: "kept fs fs1" "journal fs1 = journal fs" using mv by (auto simp: moved_def journal_def set_ctx_def)
    have same: "f_slot f1 = f_slot f" "f_size f1 = f_size f" using fi(1) by (cases f, cases f1, simp add: filled_def)+
    have sp1: "spares fs ?s fs1" using fr(1,3) lo by (intro spares_within [OF geom(1) k1(1) o1]) simp_all
    note jc = journal_cong [OF w(4) k1 index_untouched [OF w(4) geom(1) o1 fr(2) lo]]
    have "blank_tail fs1 ?s"
      using w(3) sub_bytes_only [OF o1 stop] fr(1,3) m1(2) by (simp add: blank_tail_def erased_span_def)
    moreover have "flushed fs1 f1 bytes" "length bytes = extent_prefix f1 + unat (f_current_data_len f1)"
      using fl len fi(2) ff by (simp_all add: flushed_def extent_base_def extent_room_def extent_prefix_def)
    ultimately have "ready fs1 f1 name bytes"
      unfolding ready_def using m1(5,6) fresh_root_cong [OF w(2) k1(1) fi(1)] fit ff same jc(1,2) w(5) by simp
    moreover have "quiet fs fs1" by (rule quiet_above [OF k1 o1]) (rule order_trans [OF index_below [OF fr(2)] lo])
    ultimately show ?case using r sp1 jc(2) same m1(1) by (simp add: bytes_def)
  qed
qed

lemma commit_phase:
  assumes rd: "ready fs f name bytes" and f: "f = fs_files fs p" and b: "bytes = root_prefix name @ content"
    and size: "unat (f_size f) = length content"
  shows "wp (seqm (close_extent p) (close_commit p)) (\<lambda>r fs'. r = Inr () \<and> published fs name content fs') fs"
proof -
  let ?s = "f_head f"
  have w: "geom fs" "healthy fs" "fresh_root fs f name" "flushed fs f bytes"
     "length bytes = extent_prefix f + unat (f_current_data_len f)" "unat (f_data_offset f) + length bytes \<le> unat (f_current_metadata_offset f)"
     "blank_tail fs ?s" "journal_room fs (f_slot f)" "cache_map fs (f_slot f) = None"
    using rd by (simp_all add: ready_def)
  have fr: "f_current f = ?s" "data_sector fs ?s" "unat (f_current_metadata_offset f) = fs_sector_size fs - 26"
    "f_slot f = fffs_normalize_slot_base (fffs_hash16 name)" "file_name name"
    using w(3) by (simp_all add: fresh_root_def)
  have fit: "unat (f_data_offset f) + length bytes \<le> fs_sector_size fs - 26" "length bytes < 65536"
    "length bytes \<le> extent_room f" "unat (f_data_offset f) \<le> unat (f_current_metadata_offset f)"
    using w(6) fr(3) le_less_trans [OF add_leD2 [OF w(6)] unat_u16_less] by (simp_all add: extent_room_def)
  show ?thesis
    unfolding wp_seqm [of "close_extent p"]
  proof (rule wp_mono [OF close_extent_rule [OF w(1,2) f [symmetric] w(3,4,5) fit(3,4) w(7)]], goal_cases)
    case (1 r fs1)
    then obtain serial st where h: "sector_holds fs1 ?s serial st [extent_md (fs_sector_size fs - 26) (f_slot f) FFFS_MD_TYPE_FILE_ROOT_V1
          (f_data_offset f) (of_nat (length bytes)) 0 0 0 False]"
      and k: "kept fs fs1" "settled fs1 = settled fs" and r: "r = Inr ()" and
      o: "only (unat ?s * fs_sector_size fs + (fs_sector_size fs - 26)) (unat ?s * fs_sector_size fs + fs_sector_size fs) (fmem fs) (fmem fs1)"
      by blast
    have g: "geom fs1" "healthy fs1" and ss: "fs_sector_size fs1 = fs_sector_size fs" and fs1: "fs_files fs1 p = f"
      and j: "journal fs1 = journal fs"
      using k f by (simp_all add: kept_def settled_def handles_def)
    have fr1: "fresh_root fs1 f name" by (rule fresh_root_cong [OF w(3) k(1) filled_refl])
    note jc = journal_cong [OF w(8) k(1) j index_untouched [OF w(8,1) o fr(2) le_add1]]
    note p1 = patches_tail [OF w(1) k(1) fr(2) o]
    have q1: "quiet fs fs1" by (rule quiet_above [OF k(1) j o]) (rule trans_le_add1 [OF index_below [OF fr(2)]])
    have rm: "root_md fs1 f n = root_md fs f n" for n by (simp add: root_md_def ss)
    show ?case
      unfolding r sum.case
    proof (rule commit_close [OF fs1 fr1 wp_mono [OF commit_rule [OF g fr1 jc(1) h [folded ss]]]], goal_cases)
      case (3 r2 fs2)
      then obtain st2 where h2: "sector_holds fs2 ?s serial st2 [root_md fs f (length bytes)]"
        and p2: "patches fs1 ?s fs2" and c2: "cache_inv fs2" "logged fs1 (f_slot f, ?s) fs2"
        and pin: "pinned fs2 = pinned fs1" and r2: "r2 = Inr ()" unfolding rm by blast
      note p = patches_trans [OF p1 p2]
      have "published fs name content fs2"
        by (rule published_intro [OF w(1) _ blank_tail_unused [OF w(1,7)] c2(1) quiet_logged [OF q1 c2(2)] _ w(9) fr(4)
              root_found [OF w(1) p h2 w(4) fr(1) fit(1,2) fr(5) b]])
          (use p w(3) size in \<open>auto simp: patches_def fresh_root_def root_md_def extent_md_def\<close>)
      with r2 pin show ?case by (simp add: pinned_def handles_def)
    qed (use fit ss published_idle in auto)
  qed
qed

lemma close_rule:
  assumes cl: "fills fs p name content"
  shows "wp (fffs_close p) (\<lambda>r fs'. r = Inr () \<and> published fs name content fs') fs"
proof -
  define f where "f = fs_files fs p"
  have open': "\<not> f_closed f" "f_flags f AND FFFS_O_WRONLY \<noteq> 0" and geom: "geom fs" and size: "unat (f_size f) = length content"
    and un: "unused fs (f_head f)"
    using cl blank_tail_unused [of fs "f_head f"] by (simp_all add: fills_def Let_def writing_def f_def)
  define W :: "('c, unit) fsop" where "W = seqm (flush_write_cache p True) (seqm (close_extent p) (close_commit p))"
  have work: "wp W (\<lambda>r fs'. r = Inr () \<and> published fs name content fs') fs"
    unfolding W_def wp_seqm [of "flush_write_cache p True"]
  proof (rule wp_mono [OF flush_phase [OF cl f_def]], goal_cases)
    case (1 r fs1)
    then have r: "r = Inr ()" and rd: "ready fs1 (fs_files fs1 p) name (root_prefix name @ content)"
      and sz: "unat (f_size (fs_files fs1 p)) = length content" and k: "kept fs fs1"
      using size by (simp_all add: spares_def)
    have "retains fs fs1" using spares_retains [OF geom _ un] 1 by blast
    then have "published fs name content fs2" if "published fs1 name content fs2" for fs2
      using published_before [OF that _ _ k] 1 by blast
    then show ?case unfolding r sum.case by (intro wp_mono [OF commit_phase [OF rd refl refl sz]]) blast
  qed
  have tidy: "published fs name content (upd_file p g (unregister_open_file p (fffs_alloc_release_reservation p fs1)))"
    if "published fs name content fs1" for fs1 g
    using published_idle [OF published_idle [OF published_idle [OF that idle_upd(3)] idle_upd(4)] idle_upd(1)] .
  show ?thesis
    unfolding fffs_close_def W_def [symmetric] get_file_def wp_bindm wp_getm sum.case f_def [symmetric]
    using open' by (simp add: wp_simps) (rule wp_mono [OF work], simp add: wp_simps mod_file_def tidy)
qed

text \<open>Writing fills the extent further.\<close>

lemma fills_write:
  assumes fl: "fills fs p name content" and room: "length name + 2 + length content + length src \<le> extent_room (fs_files fs p)"
  shows "wp (fffs_write p src) (\<lambda>r fs'. r = Inr () \<and> fills fs' p name (content @ src) \<and> retains fs fs' \<and>
    extent_room (fs_files fs' p) = extent_room (fs_files fs p) \<and> kept fs fs' \<and> quiet fs fs') fs"
proof -
  define f where "f = fs_files fs p"
  have w: "writing fs p (root_prefix name @ content)" "fresh_root fs f name" "unat (f_size f) = length content" "blank_tail fs (f_head f)"
    "journal_room fs (f_slot f)" "cache_map fs (f_slot f) = None" "be_program_granule (fs_backend fs) \<le> 16"
    using fl by (simp_all add: fills_def Let_def f_def)
  have geom: "geom fs" using w(1) by (simp add: writing_def)
  have fr: "f_current f = f_head f" "data_sector fs (f_head f)" "unat (f_current_metadata_offset f) = fs_sector_size fs - 26"
    using w(2) by (simp_all add: fresh_root_def)
  have lo: "unat (f_head f) * fs_sector_size fs \<le> extent_base fs f" using fr(1) by (simp add: extent_base_def)
  have stop: "unat (f_head f) * fs_sector_size fs + (fs_sector_size fs - 26) + 26 \<le> length (fmem fs)"
    using data_sector_fits [OF geom fr(2)] geom by (simp add: geom_def)
  show ?thesis
  proof (rule wp_mono [OF write_rule_stream [OF w(1)]], goal_cases)
    case 1
    show ?case using room by simp
  next
    case (2 r fs')
    then have wr: "writing fs' p (root_prefix name @ content @ src)" and wrote: "wrote p fs (length src) fs'" and r: "r = Inr ()" by simp_all
    define f' where "f' = fs_files fs' p"
    have mv: "moved p fs f' fs'" and fi: "filled (length src) f f'"
      and o: "only (extent_base fs f) (unat (f_current f) * fs_sector_size fs + unat (f_current_metadata_offset f)) (fmem fs) (fmem fs')"
      using wrote by (simp_all add: wrote_def Let_def f_def f'_def)
    note m = moved_fields [OF mv] and ff = filled_fields [OF fi]
    have k: "kept fs fs'" "journal fs' = journal fs" using mv by (auto simp: moved_def journal_def set_ctx_def)
    have fl': "f_slot f' = f_slot f" "f_size f' = f_size f + of_nat (length src)" "fresh_root fs' f' name"
      using fi w(2) k(1) by (cases f, cases f', auto simp: filled_def fresh_root_def kept_def data_sector_def)+
    have "length name + 2 + length content + length src < 65536"
      by (rule le_less_trans [OF room]) (simp add: extent_room_def less_imp_diff_less)
    then have size: "unat (f_size f') = length (content @ src)" using w(3) fl'(2) unat_plus_u32 [of "f_size f" "length src"] by simp
    note jc = journal_cong [OF w(5) k index_untouched [OF w(5) geom o fr(2) lo]]
    have "blank_tail fs' (f_head f')"
      using w(4) sub_bytes_only [OF o stop] fr(1,3) m(2) ff(3) by (simp add: blank_tail_def erased_span_def)
    then have "fills fs' p name (content @ src)"
      unfolding fills_def Let_def f'_def [symmetric] using wr fl' size jc w(6,7) m(4) by simp
    moreover have "retains fs fs'"
      using fr(1,3) lo jc(2) by (intro spares_retains [OF geom spares_within [OF geom k(1) o] blank_tail_unused [OF geom w(4)]]) simp_all
    moreover have "extent_room f' = extent_room f" using ff by (simp add: extent_room_def)
    moreover have "quiet fs fs'" by (rule quiet_above [OF k o]) (rule order_trans [OF index_below [OF fr(2)] lo])
    ultimately show ?case using r k(1) by (simp add: f_def f'_def)
  qed
qed

end

end
