(* ===== verification/Fffs_Create.thy ===== *)
theory Fffs_Create
  imports Fffs_Publish
begin

unbundle bit_operations_syntax

text \<open>
  The life of a file, end to end: resolving a name that is not taken, taking an erased sector for it, and the
  composition of open, write and close with a later open and read.  The hypotheses of the properties are the
  circumstances in which the code takes the direct path: the first probed slot is free, the allocation scan
  starts at an erased sector, the compaction reserve is complete and the data fit one extent.
\<close>

context reliable_flash
begin

section \<open>A name that is not taken\<close>

fun vacant :: "'c fffs \<Rightarrow> byte list \<Rightarrow> nat \<Rightarrow> u16 \<Rightarrow> bool" where
  "vacant fs name 0 c \<longleftrightarrow> True"
| "vacant fs name (Suc n) c \<longleftrightarrow> c \<noteq> 0 \<and> vacant fs name n (fffs_next_slot c) \<and> (case cache_map fs c of None \<Rightarrow> True
     | Some h \<Rightarrow> \<exists>r name' payload. root_at fs h c r name' payload \<and> name' \<noteq> name)"

lemma vacant_cong:
  assumes "steady fs fs'" "cache_map fs' = cache_map fs"
  shows "vacant fs' name n c = vacant fs name n c"
proof -
  have "root_at fs' = root_at fs"
    using steady_holds [OF assms(1)] steady_data [OF assms(1)] by (simp add: root_at_def finds_def fun_eq_iff)
  then show ?thesis by (induction n arbitrary: c) (simp_all add: assms(2) cong: option.case_cong)
qed

lemma vacant_rule:
  assumes "geom fs" "healthy fs" "cache_inv fs" "vacant fs name n c"
  shows "wp (resolve_loop name n c (Some slot) None) (\<lambda>res fs'. looked fs fs' \<and>
    res = Inr \<lparr>rs_slot = slot, rs_head = 0, rs_root = None\<rparr>) fs"
  using assms
proof (induction n arbitrary: c fs)
  case 0
  then show ?case by (simp add: wp_ret looked_refl geom_fdev)
next
  case (Suc n)
  have c: "c \<noteq> 0" and v: "vacant fs name n (fffs_next_slot c)" using Suc.prems(4) by simp_all
  have look: "wp (fffs_index_head_for_slot c) Q fs = Q (Inr (cache_map fs c)) fs" for Q
    by (simp add: wp_def cache_head_for_slot [OF Suc.prems(3) c])
  show ?case
  proof (cases "cache_map fs c")
    case None
    from Suc.IH [OF Suc.prems(1-3) v] show ?thesis by (simp add: wp_bindm look None wp_getm)
  next
    case (Some h)
    then obtain r name' payload where rt: "root_at fs h c r name' payload" and ne: "name' \<noteq> name" using Suc.prems(4) by auto
    show ?thesis
      unfolding resolve_loop.simps wp_bindm look Some sum.case option.case
    proof (rule wp_mono [OF root_md_rule [OF Suc.prems(1,2) rt, where cache = None]], simp, goal_cases)
      case (1 res fs1)
      then have l: "looked fs fs1" and res: "\<exists>root. res = Inr root \<and> root_st root = Some \<lparr>st_name = name', st_size = md_size_or_offset r\<rparr> \<and> root_cache root = None"
        by (auto simp: prefetched_def)
      then obtain root where root: "res = Inr root" "root_st root = Some \<lparr>st_name = name', st_size = md_size_or_offset r\<rparr>" "root_cache root = None"
        by blast
      have g: "geom fs1" "healthy fs1" using looked_geom [OF l] looked_fields [OF l] Suc.prems by simp_all
      have i: "cache_inv fs1" "vacant fs1 name n (fffs_next_slot c)"
        using looked_cache [OF l] Suc.prems(3) v vacant_cong [OF looked_steady [OF l Suc.prems(1,2)]] by simp_all
      from Suc.IH [OF g i] show ?case
        using root ne looked_trans [OF l] by (auto elim!: wp_mono)
    qed
  qed
qed

section \<open>Taking an erased sector\<close>

text \<open>Reserving sectors changes the reservation of the handle and the allocation map.\<close>

definition reserving :: "fffs_file \<Rightarrow> fffs_file \<Rightarrow> bool" where
  "reserving f f' \<longleftrightarrow> f' = f\<lparr>f_reserve_first := f_reserve_first f', f_reserve_count := f_reserve_count f'\<rparr>"

lemma reserving_trans: "reserving f f1 \<Longrightarrow> reserving f1 f2 \<Longrightarrow> reserving f f2"
  by (cases f, cases f1, cases f2) (simp add: reserving_def)

lemma reserve_loop_idle:
  "idle fs (reserve_loop n p nx fs) \<and> reserving (fs_files fs p) (fs_files (reserve_loop n p nx fs) p)"
proof (induction n arbitrary: nx fs)
  case (Suc n)
  define fs1 where "fs1 = fffs_alloc_map_mark_used nx (upd_file p (\<lambda>f. f\<lparr>
         f_reserve_first := (if f_reserve_count f = 0 then nx else f_reserve_first f),
         f_reserve_count := f_reserve_count f + 1\<rparr>) fs)"
  have one: "idle fs fs1" "reserving (fs_files fs p) (fs_files fs1 p)"
    by (auto simp: fs1_def idle_def same_core_def journal_def fffs_alloc_map_mark_used_def upd_file_def reserving_def split: option.split)
  have refl: "idle fs fs" "reserving (fs_files fs p) (fs_files fs p)" by (simp_all add: idle_def same_core_def reserving_def)
  from Suc [of fs1 "nx + 1"] one have
    "idle fs (reserve_loop n p (nx + 1) fs1)" "reserving (fs_files fs p) (fs_files (reserve_loop n p (nx + 1) fs1) p)"
    using idle_trans reserving_trans by blast+
  with refl show ?case by (simp add: fs1_def [symmetric])
qed (simp add: idle_def same_core_def reserving_def)

lemma use_window_idle:
  "idle fs (use_alloc_window p s d m True fs) \<and>
   reserving ((fs_files fs p)\<lparr>f_data_offset := d, f_current_write_offset := d, f_current_metadata_offset := m,
     f_current_needs_footer := True\<rparr>) (fs_files (use_alloc_window p s d m True fs) p)"
proof -
  let ?g = "\<lambda>f. f\<lparr>f_data_offset := d, f_current_write_offset := d, f_current_metadata_offset := m, f_current_needs_footer := True\<rparr>"
  have "fs_files (upd_file p ?g fs) p = ?g (fs_files fs p)" by (simp add: upd_file_def)
  with reserve_loop_idle [of "upd_file p ?g fs"] idle_trans [OF idle_upd(1) [of fs p ?g]] show ?thesis
    unfolding use_alloc_window_def reserve_after_def Let_def by metis
qed

text \<open>The sector the scan looks at first is erased and nobody's.\<close>

definition next_blank :: "'c fffs \<Rightarrow> nat \<Rightarrow> u16 \<Rightarrow> bool" where
  "next_blank fs p s \<longleftrightarrow> start_cursor fs = unat s \<and> data_sector fs s \<and> s \<noteq> 0 \<and> \<not> fffs_sector_is_open_for_writing fs s \<and>
     \<not> sector_reserved_by_other fs p s \<and> \<not> fffs_alloc_compaction_reserved fs s \<and> \<not> fffs_alloc_map_maybe_used fs s \<and>
     5 \<le> unat (fs_compaction_reserve_count fs) \<and> blank_above fs s 0 \<and> fs_scratch_size fs \<noteq> 0"

lemma next_blank_looked: "looked fs fs' \<Longrightarrow> next_blank fs' p s = next_blank fs p s"
  by (elim lookedE) (simp add: next_blank_def start_cursor_def data_sector_def fffs_sector_is_open_for_writing_def sector_reserved_by_other_def
      fffs_alloc_compaction_reserved_def fffs_alloc_map_maybe_used_def blank_above_def erased_span_def set_ctx_def fmem_def bmem_def
      cong: option.case_cong)

lemma next_blank_upd:
  assumes "p \<notin> set (fs_open_files fs)"
  shows "next_blank (upd_file p g fs) p s = next_blank fs p s"
proof -
  have "list_ex (\<lambda>q. P (((fs_files fs)(p := y)) q) q) (fs_open_files fs) = list_ex (\<lambda>q. P (fs_files fs q) q) (fs_open_files fs)" for y P
    using assms by (auto simp: list_ex_iff)
  from this [of "\<lambda>file _. open_for_writing file \<and> (f_head file = s \<or> f_current file = s \<or>
      (f_span_head file \<noteq> 0 \<and> s \<ge> f_span_head file \<and> s \<le> f_current file))"]
    this [of "\<lambda>file q. q \<noteq> p \<and> open_for_writing file \<and> sector_in_reservation file s"]
  show ?thesis
    by (simp add: next_blank_def start_cursor_def data_sector_def fffs_sector_is_open_for_writing_def sector_reserved_by_other_def
      fffs_alloc_compaction_reserved_def fffs_alloc_map_maybe_used_def blank_above_def erased_span_def upd_file_def fmem_def Let_def cong: option.case_cong)
qed

lemma alloc_blank_rule:
  assumes geom: "geom fs" "healthy fs" and nb: "next_blank fs p s" and f: "fs_files fs p = f" "f_reserve_count f = 0" "f_current f = 0"
  shows "wp (fffs_alloc_next_sector p) (\<lambda>r fs'. r = Inr s \<and> (\<exists>fs1. looked fs fs1 \<and> idle fs1 fs') \<and>
    reserving (f\<lparr>f_data_offset := 0, f_current_write_offset := 0, f_current_metadata_offset := of_nat (fs_sector_size fs - 26),
      f_current_needs_footer := True\<rparr>) (fs_files fs' p)) fs"
proof -
  let ?m = "of_nat (fs_sector_size fs - 26) :: u16"
  have n: "start_cursor fs = unat s" "data_sector fs s" "\<not> (fffs_sector_is_open_for_writing fs s \<or> sector_reserved_by_other fs p s)"
    "\<not> fffs_alloc_compaction_reserved fs s" "\<not> fffs_alloc_map_maybe_used fs s"
    "5 \<le> unat (fs_compaction_reserve_count fs)" "blank_above fs s 0" "fs_scratch_size fs \<noteq> 0"
    using nb by (simp_all add: next_blank_def)
  have ss: "256 \<le> fs_sector_size fs" using geom(1) by (simp add: geom_def)
  have s: "of_nat (unat s) = s" by simp
  obtain left where left: "fs_sector_count fs - unat (fs_index_sectors fs) = Suc left"
    using n(2) by (cases "fs_sector_count fs - unat (fs_index_sectors fs)") (auto simp: data_sector_def)
  have cnt: "\<not> fs_sector_count fs \<le> unat (fs_index_sectors fs)" using left by simp
  define Q :: "u16 res \<Rightarrow> 'c fffs \<Rightarrow> bool" where "Q = (\<lambda>r fs'. r = Inr s \<and> (\<exists>fs1. looked fs fs1 \<and> idle fs1 fs') \<and>
    reserving (f\<lparr>f_data_offset := 0, f_current_write_offset := 0, f_current_metadata_offset := ?m, f_current_needs_footer := True\<rparr>) (fs_files fs' p))"
  have "wp (fffs_find_sector_free_window s (of_nat 128) (f_slot f) True) (\<lambda>r fs'. looked fs fs' \<and>
      r = Inr (0, ?m, True, 0)) fs"
    by (rule free_window_blank [OF geom n(8,2,7)]) (use ss in simp)
  note window = this
  have scan: "wp (alloc_scan p None False (Suc left) (unat s)) Q fs"
    unfolding alloc_scan.simps wp_bindm wp_getm sum.case id_apply Let_def s option.case if_False if_not_P [OF n(3)] if_not_P [OF n(4)]
      if_not_P [OF n(5)] f(1) wp_trym
  proof (rule wp_mono [OF window], goal_cases)
    case (1 r fs1)
    then have r: "r = Inr (0, ?m, True, 0)" and l: "looked fs fs1" by simp_all
    have cr: "fs_compaction_reserve_count fs1 = fs_compaction_reserve_count fs" using l by (auto simp: looked_def set_ctx_def)
    have f1: "fs_files fs1 p = f" using looked_fields(7) [OF l] f(1) by simp
    from use_window_idle [of fs1 p s 0 ?m] l f1 have "Q (Inr s) (use_alloc_window p s 0 ?m True fs1)" by (auto simp: Q_def)
    then show ?case unfolding r using n(6) cr by (simp add: wp_simps)
  qed
  have "wp (alloc_sector_once p None) Q fs"
    unfolding alloc_sector_once_def wp_bindm wp_getm sum.case id_apply if_not_P [OF cnt] f left n(1) using scan by simp
  then have "wp (or_no_space (alloc_sector_once p None) k) Q fs" for k
    unfolding or_no_space_def wp_bindm wp_trym by (rule wp_mono) (auto simp: Q_def wp_simps)
  then show ?thesis
    unfolding Q_def [symmetric] fffs_alloc_next_sector_def try_reserved_sector_def wp_bindm wp_getm sum.case id_apply Let_def f
    by (simp add: wp_simps)
qed

section \<open>Creating a file\<close>

text \<open>What the creation of \<open>name\<close> through the handle \<open>p\<close> needs: the name is not taken and its first slot is free, the
  journal and the cache have room, and the allocation scan starts at an erased sector.\<close>

definition creatable :: "'c fffs \<Rightarrow> nat \<Rightarrow> byte list \<Rightarrow> u16 \<Rightarrow> bool" where
  "creatable fs p name s \<longleftrightarrow> (let slot = fffs_normalize_slot_base (fffs_hash16 name) in
     geom fs \<and> healthy fs \<and> file_name name \<and> fs_sector_size fs \<le> 65536 \<and>
     256 mod be_program_granule (fs_backend fs) = 0 \<and> be_program_granule (fs_backend fs) \<le> 16 \<and>
     p \<notin> set (fs_open_files fs) \<and> \<not> fffs_slot_is_pinned fs slot \<and>
     cache_map fs slot = None \<and> vacant fs name (FFFS_MAX_PROBE_DISTANCE + 1) slot \<and>
     journal_room fs slot \<and> next_blank fs p s)"

lemma unat_of_nat_small: "n < 65536 \<Longrightarrow> unat (of_nat n :: u16) = n"
  by (simp only: unat_of_nat) simp

lemma staged_prefix:
  assumes "geom fs" "blank_above fs s 0" "data_sector fs s" "fs_sector_size fs \<le> 65536" "file_name name"
    and f: "f_current f = s" "f_data_offset f = 0" "f_current_write_offset f = 0" "f_current_metadata_offset f = of_nat (fs_sector_size fs - 26)"
      "f_cache f = put_bytes 0 (root_prefix name) (f_cache zero_file)" "f_cache_len f = length name + 2"
  shows "staged fs f (root_prefix name)" "unat (f_current_metadata_offset f) = fs_sector_size fs - 26" "blank_tail fs s"
proof -
  have ss: "256 \<le> fs_sector_size fs" using assms(1) by (simp add: geom_def)
  show me: "unat (f_current_metadata_offset f) = fs_sector_size fs - 26" unfolding f(4) by (rule unat_of_nat_small) (use assms(4) ss in simp)
  have nl: "length name \<le> 32" using assms(5) by (simp add: file_name_def)
  have c: "length (f_cache f) = 256" "take (length name + 2) (f_cache f) = root_prefix name"
    using take_put_bytes [of 0 "root_prefix name" "f_cache zero_file"] nl by (simp_all add: f(5) zero_file_def)
  have "erased_span fs (unat s * fs_sector_size fs + 0) (fs_sector_size fs)" using assms(2) by (simp add: blank_above_def)
  from erased_sub [OF this, of 0 "fs_sector_size fs - 26"] erased_sub [OF this, of "fs_sector_size fs - 26" 26] ss
  have e: "erased_span fs (unat s * fs_sector_size fs) (fs_sector_size fs - 26)" "blank_tail fs s"
    by (simp_all add: blank_tail_def)
  show "blank_tail fs s" by (rule e(2))
  show "staged fs f (root_prefix name)"
    unfolding staged_def using assms(3) f(1-3,6) me c nl ss e(1) by (auto simp: data_sector_def write_address_def sub_bytes_def)
qed

lemma resolve_vacant:
  assumes "geom fs" "healthy fs" "cache_inv fs" and slot: "slot = fffs_normalize_slot_base (fffs_hash16 name)"
    and free: "\<not> fffs_slot_is_pinned fs slot" "cache_map fs slot = None" "vacant fs name (FFFS_MAX_PROBE_DISTANCE + 1) slot"
    and name: "file_name name"
  shows "wp (fffs_index_resolve name None) (\<lambda>res fs'. looked fs fs' \<and> res = Inr \<lparr>rs_slot = slot, rs_head = 0, rs_root = None\<rparr>) fs"
proof -
  have n: "name \<noteq> []" "\<not> length name > FFFS_MAX_NAME" using name by (simp_all add: file_name_def)
  have s0: "slot \<noteq> 0" using usable_normalize slot by (simp add: usable_slot_def)
  have e: "FFFS_MAX_PROBE_DISTANCE + 1 = Suc 50" by simp
  have v: "vacant fs name 50 (fffs_next_slot slot)" using free(3) unfolding e vacant.simps by blast
  have "wp (resolve_loop name (Suc 50) slot None None) (\<lambda>res fs'. looked fs fs' \<and> res = Inr \<lparr>rs_slot = slot, rs_head = 0, rs_root = None\<rparr>) fs"
    unfolding resolve_loop.simps wp_bindm
    using vacant_rule [OF assms(1-3) v] free(1,2) by (simp add: wp_def [of "fffs_index_head_for_slot slot"] cache_head_for_slot [OF assms(3) s0] wp_simps)
  then show ?thesis unfolding fffs_index_resolve_def if_not_P [OF n(1)] if_not_P [OF n(2)] e slot .
qed

text \<open>The handle of a new file whose first sector is \<open>s\<close>.\<close>

definition new_handle :: "'c fffs \<Rightarrow> byte list \<Rightarrow> u16 \<Rightarrow> fffs_file \<Rightarrow> bool" where
  "new_handle fs name s f \<longleftrightarrow> (\<exists>a b. f = zero_file\<lparr>f_fs := True, f_flags := FFFS_O_WRONLY OR FFFS_O_CREATE,
     f_slot := fffs_normalize_slot_base (fffs_hash16 name), f_head := s, f_current := s, f_current_metadata_offset := of_nat (fs_sector_size fs - 26),
     f_current_needs_footer := True, f_reserve_first := a, f_reserve_count := b, f_name := name,
     f_root_payload_offset := of_nat (1 + length name + 1), f_cache := put_bytes 0 (root_prefix name) (f_cache zero_file),
     f_cache_len := unat (of_nat (1 + length name + 1) :: u16), f_span_head := s, f_open_registered := True\<rparr>)"

lemma new_handle_fills:
  assumes cr: "creatable fs p name s" and st: "steady fs fs'" and j: "journal fs' = journal fs" and h: "new_handle fs name s (fs_files fs' p)"
    and g: "be_program_granule (fs_backend fs') = be_program_granule (fs_backend fs)"
  shows "fills fs' p name []" "extent_room (fs_files fs' p) = fs_sector_size fs - 26"
proof -
  define f where "f = fs_files fs' p"
  have c: "geom fs" "file_name name" "fs_sector_size fs \<le> 65536" "256 mod be_program_granule (fs_backend fs) = 0"
    "be_program_granule (fs_backend fs) \<le> 16" "cache_map fs (fffs_normalize_slot_base (fffs_hash16 name)) = None"
    "journal_room fs (fffs_normalize_slot_base (fffs_hash16 name))" "blank_above fs s 0" "data_sector fs s" "s \<noteq> 0"
    using cr by (simp_all add: creatable_def next_blank_def Let_def)
  have k: "kept fs fs'" "fmem fs' = fmem fs" using st by (simp_all add: steady_def)
  have nl: "length name \<le> 32" using c(2) by (simp add: file_name_def)
  have u: "unat (of_nat (1 + length name + 1) :: u16) = length name + 2" by (subst unat_of_nat_small) (use nl in simp_all)
  have ff: "f_fs f" "f_flags f = FFFS_O_WRONLY OR FFFS_O_CREATE" "f_slot f = fffs_normalize_slot_base (fffs_hash16 name)" "f_head f = s"
    "f_current f = s" "f_current_metadata_offset f = of_nat (fs_sector_size fs - 26)" "f_current_needs_footer f"
    "unat (f_root_payload_offset f) = length name + 2" "f_cache f = put_bytes 0 (root_prefix name) (f_cache zero_file)"
    "f_cache_len f = length name + 2" "f_span_head f = s" "f_old_head f = 0" "f_data_offset f = 0" "f_current_write_offset f = 0"
    "f_size f = 0" "\<not> f_closed f" "f_current_data_len f = 0"
    using h u unfolding new_handle_def f_def [symmetric] by (auto simp: zero_file_def)
  have d: "geom fs'" "data_sector fs' s" "fs_sector_size fs' = fs_sector_size fs" "healthy fs'"
    using k c(9) by (simp_all add: kept_def data_sector_def)
  have "blank_above fs' s 0" using c(8) k d(3) by (simp add: blank_above_def erased_span_def)
  note sp = staged_prefix [OF d(1) this d(2) _ c(2) ff(5,13,14) _ ff(9,10), unfolded d(3), OF c(3) ff(6)]
  have wr: "writing fs' p (root_prefix name)"
    unfolding writing_def Let_def f_def [symmetric] using d(1,4) c(4) g ff sp(1) nl by (simp add: extent_prefix_def)
  have fr: "fresh_root fs' f name"
    unfolding fresh_root_def using c(2,10) d(2,3) ff sp(2) by simp
  note jc = journal_cong [OF c(7) k(1) j, unfolded k(2), OF refl]
  show "fills fs' p name []"
    unfolding fills_def Let_def f_def [symmetric] using wr fr jc(1,2) c(5,6) g sp(3) ff by simp
  show "extent_room (fs_files fs' p) = fs_sector_size fs - 26"
    using sp(2) ff(13) by (simp add: extent_room_def f_def)
qed

text \<open>Reads and bookkeeping only.\<close>

definition calm :: "'c fffs \<Rightarrow> 'c fffs \<Rightarrow> bool" where
  "calm fs fs' \<longleftrightarrow> steady fs fs' \<and> journal fs' = journal fs \<and>
     be_program_granule (fs_backend fs') = be_program_granule (fs_backend fs)"

lemma calm_trans: "calm fs fs1 \<Longrightarrow> calm fs1 fs2 \<Longrightarrow> calm fs fs2"
  by (auto simp: calm_def intro: steady_trans)

lemma calm_looked: "looked fs fs' \<Longrightarrow> geom fs \<Longrightarrow> healthy fs \<Longrightarrow> calm fs fs'"
  using looked_steady [of fs fs'] by (auto simp: calm_def looked_def journal_def set_ctx_def)

lemma calm_idle:
  assumes "idle fs fs'" "geom fs" "healthy fs"
  shows "calm fs fs'"
proof -
  have "same_core fs fs'" using assms(1) by (simp add: idle_def)
  from same_core_facts(1,10) [OF this] this assms show ?thesis by (auto simp: calm_def steady_def idle_def same_core_def)
qed

lemma calm_facts:
  assumes "calm fs fs'"
  shows "geom fs'" "healthy fs'" "cache_inv fs' = cache_inv fs" "cache_map fs' = cache_map fs"
  using assms by (simp_all add: calm_def steady_def kept_def journal_def cache_inv_def cache_map_def)

lemma idle_register: "idle fs (register_open_file p fs)"
  by (simp add: register_open_file_def idle_def same_core_def journal_def upd_file_def)

lemma create_rule:
  assumes cr: "creatable fs p name s"
  shows "wp (fffs_open p name (FFFS_O_WRONLY OR FFFS_O_CREATE)) (\<lambda>r fs'. r = Inr () \<and> fills fs' p name [] \<and> retains fs fs' \<and>
    extent_room (fs_files fs' p) = fs_sector_size fs - 26 \<and> kept fs fs' \<and> quiet fs fs') fs"
proof -
  define slot where "slot = fffs_normalize_slot_base (fffs_hash16 name)"
  have c: "geom fs" "healthy fs" "file_name name" "p \<notin> set (fs_open_files fs)" "\<not> fffs_slot_is_pinned fs slot"
    "cache_map fs slot = None" "vacant fs name (FFFS_MAX_PROBE_DISTANCE + 1) slot" "cache_inv fs" "next_blank fs p s"
    using cr by (simp_all add: creatable_def Let_def slot_def journal_room_def)
  define fs1 where "fs1 = upd_file p (\<lambda>_. zero_file) fs"
  have c1: "calm fs fs1" unfolding fs1_def by (rule calm_idle [OF idle_upd(1) c(1,2)])
  note f1 = calm_facts [OF c1]
  have pin: "\<not> fffs_slot_is_pinned fs1 slot"
    using c(4,5) by (auto simp: fffs_slot_is_pinned_def list_ex_iff fs1_def upd_file_def Let_def)
  have vac: "vacant fs1 name (FFFS_MAX_PROBE_DISTANCE + 1) slot"
    using c(7) vacant_cong [OF _ f1(4)] c1 by (simp add: calm_def)
  note res = resolve_vacant [OF f1(1,2) _ slot_def pin _ vac c(3), unfolded f1(3,4), OF c(8,6)]
  have flags: "open_flags_valid 6" "(6 :: u32) AND 1 = 0" "(6 :: u32) AND 2 \<noteq> 0" "(6 :: u32) AND 4 \<noteq> 0" "(2 :: u32) OR 4 = 6"
    by (simp_all add: open_flags_valid_def)
  define g where "g = (\<lambda>f :: fffs_file. f\<lparr>f_fs := True, f_flags := 6, f_slot := slot, f_head := 0\<rparr>)"
  define h where "h = (\<lambda>f. (stage_root_prefix name (f\<lparr>f_head := s, f_current := s, f_name := name\<rparr>))\<lparr>f_span_head := s, f_span_len := 0\<rparr>)"
  define Q where "Q = (\<lambda>(r :: unit res) fs'. r = Inr () \<and> fills fs' p name [] \<and> retains fs fs' \<and>
    extent_room (fs_files fs' p) = fs_sector_size fs - 26 \<and> kept fs fs' \<and> quiet fs fs')"
  have fin: "Q (Inr ()) (register_open_file p (upd_file p h fs4))"
    if "looked fs1 fs2" "looked (upd_file p g fs2) fs3" "idle fs3 fs4"
      "reserving ((g zero_file)\<lparr>f_data_offset := 0, f_current_write_offset := 0, f_current_metadata_offset := of_nat (fs_sector_size fs - 26),
        f_current_needs_footer := True\<rparr>) (fs_files fs4 p)" for fs2 fs3 fs4
  proof -
    let ?fs = "register_open_file p (upd_file p h fs4)"
    have c2: "calm fs fs2" by (rule calm_trans [OF c1 calm_looked [OF that(1) f1(1,2)]])
    have c3: "calm fs (upd_file p g fs2)" by (rule calm_trans [OF c2 calm_idle [OF idle_upd(1) calm_facts(1,2) [OF c2]]])
    have c4: "calm fs fs3" by (rule calm_trans [OF c3 calm_looked [OF that(2) calm_facts(1,2) [OF c3]]])
    have c5: "calm fs ?fs"
      by (rule calm_trans [OF c4 calm_idle [OF idle_trans [OF that(3) idle_trans [OF idle_upd(1) idle_register]] calm_facts(1,2) [OF c4]]])
    from that(4) obtain a b where f4: "fs_files fs4 p = (g zero_file)\<lparr>f_data_offset := 0, f_current_write_offset := 0,
        f_current_metadata_offset := of_nat (fs_sector_size fs - 26), f_current_needs_footer := True, f_reserve_first := a, f_reserve_count := b\<rparr>"
      unfolding reserving_def by blast
    have "fs_files ?fs p = (h (fs_files fs4 p))\<lparr>f_open_registered := True\<rparr>"
      by (simp add: register_open_file_def upd_file_def)
    then have "new_handle fs name s (fs_files ?fs p)"
      unfolding f4 new_handle_def
      by (intro exI [of _ a] exI [of _ b]) (simp add: g_def h_def slot_def stage_root_prefix_def root_prefix_def zero_file_def flags(5))
    from new_handle_fills [OF cr _ _ this] c5 steady_stored [of fs ?fs] calm_facts(4) [OF c5]
    show ?thesis by (simp add: Q_def calm_def retains_def steady_def quiet_def index_bytes_def kept_def)
  qed
  have go: "wp (open_write p name \<lparr>rs_slot = slot, rs_head = 0, rs_root = None\<rparr>) Q (upd_file p g fs2)" if l: "looked fs1 fs2" for fs2
  proof -
    let ?fs3 = "upd_file p g fs2"
    have c2: "calm fs fs2" by (rule calm_trans [OF c1 calm_looked [OF l f1(1,2)]])
    have c3: "calm fs ?fs3" by (rule calm_trans [OF c2 calm_idle [OF idle_upd(1) calm_facts(1,2) [OF c2]]])
    have "fs_files fs2 p = zero_file" "fs_open_files fs2 = fs_open_files fs"
      using looked_fields(7,8) [OF l] by (simp_all add: fs1_def upd_file_def)
    then have f3: "fs_files ?fs3 p = g zero_file" and nb: "next_blank ?fs3 p s"
      using next_blank_upd [of p fs2 g s] next_blank_looked [OF l] next_blank_upd [OF c(4), of "\<lambda>_. zero_file" s] c(4,9)
      by (simp_all add: fs1_def upd_file_def)
    have z: "f_reserve_count (g zero_file) = 0" "f_current (g zero_file) = 0" by (simp_all add: g_def zero_file_def)
    have ss: "fs_sector_size ?fs3 = fs_sector_size fs" using c3 by (simp add: calm_def steady_def kept_def)
    note al = alloc_blank_rule [OF calm_facts(1,2) [OF c3] nb f3 z, unfolded ss]
    show ?thesis
      unfolding open_write_def resolved.simps option.case wp_seqm wp_ret sum.case wp_bindm mod_file_def wp_modm
      by (rule wp_mono [OF al]) (use fin [OF l] in \<open>auto simp: h_def\<close>)
  qed
  show ?thesis
    unfolding Q_def [symmetric] flags(5) fffs_open_def Let_def wp_seqm mod_file_def wp_modm sum.case fs1_def [symmetric]
    using flags by (simp add: wp_bindm) (rule wp_mono [OF res], use go in \<open>auto simp: wp_simps g_def\<close>)
qed

text \<open>Creating, writing and closing a file; opening and reading it.\<close>

lemma create_write_close:
  assumes cr: "creatable fs p name s" and fit: "length name + 2 + length data \<le> fs_sector_size fs - 26"
  shows "wp (seqm (fffs_open p name (FFFS_O_WRONLY OR FFFS_O_CREATE)) (seqm (fffs_write p data) (fffs_close p)))
    (\<lambda>r fs'. r = Inr () \<and> published fs name data fs') fs"
  unfolding wp_seqm
proof (rule wp_mono [OF create_rule [OF cr]], goal_cases)
  case (1 r fs1)
  then have r: "r = Inr ()" and f1: "fills fs1 p name []" and k1: "retains fs fs1" "quiet fs fs1" "kept fs fs1"
    and room: "extent_room (fs_files fs1 p) = fs_sector_size fs - 26" by simp_all
  have "wp (fffs_write p data) (\<lambda>r fs'. r = Inr () \<and> fills fs' p name ([] @ data) \<and> retains fs1 fs' \<and>
      extent_room (fs_files fs' p) = extent_room (fs_files fs1 p) \<and> kept fs1 fs' \<and> quiet fs1 fs') fs1"
    by (rule fills_write [OF f1]) (use fit room in simp)
  then show ?case
    unfolding r sum.case
  proof (rule wp_mono, goal_cases)
    case (1 r2 fs2)
    then have r2: "r2 = Inr ()" and f2: "fills fs2 p name data" and k2: "retains fs1 fs2" "quiet fs1 fs2" "kept fs1 fs2" by simp_all
    show ?case
      unfolding r2 sum.case
      by (rule wp_mono [OF close_rule [OF f2]]) (use published_before [OF published_before [OF _ k2] k1] in blast)
  qed
qed

lemma open_and_read:
  assumes "geom fs" "healthy fs" "cache_inv fs" "fs_sector_size fs \<le> 65536" "stored fs name content"
  shows "wp (seqm (fffs_open q name FFFS_O_RDONLY) (bindm (fffs_read q n) (\<lambda>first. bindm (fffs_read q m) (\<lambda>second. ret (first, second)))))
    (\<lambda>r fs'. r = Inr (take n content, take m (drop n content)) \<and> fmem fs' = fmem fs) fs"
  unfolding wp_seqm wp_bindm wp_ret
  by (rule wp_mono [OF open_read_rule [OF assms]], elim conjE, hypsubst, unfold sum.case,
      rule wp_mono [OF read_rule_stream], assumption, elim conjE, hypsubst, unfold sum.case,
      rule wp_mono [OF read_rule_stream], assumption) simp

end

section \<open>Properties\<close>


text \<open>C5: Reading a stored file.  For a file of any number of extents, in spans or linked, opening it for reading
  succeeds and successive reads return successive pieces of its content, cut off at its end, whatever mix of
  cached and direct reads they take; the flash does not change.\<close>

theorem stored_read:
  assumes "emu.geom fs" and "emu.healthy fs" and "cache_inv fs" and "fs_sector_size fs \<le> 65536" and "emu.stored fs name content"
  shows "wp (seqm (fffs_open q name FFFS_O_RDONLY) (bindm (fffs_read q n) (\<lambda>first. bindm (fffs_read q m) (\<lambda>second. ret (first, second)))))
    (\<lambda>r fs'. r = Inr (take n content, take m (drop n content)) \<and> emu.fmem fs' = emu.fmem fs) fs"
  by (rule emu.open_and_read [OF assms])

section \<open>Concrete instances\<close>

text \<open>A device of sixteen sectors, two of them for the journal and five set aside for compaction.\<close>

definition example_flash16 :: ffsv_flash where
  "example_flash16 = (case ffsv_flash_create (example_config\<lparr>cfg_total_size := 4096\<rparr>) of Inr f \<Rightarrow> f | Inl _ \<Rightarrow> undefined)"

lemma example_create16: "ffsv_flash_create (example_config\<lparr>cfg_total_size := 4096\<rparr>) = Inr example_flash16"
  by (simp add: example_flash16_def ffsv_flash_create_def checked_config_def example_config_def Let_def)

lemmas example_flash16_facts = emu_create [OF example_create16, unfolded example_config_def, simplified]

definition example_fs16 :: "ffsv_flash fffs" where
  "example_fs16 = (zero_fs (fffs_host_backend_from_verify_flash example_flash16))\<lparr>fs_sector_size := 256, fs_sector_count := 16,
     fs_index_sectors := 2, fs_index_cache := [zero_bucket, zero_bucket], fs_index_hash_table_size := 2, fs_next_index_offset := 8,
     fs_scratch_size := 64, fs_compaction_reserve_count := 5, fs_compaction_reserve_sectors := [11, 12, 13, 14, 15]\<rparr>"

lemma example_fs16_mem: "emu.fmem example_fs16 = replicate 4096 0xff"
  using example_flash16_facts
  by (simp add: example_fs16_def zero_fs_def emu.fmem_def emu.bmem_def fffs_host_backend_from_verify_flash_def)

lemma example_fs16_geom: "emu.geom example_fs16" "emu.healthy example_fs16" "be_program_granule (fs_backend example_fs16) = 4"
  using example_flash16_facts example_fs16_mem
  by (simp_all add: emu.geom_def emu.fdev_def emu.healthy_def emu.fuses_def emu.uses_def fffs_host_backend_from_verify_flash_def
      fffs_valid_backend_def emu.bmem_def example_fs16_def zero_fs_def emu.fmem_def)

lemma example_fs16_cache: "cache_inv example_fs16" "cache_map example_fs16 = Map.empty"
proof -
  have "cache_inv (cache_example [zero_bucket, zero_bucket])" by (rule cache_example_inv) (simp_all add: zero_bucket_def)
  then show "cache_inv example_fs16" by (simp add: cache_inv_def cache_example_def example_fs16_def numeral_2_eq_2)
  show "cache_map example_fs16 = Map.empty"
    by (simp add: cache_map_def example_fs16_def table_map_def zero_bucket_def fun_eq_iff)
qed

lemma example_vacant: "cache_map fs = Map.empty \<Longrightarrow> usable_slot c \<Longrightarrow> emu.vacant fs name n c"
proof (induction n arbitrary: c)
  case (Suc n)
  have "c \<noteq> 0" using Suc.prems(2) by (simp add: usable_slot_def)
  with Suc.IH [OF Suc.prems(1) usable_next [OF Suc.prems(2)]] Suc.prems(1) show ?case by simp
qed simp

text \<open>What \<open>creatable\<close> comes to on a device of this shape without files.\<close>

lemma plain_creatable:
  assumes "emu.geom fs" "emu.healthy fs" "be_program_granule (fs_backend fs) = 4" "cache_inv fs" "cache_map fs = Map.empty" "file_name name"
    and f: "fs_sector_size fs = 256" "fs_open_files fs = []" "fs_next_index_offset fs = 8" "fs_active_index_sector fs = 0"
      "fs_index_sectors fs = 2" "fs_sector_count fs = 16" "fs_index_hash_table_size fs = 2" "fs_alloc_cursor fs = 0" "fs_alloc_map fs = None"
      "fs_compaction_reserve_count fs = 5" "fs_compaction_reserve_sectors fs = [11, 12, 13, 14, 15]" "fs_scratch_size fs = 64"
    and erased: "emu.erased_span fs 8 4" "emu.erased_span fs 512 256"
  shows "emu.creatable fs p name 2"
proof -
  let ?slot = "fffs_normalize_slot_base (fffs_hash16 name)"
  have "emu.journal_room fs ?slot"
    using erased(1) by (simp add: emu.journal_room_def assms(4,5) f index_full_def)
  moreover have "\<not> fffs_alloc_compaction_reserved fs 2"
    by (simp add: fffs_alloc_compaction_reserved_def f upt_rec)
  then have "emu.next_blank fs p 2"
    using erased(2)
    by (simp add: emu.next_blank_def f start_cursor_def data_sector_def fffs_sector_is_open_for_writing_def sector_reserved_by_other_def
        fffs_alloc_map_maybe_used_def emu.blank_above_def)
  ultimately show ?thesis
    using example_vacant [OF assms(5) usable_normalize, of name "FFFS_MAX_PROBE_DISTANCE + 1"]
    by (simp add: emu.creatable_def Let_def assms(1-6) f fffs_slot_is_pinned_def)
qed

lemma example_creatable: "file_name name \<Longrightarrow> emu.creatable example_fs16 p name 2"
  by (rule plain_creatable [OF example_fs16_geom example_fs16_cache])
    (simp_all add: emu.erased_span_def example_fs16_mem sub_bytes_replicate, simp_all add: example_fs16_def zero_fs_def)

lemma example_name: "file_name [104, 105]"
  by (simp add: file_name_def)


text \<open>The device after that file was created.\<close>

definition example_stored :: "ffsv_flash fffs" where
  "example_stored = snd (the (seqm (fffs_open 5 [104, 105] (FFFS_O_WRONLY OR FFFS_O_CREATE))
     (seqm (fffs_write 5 [1, 2, 3, 4, 5]) (fffs_close 5)) example_fs16))"

lemma example_stored_facts: "emu.published example_fs16 [104, 105] [1, 2, 3, 4, 5] example_stored"
proof -
  have "length [104 :: byte, 105] + 2 + length [1 :: byte, 2, 3, 4, 5] \<le> fs_sector_size example_fs16 - 26" by (simp add: example_fs16_def)
  from emu.create_write_close [OF example_creatable [OF example_name] this, of 5] show ?thesis
    unfolding example_stored_def wp_iff by auto
qed

theorem stored_read_witness:
  "wp (seqm (fffs_open 7 [104, 105] FFFS_O_RDONLY) (bindm (fffs_read 7 2) (\<lambda>first. bindm (fffs_read 7 9) (\<lambda>second. ret (first, second)))))
    (\<lambda>r fs'. r = Inr ([1, 2], [3, 4, 5]) \<and> emu.fmem fs' = emu.fmem example_stored) example_stored"
proof -
  have "emu.geom example_stored" "emu.healthy example_stored" "cache_inv example_stored" "fs_sector_size example_stored \<le> 65536"
    "emu.stored example_stored [104, 105] [1, 2, 3, 4, 5]"
    using example_stored_facts by (simp_all add: emu.published_def emu.kept_def example_fs16_def)
  from stored_read [OF this, of 7 2 9] show ?thesis by simp
qed

end
