(* ===== verification/Fffs_Replay.thy ===== *)
theory Fffs_Replay
  imports Fffs_Create Fffs_Mount
begin

unbundle bit_operations_syntax

text \<open>
  Mounting rebuilds the index.  \<open>log_at\<close> says which records a part of an index sector holds; the rules follow
  \<open>fffs_replay_index\<close> from single records over chunks and sectors to the whole journal, and show that afterwards the
  RAM cache is the map the records describe.
\<close>

section \<open>Records of the journal\<close>

text \<open>A record mount accepts: one that was overwritten with zeros, or one that binds or deletes a slot.\<close>

definition rec_ok :: "'c fffs \<Rightarrow> u16 \<times> u16 \<Rightarrow> bool" where
  "rec_ok fs rec \<longleftrightarrow> rec = (0, 0) \<or> fst rec \<noteq> 0 \<and> fst rec \<noteq> 0xffff \<and> snd rec \<noteq> 0xffff \<and>
     (snd rec \<noteq> 0 \<longrightarrow> unat (fs_index_sectors fs) \<le> unat (snd rec) \<and> unat (snd rec) < fs_sector_count fs)"

text \<open>The records \<open>rs\<close> are stored from \<open>off\<close> on, before \<open>stop\<close>; \<open>log_at\<close>: behind them is an erased one or the end.\<close>

fun recs_at :: "'c fffs \<Rightarrow> byte list \<Rightarrow> nat \<Rightarrow> nat \<Rightarrow> (u16 \<times> u16) list \<Rightarrow> bool" where
  "recs_at fs m off stop [] \<longleftrightarrow> True"
| "recs_at fs m off stop (r # rs) \<longleftrightarrow> off + 4 \<le> stop \<and> sub_bytes off 4 m = rec_bytes r \<and> rec_ok fs r \<and> recs_at fs m (off + 4) stop rs"

definition ends_at :: "byte list \<Rightarrow> nat \<Rightarrow> nat \<Rightarrow> bool" where
  "ends_at m off stop \<longleftrightarrow> (off + 4 \<le> stop \<longrightarrow> sub_bytes off 4 m = replicate 4 0xff)"

definition log_at :: "'c fffs \<Rightarrow> byte list \<Rightarrow> nat \<Rightarrow> nat \<Rightarrow> (u16 \<times> u16) list \<Rightarrow> bool" where
  "log_at fs m off stop rs \<longleftrightarrow> recs_at fs m off stop rs \<and> ends_at m (off + 4 * length rs) stop"

lemma log_at_simps [simp]:
  "log_at fs m off stop [] \<longleftrightarrow> (off + 4 \<le> stop \<longrightarrow> sub_bytes off 4 m = replicate 4 0xff)"
  "log_at fs m off stop (r # rs) \<longleftrightarrow> off + 4 \<le> stop \<and> sub_bytes off 4 m = rec_bytes r \<and> rec_ok fs r \<and> log_at fs m (off + 4) stop rs"
  by (auto simp: log_at_def ends_at_def algebra_simps)

lemma recs_at_drop: "recs_at fs m off stop rs \<Longrightarrow> j \<le> length rs \<Longrightarrow> recs_at fs m (off + 4 * j) stop (drop j rs)"
proof (induction j arbitrary: off rs)
  case (Suc j)
  then obtain r rs' where "rs = r # rs'" by (cases rs) auto
  with Suc.prems Suc.IH [of "off + 4" rs'] show ?case by (simp add: algebra_simps)
qed simp

lemma recs_at_room: "recs_at fs m off stop rs \<Longrightarrow> off \<le> stop \<Longrightarrow> off + 4 * length rs \<le> stop"
  by (induction rs arbitrary: off) force+

lemma rec_load:
  assumes "sub_bytes pos 4 chunk = rec_bytes rec" "pos + 4 \<le> length chunk"
  shows "fffs_load_le16 (drop pos chunk) = fst rec" "fffs_load_le16 (drop (pos + 2) chunk) = snd rec"
proof -
  have a: "drop pos chunk = fffs_store_le16 (fst rec) @ fffs_store_le16 (snd rec) @ drop (pos + 4) chunk"
    using append_take_drop_id [of 4 "drop pos chunk"] assms(1) by (simp add: sub_bytes_def rec_bytes_def add.commute)
  have "drop (pos + 2) chunk = drop 2 (drop pos chunk)" by simp
  also have "\<dots> = fffs_store_le16 (snd rec) @ drop (pos + 4) chunk" unfolding a by (simp add: fffs_store_le16_def)
  finally show "fffs_load_le16 (drop (pos + 2) chunk) = snd rec" by (simp add: load_store_le16)
  show "fffs_load_le16 (drop pos chunk) = fst rec" unfolding a by (rule load_store_le16)
qed

lemma erased_rec: "replicate 4 0xff = rec_bytes (0xffff, 0xffff)"
  by (simp add: rec_bytes_def store_ff numeral_eq_Suc)

lemma rec_bytes_ff: "rec_bytes rec = replicate 4 0xff \<Longrightarrow> fst rec = 0xffff"
  using load_store_le16 [of "fst rec" "fffs_store_le16 (snd rec)"] load_store_le16 [of "0xffff" "fffs_store_le16 0xffff"]
  by (simp add: erased_rec) (simp add: rec_bytes_def)

lemma cache_map_0 [simp]: "cache_map fs 0 = None"
  by (simp add: cache_map_def table_map_def)

lemma slot_upd_0: "m 0 = None \<Longrightarrow> slot_upd (0, 0) m = m"
  by (auto simp: slot_upd_def)

context reliable_flash
begin

text \<open>Where the journal is.\<close>

definition place :: "'c fffs \<Rightarrow> nat \<times> nat \<times> nat \<times> u8 \<times> u8" where
  "place fs = (fs_oldest_index_sector fs, fs_index_sequence_count fs, fs_active_index_sector fs, fs_active_index_serial fs,
     fs_sector_shift fs)"

text \<open>\<open>rebuilt fs m g\<close>: \<open>g\<close> has the flash and the geometry of \<open>fs\<close>, and its cache is the map \<open>m\<close>.\<close>

definition rebuilt :: "'c fffs \<Rightarrow> (u16 \<Rightarrow> u16 option) \<Rightarrow> 'c fffs \<Rightarrow> bool" where
  "rebuilt fs m g \<longleftrightarrow> steady fs g \<and> fs_index_hash_table_size g = fs_index_hash_table_size fs \<and>
     fs_scratch_size g = fs_scratch_size fs \<and> fs_strict g = fs_strict fs \<and> place g = place fs \<and>
     cache_inv g \<and> cache_map g = m"

lemma rebuilt_facts:
  assumes "rebuilt fs m g"
  shows "geom g" "healthy g" "fmem g = fmem fs" "cache_inv g" "cache_map g = m" "steady fs g"
    "fs_sector_count g = fs_sector_count fs" "fs_index_sectors g = fs_index_sectors fs" "fs_sector_size g = fs_sector_size fs"
    "fs_scratch_size g = fs_scratch_size fs" "fs_active_index_sector g = fs_active_index_sector fs" "m 0 = None"
    "place g = place fs" "fs_index_hash_table_size g = fs_index_hash_table_size fs" "fs_strict g = fs_strict fs"
  using assms cache_map_0 [of g] by (auto simp: rebuilt_def steady_def kept_def place_def)

lemma rebuilt_looked: "rebuilt fs m g \<Longrightarrow> looked g g' \<Longrightarrow> rebuilt fs m g'"
  using looked_steady [of g g'] looked_cache [of g g'] steady_trans [of fs g g']
  by (auto simp: rebuilt_def looked_def set_ctx_def steady_def kept_def place_def)

lemma rebuilt_upd:
  "rebuilt fs m (g\<lparr>fs_next_index_offset := x\<rparr>) = rebuilt fs m g" "rebuilt fs m (fffs_scratch_bump g) = rebuilt fs m g"
  "rebuilt fs m (g\<lparr>fs_scratch := y\<rparr>) = rebuilt fs m g"
  by (simp_all add: rebuilt_def steady_def kept_def geom_def fdev_def healthy_def fmem_def cache_inv_def cache_map_def place_def
      fffs_scratch_bump_def Let_def)

lemma rebuilt_cache:
  assumes "rebuilt fs m g" "table_inv (fs_index_hash_table_size g) t" "table_map t = m'"
  shows "rebuilt fs m' (g\<lparr>fs_index_cache := t\<rparr>)"
  using assms
  by (auto simp: rebuilt_def steady_def kept_def geom_def fdev_def healthy_def fmem_def cache_inv_def cache_map_def place_def)

lemma rebuilt_set:
  assumes "rebuilt fs m g" "slot \<noteq> 0" "card (insert slot (dom m)) \<le> fs_index_hash_table_size fs - 1"
  shows "wp (if head = 0 then fffs_index_remove slot else fffs_index_insert slot head)
    (\<lambda>r g'. r = Inr () \<and> rebuilt fs (slot_upd (slot, head) m) g' \<and> fs_next_index_offset g' = fs_next_index_offset g) g"
proof -
  have size: "fs_index_hash_table_size g = fs_index_hash_table_size fs" and inv: "cache_inv g" and m: "cache_map g = m"
    using assms(1) by (simp_all add: rebuilt_def)
  have fin: "finite (dom m)" unfolding m [symmetric] by (simp add: cache_map_def)
  have pos: "0 < fs_index_hash_table_size g" using inv power_of_two_pos by (auto simp: cache_inv_def table_inv_def)
  have "card (dom m) \<le> card (insert slot (dom m))" using fin by (simp add: card_insert_le)
  then have room: "card (dom (cache_map g)) < fs_index_hash_table_size g" using assms(3) pos unfolding size m by linarith
  show ?thesis
  proof (cases "head = 0")
    case True
    from cache_remove [OF inv assms(2) room] obtain t where
      "fffs_index_remove slot g = Some (Inr (), g\<lparr>fs_index_cache := t\<rparr>)"
      "table_inv (fs_index_hash_table_size g) t" "table_map t = (cache_map g)(slot := None)" by blast
    with rebuilt_cache [OF assms(1)] True m show ?thesis by (simp add: wp_def slot_upd_def)
  next
    case False
    from cache_insert [OF inv assms(2), of head] room obtain t where
      "fffs_index_insert slot head g = Some (Inr (), g\<lparr>fs_index_cache := t\<rparr>)"
      "table_inv (fs_index_hash_table_size g) t" "table_map t = (cache_map g)(slot \<mapsto> head)" by blast
    with rebuilt_cache [OF assms(1)] False m show ?thesis by (simp add: wp_def slot_upd_def)
  qed
qed

section \<open>The last record of the active sector\<close>

lemma erased_append: "fffs_flash_bytes_erased (sub_bytes a (m + n) xs) \<longleftrightarrow>
    fffs_flash_bytes_erased (sub_bytes a m xs) \<and> fffs_flash_bytes_erased (sub_bytes (a + m) n xs)"
  by (simp add: sub_bytes_append bytes_erased_all ball_Un)

lemma index_span_rule:
  assumes "geom fs" "healthy fs" "off + n \<le> length (fmem fs)"
  shows "wp (index_flash_span_erased off n)
    (\<lambda>r fs'. r = Inr (fffs_flash_bytes_erased (sub_bytes off n (fmem fs))) \<and> looked fs fs') fs"
  using assms
proof (induction n arbitrary: off fs rule: less_induct)
  case (less n)
  show ?case
  proof (cases "n = 0")
    case True
    then show ?thesis using looked_refl [OF geom_fdev [OF less.prems(1)]]
      by (auto simp: index_flash_span_erased.simps wp_ret bytes_erased_all sub_bytes_def)
  next
    case False
    have split: "fffs_flash_bytes_erased (sub_bytes off n (fmem fs)) \<longleftrightarrow> fffs_flash_bytes_erased (sub_bytes off (min n 32) (fmem fs)) \<and>
        fffs_flash_bytes_erased (sub_bytes (off + min n 32) (n - min n 32) (fmem fs))"
      using erased_append [of off "min n 32" "n - min n 32" "fmem fs"] by simp
    have "wp (bindm (fffs_flash_read off (min n 32)) (\<lambda>buf.
        if \<not> fffs_flash_bytes_erased buf then ret False
        else index_flash_span_erased (off + min n 32) (n - min n 32)))
        (\<lambda>r fs'. r = Inr (fffs_flash_bytes_erased (sub_bytes off n (fmem fs))) \<and> looked fs fs') fs"
      unfolding wp_bindm
    proof (rule wp_mono [OF read_ok [OF less.prems(1,2)]], goal_cases)
      case (2 r fs1)
      then have l: "looked fs fs1" and r: "r = Inr (sub_bytes off (min n 32) (fmem fs))" by simp_all
      have "wp (index_flash_span_erased (off + min n 32) (n - min n 32))
          (\<lambda>r fs'. r = Inr (fffs_flash_bytes_erased (sub_bytes (off + min n 32) (n - min n 32) (fmem fs1))) \<and> looked fs1 fs') fs1"
        using False less.prems looked_geom [OF l] looked_fields [OF l] by (intro less.IH) auto
      then show ?case
        unfolding r sum.case split using looked_trans [OF l] l by (auto simp: wp_simps looked_fields [OF l] elim!: wp_mono)
    qed (use less.prems in auto)
    then show ?thesis by (subst index_flash_span_erased.simps) (simp add: False)
  qed
qed

text \<open>The check of the last record is exact: everything behind the record is erased.\<close>

lemma terminal_rule:
  assumes geom: "geom fs" "healthy fs" and chunk: "chunk = sub_bytes off nread (fmem fs)" "off + nread \<le> stop" "stop \<le> length (fmem fs)"
    and pos: "pos + 4 \<le> nread" "off + pos + 4 = stop \<or> off + pos + 8 \<le> stop"
  shows "wp (if active then active_index_record_is_terminal (off + pos) chunk pos nread stop else ret False)
    (\<lambda>r fs'. looked fs fs' \<and> r = Inr (active \<and>
      fffs_flash_bytes_erased (sub_bytes (off + pos + 4) (stop - (off + pos + 4)) (fmem fs)))) fs" (is "wp _ ?Q fs")
proof -
  have refl: "looked fs fs" by (rule looked_refl [OF geom_fdev [OF geom(1)]])
  consider "\<not> active" | "active" "off + pos + 4 = stop" | "active" "off + pos + 4 \<noteq> stop" "off + pos + 8 \<le> stop"
    using pos(2) by blast
  then show ?thesis
  proof cases
    case 1
    with refl show ?thesis by (auto simp: wp_ret)
  next
    case 2
    with refl show ?thesis
      by (auto simp: wp_ret active_index_record_is_terminal_def bytes_erased_all sub_bytes_def)
  next
    case 3
    let ?E = "\<lambda>a n. fffs_flash_bytes_erased (sub_bytes a n (fmem fs))"
    let ?n = "sub_bytes (off + pos + 4) 4 (fmem fs)"
    define chunk_end where "chunk_end = off + pos + (nread - pos)"
    define rest_off where "rest_off = (if off + pos + 8 < chunk_end then chunk_end else off + pos + 8)"
    define K :: "byte list \<Rightarrow> ('c, bool) fsop" where "K = (\<lambda>next_rec.
      if \<not> fffs_flash_bytes_erased next_rec then ret False
      else if off + pos + 8 < chunk_end \<and> \<not> fffs_flash_bytes_erased (sub_bytes (pos + 8) (chunk_end - (off + pos + 8)) chunk) then ret False
      else if rest_off \<ge> stop then ret True else index_flash_span_erased rest_off (stop - rest_off))"
    have next_rec: "wp (if pos + 8 \<le> nread then ret (sub_bytes (pos + 4) 4 chunk) else fffs_flash_read (off + pos + 4) 4)
        (\<lambda>r fs'. looked fs fs' \<and> r = Inr ?n) fs"
    proof (cases "pos + 8 \<le> nread")
      case True
      then have "sub_bytes (pos + 4) 4 chunk = ?n"
        unfolding chunk(1) using sub_bytes_sub_bytes [of "pos + 4" 4 nread off "fmem fs"] by (simp add: add.assoc)
      with True refl show ?thesis by (simp add: wp_ret)
    next
      case False
      with 3 chunk(3) show ?thesis by (auto intro: wp_mono [OF read_ok [OF geom]])
    qed
    have re: "off + pos + 8 \<le> rest_off" "rest_off \<le> stop"
      using 3(3) chunk(2) pos(1) by (auto simp: rest_off_def chunk_end_def)
    have mid: "(off + pos + 8 < chunk_end \<and> \<not> fffs_flash_bytes_erased (sub_bytes (pos + 8) (chunk_end - (off + pos + 8)) chunk)) \<longleftrightarrow>
        \<not> ?E (off + pos + 8) (rest_off - (off + pos + 8))"
    proof (cases "off + pos + 8 < chunk_end")
      case True
      then have "sub_bytes (pos + 8) (chunk_end - (off + pos + 8)) chunk = sub_bytes (off + pos + 8) (rest_off - (off + pos + 8)) (fmem fs)"
        unfolding chunk(1) using sub_bytes_sub_bytes [of "pos + 8" "chunk_end - (off + pos + 8)" nread off "fmem fs"] pos(1)
        by (simp add: rest_off_def chunk_end_def add.assoc)
      with True show ?thesis by simp
    qed (simp add: rest_off_def bytes_erased_all sub_bytes_def)
    have all: "?E (off + pos + 4) (stop - (off + pos + 4)) \<longleftrightarrow> ?E (off + pos + 4) 4 \<and> ?E (off + pos + 8) (rest_off - (off + pos + 8)) \<and>
        ?E rest_off (stop - rest_off)"
    proof -
      have a: "stop - (off + pos + 4) = 4 + (stop - (off + pos + 8))" and b: "stop - (off + pos + 8) = (rest_off - (off + pos + 8)) + (stop - rest_off)"
        and c: "off + pos + 4 + 4 = off + pos + 8" and d: "off + pos + 8 + (rest_off - (off + pos + 8)) = rest_off"
        using re 3(3) by simp_all
      show ?thesis unfolding a erased_append c by (subst b) (simp only: erased_append d)
    qed
    have fin: "wp (K ?n) ?Q fs1" if l: "looked fs fs1" for fs1
    proof -
      have g1: "geom fs1" "healthy fs1" using looked_geom [OF l] looked_fields [OF l] geom by simp_all
      have "wp (index_flash_span_erased rest_off (stop - rest_off)) (\<lambda>r fs'. r = Inr (?E rest_off (stop - rest_off)) \<and> looked fs1 fs') fs1"
        using re chunk(3) looked_fields [OF l] index_span_rule [OF g1, of rest_off "stop - rest_off"] by simp
      moreover have "?E rest_off (stop - rest_off)" if "stop \<le> rest_off" using that by (simp add: bytes_erased_all sub_bytes_def)
      ultimately show ?thesis
        unfolding K_def mid all using l looked_trans [OF l] 3(1) by (auto simp: wp_simps elim!: wp_mono)
    qed
    have run: "active_index_record_is_terminal (off + pos) chunk pos nread stop =
        bindm (if pos + 8 \<le> nread then ret (sub_bytes (pos + 4) 4 chunk) else fffs_flash_read (off + pos + 4) 4) K"
      unfolding active_index_record_is_terminal_def K_def Let_def rest_off_def chunk_end_def if_not_P [OF 3(2)] ..
    show ?thesis
      unfolding if_P [OF 3(1)] run wp_bindm by (rule wp_mono [OF next_rec]) (use fin in auto)
  qed
qed

section \<open>One chunk\<close>

text \<open>The root a record names can be read.\<close>

definition readable :: "'c fffs \<Rightarrow> u16 \<times> u16 \<Rightarrow> bool" where
  "readable fs rec \<longleftrightarrow> (snd rec \<noteq> 0 \<longrightarrow> (\<exists>r. finds fs (snd rec) (fst rec) r \<and> md_type r = FFFS_MD_TYPE_FILE_ROOT_V1))"

lemma readable_rule:
  assumes "rebuilt fs m g" "readable fs (slot, head)" "head \<noteq> 0"
  shows "wp (fffs_read_file_root_md head slot False None) (\<lambda>r g'. looked g g' \<and> (\<exists>v. r = Inr v)) g"
proof -
  note f = rebuilt_facts [OF assms(1)]
  from assms(2,3) obtain r where r: "finds fs head slot r" "md_type r = FFFS_MD_TYPE_FILE_ROOT_V1" by (auto simp: readable_def)
  have "finds g head slot r" using r(1) steady_holds [OF f(6)] by (simp add: finds_def)
  from look_rule [OF f(1,2) this] show ?thesis
    unfolding fffs_read_file_root_md_def wp_bindm by (rule wp_mono) (use r(2) in \<open>auto simp: wp_simps\<close>)
qed

text \<open>A well-formed record that is not a zeroed one is applied to the cache, whether or not it is the last.\<close>

lemma apply_rule:
  assumes rb: "rebuilt fs m g" and ok: "rec_ok fs (slot, head)" "slot \<noteq> 0"
    and cap: "card (insert slot (dom m)) \<le> fs_index_hash_table_size fs - 1"
    and rd: "terminal \<Longrightarrow> readable fs (slot, head)"
    and k: "\<And>t g'. rebuilt fs (slot_upd (slot, head) m) g' \<Longrightarrow> fs_next_index_offset g' = fs_next_index_offset g \<Longrightarrow>
      wp (go_on t) Q g'"
  shows "wp (if slot = 0 \<or> slot = 0xffff \<or> head = 0xffff then clobber
      else if head = 0 then seqm (fffs_index_remove slot) (go_on tail_head)
      else bindm (getm id) (\<lambda>fs.
        if unat head < unat (fs_index_sectors fs) \<or> unat head \<ge> fs_sector_count fs then clobber
        else bindm (if terminal then bindm (trym (fffs_read_file_root_md head slot False None))
                 (\<lambda>r. ret (case r of Inl _ \<Rightarrow> False | Inr _ \<Rightarrow> True)) else ret True) (\<lambda>readable.
               if \<not> readable then clobber else seqm (fffs_index_insert slot head) (go_on head)))) Q g"
proof -
  note f = rebuilt_facts [OF rb]
  have s: "\<not> (slot = 0 \<or> slot = 0xffff \<or> head = 0xffff)" using ok by (auto simp: rec_ok_def)
  have set: "wp (if head = 0 then fffs_index_remove slot else fffs_index_insert slot head)
      (\<lambda>r g2. r = Inr () \<and> wp (go_on t) Q g2) g1" if "rebuilt fs m g1" "fs_next_index_offset g1 = fs_next_index_offset g" for t g1
    by (rule wp_mono [OF rebuilt_set [OF that(1) ok(2) cap]]) (use k that(2) in auto)
  show ?thesis
  proof (cases "head = 0")
    case True
    with set [OF rb refl, of tail_head] show ?thesis
      unfolding if_not_P [OF s] by (auto simp: wp_simps elim!: wp_mono)
  next
    case False
    then have h: "\<not> (unat head < unat (fs_index_sectors g) \<or> unat head \<ge> fs_sector_count g)"
      using ok f(7,8) by (auto simp: rec_ok_def)
    have "wp (if terminal then bindm (trym (fffs_read_file_root_md head slot False None))
                 (\<lambda>r. ret (case r of Inl _ \<Rightarrow> False | Inr _ \<Rightarrow> True)) else ret True)
        (\<lambda>r g1. r = Inr True \<and> rebuilt fs m g1 \<and> fs_next_index_offset g1 = fs_next_index_offset g) g"
    proof (cases terminal)
      case True
      show ?thesis
        unfolding if_P [OF True] wp_bindm wp_trym
        by (rule wp_mono [OF readable_rule [OF rb rd [OF True] False]])
          (use rebuilt_looked [OF rb] in \<open>auto simp: wp_ret looked_def set_ctx_def\<close>)
    qed (simp add: wp_ret rb)
    then show ?thesis
      unfolding if_not_P [OF s] if_not_P [OF False] wp_bindm wp_getm sum.case id_apply if_not_P [OF h]
    proof (rule wp_mono, goal_cases)
      case (1 r g1)
      with set [of g1 head] False have "wp (fffs_index_insert slot head) (\<lambda>r g2. r = Inr () \<and> wp (go_on head) Q g2) g1" by simp
      with 1 show ?case by (auto simp: wp_simps elim!: wp_mono)
    qed
  qed
qed

text \<open>The records \<open>rs\<close> of a chunk are applied one after the other; what happens then is up to the bytes behind them.\<close>

lemma replay_prefix_rule:
  assumes geom: "geom fs" "healthy fs"
    and chunk: "chunk = sub_bytes off nread (fmem fs)" "off + nread \<le> stop" "stop \<le> length (fmem fs)" "4 dvd stop - off"
  shows "rebuilt fs m g \<Longrightarrow> recs_at fs (fmem fs) (off + 4 * k) stop rs \<Longrightarrow>
    card ((dom m \<union> fst ` set rs) - {0}) \<le> fs_index_hash_table_size fs - 1 \<Longrightarrow>
    (active \<Longrightarrow> rs \<noteq> [] \<Longrightarrow> ends_at (fmem fs) (off + 4 * k + 4 * length rs) stop \<Longrightarrow> readable fs (last rs)) \<Longrightarrow> 4 * (k + n) \<le> nread \<Longrightarrow>
    (\<And>g' t'. length rs < n \<Longrightarrow> rebuilt fs (replay_map rs m) g' \<Longrightarrow> (\<not> active \<Longrightarrow> fs_next_index_offset g' = fs_next_index_offset g) \<Longrightarrow>
      wp (replay_records chunk nread off stop active (map (\<lambda>i. 4 * i) [k + length rs..<k + n]) t') Q g') \<Longrightarrow>
    (\<And>g' t'. n \<le> length rs \<Longrightarrow> rebuilt fs (replay_map (take n rs) m) g' \<Longrightarrow>
      (\<not> active \<Longrightarrow> fs_next_index_offset g' = fs_next_index_offset g) \<Longrightarrow> Q (Inr (False, t')) g') \<Longrightarrow>
    wp (replay_records chunk nread off stop active (map (\<lambda>i. 4 * i) [k..<k + n]) t) Q g"
proof (induction n arbitrary: k rs m g t)
  case 0
  then show ?case by (simp add: wp_ret)
next
  case (Suc n)
  have ps: "map (\<lambda>i. 4 * i) [k..<k + Suc n] = 4 * k # map (\<lambda>i. 4 * i) [Suc k..<Suc k + n]"
    by (simp add: upt_rec [of k])
  have in_chunk: "4 * k + 4 \<le> nread" using Suc.prems(5) by simp
  have bytes: "sub_bytes (4 * k) 4 chunk = sub_bytes (off + 4 * k) 4 (fmem fs)"
    unfolding chunk(1) using in_chunk by (simp add: sub_bytes_sub_bytes)
  have len: "4 * k + 4 \<le> length chunk" using in_chunk chunk by simp
  show ?case
  proof (cases rs)
    case Nil
    with Suc.prems(1) Suc.prems(6) [of g t] show ?thesis by simp
  next
    case (Cons rec rs')
    obtain slot head where rec: "rec = (slot, head)" by (cases rec)
    have rok: "rec_ok fs rec" and rb: "sub_bytes (4 * k) 4 chunk = rec_bytes rec"
      and log': "recs_at fs (fmem fs) (off + 4 * Suc k) stop rs'"
      using Suc.prems(2) unfolding Cons bytes by (simp_all add: algebra_simps)
    note ld = rec_load [OF rb len, unfolded rec fst_conv snd_conv]
    have fin: "finite (dom m)" using rebuilt_facts(5) [OF Suc.prems(1)] by (auto simp: cache_map_def)
    let ?go = "\<lambda>t. replay_records chunk nread off stop active (map (\<lambda>i. 4 * i) [Suc k..<Suc k + n]) t"
    have go: "wp (?go t) Q g1" if "rebuilt fs (slot_upd rec m) g1" "\<not> active \<Longrightarrow> fs_next_index_offset g1 = fs_next_index_offset g" for t g1
    proof -
      have "card ((dom (slot_upd rec m) \<union> fst ` set rs') - {0}) \<le> card ((dom m \<union> fst ` set rs) - {0})"
        using fin by (intro card_mono) (auto simp: Cons slot_upd_def split: if_splits)
      then have cap: "card ((dom (slot_upd rec m) \<union> fst ` set rs') - {0}) \<le> fs_index_hash_table_size fs - 1"
        using Suc.prems(3) by linarith
      have rd: "active \<Longrightarrow> rs' \<noteq> [] \<Longrightarrow> ends_at (fmem fs) (off + 4 * Suc k + 4 * length rs') stop \<Longrightarrow> readable fs (last rs')"
        using Suc.prems(4) Cons by (auto simp: algebra_simps)
      show ?thesis
        by (rule Suc.IH [OF that(1) log' cap rd]) (use Suc.prems(5-7) that(2) Cons in \<open>auto simp: algebra_simps\<close>)
    qed
    show ?thesis
    proof (cases "slot = 0")
      case True
      then have h: "head = 0" using rok by (simp add: rec_ok_def rec)
      have upd: "slot_upd rec m = m" unfolding rec True h by (rule slot_upd_0) (rule rebuilt_facts(12) [OF Suc.prems(1)])
      show ?thesis
        unfolding ps replay_records.simps Let_def ld
        using go [of _ t] Suc.prems(1) True h by (cases active) (simp_all add: wp_simps rebuilt_upd upd)
    next
      case False
      obtain q where "stop - off = 4 * q" using chunk(4) by (auto simp: dvd_def)
      then have end4: "off + 4 * k + 4 = stop \<or> off + 4 * k + 8 \<le> stop" using in_chunk chunk(2) by presburger
      have "insert slot (dom m) \<subseteq> (dom m \<union> fst ` set rs) - {0}"
        using False rebuilt_facts(12) [OF Suc.prems(1)] by (auto simp: Cons rec)
      from card_mono [OF _ this] fin Suc.prems(3)
      have cap: "card (insert slot (dom m)) \<le> fs_index_hash_table_size fs - 1" by simp
      note f = rebuilt_facts [OF Suc.prems(1)]
      have nf: "\<not> (slot = 0xffff \<and> head = 0xffff)" "\<not> (slot = 0 \<and> head = 0)" using rok False by (auto simp: rec_ok_def rec)
      show ?thesis
        unfolding ps replay_records.simps Let_def ld if_not_P [OF nf(1)] if_not_P [OF nf(2)] wp_bindm
      proof (rule wp_mono [OF terminal_rule [OF f(1,2), unfolded f(3), OF chunk(1,2) chunk(3) in_chunk end4]], goal_cases)
        case (1 r g1)
        define b where "b \<longleftrightarrow> active \<and> fffs_flash_bytes_erased (sub_bytes (off + 4 * k + 4) (stop - (off + 4 * k + 4)) (fmem fs))"
        from 1 have l: "looked g g1" and r: "r = Inr b" by (simp_all add: b_def)
        have b: "active \<and> (off + 4 * k + 8 \<le> stop \<longrightarrow> sub_bytes (off + 4 * k + 4) 4 (fmem fs) = replicate 4 0xff)" if b
        proof (intro conjI impI)
          assume fit: "off + 4 * k + 8 \<le> stop"
          then have e: "stop - (off + 4 * k + 4) = 4 + (stop - (off + 4 * k + 8))" by simp
          have "fffs_flash_bytes_erased (sub_bytes (off + 4 * k + 4) 4 (fmem fs))" using that unfolding b_def e erased_append by blast
          with fit chunk(3) show "sub_bytes (off + 4 * k + 4) 4 (fmem fs) = replicate 4 0xff" by (simp add: bytes_erased_iff)
        qed (use that in \<open>simp add: b_def\<close>)
        have rb1: "rebuilt fs m g1" by (rule rebuilt_looked [OF Suc.prems(1) l])
        have n1: "fs_next_index_offset g1 = fs_next_index_offset g" using l by (auto simp: looked_def set_ctx_def)
        have rd: "readable fs (slot, head)" if b
        proof -
          have "rs' = []"
          proof (rule ccontr)
            assume "rs' \<noteq> []"
            then obtain q qs where q: "rs' = q # qs" by (cases rs') auto
            then have "sub_bytes (off + 4 * k + 4) 4 (fmem fs) = rec_bytes q" "rec_ok fs q" "off + 4 * k + 8 \<le> stop"
              using log' by (simp_all add: algebra_simps)
            with b [OF that] rec_bytes_ff [of q] show False by (auto simp: rec_ok_def)
          qed
          with Suc.prems(4) b [OF that] show ?thesis by (simp add: Cons rec ends_at_def algebra_simps)
        qed
        show ?case
          unfolding r sum.case
          by (rule apply_rule [OF rb1 rok [unfolded rec] False cap rd])
            (use go rec n1 in auto)
      qed
    qed
  qed
qed

section \<open>One sector\<close>

lemma scratch_rule:
  assumes rb: "rebuilt fs m g" and fit: "off + n \<le> length (fmem fs)"
  shows "wp (read_scratch off n) (\<lambda>r g'. r = Inr (sub_bytes off n (fmem fs)) \<and> rebuilt fs m g' \<and>
    fs_next_index_offset g' = fs_next_index_offset g) g"
proof -
  note f = rebuilt_facts [OF rb]
  show ?thesis
    unfolding read_scratch_def wp_bindm
    by (rule wp_mono [OF read_ok [OF f(1,2)]])
      (use f(3) fit rebuilt_looked [OF rb] in \<open>auto simp: wp_simps rebuilt_upd looked_def set_ctx_def\<close>)
qed

text \<open>\<open>P\<close> is what holds when the bytes behind the records have been read, or when the records fill the sector.\<close>

lemma replay_chunks_via:
  assumes geom: "geom fs" "healthy fs" and stop: "stop \<le> length (fmem fs)" and scratch: "4 \<le> fs_scratch_size fs"
    and tail: "\<And>off nread k g t. 4 dvd stop - off \<Longrightarrow> off + nread \<le> stop \<Longrightarrow> off + 4 * k = e \<Longrightarrow> 4 * k + 4 \<le> nread \<Longrightarrow>
      rebuilt fs mf g \<Longrightarrow> (\<not> active \<Longrightarrow> fs_next_index_offset g = nx) \<Longrightarrow>
      wp (replay_records (sub_bytes off nread (fmem fs)) nread off stop active (map (\<lambda>i. 4 * i) [k..<nread div 4]) t)
        (\<lambda>r g'. (\<exists>t'. r = Inr (True, t')) \<and> P g') g"
    and full: "\<And>g. stop < e + 4 \<Longrightarrow> rebuilt fs mf g \<Longrightarrow> fs_next_index_offset g = (if active then e else nx) \<Longrightarrow> P g"
  shows "rebuilt fs m g \<Longrightarrow> recs_at fs (fmem fs) off stop rs \<Longrightarrow>
    card ((dom m \<union> fst ` set rs) - {0}) \<le> fs_index_hash_table_size fs - 1 \<Longrightarrow>
    (active \<Longrightarrow> rs \<noteq> [] \<Longrightarrow> ends_at (fmem fs) e stop \<Longrightarrow> readable fs (last rs)) \<Longrightarrow> 4 dvd stop - off \<Longrightarrow> off \<le> stop \<Longrightarrow>
    fs_next_index_offset g = (if active then off else nx) \<Longrightarrow> e = off + 4 * length rs \<Longrightarrow> mf = replay_map rs m \<Longrightarrow>
    wp (replay_chunks off stop active t) (\<lambda>r g'. (\<exists>t'. r = Inr t') \<and> P g') g"
proof (induction "stop - off" arbitrary: off rs m g t rule: less_induct)
  case less
  show ?case
  proof (cases "off + 4 \<le> stop")
    case False
    then have "rs = []" using less.prems(2) by (cases rs) auto
    with False less.prems full [of g] show ?thesis by (subst wp_def, subst replay_chunks.simps) (simp add: ret_def)
  next
    case True
    define nread where "nread = min (stop - off) (fs_scratch_size g) - min (stop - off) (fs_scratch_size g) mod 4"
    note f = rebuilt_facts [OF less.prems(1)]
    have nr: "4 dvd nread" "4 \<le> nread" "off + nread \<le> stop" "4 * (nread div 4) = nread"
    proof -
      define q where "q = min (stop - off) (fs_scratch_size g)"
      have "4 \<le> q" "q \<le> stop - off" using True scratch f(10) by (auto simp: q_def)
      then show "4 dvd nread" "4 \<le> nread" "off + nread \<le> stop" "4 * (nread div 4) = nread"
        unfolding nread_def q_def [symmetric] by presburger+
    qed
    define N where "N = nread div 4"
    let ?Q = "\<lambda>r g'. (\<exists>t'. r = Inr t') \<and> P g'"
    define K :: "bool \<times> u16 \<Rightarrow> ('c, u16) fsop" where "K = (\<lambda>(next_sector, tail_head).
             if next_sector then ret tail_head
             else seqm (whenm active (modm (\<lambda>fs. fs\<lparr>fs_next_index_offset := off + nread\<rparr>)))
               (replay_chunks (off + nread) stop active tail_head))"
    define body :: "('c, u16) fsop" where "body = bindm (read_scratch off nread) (\<lambda>chunk.
        seqm (modm fffs_scratch_bump)
        (bindm (replay_records chunk nread off stop active (map (\<lambda>i. 4 * i) [0..<0 + N]) t) K))"
    have run: "replay_chunks off stop active t g = body g"
      unfolding body_def K_def N_def nread_def add_0 using True by (subst replay_chunks.simps) (simp add: Let_def)
    have "wp body ?Q g"
      unfolding body_def wp_bindm
    proof (rule wp_mono [OF scratch_rule [OF less.prems(1)]], goal_cases)
      case (2 r g1)
      then have r: "r = Inr (sub_bytes off nread (fmem fs))" and rb1: "rebuilt fs m (fffs_scratch_bump g1)"
        and n1: "fs_next_index_offset (fffs_scratch_bump g1) = fs_next_index_offset g"
        unfolding rebuilt_upd by (simp_all add: fffs_scratch_bump_def Let_def)
      have log0: "recs_at fs (fmem fs) (off + 4 * 0) stop rs" using less.prems(2) by simp
      have k0: "4 * (0 + N) \<le> nread" using nr by (simp add: N_def)
      have rd0: "active \<Longrightarrow> rs \<noteq> [] \<Longrightarrow> ends_at (fmem fs) (off + 4 * 0 + 4 * length rs) stop \<Longrightarrow> readable fs (last rs)"
        using less.prems(4,8) by simp
      show ?case
        unfolding r sum.case wp_seqm wp_modm wp_bindm
      proof (rule replay_prefix_rule [OF geom refl nr(3) stop less.prems(5) rb1 log0 less.prems(3) rd0 k0], goal_cases)
        case (4 g2 t2)
        have pos: "off + 4 * (0 + length rs) = e" "4 * (0 + length rs) + 4 \<le> nread"
          using 4(1) nr(4) less.prems(8) by (simp_all add: N_def)
        have nx2: "\<not> active \<Longrightarrow> fs_next_index_offset g2 = nx" using 4(3) n1 less.prems(7) by simp
        have "rebuilt fs mf g2" using 4(2) less.prems(9) by simp
        from tail [OF less.prems(5) nr(3) pos this nx2, of t2] show ?case
          unfolding N_def add_0 by (rule wp_mono) (auto simp: K_def wp_ret)
      next
        case (5 g2 t2)
        define g3 where "g3 = (if active then g2\<lparr>fs_next_index_offset := off + nread\<rparr> else g2)"
        have rb3: "rebuilt fs (replay_map (take N rs) m) g3" using 5(2) by (simp add: g3_def rebuilt_upd)
        have log3: "recs_at fs (fmem fs) (off + nread) stop (drop N rs)"
          using recs_at_drop [OF less.prems(2), of N] 5(1) nr(4) by (simp add: N_def)
        have "dom (replay_map (take N rs) m) \<union> fst ` set (drop N rs) \<subseteq> dom m \<union> fst ` set rs"
          using dom_replay_map [of "take N rs" m] set_take_subset [of N rs] set_drop_subset [of N rs] by blast
        moreover have "finite (dom m \<union> fst ` set rs)" using rebuilt_facts(5) [OF less.prems(1)] by (auto simp: cache_map_def)
        ultimately have cap3: "card ((dom (replay_map (take N rs) m) \<union> fst ` set (drop N rs)) - {0}) \<le> fs_index_hash_table_size fs - 1"
          using less.prems(3) by (meson card_mono Diff_mono finite_Diff order_refl order_trans)
        have rd3: "active \<Longrightarrow> drop N rs \<noteq> [] \<Longrightarrow> ends_at (fmem fs) e stop \<Longrightarrow> readable fs (last (drop N rs))"
          using less.prems(4) by (cases "rs = []") (auto simp: last_drop)
        have dv3: "4 dvd stop - (off + nread)" using less.prems(5) nr(1) by (simp add: dvd_diff_nat flip: diff_diff_left)
        have "wp (replay_chunks (off + nread) stop active t2) ?Q g3"
          by (rule less.hyps [OF _ rb3 log3 cap3 rd3 dv3])
            (use nr True 5 n1 less.prems(7-9) replay_map_simps(3) [of "take N rs" "drop N rs" m] in \<open>auto simp: g3_def N_def\<close>)
        then show ?case by (cases active) (simp_all add: K_def wp_simps g3_def)
      qed assumption+
    qed (use nr stop in simp)
    then show ?thesis using run by (simp add: wp_def)
  qed
qed

lemma erased_tail:
  assumes "ends_at (fmem fs) e stop" "off + nread \<le> stop" "stop \<le> length (fmem fs)" "off + 4 * k = e" "4 * k + 4 \<le> nread" "rebuilt fs m g"
  shows "wp (replay_records (sub_bytes off nread (fmem fs)) nread off stop active (map (\<lambda>i. 4 * i) [k..<nread div 4]) t)
    (\<lambda>r g'. (\<exists>t'. r = Inr (True, t')) \<and> rebuilt fs m g' \<and> fs_next_index_offset g' = (if active then e else fs_next_index_offset g)) g"
proof -
  have "k < nread div 4" using assms(5) by auto
  then have ps: "map (\<lambda>i. 4 * i) [k..<nread div 4] = 4 * k # map (\<lambda>i. 4 * i) [Suc k..<nread div 4]" by (simp add: upt_conv_Cons)
  have "sub_bytes (4 * k) 4 (sub_bytes off nread (fmem fs)) = rec_bytes (0xffff, 0xffff)"
    using assms(1,2,4,5) by (simp add: sub_bytes_sub_bytes ends_at_def erased_rec [symmetric] add.commute)
  note ld = rec_load [OF this]
  show ?thesis
    unfolding ps replay_records.simps Let_def
    using ld assms(2-6) by (cases active) (simp_all add: wp_simps rebuilt_upd)
qed

lemma replay_chunks_rule:
  assumes geom: "geom fs" "healthy fs" and stop: "stop \<le> length (fmem fs)" and scratch: "4 \<le> fs_scratch_size fs"
    and rb: "rebuilt fs m g" and log: "log_at fs (fmem fs) off stop rs" and cap: "card ((dom m \<union> fst ` set rs) - {0}) \<le> fs_index_hash_table_size fs - 1"
    and rd: "active \<Longrightarrow> rs \<noteq> [] \<Longrightarrow> readable fs (last rs)" and dv: "4 dvd stop - off" and le: "off \<le> stop"
    and nx: "active \<Longrightarrow> fs_next_index_offset g = off"
  shows "wp (replay_chunks off stop active t) (\<lambda>r g'. (\<exists>t'. r = Inr t') \<and> rebuilt fs (replay_map rs m) g' \<and>
      fs_next_index_offset g' = (if active then off + 4 * length rs else fs_next_index_offset g)) g"
proof (rule replay_chunks_via [OF geom stop scratch _ _ rb _ cap, where e = "off + 4 * length rs" and nx = "fs_next_index_offset g" and
      mf = "replay_map rs m" and P = "\<lambda>g'. rebuilt fs (replay_map rs m) g' \<and>
        fs_next_index_offset g' = (if active then off + 4 * length rs else fs_next_index_offset g)"], goal_cases)
  case (1 off' nread k g' t)
  show ?case
    by (rule wp_mono [OF erased_tail [OF _ 1(2) stop 1(3,4,5)]]) (use log 1(6) in \<open>auto simp: log_at_def\<close>)
qed (use log rd dv le nx in \<open>auto simp: log_at_def\<close>)

section \<open>The journal\<close>

text \<open>\<open>log_run fs sector rss\<close>: the index sectors from \<open>sector\<close> on hold the record lists \<open>rss\<close>; the last of them, and no
  other, is the active sector.\<close>

definition next_index_sector :: "'c fffs \<Rightarrow> nat \<Rightarrow> nat" where
  "next_index_sector fs sector = (if sector + 1 \<ge> unat (fs_index_sectors fs) then 0 else sector + 1)"

fun log_run :: "'c fffs \<Rightarrow> nat \<Rightarrow> (u16 \<times> u16) list list \<Rightarrow> bool" where
  "log_run fs sector [] \<longleftrightarrow> False"
| "log_run fs sector (rs # rss) \<longleftrightarrow> sector < fs_sector_count fs \<and>
     log_at fs (fmem fs) (sector * fs_sector_size fs + 8) ((sector + 1) * fs_sector_size fs) rs \<and>
     (if rss = [] then sector = fs_active_index_sector fs
      else sector \<noteq> fs_active_index_sector fs \<and> log_run fs (next_index_sector fs sector) rss)"

text \<open>The sectors before the active one.\<close>

fun log_before :: "'c fffs \<Rightarrow> nat \<Rightarrow> (u16 \<times> u16) list list \<Rightarrow> bool" where
  "log_before fs sector [] \<longleftrightarrow> sector = fs_active_index_sector fs"
| "log_before fs sector (rs # rss) \<longleftrightarrow> sector < fs_sector_count fs \<and> sector \<noteq> fs_active_index_sector fs \<and>
     log_at fs (fmem fs) (sector * fs_sector_size fs + 8) ((sector + 1) * fs_sector_size fs) rs \<and>
     log_before fs (next_index_sector fs sector) rss"

definition active_at :: "'c fffs \<Rightarrow> nat" where
  "active_at fs = fs_active_index_sector fs * fs_sector_size fs + 8"

definition active_stop :: "'c fffs \<Rightarrow> nat" where
  "active_stop fs = (fs_active_index_sector fs + 1) * fs_sector_size fs"

lemma log_run_snoc:
  "log_run fs sector (rss @ [rs]) \<longleftrightarrow> log_before fs sector rss \<and> fs_active_index_sector fs < fs_sector_count fs \<and>
     log_at fs (fmem fs) (active_at fs) (active_stop fs) rs"
  by (induction rss arbitrary: sector) (auto simp: active_at_def active_stop_def)

lemma replay_sectors_via:
  assumes geom: "geom fs" "healthy fs" and scratch: "4 \<le> fs_scratch_size fs" and ss: "4 dvd fs_sector_size fs"
    and active: "\<And>g t. rebuilt fs mf g \<Longrightarrow> fs_next_index_offset g = active_at fs \<Longrightarrow>
      wp (replay_chunks (active_at fs) (active_stop fs) True t) (\<lambda>r g'. (\<exists>t'. r = Inr t') \<and> P g') g"
  shows "rebuilt fs m g \<Longrightarrow> log_before fs sector rss \<Longrightarrow>
    card ((dom m \<union> fst ` set (concat rss)) - {0}) \<le> fs_index_hash_table_size fs - 1 \<Longrightarrow>
    fs_next_index_offset g = active_at fs \<Longrightarrow> mf = replay_map (concat rss) m \<Longrightarrow>
    wp (replay_sectors (Suc (length rss)) sector t) (\<lambda>r g'. (\<exists>t'. r = Inr t') \<and> P g') g"
proof (induction rss arbitrary: sector m g t)
  case Nil
  note f = rebuilt_facts [OF Nil.prems(1)]
  have "wp (replay_chunks (active_at fs) (active_stop fs) True t) (\<lambda>r g'. (\<exists>t'. r = Inr t') \<and> P g') g"
    by (rule active) (use Nil.prems in simp_all)
  then have "wp (replay_chunks (sector * fs_sector_size fs + 8) ((sector + 1) * fs_sector_size fs)
      (sector = fs_active_index_sector fs) t) (\<lambda>r g'. (\<exists>t'. r = Inr t') \<and> P g') g"
    using Nil.prems(2) by (simp add: active_at_def active_stop_def)
  then show ?case
    unfolding list.size replay_sectors.simps wp_bindm wp_getm sum.case id_apply f(9,11)
    by (rule wp_mono) (auto simp: wp_ret)
next
  case (Cons rs rss)
  note f = rebuilt_facts [OF Cons.prems(1)]
  let ?off = "sector * fs_sector_size fs + 8" and ?stop = "(sector + 1) * fs_sector_size fs"
  have sec: "sector < fs_sector_count fs" "sector \<noteq> fs_active_index_sector fs" and log: "log_at fs (fmem fs) ?off ?stop rs"
    and rest: "log_before fs (next_index_sector fs sector) rss" using Cons.prems(2) by simp_all
  have big: "256 \<le> fs_sector_size fs" using geom by (simp add: geom_def)
  have stop: "?stop \<le> length (fmem fs)" using sector_fits [OF geom(1) sec(1), of "fs_sector_size fs" 0] by simp
  have dv: "4 dvd ?stop - ?off" "?off \<le> ?stop" using ss big by (simp_all add: dvd_diff_nat)
  have fin: "finite (dom m)" unfolding f(5) [symmetric] by (simp add: cache_map_def)
  have cap: "card ((dom m \<union> fst ` set rs) - {0}) \<le> fs_index_hash_table_size fs - 1"
    by (rule order_trans [OF card_mono Cons.prems(3)]) (use fin in auto)
  have cap': "card ((dom (replay_map rs m) \<union> fst ` set (concat rss)) - {0}) \<le> fs_index_hash_table_size fs - 1"
    by (rule order_trans [OF card_mono Cons.prems(3)]) (use fin dom_replay_map [of rs m] in auto)
  show ?case
    unfolding list.size replay_sectors.simps(2) [of "Suc (length rss)"] add_Suc_right add_0_right wp_bindm wp_getm sum.case id_apply f(9,11)
  proof (rule wp_mono [OF replay_chunks_rule [OF geom stop scratch Cons.prems(1) log cap _ dv]], goal_cases)
    case (3 r g1)
    then obtain t' where r: "r = Inr t'" and rb: "rebuilt fs (replay_map rs m) g1" and n1: "fs_next_index_offset g1 = active_at fs"
      using sec(2) Cons.prems(4) by auto
    show ?case
      unfolding r sum.case f(8) next_index_sector_def [symmetric]
      by (rule Cons.IH [OF rb rest cap' n1]) (use Cons.prems(5) in simp)
  qed (use sec(2) in simp_all)
qed

text \<open>The allocator hint reads sector footers and moves the cursor.\<close>

lemma rebuilt_hint [simp]:
  "rebuilt fs m (g\<lparr>fs_next_sector_serial := x\<rparr>) = rebuilt fs m g" "rebuilt fs m (g\<lparr>fs_alloc_cursor := y\<rparr>) = rebuilt fs m g"
  by (simp_all add: rebuilt_def steady_def kept_def geom_def fdev_def healthy_def fmem_def cache_inv_def cache_map_def place_def)

lemma recover_rule:
  assumes "fs_sector_count fs \<le> 65536" "rebuilt fs m g"
  shows "wp (recover_loop left sector) (\<lambda>r g'. r = Inr () \<and> rebuilt fs m g' \<and> fs_next_index_offset g' = fs_next_index_offset g) g"
  using assms(2)
proof (induction left arbitrary: sector g)
  case 0
  then show ?case by (simp add: wp_ret)
next
  case (Suc left)
  note f = rebuilt_facts [OF Suc.prems]
  show ?case
  proof (cases "sector < unat (fs_index_sectors g) \<or> sector \<ge> fs_sector_count g")
    case True
    with Suc.prems show ?thesis by (simp add: wp_simps)
  next
    case False
    then have "sector < 65536" using assms(1) f(7) by simp
    then have ds: "data_sector g (of_nat sector)" using False by (simp add: data_sector_def unat_of_nat)
    have go: "wp (case r of Inl _ \<Rightarrow> ret () | Inr serial \<Rightarrow> whenm (serial \<ge> fs_next_sector_serial g) (modm (\<lambda>fs.
          fs\<lparr>fs_next_sector_serial := (if serial + 1 = 0 then 1 else serial + 1)\<rparr>)))
        (\<lambda>r g'. r = Inr () \<and> rebuilt fs m g' \<and> fs_next_index_offset g' = fs_next_index_offset g) g1"
      if "rebuilt fs m g1" "fs_next_index_offset g1 = fs_next_index_offset g" for r :: "u32 res" and g1
      using that by (auto simp: wp_simps split: sum.split)
    have "wp (trym (fffs_read_sector_serial (of_nat sector)))
        (\<lambda>r g1. (\<exists>v. r = Inr v) \<and> rebuilt fs m g1 \<and> fs_next_index_offset g1 = fs_next_index_offset g) g"
      unfolding wp_trym
      by (rule read_serial_rule [OF f(1) ds]) (use rebuilt_looked [OF Suc.prems looked_set_ctx] in auto)
    with False show ?thesis
      unfolding recover_loop.simps wp_bindm wp_getm sum.case id_apply if_not_P [OF False] wp_seqm Let_def
      by (elim wp_mono) (auto intro!: wp_mono [OF go] wp_mono [OF Suc.IH] simp: wp_ret)
  qed
qed

lemma rebuilt_self: "geom g \<Longrightarrow> healthy g \<Longrightarrow> cache_inv g \<Longrightarrow> rebuilt g (cache_map g) g"
  by (simp add: rebuilt_def steady_refl)

lemma rebuilt_trans: "rebuilt fs m g \<Longrightarrow> rebuilt g (cache_map g) h \<Longrightarrow> rebuilt fs m h"
  using steady_trans [of fs g h] by (auto simp: rebuilt_def)

text \<open>Replay as a whole, with what the active sector leads to as \<open>P\<close>; the allocator hint that follows keeps the cache,
  the flash and the place of the next record.\<close>

lemma replay_index_via:
  assumes geom: "geom fs" "healthy fs" and scratch: "4 \<le> fs_scratch_size fs" and ss: "4 dvd fs_sector_size fs"
    and cache: "cache_inv fs" "cache_map fs = Map.empty"
    and log: "log_before fs (fs_oldest_index_sector fs) rss" "Suc (length rss) = fs_index_sequence_count fs"
    and cap: "card (fst ` set (concat rss) - {0}) \<le> fs_index_hash_table_size fs - 1"
    and active: "\<And>g t. rebuilt fs (replay_map (concat rss) Map.empty) g \<Longrightarrow> fs_next_index_offset g = active_at fs \<Longrightarrow>
      wp (replay_chunks (active_at fs) (active_stop fs) True t) (\<lambda>r g'. (\<exists>t'. r = Inr t') \<and> P g') g"
    and usable: "\<And>g. P g \<Longrightarrow> geom g \<and> healthy g \<and> cache_inv g \<and> fs_sector_count g \<le> 65536"
    and hint: "\<And>g h. P g \<Longrightarrow> rebuilt g (cache_map g) h \<Longrightarrow> fs_next_index_offset h = fs_next_index_offset g \<Longrightarrow> P h"
  shows "wp fffs_replay_index (\<lambda>r g. r = Inr () \<and> P g) fs"
proof -
  let ?g = "fs\<lparr>fs_next_index_offset := active_at fs\<rparr>"
  have rb: "rebuilt fs Map.empty ?g"
    unfolding rebuilt_upd using steady_refl [OF geom] cache by (simp add: rebuilt_def)
  have sectors: "wp (replay_sectors (Suc (length rss)) (fs_oldest_index_sector fs) 0) (\<lambda>r g'. (\<exists>t'. r = Inr t') \<and> P g') ?g"
    by (rule replay_sectors_via [OF geom scratch ss active rb log(1)]) (use cap in auto)
  have after: "wp (whenm (t \<noteq> 0) (recover_allocator_hint t)) (\<lambda>r h. r = Inr () \<and> P h) g" if P: "P g" for t g
  proof (cases "t = 0")
    case True
    with P show ?thesis by (simp add: wp_simps)
  next
    case False
    have u: "geom g" "healthy g" "cache_inv g" "fs_sector_count g \<le> 65536" using usable [OF P] by simp_all
    let ?g1 = "g\<lparr>fs_alloc_cursor := fffs_next_data_sector g (unat t)\<rparr>"
    have "rebuilt g (cache_map g) ?g1" using rebuilt_self [OF u(1-3)] by simp
    from recover_rule [OF u(4) this] have "wp (recover_loop (FFFS_ALLOC_RECOVERY_LOOKAHEAD + 1) (unat t))
        (\<lambda>r h. r = Inr () \<and> P h) ?g1" by (rule wp_mono) (use hint [OF P] in auto)
    with False show ?thesis by (simp add: recover_allocator_hint_def wp_simps)
  qed
  show ?thesis
    unfolding fffs_replay_index_def wp_seqm wp_modm wp_bindm wp_getm sum.case id_apply
    using sectors by (simp add: log(2) active_at_def, elim wp_mono) (auto intro: after)
qed

lemma replay_index_rule:
  assumes geom: "geom fs" "healthy fs" and scratch: "4 \<le> fs_scratch_size fs" and ss: "4 dvd fs_sector_size fs"
    and few: "fs_sector_count fs \<le> 65536" and cache: "cache_inv fs" "cache_map fs = Map.empty"
    and log: "log_run fs (fs_oldest_index_sector fs) rss" "length rss = fs_index_sequence_count fs"
    and cap: "card (fst ` set (concat rss) - {0}) \<le> fs_index_hash_table_size fs - 1"
    and rd: "last rss \<noteq> [] \<Longrightarrow> readable fs (last (last rss))"
  shows "wp fffs_replay_index (\<lambda>r g. r = Inr () \<and> rebuilt fs (replay_map (concat rss) Map.empty) g \<and>
    fs_next_index_offset g = fs_active_index_sector fs * fs_sector_size fs + 8 + 4 * length (last rss)) fs"
proof -
  obtain pre rs where rss: "rss = pre @ [rs]" using log(1) by (cases rss rule: rev_cases) auto
  have run: "log_before fs (fs_oldest_index_sector fs) pre" "fs_active_index_sector fs < fs_sector_count fs"
    "log_at fs (fmem fs) (active_at fs) (active_stop fs) rs" using log(1) unfolding rss log_run_snoc by simp_all
  have big: "256 \<le> fs_sector_size fs" using geom by (simp add: geom_def)
  have stop: "active_stop fs \<le> length (fmem fs)"
    using sector_fits [OF geom(1) run(2), of "fs_sector_size fs" 0] by (simp add: active_stop_def)
  have dv: "4 dvd active_stop fs - active_at fs" "active_at fs \<le> active_stop fs"
    using ss big by (simp_all add: dvd_diff_nat active_stop_def active_at_def)
  have fin: "finite (fst ` set (concat rss) - {0})" by simp
  show ?thesis
  proof (rule replay_index_via [OF geom scratch ss cache run(1)], goal_cases)
    case (3 g t)
    have "card ((dom (replay_map (concat pre) Map.empty) \<union> fst ` set rs) - {0}) \<le> card (fst ` set (concat rss) - {0})"
    proof (rule card_mono [OF fin])
      have "dom (replay_map (concat pre) Map.empty) \<subseteq> fst ` set (concat pre)" using dom_replay_map [of "concat pre" Map.empty] by simp
      then have "dom (replay_map (concat pre) Map.empty) \<union> fst ` set rs \<subseteq> fst ` set (concat rss)"
        unfolding rss concat_append set_append image_Un by (intro Un_mono) simp_all
      then show "dom (replay_map (concat pre) Map.empty) \<union> fst ` set rs - {0} \<subseteq> fst ` set (concat rss) - {0}" by blast
    qed
    with cap have c: "card ((dom (replay_map (concat pre) Map.empty) \<union> fst ` set rs) - {0}) \<le> fs_index_hash_table_size fs - 1" by linarith
    show ?case
      by (rule wp_mono [OF replay_chunks_rule [OF geom stop scratch 3(1) run(3) c _ dv]])
        (use rd rss 3(2) in \<open>auto simp: active_at_def\<close>)
  next
    case 2
    show ?case by (rule order_trans [OF card_mono [OF fin] cap]) (auto simp: rss)
  next
    case (4 g)
    then show ?case using rebuilt_facts [OF conjunct1 [OF 4]] few by simp
  next
    case (5 g h)
    with rebuilt_trans show ?case by auto
  qed (use log(2) rss in simp)
qed

end

end
