(* ===== verification/Fffs_Discovery.thy ===== *)
theory Fffs_Discovery
  imports Fffs_Index_Log
begin

unbundle bit_operations_syntax

text \<open>
  Discovery of the journal.  Mount knows neither the sector size nor the active index sector: it probes the candidate
  geometries and picks the newest header by its serial, which counts modulo 16.  The rules say what
  \<open>fffs_find_index_sequence\<close> makes of the headers on the flash; \<open>ring\<close> is the pattern the journal writes.
\<close>

section \<open>Serials\<close>

lemma low_nibble: "uint ((x :: u8) AND 15) = uint x mod 16"
proof -
  have "x AND 15 = take_bit 4 x" by (simp add: take_bit_eq_mask mask_eq_exp_minus_1)
  then show ?thesis by (simp add: take_bit_eq_mod uint_mod_distrib)
qed

lemma newer_iff:
  "index_serial_newer ((x + of_nat i) AND 15) ((x + of_nat j) AND 15) \<longleftrightarrow>
     (int i - int j) mod 16 \<noteq> 0 \<and> (int i - int j) mod 16 < 8"
proof -
  have m: "uint (x + of_nat k) mod 16 = (uint x + int k) mod 16" for k
  proof -
    have "uint (x + of_nat k) mod 16 = (uint x + int k mod 256) mod 16"
      by (simp add: uint_word_ariths unsigned_of_nat take_bit_eq_mod mod_mod_cancel zmod_int)
    also have "\<dots> = (uint x + int k mod 256 mod 16) mod 16" by (rule mod_add_right_eq [symmetric])
    also have "\<dots> = (uint x + int k) mod 16" by (simp add: mod_mod_cancel mod_add_right_eq)
    finally show ?thesis .
  qed
  have "(uint ((x + of_nat i) AND 15) - uint ((x + of_nat j) AND 15)) AND 15 = (int i - int j) mod 16"
    unfolding low_nibble m by (simp add: int_and_15 mod_simps)
  moreover have "(x + of_nat i) AND 15 = (x + of_nat j) AND 15 \<longleftrightarrow> (int i - int j) mod 16 = 0"
    unfolding word_uint_eq_iff low_nibble m mod_eq_dvd_iff by (simp add: dvd_eq_mod_eq_0)
  ultimately show ?thesis by (simp add: index_serial_newer_def)
qed

lemma step_back:
  fixes e :: int
  shows "- 8 \<le> e \<Longrightarrow> e \<le> - 1 \<Longrightarrow> \<not> (e mod 16 \<noteq> 0 \<and> e mod 16 < 8)"
    "- 14 \<le> e \<Longrightarrow> e \<le> - 9 \<Longrightarrow> e mod 16 \<noteq> 0 \<and> e mod 16 < 8"
  by presburger+

section \<open>The newest header\<close>

text \<open>\<open>newest\<close> is the choice of \<open>scan_index_headers\<close>, as a function of the serials.\<close>

definition newer_of :: "nat \<Rightarrow> u8 option \<Rightarrow> (nat \<times> u8) option \<Rightarrow> (nat \<times> u8) option" where
  "newer_of i ser best = (case (ser, best) of
       (None, _) \<Rightarrow> best
     | (Some s, None) \<Rightarrow> Some (i, s)
     | (Some s, Some (a, b)) \<Rightarrow> if index_serial_newer s b then Some (i, s) else best)"

definition newest :: "(nat \<Rightarrow> u8 option) \<Rightarrow> nat list \<Rightarrow> (nat \<times> u8) option \<Rightarrow> (nat \<times> u8) option" where
  "newest ser is best = fold (\<lambda>i. newer_of i (ser i)) is best"

lemma newest_simps [simp]:
  "newest ser [] best = best" "newest ser (i # is) best = newest ser is (newer_of i (ser i) best)"
  "newest ser (is @ js) best = newest ser js (newest ser is best)"
  by (simp_all add: newest_def)

lemma newest_same:
  "(\<And>i. i \<in> set is \<Longrightarrow> newer_of i (ser i) best = best) \<Longrightarrow> newest ser is best = best"
  by (induction "is") auto

text \<open>The serials of a journal whose sectors \<open>oldest\<close>, \<open>oldest + 1\<close>, \<open>\<dots>\<close> (around the end) are in use.\<close>

definition ring :: "nat \<Rightarrow> nat \<Rightarrow> nat \<Rightarrow> u8 \<Rightarrow> nat \<Rightarrow> u8 option" where
  "ring n oldest cnt first i = (let d = (i + n - oldest) mod n in
     if d < cnt then Some ((first + of_nat d) AND 15) else None)"

lemma ring_eq:
  assumes "i < n" "oldest < n"
  shows "ring n oldest cnt first i = (if oldest \<le> i
    then (if i - oldest < cnt then Some ((first + of_nat (i - oldest)) AND 15) else None)
    else (if i + n - oldest < cnt then Some ((first + of_nat (i + n - oldest)) AND 15) else None))"
proof (cases "oldest \<le> i")
  case True
  then have "i + n - oldest = (i - oldest) + n" by simp
  then have "(i + n - oldest) mod n = i - oldest" using assms by (simp only: mod_add_self2) simp
  with True show ?thesis by (simp add: ring_def)
next
  case False
  then have "i + n - oldest < n" using assms by simp
  with False show ?thesis by (simp add: ring_def)
qed

text \<open>Within a stretch of ascending serials the last one wins.\<close>

lemma newest_ascending:
  assumes "\<And>i. i \<in> {a..<a + k} \<Longrightarrow> ser i = Some ((first + of_nat (d + (i - a))) AND 15)"
    and "0 < k" "newer_of a (ser a) best = Some (a, (first + of_nat d) AND 15)"
  shows "newest ser [a..<a + k] best = Some (a + k - 1, (first + of_nat (d + (k - 1))) AND 15)"
  using assms
proof (induction k)
  case (Suc k)
  show ?case
  proof (cases "k = 0")
    case True
    with Suc.prems show ?thesis by simp
  next
    case False
    with Suc have "newest ser [a..<a + k] best = Some (a + k - 1, (first + of_nat (d + (k - 1))) AND 15)" by simp
    moreover have "ser (a + k) = Some ((first + of_nat (d + k)) AND 15)" using Suc.prems(1) [of "a + k"] by simp
    moreover have "index_serial_newer ((first + of_nat (d + k)) AND 15) ((first + of_nat (d + (k - 1))) AND 15)"
      unfolding newer_iff using False by (simp add: of_nat_diff)
    ultimately show ?thesis by (simp add: newer_of_def del: of_nat_add)
  qed
qed simp

text \<open>Which header mount takes for the newest: the active sector, unless the run wraps around the end of the index and
  is longer than nine sectors; then the oldest serials look newer than the active one.\<close>

lemma newest_ring:
  assumes "oldest < n" "1 \<le> cnt" "cnt \<le> n" "n \<le> 15"
  shows "newest (ring n oldest cnt first) [0..<n] None =
    (if oldest + cnt \<le> n then Some (oldest + cnt - 1, (first + of_nat (cnt - 1)) AND 15)
     else if cnt \<le> 9 then Some (oldest + cnt - n - 1, (first + of_nat (cnt - 1)) AND 15)
     else Some (n - 1, (first + of_nat (n - oldest - 1)) AND 15))" (is "newest ?r _ _ = _")
proof (cases "oldest + cnt \<le> n")
  case True
  have l: "[0..<n] = [0..<oldest] @ [oldest..<oldest + cnt] @ [oldest + cnt..<n]"
    using True upt_add_eq_append [of oldest "oldest + cnt" "n - (oldest + cnt)"] upt_add_eq_append [of 0 oldest "n - oldest"] by simp
  have "newest ?r [0..<oldest] None = None"
    by (rule newest_same) (use assms True in \<open>auto simp: newer_of_def ring_eq\<close>)
  moreover have "newest ?r [oldest..<oldest + cnt] None = Some (oldest + cnt - 1, (first + of_nat (0 + (cnt - 1))) AND 15)"
    by (rule newest_ascending) (use assms True in \<open>auto simp: newer_of_def ring_eq\<close>)
  moreover have "newest ?r [oldest + cnt..<n] b = b" for b
    by (rule newest_same) (use assms True in \<open>auto simp: newer_of_def ring_eq split: option.split\<close>)
  ultimately show ?thesis using True by (simp add: l)
next
  case False
  define w where "w = oldest + cnt - n"
  have w: "0 < w" "w \<le> oldest" "oldest + cnt = n + w" using assms False by (auto simp: w_def)
  have l: "[0..<n] = [0..<0 + w] @ [w..<oldest] @ [oldest..<oldest + (n - oldest)]"
    using w assms(1) upt_add_eq_append [of 0 w "oldest - w"] upt_add_eq_append [of 0 oldest "n - oldest"] by simp
  have a: "newest ?r [0..<0 + w] None = Some (0 + w - 1, (first + of_nat (n - oldest + (w - 1))) AND 15)"
    by (rule newest_ascending) (use assms w in \<open>auto simp: newer_of_def ring_eq algebra_simps\<close>)
  have c: "n - oldest + (w - 1) = cnt - 1" using w assms by simp
  have b: "newest ?r [w..<oldest] b = b" for b
    by (rule newest_same) (use assms w in \<open>auto simp: newer_of_def ring_eq split: option.split\<close>)
  have all: "newest ?r [0..<n] None = newest ?r [oldest..<oldest + (n - oldest)] (Some (w - 1, (first + of_nat (cnt - 1)) AND 15))"
    unfolding l newest_simps a b c by simp
  show ?thesis
  proof (cases "cnt \<le> 9")
    case True
    have "newest ?r [oldest..<oldest + (n - oldest)] (Some (w - 1, (first + of_nat (cnt - 1)) AND 15)) =
        Some (w - 1, (first + of_nat (cnt - 1)) AND 15)"
    proof (rule newest_same)
      fix i assume i: "i \<in> set [oldest..<oldest + (n - oldest)]"
      have "?r i = Some ((first + of_nat (i - oldest)) AND 15)" using i w assms by (auto simp: ring_eq)
      moreover have "\<not> index_serial_newer ((first + of_nat (i - oldest)) AND 15) ((first + of_nat (cnt - 1)) AND 15)"
        unfolding newer_iff by (rule step_back(1)) (use i True w assms in auto)
      ultimately show "newer_of i (?r i) (Some (w - 1, (first + of_nat (cnt - 1)) AND 15)) =
        Some (w - 1, (first + of_nat (cnt - 1)) AND 15)" by (simp add: newer_of_def)
    qed
    with False True show ?thesis unfolding all by (simp add: w_def)
  next
    case big: False
    have "?r oldest = Some (first AND 15)" using assms by (simp add: ring_eq)
    moreover have "index_serial_newer ((first + of_nat 0) AND 15) ((first + of_nat (cnt - 1)) AND 15)"
      unfolding newer_iff by (rule step_back(2)) (use big assms in auto)
    ultimately have "newer_of oldest (?r oldest) (Some (w - 1, (first + of_nat (cnt - 1)) AND 15)) =
      Some (oldest, (first + of_nat 0) AND 15)" by (simp add: newer_of_def)
    then have "newest ?r [oldest..<oldest + (n - oldest)] (Some (w - 1, (first + of_nat (cnt - 1)) AND 15)) =
        Some (oldest + (n - oldest) - 1, (first + of_nat (0 + (n - oldest - 1))) AND 15)"
      by (intro newest_ascending) (use assms w in \<open>auto simp: ring_eq\<close>)
    with False big assms show ?thesis unfolding all by simp
  qed
qed

text \<open>How many sectors of the run mount finds.\<close>

definition found :: "nat \<Rightarrow> nat \<Rightarrow> nat \<Rightarrow> nat" where
  "found n oldest cnt = (if oldest + cnt \<le> n \<or> cnt \<le> 9 then cnt else n - oldest)"

lemma newest_found:
  assumes "oldest < n" "1 \<le> cnt" "cnt \<le> n" "n \<le> 15"
  shows "newest (ring n oldest cnt first) [0..<n] None =
    Some ((oldest + (found n oldest cnt - 1)) mod n, (first + of_nat (found n oldest cnt - 1)) AND 15)"
  unfolding newest_ring [OF assms] using assms by (auto simp: found_def mod_if)

section \<open>The oldest header\<close>

lemma ring_pos:
  assumes "oldest < n" "d < n"
  shows "ring n oldest cnt first ((oldest + d) mod n) = (if d < cnt then Some ((first + of_nat d) AND 15) else None)"
proof -
  have "((oldest + d) mod n + n - oldest) mod n = d"
  proof (cases "oldest + d < n")
    case True
    then have "(oldest + d) mod n + n - oldest = d + n" by simp
    then show ?thesis using assms by (simp only: mod_add_self2) simp
  next
    case False
    then have "(oldest + d) mod n = oldest + d - n" using assms by (simp add: mod_if)
    with False assms show ?thesis by simp
  qed
  then show ?thesis by (simp add: ring_def)
qed

lemma prev_pos: "oldest < n \<Longrightarrow> d < n \<Longrightarrow> prev_index_sector ((oldest + Suc d) mod n) n = (oldest + d) mod n"
  by (auto simp: prev_index_sector_def mod_Suc)

lemma nibble_prev: "(((x + of_nat (Suc d)) AND 15) - 1) AND 15 = (x + of_nat d) AND (15 :: u8)"
proof -
  have "((y AND 15) - 1) AND 15 = (y - 1) AND 15" for y :: u8
    unfolding word_uint_eq_iff low_nibble by (simp add: uint_word_ariths low_nibble mod_mod_cancel mod_simps)
  from this [of "x + of_nat (Suc d)"] show ?thesis by simp
qed

lemma oldest_ring:
  assumes ser: "\<And>i. i < n \<Longrightarrow> serials ! i = ring n oldest cnt first i" and "oldest < n" "cnt < n"
  shows "d < cnt \<Longrightarrow> d \<le> left \<Longrightarrow>
    oldest_loop serials n left ((oldest + d) mod n) ((first + of_nat d) AND 15) k = (oldest, k + d)"
proof (induction d arbitrary: left k)
  case 0
  have "prev_index_sector oldest n = (oldest + (n - 1)) mod n"
    using assms(2) prev_pos [of oldest n "n - 1"] by simp
  then have "serials ! prev_index_sector oldest n = None"
    using ser [of "prev_index_sector oldest n"] ring_pos [of oldest n "n - 1"] assms(2,3) by simp
  then show ?case using assms(2) by (cases left) (simp_all add: Let_def)
next
  case (Suc d)
  then obtain l where l: "left = Suc l" by (cases left) auto
  have d: "d < n" using Suc.prems assms(3) by simp
  have "serials ! ((oldest + d) mod n) = Some ((first + of_nat d) AND 15)"
    using ser [of "(oldest + d) mod n"] ring_pos [of oldest n d] assms(2) Suc.prems d by simp
  then show ?case
    unfolding l oldest_loop.simps Let_def prev_pos [OF assms(2) d] nibble_prev using Suc.IH [of l "k + 1"] Suc.prems l by simp
qed

section \<open>Scanning the headers\<close>

definition header_at :: "byte list \<Rightarrow> nat \<Rightarrow> nat \<Rightarrow> (u8 \<times> u8 \<times> u8) option" where
  "header_at m sector_size i = fffs_valid_index_header (sub_bytes (i * sector_size) 8 m)"

text \<open>The serial of a header; \<open>agrees\<close> says that the header, if valid, has the given geometry.\<close>

definition serial_at :: "byte list \<Rightarrow> nat \<Rightarrow> nat \<Rightarrow> u8 option" where
  "serial_at m sector_size i = map_option (\<lambda>(n, shift, serial). serial) (header_at m sector_size i)"

definition agrees :: "byte list \<Rightarrow> u8 \<Rightarrow> u8 \<Rightarrow> nat \<Rightarrow> bool" where
  "agrees m n shift i \<longleftrightarrow> (case header_at m (256 * 2 ^ unat shift) i of None \<Rightarrow> True | Some (n', shift', _) \<Rightarrow> n' = n \<and> shift' = shift)"

definition note_serial :: "(nat \<Rightarrow> u8 option) \<Rightarrow> nat \<Rightarrow> u8 option list \<Rightarrow> u8 option list" where
  "note_serial ser i serials = (case ser i of None \<Rightarrow> serials | Some s \<Rightarrow> serials[i := Some s])"

lemma note_serials:
  assumes "n \<le> length serials"
  shows "length (fold (note_serial ser) [0..<n] serials) = length serials"
    "i < length serials \<Longrightarrow> fold (note_serial ser) [0..<n] serials ! i = (if i < n \<and> ser i \<noteq> None then ser i else serials ! i)"
  using assms by (induction n) (auto simp: note_serial_def nth_list_update less_Suc_eq split: option.split)

text \<open>The index sectors of \<open>m\<close> carry the headers of a run of \<open>cnt\<close> sectors from \<open>oldest\<close> on; sector 0 is one of them.\<close>

definition journal_headers :: "byte list \<Rightarrow> u8 \<Rightarrow> u8 \<Rightarrow> nat \<Rightarrow> nat \<Rightarrow> u8 \<Rightarrow> bool" where
  "journal_headers m n shift oldest cnt first \<longleftrightarrow> (let ss = 256 * 2 ^ unat shift in
     unat n \<le> 15 \<and> unat shift \<le> 15 \<and> length m mod ss = 0 \<and> unat n * ss \<le> length m \<and>
     oldest < unat n \<and> 1 \<le> cnt \<and> cnt < unat n \<and> ring (unat n) oldest cnt first 0 \<noteq> None \<and>
     (\<forall>i < unat n. header_at m ss i = map_option (\<lambda>s. (n, shift, s)) (ring (unat n) oldest cnt first i)))"

definition found_sequence :: "u8 \<Rightarrow> u8 \<Rightarrow> nat \<Rightarrow> nat \<Rightarrow> u8 \<Rightarrow> fffs_index_sequence" where
  "found_sequence n shift oldest cnt first = (let k = found (unat n) oldest cnt in
     \<lparr>seq_index_sectors = n, seq_sector_shift = shift, seq_active_serial = (first + of_nat (k - 1)) AND 15,
      seq_active_sector = (oldest + (k - 1)) mod unat n, seq_oldest_sector = oldest, seq_count = k\<rparr>)"

lemma journal_zero:
  assumes "journal_headers m n shift oldest cnt first"
  obtains s where "header_at m 0 0 = Some (n, shift, s)" "8 \<le> length m"
proof -
  define ss :: nat where "ss = 256 * 2 ^ unat shift"
  have j: "0 < unat n" "unat n * ss \<le> length m" "ring (unat n) oldest cnt first 0 \<noteq> None"
    and hd: "\<And>i. i < unat n \<Longrightarrow> header_at m ss i = map_option (\<lambda>s. (n, shift, s)) (ring (unat n) oldest cnt first i)"
    using assms by (auto simp: journal_headers_def ss_def Let_def)
  have "1 * 256 \<le> unat n * ss" by (rule mult_le_mono) (use j(1) in \<open>simp_all add: ss_def\<close>)
  then have "8 \<le> length m" using j(2) by simp
  moreover obtain s where "header_at m 0 0 = Some (n, shift, s)" using hd [OF j(1)] j(3) by (auto simp: header_at_def)
  ultimately show ?thesis using that by blast
qed

lemma newest_cong: "(\<And>i. i \<in> set is \<Longrightarrow> f i = g i) \<Longrightarrow> newest f is b = newest g is b"
  by (induction "is" arbitrary: b) auto

lemma journal_headers_scan:
  assumes "journal_headers m n shift oldest cnt first"
  defines "ss \<equiv> 256 * 2 ^ unat shift"
  shows "newest (serial_at m ss) [0..<unat n] None = Some ((oldest + (found (unat n) oldest cnt - 1)) mod unat n,
      (first + of_nat (found (unat n) oldest cnt - 1)) AND 15)"
    "find_oldest_index_sector (fold (note_serial (serial_at m ss)) [0..<unat n] (replicate 15 None)) (unat n)
      ((oldest + (found (unat n) oldest cnt - 1)) mod unat n) ((first + of_nat (found (unat n) oldest cnt - 1)) AND 15) =
      (oldest, found (unat n) oldest cnt)"
proof -
  have j: "unat n \<le> 15" "oldest < unat n" "1 \<le> cnt" "cnt < unat n" using assms(1) by (auto simp: journal_headers_def Let_def)
  have ser: "serial_at m ss i = ring (unat n) oldest cnt first i" if "i < unat n" for i
    using assms(1) that by (auto simp: journal_headers_def serial_at_def ss_def Let_def option.map_comp o_def option.map_ident)
  have "newest (serial_at m ss) [0..<unat n] None = newest (ring (unat n) oldest cnt first) [0..<unat n] None"
    by (rule newest_cong) (simp add: ser)
  then show "newest (serial_at m ss) [0..<unat n] None = Some ((oldest + (found (unat n) oldest cnt - 1)) mod unat n,
      (first + of_nat (found (unat n) oldest cnt - 1)) AND 15)"
    using newest_found [of oldest "unat n" cnt first] j by simp
  have fd: "1 \<le> found (unat n) oldest cnt" "found (unat n) oldest cnt \<le> cnt" using j by (auto simp: found_def)
  have srs: "fold (note_serial (serial_at m ss)) [0..<unat n] (replicate 15 None) ! i = ring (unat n) oldest cnt first i"
    if "i < unat n" for i
    using note_serials(2) [of "unat n" "replicate 15 None" i "serial_at m ss"] that j(1) ser [OF that] by auto
  show "find_oldest_index_sector (fold (note_serial (serial_at m ss)) [0..<unat n] (replicate 15 None)) (unat n)
      ((oldest + (found (unat n) oldest cnt - 1)) mod unat n) ((first + of_nat (found (unat n) oldest cnt - 1)) AND 15) =
      (oldest, found (unat n) oldest cnt)"
    unfolding find_oldest_index_sector_def
    using oldest_ring [OF srs j(2,4), of "found (unat n) oldest cnt - 1" "unat n - 1" 1] fd j by simp
qed

context reliable_flash
begin

lemma scan_rule:
  assumes ss: "ss = 256 * 2 ^ unat shift" and hdr: "hdr = sub_bytes disc_off 8 m"
  shows "shows_bytes m be \<Longrightarrow> (\<And>i. i \<in> set is \<Longrightarrow> i < unat n \<and> i * ss + 8 \<le> length m \<and> agrees m n shift i) \<Longrightarrow>
    wp (scan_index_headers disc_off hdr ss n shift is best serials) (\<lambda>r be'. shows_bytes m be' \<and>
      r = Inr (Some (newest (serial_at m ss) is best, fold (note_serial (serial_at m ss)) is serials))) be"
proof (induction "is" arbitrary: best serials be)
  case Nil
  then show ?case by (simp add: wp_ret)
next
  case (Cons i "is")
  have i: "i < unat n" "i * ss + 8 \<le> length m" "agrees m n shift i" using Cons.prems(2) [of i] by simp_all
  have rd: "wp (if i * ss = disc_off then ret hdr else backend_read (i * ss) FFFS_HEADER_SIZE)
      (\<lambda>r be'. r = Inr (sub_bytes (i * ss) 8 m) \<and> shows_bytes m be') be"
    using shows_read [OF Cons.prems(1) i(2)] Cons.prems(1) by (auto simp: hdr wp_ret)
  have pos: "0 < ss" by (simp add: ss)
  show ?case
    unfolding scan_index_headers.simps Let_def wp_bindm
  proof (rule wp_mono [OF rd], goal_cases)
    case (1 r be1)
    then have r: "r = Inr (sub_bytes (i * ss) 8 m)" and be1: "shows_bytes m be1" by simp_all
    note IH = Cons.IH [OF be1]
    show ?case
    proof (cases "header_at m ss i")
      case None
      then have "newer_of i (serial_at m ss i) best = best" "note_serial (serial_at m ss) i serials = serials"
        by (simp_all add: serial_at_def newer_of_def note_serial_def)
      with None IH [of best serials] Cons.prems(2) show ?thesis
        unfolding r sum.case header_at_def [symmetric] by simp
    next
      case (Some h)
      then obtain s where h: "h = (n, shift, s)" using i(3) by (cases h) (auto simp: agrees_def ss)
      then have s: "serial_at m ss i = Some s" "note_serial (serial_at m ss) i serials = serials[i := Some s]"
        using Some by (simp_all add: serial_at_def note_serial_def)
      have "consider_index_header (i * ss) n shift s best = Inr (newer_of i (Some s) best)"
        using i(1) pos by (auto simp: consider_index_header_def newer_of_def ss Let_def split: option.split)
      with Some h s IH [of "newer_of i (Some s) best" "serials[i := Some s]"] Cons.prems(2) show ?thesis
        unfolding r sum.case header_at_def [symmetric] by simp
    qed
  qed
qed

section \<open>Probing the geometries\<close>

text \<open>A probe of another geometry fails: sector 0 says so.\<close>

lemma probe_other:
  assumes be: "shows_bytes m be" and hdr: "header_at m 0 0 = Some (n, shift, s)" "8 \<le> length m" and ne: "p \<noteq> shift"
  shows "wp (probe_index_sectors p [0, 1]) (\<lambda>r be'. shows_bytes m be' \<and> r = Inr None) be"
proof -
  let ?ss = "256 * 2 ^ unat p"
  have h0: "fffs_valid_index_header (take 8 m) = Some (n, shift, s)" using hdr(1) by (simp add: header_at_def)
  have reject: "wp (scan_index_headers ?ss h ?ss n' p [0..<unat n'] None srs)
      (\<lambda>r be'. shows_bytes m be' \<and> (r = Inr None \<or> (\<exists>x. r = Inr (Some (None, x))))) be'"
    if "shows_bytes m be'" for n' h srs be'
  proof (cases "unat n' = 0")
    case True
    with that show ?thesis by (simp add: wp_ret)
  next
    case False
    have one: "scan_index_headers ?ss h ?ss n' p (0 # is) None srs = bindm (backend_read 0 FFFS_HEADER_SIZE) (\<lambda>hdr.
        case fffs_valid_index_header hdr of
          None \<Rightarrow> scan_index_headers ?ss h ?ss n' p is None srs
        | Some (n'', shift', serial) \<Rightarrow>
            if n'' \<noteq> n' \<or> shift' \<noteq> p then ret None
            else (case consider_index_header 0 n'' shift' serial None of
                Inl _ \<Rightarrow> ret None
              | Inr best' \<Rightarrow> scan_index_headers ?ss h ?ss n' p is best' (srs[0 := Some serial])))" for "is" :: "nat list"
      by simp
    show ?thesis
      unfolding upt_rec [of 0 "unat n'"] if_P [OF False [unfolded neq0_conv]] one wp_bindm
      by (rule wp_mono [OF shows_read [OF that]]) (use hdr(2) ne in \<open>auto simp: h0 wp_ret\<close>)
  qed
  have second: "wp (probe_index_sectors p [1]) (\<lambda>r be'. shows_bytes m be' \<and> r = Inr None) be1" if be1: "shows_bytes m be1" for be1
  proof (cases "?ss + 8 > length m")
    case True
    with be1 show ?thesis by (simp add: wp_simps shows_size [OF be1])
  next
    case False
    have "wp (backend_read ?ss 8) (\<lambda>r be'. r = Inr (sub_bytes ?ss 8 m) \<and> shows_bytes m be') be1"
      by (rule shows_read [OF be1]) (use False in simp)
    then show ?thesis
      using False
      by (auto simp: wp_simps Let_def shows_size [OF be1] elim!: wp_mono split: option.split intro!: wp_mono [OF reject])
  qed
  have "wp (backend_read 0 8) (\<lambda>r be'. r = Inr (sub_bytes 0 8 m) \<and> shows_bytes m be') be"
    by (rule shows_read [OF be]) (use hdr(2) in simp)
  then show ?thesis
    unfolding probe_index_sectors.simps(2) [of p 0] Let_def wp_bindm wp_getm sum.case id_apply
    using hdr(2) ne second by (auto simp: wp_simps shows_size [OF be] h0 elim!: wp_mono simp del: probe_index_sectors.simps)
qed

lemma probe_real:
  assumes be: "shows_bytes m be" and jh: "journal_headers m n shift oldest cnt first"
  shows "wp (probe_index_sectors shift [0, 1]) (\<lambda>r be'. shows_bytes m be' \<and>
    r = Inr (Some (found_sequence n shift oldest cnt first))) be"
proof -
  define ss :: nat where "ss = 256 * 2 ^ unat shift"
  have j: "length m mod ss = 0" "unat n * ss \<le> length m" "ring (unat n) oldest cnt first 0 \<noteq> None" "0 < unat n"
    and hd: "\<And>i. i < unat n \<Longrightarrow> header_at m ss i = map_option (\<lambda>s. (n, shift, s)) (ring (unat n) oldest cnt first i)"
    using jh by (auto simp: journal_headers_def ss_def Let_def)
  have big: "256 \<le> ss" by (simp add: ss_def)
  have fit: "i * ss + 8 \<le> length m" if "i < unat n" for i
  proof -
    have "(i + 1) * ss \<le> unat n * ss" using that by (intro mult_le_mono1) simp
    with j(2) big show ?thesis by simp
  qed
  have ag: "agrees m n shift i" if "i < unat n" for i
    using hd [OF that] by (auto simp: agrees_def ss_def split: option.split)
  obtain s where h0: "fffs_valid_index_header (sub_bytes 0 8 m) = Some (n, shift, s)"
    using hd [OF j(4)] j(3) by (auto simp: header_at_def)
  have m8: "8 \<le> length m" using fit [OF j(4)] by simp
  have size: "\<not> length m div ss < unat n"
    using div_le_mono [OF j(2), of ss] big by (simp add: not_less)
  have scan: "wp (scan_index_headers 0 (sub_bytes 0 8 m) ss n shift [0..<unat n] None (replicate 15 None)) (\<lambda>r be'. shows_bytes m be' \<and>
      r = Inr (Some (newest (serial_at m ss) [0..<unat n] None, fold (note_serial (serial_at m ss)) [0..<unat n] (replicate 15 None)))) be1"
    if "shows_bytes m be1" for be1
    by (rule scan_rule [OF _ refl that]) (use fit ag in \<open>auto simp: ss_def\<close>)
  note res = journal_headers_scan [OF jh, folded ss_def]
  show ?thesis
    unfolding probe_index_sectors.simps(2) [of shift 0] Let_def wp_bindm wp_getm sum.case id_apply mult_0 shows_size [OF be] ss_def [symmetric]
  proof (simp only: add_0 m8 [THEN leD] if_False wp_bindm, rule wp_mono [OF shows_read [OF be]], goal_cases)
    case (2 r be1)
    then have r: "r = Inr (sub_bytes 0 8 m)" and be1: "shows_bytes m be1" by simp_all
    show ?case
      unfolding r sum.case h0 option.case prod.case j(1)
      by (simp only: size simp_thms if_False if_True wp_bindm, rule wp_mono [OF scan [OF be1]])
        (auto simp: res res [unfolded One_nat_def] wp_ret found_sequence_def Let_def)
  qed (use m8 in simp)
qed

text \<open>Every shift up to 15 is probed.\<close>

lemma probes:
  "p < 16 \<Longrightarrow> discovery_probe_shift p = Some (of_nat (if p \<le> 4 then 4 - p else p))"
  by (auto simp: discovery_probe_shift_def Let_def word_less_nat_alt unat_of_nat)

lemma find_probes:
  assumes jh: "journal_headers m n shift oldest cnt first"
  shows "shows_bytes m be \<Longrightarrow> (\<And>p. p \<in> set ps \<Longrightarrow> p < 16) \<Longrightarrow> Some shift \<in> discovery_probe_shift ` set ps \<Longrightarrow>
    wp (find_sequence_probes (ps @ qs)) (\<lambda>r be'. shows_bytes m be' \<and> r = Inr (found_sequence n shift oldest cnt first)) be"
proof (induction ps arbitrary: be)
  case (Cons p ps)
  define q :: u8 where "q = of_nat (if p \<le> 4 then 4 - p else p)"
  have q: "discovery_probe_shift p = Some q" unfolding q_def by (rule probes) (use Cons.prems(2) in simp)
  have sz: "be_size be = length m" by (rule shows_size [OF Cons.prems(1)])
  show ?case
  proof (cases "q = shift")
    case True
    have "length m mod (256 * 2 ^ unat shift) = 0" using jh by (simp add: journal_headers_def Let_def)
    then show ?thesis
      using wp_mono [OF probe_real [OF Cons.prems(1) jh]] True
      by (auto simp: q wp_simps sz simp del: probe_index_sectors.simps)
  next
    case False
    have IH: "wp (find_sequence_probes (ps @ qs)) (\<lambda>r be'. shows_bytes m be' \<and> r = Inr (found_sequence n shift oldest cnt first)) be1"
      if "shows_bytes m be1" for be1
      using Cons.IH [OF that] Cons.prems(2,3) False q by auto
    obtain s where hd: "header_at m 0 0 = Some (n, shift, s)" "8 \<le> length m" by (rule journal_zero [OF jh])
    show ?thesis
      using wp_mono [OF probe_other [OF Cons.prems(1) hd False]] IH Cons.prems(1)
      by (auto simp: q wp_simps sz simp del: probe_index_sectors.simps)
  qed
qed simp

lemma find_sequence_rule:
  assumes "shows_bytes m be" and jh: "journal_headers m n shift oldest cnt first"
  shows "wp fffs_find_index_sequence (\<lambda>r be'. shows_bytes m be' \<and> r = Inr (found_sequence n shift oldest cnt first)) be"
proof -
  have s: "unat shift < 16" using jh by (auto simp: journal_headers_def Let_def)
  have "Some shift = discovery_probe_shift (if unat shift \<le> 4 then 4 - unat shift else unat shift)"
    using probes [of "if unat shift \<le> 4 then 4 - unat shift else unat shift"] s by auto
  moreover have "(if unat shift \<le> 4 then 4 - unat shift else unat shift) \<in> set [0..<16]" using s by auto
  ultimately have "Some shift \<in> discovery_probe_shift ` set [0..<16]" by blast
  from find_probes [OF jh assms(1) _ this, of "[16]"] show ?thesis
    using upt_Suc_append [of 0 16] by (simp add: fffs_find_index_sequence_def del: find_sequence_probes.simps)
qed

end

section \<open>Properties\<close>


text \<open>C38: With ten or more sectors in use, a run that wraps around the end of the index is misread: serials count modulo
  16 and are compared pairwise, so the oldest sector looks newer than the active one.  Discovery stops at the last
  index sector and leaves out every sector after the wrap, the active one included.\<close>

theorem discovery_drops_wrapped_sectors:
  assumes "emu.shows_bytes m be" and "journal_headers m n shift oldest cnt first" and "unat n < oldest + cnt" and "10 \<le> cnt"
  shows "wp fffs_find_index_sequence (\<lambda>r be'. \<exists>sq. r = Inr sq \<and> seq_active_sector sq = unat n - 1 \<and>
    seq_active_sector sq \<noteq> (oldest + (cnt - 1)) mod unat n \<and> seq_count sq = unat n - oldest \<and> seq_count sq < cnt) be"
proof -
  have j: "oldest < unat n" "cnt < unat n" using assms(2) by (simp_all add: journal_headers_def Let_def)
  have w: "(oldest + (cnt - 1)) mod unat n = oldest + (cnt - 1) - unat n" "(oldest + (unat n - oldest - 1)) mod unat n = unat n - 1"
    using j assms(3) by (simp_all add: mod_if)
  show ?thesis
    by (rule wp_mono [OF emu.find_sequence_rule [OF assms(1,2)]])
      (use assms(3,4) j w in \<open>auto simp: found_sequence_def found_def Let_def\<close>)
qed

section \<open>Concrete instances\<close>

text \<open>An emulator that holds sectors of 256 bytes with the given contents.\<close>

definition image_flash :: "byte list list \<Rightarrow> ffsv_flash" where
  "image_flash ds = (case ffsv_flash_create (example_config\<lparr>cfg_total_size := 256 * length ds\<rparr>) of
     Inr f \<Rightarrow> f\<lparr>fl_blocks := map (\<lambda>d. Some \<lparr>blk_wear = 0, blk_data = d\<rparr>) ds\<rparr> | Inl _ \<Rightarrow> undefined)"

lemma image_shows:
  assumes "ds \<noteq> []" "\<And>d. d \<in> set ds \<Longrightarrow> length d = 256"
  shows "emu.shows_bytes (concat ds) (fffs_host_backend_from_verify_flash (image_flash ds))"
proof -
  let ?cfg = "example_config\<lparr>cfg_total_size := 256 * length ds\<rparr>"
  obtain f where f: "ffsv_flash_create ?cfg = Inr f"
    using assms(1) by (simp add: ffsv_flash_create_def checked_config_def example_config_def Let_def)
  note c = emu_create [OF f, unfolded example_config_def, simplified]
  have img: "image_flash ds = f\<lparr>fl_blocks := map (\<lambda>d. Some \<lparr>blk_wear = 0, blk_data = d\<rparr>) ds\<rparr>" (is "_ = ?g")
    by (simp add: image_flash_def f)
  have ok: "emu_ok ?g" using c(1,5,6) assms(2) by (auto simp: emu_ok_def)
  have mem: "emu_mem ?g = concat ds"
    unfolding emu_mem_def by (intro arg_cong [where f = concat] nth_equalityI) (simp_all add: lfs_emubd_mutblock_def)
  have good: "emu_good ?g" using c(3) ok by (simp add: emu_good_def)
  have "length (concat ds) = 256 * length ds" using concat_uniform(1) [OF assms(2)] by simp
  then show ?thesis
    using ok mem good c(4,5) assms(1)
    by (simp add: emu.shows_bytes_def emu.fuses_def emu.uses_def emu.bmem_def fffs_host_backend_from_verify_flash_def img fffs_valid_backend_def)
qed

lemma image_sector:
  assumes "\<And>d. d \<in> set ds \<Longrightarrow> length d = 256" "i < length ds"
  shows "sub_bytes (i * 256) 8 (concat ds) = take 8 (ds ! i)"
proof (rule nth_equalityI)
  have len: "length (ds ! i) = 256" using assms by simp
  have all: "length (concat ds) = length ds * 256" by (rule concat_uniform(1) [OF assms(1)]) simp_all
  have hi: "i * 256 + 256 \<le> length ds * 256" using assms(2) mult_le_mono1 [of "i + 1" "length ds" 256] by simp
  show "length (sub_bytes (i * 256) 8 (concat ds)) = length (take 8 (ds ! i))" using all hi len by simp
  fix j assume "j < length (sub_bytes (i * 256) 8 (concat ds))"
  then have j: "j < 8" using all hi by simp
  have "concat ds ! (i * 256 + j) = ds ! ((i * 256 + j) div 256) ! ((i * 256 + j) mod 256)"
    by (rule concat_uniform(2) [OF assms(1)]) (use hi j in simp_all)
  then show "sub_bytes (i * 256) 8 (concat ds) ! j = take 8 (ds ! i) ! j" using j all hi by (simp add: sub_bytes_def)
qed

text \<open>The index sectors of a device with \<open>n\<close> of them, in use from \<open>oldest\<close> on, and one data sector.\<close>

definition ring_image :: "u8 \<Rightarrow> nat \<Rightarrow> nat \<Rightarrow> byte list list" where
  "ring_image n oldest cnt = map (\<lambda>i. case ring (unat n) oldest cnt 0 i of
       None \<Rightarrow> replicate 256 0xff
     | Some s \<Rightarrow> header_with_flags n 0 s FFFS_INDEX_FLAGS_VALID @ replicate 248 0xff) [0..<unat n] @ [replicate 256 0xff]"

lemma length_header_flags: "length (header_with_flags n shift serial flags) = 8"
  by (simp add: header_with_flags_def)

lemma ring_serial_small: "ring n oldest cnt first i = Some s \<Longrightarrow> s \<le> 15"
  by (auto simp: ring_def Let_def word_le_def low_nibble split: if_splits)

lemma ring_image_headers:
  assumes "2 \<le> unat n" "unat n \<le> 15" "oldest < unat n" "1 \<le> cnt" "cnt < unat n" "ring (unat n) oldest cnt 0 0 \<noteq> None"
  shows "emu.shows_bytes (concat (ring_image n oldest cnt)) (fffs_host_backend_from_verify_flash (image_flash (ring_image n oldest cnt)))"
    "journal_headers (concat (ring_image n oldest cnt)) n 0 oldest cnt 0"
proof -
  let ?ds = "ring_image n oldest cnt"
  have len: "length d = 256" if "d \<in> set ?ds" for d
    using that by (auto simp: ring_image_def length_header_flags split: option.splits)
  show "emu.shows_bytes (concat ?ds) (fffs_host_backend_from_verify_flash (image_flash ?ds))"
    by (rule image_shows [OF _ len]) (simp add: ring_image_def)
  have total: "length (concat ?ds) = (unat n + 1) * 256"
    using concat_uniform(1) [of ?ds 256, OF len] by (simp add: ring_image_def)
  have "header_at (concat ?ds) 256 i = map_option (\<lambda>s. (n, 0, s)) (ring (unat n) oldest cnt 0 i)" if i: "i < unat n" for i
  proof -
    have sec: "sub_bytes (i * 256) 8 (concat ?ds) = take 8 (?ds ! i)"
      by (rule image_sector [OF len]) (use i in \<open>simp_all add: ring_image_def\<close>)
    show ?thesis
    proof (cases "ring (unat n) oldest cnt 0 i")
      case None
      then have "take 8 (?ds ! i) = replicate 8 0xff" using i by (simp add: ring_image_def nth_append)
      then show ?thesis unfolding header_at_def sec using None by (simp add: valid_header_ff)
    next
      case (Some s)
      then have "take 8 (?ds ! i) = header_with_flags n 0 s FFFS_INDEX_FLAGS_VALID"
        using i by (simp add: ring_image_def nth_append length_header_flags)
      moreover have "header_args_ok n 0 s" using assms(1,2) ring_serial_small [OF Some] by (simp add: header_args_ok_def word_le_nat_alt)
      ultimately show ?thesis unfolding header_at_def sec using Some by (simp add: valid_header_with_flags)
    qed
  qed
  with assms total show "journal_headers (concat ?ds) n 0 oldest cnt 0" by (simp add: journal_headers_def Let_def)
qed


theorem discovery_drops_wrapped_sectors_witness:
  "wp fffs_find_index_sequence (\<lambda>r be'. \<exists>sq. r = Inr sq \<and> seq_active_sector sq = 10 \<and> seq_active_sector sq \<noteq> 0 \<and>
    seq_count sq = 9 \<and> seq_count sq < 10) (fffs_host_backend_from_verify_flash (image_flash (ring_image 11 2 10)))"
proof -
  have r: "ring (unat (11 :: u8)) 2 10 0 0 \<noteq> None" by (simp add: ring_def)
  note h = ring_image_headers [of 11 2 10, OF _ _ _ _ _ r, simplified]
  from discovery_drops_wrapped_sectors [OF h(1,2)] show ?thesis by simp
qed

end
