(* ===== verification/Fffs_Remount.thy ===== *)
theory Fffs_Remount
  imports Fffs_Replay Fffs_Discovery
begin

unbundle bit_operations_syntax

text \<open>
  Durability.  \<open>consistent fs rss first\<close> ties the RAM state of a mounted file system to its flash: the headers are those of
  the journal's run of index sectors, the sectors hold the record lists \<open>rss\<close>, and the cache is the map these records
  describe.  Creating a file keeps it; mounting a consistent flash, with whatever options and whatever was in RAM, leads
  to a consistent state again in which the same files are stored.
\<close>

lemma empty_table:
  assumes "is_power_of_two n"
  shows "table_inv n (replicate n zero_bucket)" "table_map (replicate n zero_bucket) = Map.empty"
  using assms by (auto simp: table_inv_def chain_ok_def slots_distinct_def table_map_def zero_bucket_def fun_eq_iff find_None_iff)

lemma concat_add: "xss \<noteq> [] \<Longrightarrow> concat (butlast xss @ [last xss @ [x]]) = concat xss @ [x]"
  by (induction xss) auto

lemma or_unmount_ok: "wp m (\<lambda>r g. r = Inr v \<and> P g) fs \<Longrightarrow> wp (or_unmount m) (\<lambda>r g. r = Inr v \<and> P g) fs"
  unfolding or_unmount_def wp_bindm wp_trym by (erule wp_mono) (auto simp: wp_ret)

text \<open>Options mount accepts for a device of \<open>sectors\<close> sectors, with a cache that has room for the slots the journal mentions.\<close>

definition mountable :: "fffs_mount_options \<Rightarrow> nat \<Rightarrow> u16 set \<Rightarrow> bool" where
  "mountable options sectors slots \<longleftrightarrow> fffs_index_cache_config_valid (mo_index_hash_table_size options) \<and>
     fffs_index_cache_required_size (mo_index_hash_table_size options) \<le> mo_index_cache_size options \<and>
     FFFS_MIN_SCRATCH_SIZE \<le> mo_scratch_size options \<and> fffs_alloc_map_config_valid sectors options \<and>
     card (slots - {0}) \<le> mo_index_hash_table_size options - 1"

definition log_slots :: "(u16 \<times> u16) list list \<Rightarrow> u16 set" where
  "log_slots rss = fst ` set (concat rss)"

text \<open>A device with a header in sector 0 and erased index sectors otherwise.\<close>

definition blank_index :: "byte list \<Rightarrow> u8 \<Rightarrow> u8 \<Rightarrow> bool" where
  "blank_index m n shift \<longleftrightarrow> header_at m 0 0 = Some (n, shift, 0) \<and> 2 \<le> unat n \<and> unat n \<le> 15 \<and> unat shift \<le> 15 \<and>
     length m mod (256 * 2 ^ unat shift) = 0 \<and> unat n * (256 * 2 ^ unat shift) \<le> length m \<and>
     (\<forall>i. 8 \<le> i \<and> i < unat n * (256 * 2 ^ unat shift) \<longrightarrow> m ! i = 0xff)"

definition fresh_fs :: "'c fffs_backend \<Rightarrow> u8 \<Rightarrow> u8 \<Rightarrow> 'c fffs" where
  "fresh_fs be n shift = (zero_fs be)\<lparr>fs_sector_size := 256 * 2 ^ unat shift, fs_sector_shift := shift,
     fs_sector_count := be_size be div (256 * 2 ^ unat shift), fs_index_sectors := n, fs_index_sequence_count := 1,
     fs_next_index_offset := 8, fs_index_cache := replicate 2 zero_bucket, fs_index_hash_table_size := 2\<rparr>"

text \<open>The arguments of format: the number of index sectors and the sector size after the defaults.\<close>

definition format_ok :: "fffs_format_options option \<Rightarrow> nat \<Rightarrow> nat \<Rightarrow> u8 \<Rightarrow> u8 \<Rightarrow> bool" where
  "format_ok options bytes block n shift \<longleftrightarrow>
     n = (case options of None \<Rightarrow> 2 | Some opts \<Rightarrow> if fo_index_sectors opts \<noteq> 0 then fo_index_sectors opts else 2) \<and>
     format_sector_shift (case options of None \<Rightarrow> 0 | Some opts \<Rightarrow> fo_sector_size opts) = Inr shift \<and>
     2 \<le> n \<and> n \<le> 15 \<and> bytes mod (256 * 2 ^ unat shift) = 0 \<and> unat n \<le> bytes div (256 * 2 ^ unat shift) \<and>
     bytes div (256 * 2 ^ unat shift) \<le> 65535 \<and>
     min (max (max (256 * 2 ^ unat shift) 8192) (256 * 2 ^ unat shift * unat n)) bytes mod block = 0"

lemma format_shift: "format_sector_shift sz = Inr shift \<Longrightarrow> unat shift \<le> 15"
  by (auto simp: format_sector_shift_def Let_def find_Some_iff unat_of_nat split: option.splits)

context reliable_flash
begin

definition consistent :: "'c fffs \<Rightarrow> (u16 \<times> u16) list list \<Rightarrow> u8 \<Rightarrow> bool" where
  "consistent fs rss first \<longleftrightarrow> geom fs \<and> healthy fs \<and> cache_inv fs \<and>
     fs_sector_size fs = 256 * 2 ^ unat (fs_sector_shift fs) \<and> fs_sector_count fs \<le> 65535 \<and>
     journal_headers (fmem fs) (fs_index_sectors fs) (fs_sector_shift fs) (fs_oldest_index_sector fs) (fs_index_sequence_count fs) first \<and>
     found_sequence (fs_index_sectors fs) (fs_sector_shift fs) (fs_oldest_index_sector fs) (fs_index_sequence_count fs) first =
       \<lparr>seq_index_sectors = fs_index_sectors fs, seq_sector_shift = fs_sector_shift fs, seq_active_serial = fs_active_index_serial fs,
        seq_active_sector = fs_active_index_sector fs, seq_oldest_sector = fs_oldest_index_sector fs, seq_count = fs_index_sequence_count fs\<rparr> \<and>
     length rss = fs_index_sequence_count fs \<and> log_run fs (fs_oldest_index_sector fs) rss \<and>
     (last rss \<noteq> [] \<longrightarrow> readable fs (last (last rss))) \<and>
     fs_next_index_offset fs = fs_active_index_sector fs * fs_sector_size fs + 8 + 4 * length (last rss) \<and>
     erased_span fs (fs_next_index_offset fs) ((fs_active_index_sector fs + 1) * fs_sector_size fs - fs_next_index_offset fs) \<and>
     cache_map fs = replay_map (concat rss) Map.empty"

lemma log_run_cong:
  assumes "steady fs g" "fs_active_index_sector g = fs_active_index_sector fs"
  shows "log_run g sector rss = log_run fs sector rss"
proof -
  have k: "fmem g = fmem fs" "fs_sector_size g = fs_sector_size fs" "fs_sector_count g = fs_sector_count fs" "fs_index_sectors g = fs_index_sectors fs"
    using assms(1) by (simp_all add: steady_def kept_def)
  have la: "log_at g m off stop rs = log_at fs m off stop rs" for m off stop rs
    by (induction rs arbitrary: off) (simp_all add: rec_ok_def k)
  show ?thesis
    by (induction rss arbitrary: sector) (simp_all add: la k assms(2) next_index_sector_def)
qed

lemma readable_cong: "steady fs g \<Longrightarrow> readable g = readable fs"
  by (simp add: readable_def finds_def steady_holds fun_eq_iff)

text \<open>Consistency is about the flash, where the journal is, and the cache.\<close>

lemma consistent_steady:
  assumes cs: "consistent fs rss first" and st: "steady fs g" and pl: "place g = place fs"
    and nx: "fs_next_index_offset g = fs_next_index_offset fs" and cg: "cache_inv g" "cache_map g = cache_map fs"
  shows "consistent g rss first"
proof -
  have p: "fs_oldest_index_sector g = fs_oldest_index_sector fs" "fs_index_sequence_count g = fs_index_sequence_count fs"
    "fs_active_index_sector g = fs_active_index_sector fs" "fs_active_index_serial g = fs_active_index_serial fs"
    "fs_sector_shift g = fs_sector_shift fs" using pl by (simp_all add: place_def)
  have k: "fs_sector_size g = fs_sector_size fs" "fs_sector_count g = fs_sector_count fs" "fs_index_sectors g = fs_index_sectors fs"
    "fmem g = fmem fs" "geom g" "healthy g" using st by (simp_all add: steady_def kept_def)
  have er: "erased_span g = erased_span fs" by (simp add: erased_span_def fun_eq_iff k)
  show ?thesis
    using cs cg k(5,6) unfolding consistent_def p k(1-4) nx er log_run_cong [OF st p(3)] readable_cong [OF st] by metis
qed

text \<open>The state replay starts from.\<close>

definition primed :: "'c fffs \<Rightarrow> fffs_mount_options \<Rightarrow> 'c fffs \<Rightarrow> bool" where
  "primed fs options g \<longleftrightarrow> steady fs g \<and> place g = place fs \<and> fs_index_hash_table_size g = mo_index_hash_table_size options \<and>
     fs_scratch_size g = mo_scratch_size options \<and> fs_strict g = mo_strict options \<and> cache_inv g \<and> cache_map g = Map.empty"

lemma primed_map: "primed fs options (g\<lparr>fs_alloc_map := x, fs_alloc_map_words := y\<rparr>) = primed fs options g"
  by (simp add: primed_def steady_def kept_def geom_def fdev_def healthy_def fmem_def cache_inv_def cache_map_def place_def)

lemma primed_mark: "primed fs options (mark_used_from s n g) = primed fs options g"
  by (induction n arbitrary: s g)
    (auto simp: primed_def steady_def kept_def geom_def fdev_def healthy_def fmem_def cache_inv_def cache_map_def place_def
      fffs_alloc_map_mark_used_def split: option.split)

text \<open>The headers mount looks for.\<close>

definition headed :: "'c fffs \<Rightarrow> u8 \<Rightarrow> bool" where
  "headed fs first \<longleftrightarrow> geom fs \<and> healthy fs \<and> fs_sector_size fs = 256 * 2 ^ unat (fs_sector_shift fs) \<and> fs_sector_count fs \<le> 65535 \<and>
     journal_headers (fmem fs) (fs_index_sectors fs) (fs_sector_shift fs) (fs_oldest_index_sector fs) (fs_index_sequence_count fs) first \<and>
     found_sequence (fs_index_sectors fs) (fs_sector_shift fs) (fs_oldest_index_sector fs) (fs_index_sequence_count fs) first =
       \<lparr>seq_index_sectors = fs_index_sectors fs, seq_sector_shift = fs_sector_shift fs, seq_active_serial = fs_active_index_serial fs,
        seq_active_sector = fs_active_index_sector fs, seq_oldest_sector = fs_oldest_index_sector fs, seq_count = fs_index_sequence_count fs\<rparr>"

lemma consistent_headed: "consistent fs rss first \<Longrightarrow> headed fs first"
  by (simp add: consistent_def headed_def)

text \<open>What is in RAM when mount is called does not matter: \<open>fs0\<close> only has the device of \<open>fs\<close>.  The flash is up to
  replay.\<close>

lemma mount_via:
  assumes hd: "headed fs first" and ok: "mountable options (fs_sector_count fs) slots" and dev: "fs_backend fs0 = fs_backend fs"
    and replay: "\<And>g. primed fs options g \<Longrightarrow> wp fffs_replay_index (\<lambda>r h. r = Inr () \<and> P h) g"
  shows "wp (fffs_mount options) (\<lambda>r g. r = Inr () \<and> P g) fs0"
proof -
  let ?n = "fs_index_sectors fs" and ?sh = "fs_sector_shift fs"
  let ?seq = "\<lparr>seq_index_sectors = ?n, seq_sector_shift = ?sh, seq_active_serial = fs_active_index_serial fs,
        seq_active_sector = fs_active_index_sector fs, seq_oldest_sector = fs_oldest_index_sector fs, seq_count = fs_index_sequence_count fs\<rparr>"
  have c: "geom fs" "healthy fs" "fs_sector_size fs = 256 * 2 ^ unat ?sh" "fs_sector_count fs \<le> 65535"
    "journal_headers (fmem fs) ?n ?sh (fs_oldest_index_sector fs) (fs_index_sequence_count fs) first"
    "found_sequence ?n ?sh (fs_oldest_index_sector fs) (fs_index_sequence_count fs) first = ?seq"
    using hd by (simp_all add: headed_def)
  have o: "fffs_index_cache_config_valid (mo_index_hash_table_size options)"
    "fffs_index_cache_required_size (mo_index_hash_table_size options) \<le> mo_index_cache_size options"
    "64 \<le> mo_scratch_size options" "fffs_alloc_map_config_valid (fs_sector_count fs) options"
    using ok by (simp_all add: mountable_def)
  have pow: "is_power_of_two (mo_index_hash_table_size options)" using o(1) by (simp add: fffs_index_cache_config_valid_def)
  have be: "shows_bytes (fmem fs) (fs_backend fs)" and vb: "fffs_valid_backend (fs_backend fs)"
    using c(1,2) by (simp_all add: shows_bytes_def geom_def fdev_def healthy_def fmem_def fuses_def uses_def)
  have size: "length (fmem fs) = fs_sector_count fs * fs_sector_size fs" "256 \<le> fs_sector_size fs" using c(1) by (simp_all add: geom_def)
  have few: "fs_index_sequence_count fs < unat ?n" using c(5) by (simp add: journal_headers_def Let_def)
  have prime: "primed fs options (mounted_state options ?seq ((zero_fs be')\<lparr>fs_files := files\<rparr>))" if "shows_bytes (fmem fs) be'" for be' files
  proof -
    have "be_size be' = length (fmem fs)" by (rule shows_size [OF that])
    then have "be_size be' div fs_sector_size fs = fs_sector_count fs" using size by simp
    then show ?thesis
      using that size c(3) empty_table [OF pow]
      by (simp add: primed_def mounted_state_def Let_def zero_fs_def steady_def kept_def geom_def fdev_def healthy_def fmem_def
          shows_bytes_def place_def cache_inv_def cache_map_def)
  qed
  have init: "wp (fffs_alloc_map_mount_init options) (\<lambda>r g'. r = Inr () \<and> primed fs options g') g" if "primed fs options g" for g
  proof -
    have "fs_sector_count g = fs_sector_count fs" using that by (simp add: primed_def steady_def kept_def)
    then show ?thesis
      using that o(4) by (simp add: fffs_alloc_map_mount_init_def wp_simps Let_def primed_mark primed_map)
  qed
  define K :: "fffs_index_sequence \<Rightarrow> ('c, unit) fsop" where "K = (\<lambda>sequence.
          let sector_size = 256 * 2 ^ unat (seq_sector_shift sequence) in
          if be_size (fs_backend fs) mod sector_size \<noteq> 0 \<or> be_size (fs_backend fs) div sector_size > 65535
          then throw FFFS_ERR_CORRUPT
          else
            seqm (modm (mounted_state options sequence))
            (or_unmount
              (seqm fffs_index_finish_interrupted_compaction
              (seqm (fffs_alloc_map_mount_init options) fffs_replay_index))))"
  have body: "wp (seqm fffs_index_finish_interrupted_compaction (seqm (fffs_alloc_map_mount_init options) fffs_replay_index))
      (\<lambda>r h. r = Inr () \<and> P h) g" if "primed fs options g" for g
  proof -
    have "fs_index_sequence_count g < unat (fs_index_sectors g)" using that few by (simp add: primed_def place_def steady_def kept_def)
    then have "fffs_index_finish_interrupted_compaction g = ret () g"
      by (simp add: fffs_index_finish_interrupted_compaction_def bindm_getm)
    then show ?thesis
      unfolding wp_seqm by (rule wp_eqI) (auto simp: wp_ret intro!: wp_mono [OF init [OF that]] replay)
  qed
  have fits: "be_size (fs_backend fs) mod (256 * 2 ^ unat ?sh) = 0" "be_size (fs_backend fs) div (256 * 2 ^ unat ?sh) \<le> 65535"
    using shows_size [OF be] size c(3,4) by simp_all
  have rest: "wp (K ?seq) (\<lambda>r g. r = Inr () \<and> P g) ((zero_fs be')\<lparr>fs_files := fs_files fs0\<rparr>)"
    if "shows_bytes (fmem fs) be'" for be'
  proof -
    have sz: "\<not> (be_size (fs_backend fs) mod (256 * 2 ^ unat ?sh) \<noteq> 0 \<or> be_size (fs_backend fs) div (256 * 2 ^ unat ?sh) > 65535)"
      using fits by simp
    show ?thesis
      unfolding K_def Let_def fffs_index_sequence.simps if_not_P [OF sz] wp_seqm [of "modm _"] wp_modm sum.case
      by (rule or_unmount_ok [OF body [OF prime [OF that]]])
  qed
  have seq: "wp (on_backend fffs_find_index_sequence) (\<lambda>r g. r = Inr ?seq \<and> (\<exists>be'. shows_bytes (fmem fs) be' \<and>
      g = (zero_fs be')\<lparr>fs_files := fs_files fs0\<rparr>)) (fffs_unmount fs0)"
    unfolding wp_on_backend
    by (rule wp_mono [OF find_sequence_rule [OF _ c(5)]]) (use be c(6) dev in \<open>auto simp: fffs_unmount_def zero_fs_def\<close>)
  have cfg: "\<not> (\<not> fffs_valid_backend (fs_backend fs) \<or> \<not> fffs_index_cache_config_valid (mo_index_hash_table_size options) \<or>
        mo_index_cache_size options < fffs_index_cache_required_size (mo_index_hash_table_size options) \<or>
        mo_scratch_size options < FFFS_MIN_SCRATCH_SIZE)"
    using vb o by simp
  show ?thesis
    unfolding fffs_mount_def wp_bindm wp_getm sum.case dev if_not_P [OF cfg] K_def [symmetric] wp_seqm wp_modm
    by (rule wp_mono [OF seq]) (use rest in auto)
qed

lemma mount_rule:
  assumes cs: "consistent fs rss first" and ok: "mountable options (fs_sector_count fs) (log_slots rss)" and dev: "fs_backend fs0 = fs_backend fs"
  shows "wp (fffs_mount options) (\<lambda>r g. r = Inr () \<and> consistent g rss first \<and> steady fs g) fs0"
proof (rule mount_via [OF consistent_headed [OF cs] ok dev])
  fix g
  assume p: "primed fs options g"
  have c: "fs_sector_size fs = 256 * 2 ^ unat (fs_sector_shift fs)" "fs_sector_count fs \<le> 65535"
    "length rss = fs_index_sequence_count fs" "log_run fs (fs_oldest_index_sector fs) rss"
    "last rss \<noteq> [] \<Longrightarrow> readable fs (last (last rss))"
    using cs by (simp_all add: consistent_def)
  have o: "64 \<le> mo_scratch_size options" "card (fst ` set (concat rss) - {0}) \<le> mo_index_hash_table_size options - 1"
    using ok by (simp_all add: mountable_def log_slots_def)
  have st: "steady fs g" and pl: "place g = place fs" and cg: "cache_inv g" "cache_map g = Map.empty"
    and sz: "fs_index_hash_table_size g = mo_index_hash_table_size options" "fs_scratch_size g = mo_scratch_size options"
    using p by (simp_all add: primed_def)
  have k: "geom g" "healthy g" "fmem g = fmem fs" "fs_sector_size g = fs_sector_size fs" "fs_sector_count g = fs_sector_count fs"
    "fs_index_sectors g = fs_index_sectors fs" using st by (simp_all add: steady_def kept_def)
  have pf: "fs_oldest_index_sector g = fs_oldest_index_sector fs" "fs_index_sequence_count g = fs_index_sequence_count fs"
    "fs_active_index_sector g = fs_active_index_sector fs" using pl by (simp_all add: place_def)
  have "wp fffs_replay_index (\<lambda>r h. r = Inr () \<and> rebuilt g (replay_map (concat rss) Map.empty) h \<and>
      fs_next_index_offset h = fs_active_index_sector g * fs_sector_size g + 8 + 4 * length (last rss)) g"
    by (rule replay_index_rule [OF k(1,2) _ _ _ cg])
      (use o c sz k pf log_run_cong [OF st pf(3)] readable_cong [OF st] in \<open>simp_all add: dvd_mult\<close>)
  then show "wp fffs_replay_index (\<lambda>r h. r = Inr () \<and> consistent h rss first \<and> steady fs h) g"
  proof (rule wp_mono, goal_cases)
    case (1 r h)
    have rb: "rebuilt g (replay_map (concat rss) Map.empty) h" using 1 by simp
    note f = rebuilt_facts [OF rb]
    have sh: "steady fs h" by (rule steady_trans [OF st f(6)])
    have "consistent h rss first"
      by (rule consistent_steady [OF cs sh]) (use 1 cs f(4,5,13) pl k(4) pf(3) in \<open>simp_all add: consistent_def\<close>)
    with 1 sh show ?case by blast
  qed
qed

section \<open>Adding a record\<close>

lemma log_at_cong:
  assumes "\<And>a. off \<le> a \<Longrightarrow> a + 4 \<le> stop \<Longrightarrow> sub_bytes a 4 m' = sub_bytes a 4 m"
    and "\<And>r. rec_ok fs' r = rec_ok fs r"
  shows "log_at fs' m' off stop rs = log_at fs m off stop rs"
  using assms(1)
proof (induction rs arbitrary: off)
  case (Cons r rs)
  from Cons.IH [of "off + 4"] Cons.prems assms(2) show ?case by auto
qed auto

lemma log_at_snoc:
  assumes "log_at fs m off stop rs" and e: "e = off + 4 * length rs" "e + 4 \<le> stop"
    and same: "\<And>a. off \<le> a \<Longrightarrow> a + 4 \<le> e \<Longrightarrow> sub_bytes a 4 m' = sub_bytes a 4 m"
    and rec: "sub_bytes e 4 m' = rec_bytes r" "rec_ok fs' r" and ok: "\<And>r. rec_ok fs r \<Longrightarrow> rec_ok fs' r"
    and nxt: "e + 8 \<le> stop \<Longrightarrow> sub_bytes (e + 4) 4 m' = replicate 4 0xff"
  shows "log_at fs' m' off stop (rs @ [r])"
  using assms(1) e(1) same
proof (induction rs arbitrary: off)
  case Nil
  with rec nxt e(2) show ?case by simp
next
  case (Cons q rs)
  have "log_at fs' m' (off + 4) stop (rs @ [r])" by (rule Cons.IH) (use Cons.prems in auto)
  with Cons.prems(1,2) Cons.prems(3) [of off] ok show ?case by simp
qed

lemma log_before_keep:
  assumes fld: "fs_sector_size fs' = ss" "fs_sector_size fs = ss" "fs_sector_count fs' = fs_sector_count fs"
      "fs_index_sectors fs' = fs_index_sectors fs" "fs_active_index_sector fs' = fs_active_index_sector fs" "0 < unat (fs_index_sectors fs)"
    and e: "fs_active_index_sector fs * ss \<le> e" "e + 4 \<le> (fs_active_index_sector fs + 1) * ss"
    and same: "\<And>a. a + 4 \<le> unat (fs_index_sectors fs) * ss \<Longrightarrow> a + 4 \<le> e \<or> e + 4 \<le> a \<Longrightarrow>
      sub_bytes a 4 (fmem fs') = sub_bytes a 4 (fmem fs)"
  shows "log_before fs sector rss \<Longrightarrow> sector < unat (fs_index_sectors fs) \<Longrightarrow> log_before fs' sector rss"
proof (induction rss arbitrary: sector)
  case (Cons rs rss)
  have ok: "rec_ok fs' q = rec_ok fs q" for q using fld by (simp add: rec_ok_def)
  have top: "(sector + 1) * ss \<le> unat (fs_index_sectors fs) * ss" using Cons.prems(2) by (intro mult_le_mono1) simp
  have act: "sector \<noteq> fs_active_index_sector fs" and run: "log_before fs (next_index_sector fs sector) rss" using Cons.prems(1) by auto
  have "sector + 1 \<le> fs_active_index_sector fs \<or> fs_active_index_sector fs + 1 \<le> sector" using act by linarith
  then have apart: "(sector + 1) * ss \<le> e \<or> e + 4 \<le> sector * ss"
    using mult_le_mono1 [of "sector + 1" "fs_active_index_sector fs" ss] mult_le_mono1 [of "fs_active_index_sector fs + 1" sector ss] e
    by linarith
  have "log_at fs' (fmem fs') (sector * ss + 8) ((sector + 1) * ss) rs = log_at fs (fmem fs) (sector * ss + 8) ((sector + 1) * ss) rs"
    by (rule log_at_cong [OF same]) (use apart top ok in auto)
  moreover have "log_before fs' (next_index_sector fs sector) rss"
    by (rule Cons.IH [OF run]) (use Cons.prems(2) fld(6) in \<open>auto simp: next_index_sector_def\<close>)
  ultimately show ?case using Cons.prems(1) act fld by (simp add: next_index_sector_def)
qed (use fld in simp)

lemma only_sub:
  assumes "only lo hi (take k m) (take k m')" "a + n \<le> k" "k \<le> length m" "length m' = length m" "a + n \<le> lo \<or> hi \<le> a"
  shows "sub_bytes a n m' = sub_bytes a n m"
proof -
  have "sub_bytes a n (take k m') = sub_bytes a n (take k m)" by (rule sub_bytes_only [OF assms(1)]) (use assms in auto)
  moreover have "n \<le> k - a" using assms(2) by simp
  ultimately show ?thesis by (simp add: sub_bytes_def drop_take)
qed

text \<open>What a change of the four bytes at the end of the journal leaves as it was.\<close>

lemma tail_change:
  assumes cs: "consistent fs rss first" and k: "kept fs fs'" "fs_active_index_sector fs' = fs_active_index_sector fs"
    and only: "only (fs_next_index_offset fs) (fs_next_index_offset fs + 4) (index_bytes fs) (index_bytes fs')" and room: "\<not> index_full fs"
  shows "journal_headers (fmem fs') (fs_index_sectors fs) (fs_sector_shift fs) (fs_oldest_index_sector fs) (fs_index_sequence_count fs) first"
    and "erased_span fs' (fs_next_index_offset fs + 4) (active_stop fs - (fs_next_index_offset fs + 4))"
    and "log_before fs' (fs_oldest_index_sector fs) (butlast rss)"
    and "a + n \<le> active_stop fs \<Longrightarrow> a + n \<le> fs_next_index_offset fs \<Longrightarrow> sub_bytes a n (fmem fs') = sub_bytes a n (fmem fs)"
    and "fs_active_index_sector fs < unat (fs_index_sectors fs)" "unat (fs_index_sectors fs) * fs_sector_size fs \<le> length (fmem fs)"
    and "fs_next_index_offset fs + 4 \<le> active_stop fs" "active_stop fs \<le> unat (fs_index_sectors fs) * fs_sector_size fs"
    and "log_at fs (fmem fs) (active_at fs) (active_stop fs) (last rss)" "fs_next_index_offset fs = active_at fs + 4 * length (last rss)"
proof -
  define e where "e = fs_next_index_offset fs"
  let ?ss = "fs_sector_size fs" and ?act = "fs_active_index_sector fs" and ?n = "fs_index_sectors fs"
  have c: "geom fs" "journal_headers (fmem fs) ?n (fs_sector_shift fs) (fs_oldest_index_sector fs) (fs_index_sequence_count fs) first"
    "length rss = fs_index_sequence_count fs" "log_run fs (fs_oldest_index_sector fs) rss" "?ss = 256 * 2 ^ unat (fs_sector_shift fs)"
    "e = ?act * ?ss + 8 + 4 * length (last rss)" "erased_span fs e ((?act + 1) * ?ss - e)"
    "found_sequence ?n (fs_sector_shift fs) (fs_oldest_index_sector fs) (fs_index_sequence_count fs) first =
       \<lparr>seq_index_sectors = ?n, seq_sector_shift = fs_sector_shift fs, seq_active_serial = fs_active_index_serial fs,
        seq_active_sector = ?act, seq_oldest_sector = fs_oldest_index_sector fs, seq_count = fs_index_sequence_count fs\<rparr>"
    using cs unfolding consistent_def e_def by blast+
  have j: "fs_oldest_index_sector fs < unat ?n" "unat ?n * ?ss \<le> length (fmem fs)" "1 \<le> fs_index_sequence_count fs" "0 < unat ?n"
    using c(2,5) by (auto simp: journal_headers_def Let_def)
  then show "unat ?n * ?ss \<le> length (fmem fs)" by simp
  show act: "?act < unat ?n"
    using arg_cong [OF c(8), of seq_active_sector] mod_less_divisor [OF j(4)] by (simp add: found_sequence_def Let_def) metis
  have g: "fs_sector_size fs' = ?ss" "fs_sector_count fs' = fs_sector_count fs" "fs_index_sectors fs' = ?n" "length (fmem fs') = length (fmem fs)"
    using k(1) by (simp_all add: kept_def)
  show top: "active_stop fs \<le> unat ?n * ?ss" using act unfolding active_stop_def by (intro mult_le_mono1) simp
  show fit: "e + 4 \<le> active_stop fs" unfolding e_def using room by (simp add: index_full_def active_stop_def)
  have same: "sub_bytes a m (fmem fs') = sub_bytes a m (fmem fs)" if "a + m \<le> unat ?n * ?ss" "a + m \<le> e \<or> e + 4 \<le> a" for a m
    by (rule only_sub [OF only [unfolded index_bytes_def g(1,3), folded e_def] that(1) j(2) g(4) that(2)])
  with top show "sub_bytes a n (fmem fs') = sub_bytes a n (fmem fs)" if "a + n \<le> active_stop fs" "a + n \<le> e"
    using that by simp
  show "erased_span fs' (e + 4) (active_stop fs - (e + 4))"
  proof -
    have "erased_span fs (e + 4) (active_stop fs - (e + 4))"
      using erased_sub [OF c(7), of 4 "active_stop fs - (e + 4)"] fit by (simp add: active_stop_def)
    with same [of "e + 4" "active_stop fs - (e + 4)"] top fit show ?thesis by (simp add: erased_span_def)
  qed
  have "rss \<noteq> []" using c(3) j(3) by auto
  then have snoc: "butlast rss @ [last rss] = rss" by simp
  have run: "log_before fs (fs_oldest_index_sector fs) (butlast rss)" and "log_at fs (fmem fs) (active_at fs) (active_stop fs) (last rss)"
    using c(4) log_run_snoc [of fs "fs_oldest_index_sector fs" "butlast rss" "last rss"] unfolding snoc by blast+
  then show "log_at fs (fmem fs) (active_at fs) (active_stop fs) (last rss)" by simp
  show "log_before fs' (fs_oldest_index_sector fs) (butlast rss)"
    by (rule log_before_keep [OF g(1) refl g(2,3) k(2) j(4) _ fit [unfolded active_stop_def] same run j(1)]) (use c(6) in auto)
  show "e = active_at fs + 4 * length (last rss)" using c(6) by (simp add: active_at_def)
  have "header_at (fmem fs') ?ss i = header_at (fmem fs) ?ss i" if "i < unat ?n" for i
  proof -
    have "(i + 1) * ?ss \<le> unat ?n * ?ss" using that by (intro mult_le_mono1) simp
    moreover have "256 \<le> ?ss" using c(1) by (simp add: geom_def)
    moreover have "i * ?ss + 8 \<le> e \<or> e + 4 \<le> i * ?ss"
    proof (cases "i \<le> ?act")
      case True
      then show ?thesis using mult_le_mono1 [OF True, of ?ss] c(6) by linarith
    next
      case False
      then show ?thesis using mult_le_mono1 [of "?act + 1" i ?ss] fit by (simp add: active_stop_def)
    qed
    ultimately show ?thesis by (simp add: header_at_def same)
  qed
  then show "journal_headers (fmem fs') ?n (fs_sector_shift fs) (fs_oldest_index_sector fs) (fs_index_sequence_count fs) first"
    using c(2,5) g(4) by (simp add: journal_headers_def Let_def)
qed

lemma logged_consistent:
  assumes cs: "consistent fs rss first" and k: "kept fs fs'" "cache_inv fs'" "fs_sector_shift fs' = fs_sector_shift fs"
    and log: "logged fs r fs'" and room: "\<not> index_full fs" and ok: "rec_ok fs' r" "readable fs' r"
  shows "consistent fs' (butlast rss @ [last rss @ [r]]) first"
proof -
  define e where "e = fs_next_index_offset fs"
  let ?ss = "fs_sector_size fs" and ?n = "fs_index_sectors fs"
  have f: "fs_oldest_index_sector fs' = fs_oldest_index_sector fs" "fs_index_sequence_count fs' = fs_index_sequence_count fs"
    "fs_active_index_sector fs' = fs_active_index_sector fs" "fs_active_index_serial fs' = fs_active_index_serial fs"
    "fs_next_index_offset fs' = e + 4" "only (fs_next_index_offset fs) (fs_next_index_offset fs + 4) (index_bytes fs) (index_bytes fs')"
    "sub_bytes e 4 (index_bytes fs') = rec_bytes r" "cache_map fs' = slot_upd r (cache_map fs)"
    using log by (simp_all add: logged_def e_def)
  note t = tail_change [OF cs k(1) f(3,6) room, folded e_def]
  have g: "fs_sector_size fs' = ?ss" "fs_sector_count fs' = fs_sector_count fs" "fs_index_sectors fs' = ?n" "geom fs'" "healthy fs'"
    using k(1) by (simp_all add: kept_def)
  have at: "active_at fs' = active_at fs" "active_stop fs' = active_stop fs" using f(3) g(1) by (simp_all add: active_at_def active_stop_def)
  have len: "length rss = fs_index_sequence_count fs" "cache_map fs = replay_map (concat rss) Map.empty" "log_run fs (fs_oldest_index_sector fs) rss"
    using cs by (simp_all add: consistent_def)
  then have ne: "rss \<noteq> []" by auto
  have "4 \<le> unat ?n * ?ss - e" using t(7,8) by linarith
  then have rec: "sub_bytes e 4 (fmem fs') = rec_bytes r"
    using f(7) unfolding index_bytes_def g(1,3) by (simp add: sub_bytes_def drop_take)
  have nxt: "sub_bytes (e + 4) 4 (fmem fs') = replicate 4 0xff" if "e + 8 \<le> active_stop fs"
    using erased_sub [OF t(2), of 0 4] that by (simp add: erased_span_def)
  have "log_at fs' (fmem fs') (active_at fs) (active_stop fs) (last rss @ [r])"
    by (rule log_at_snoc [OF t(9,10,7) _ rec ok(1) _ nxt]) (use t(4,7) g in \<open>auto simp: rec_ok_def\<close>)
  moreover have "fs_active_index_sector fs < fs_sector_count fs" using log_run_snoc [of fs _ "butlast rss" "last rss"] len(3) ne by auto
  ultimately have run: "log_run fs' (fs_oldest_index_sector fs) (butlast rss @ [last rss @ [r]])"
    unfolding log_run_snoc at f(3) g(2) using t(3) by simp
  note cat = concat_add [OF ne, of r]
  have map: "cache_map fs' = replay_map (concat rss @ [r]) Map.empty" using f(8) len(2) by simp
  have lens: "length (butlast rss @ [last rss @ [r]]) = fs_index_sequence_count fs" using len(1) ne by (cases rss) auto
  have nx: "e + 4 = fs_active_index_sector fs * ?ss + 8 + 4 * length (last rss @ [r])" using t(10) by (simp add: active_at_def)
  show ?thesis
    unfolding consistent_def f(1-5) g(1-3) k(3) cat last_snoc
    using cs g(4,5) k(2) t(1,2) lens run ok(2) nx map unfolding consistent_def active_stop_def by simp
qed

lemma consistent_facts:
  assumes "consistent fs rss first"
  shows "geom fs" "healthy fs" "cache_inv fs" "cache_map fs = replay_map (concat rss) Map.empty" "fs_sector_count fs \<le> 65535" "rss \<noteq> []"
proof -
  have "log_run fs (fs_oldest_index_sector fs) rss" using assms by (simp add: consistent_def)
  then show "rss \<noteq> []" by auto
qed (use assms in \<open>simp_all add: consistent_def\<close>)

text \<open>A new file keeps the flash consistent.\<close>

lemma create_consistent:
  assumes cs: "consistent fs rss first" and cr: "creatable fs p name s" and fit: "length name + 2 + length data \<le> fs_sector_size fs - 26"
  shows "wp (seqm (fffs_open p name (FFFS_O_WRONLY OR FFFS_O_CREATE)) (seqm (fffs_write p data) (fffs_close p)))
    (\<lambda>r fs'. r = Inr () \<and> published fs name data fs' \<and> (\<exists>rss'. consistent fs' rss' first \<and>
      log_slots rss' = insert (fffs_normalize_slot_base (fffs_hash16 name)) (log_slots rss))) fs"
proof -
  have fr: "keeps layout (seqm (fffs_open p name (FFFS_O_WRONLY OR FFFS_O_CREATE)) (seqm (fffs_write p data) (fffs_close p)))"
    by (intro frame)
  have full: "\<not> index_full fs" using cr by (simp add: creatable_def Let_def journal_room_def)
  show ?thesis
  proof (rule wp_mono [OF wp_keeps [OF fr create_write_close [OF cr fit]]], goal_cases)
    case (1 r fs')
    let ?slot = "fffs_normalize_slot_base (fffs_hash16 name)"
    have pb: "published fs name data fs'" and r: "r = Inr ()" and shift: "fs_sector_shift fs' = fs_sector_shift fs"
      using 1 by (simp_all add: layout_def)
    then obtain t root payload where log: "logged fs (?slot, t) fs'" and rt: "root_at fs' t ?slot root name payload"
      and k: "kept fs fs'" "cache_inv fs'" by (auto simp: published_def announced_def)
    have fd: "finds fs' t ?slot root" "md_type root = FFFS_MD_TYPE_FILE_ROOT_V1" using rt by (simp_all add: root_at_def)
    have "data_sector fs' t" by (rule finds_facts(3) [OF fd(1)])
    then have t: "unat (fs_index_sectors fs') \<le> unat t" "unat t < fs_sector_count fs'" by (simp_all add: data_sector_def)
    have "fs_sector_count fs' \<le> 65535" using k(1) consistent_facts(5) [OF cs] by (simp add: kept_def)
    then have "t \<noteq> 0xffff" using t(2) by auto
    then have ok: "rec_ok fs' (?slot, t)" "readable fs' (?slot, t)"
      using t fd usable_normalize [of "fffs_hash16 name"] by (auto simp: rec_ok_def readable_def usable_slot_def)
    have "log_slots (butlast rss @ [last rss @ [(?slot, t)]]) = insert ?slot (log_slots rss)"
      by (simp add: log_slots_def concat_add [OF consistent_facts(6) [OF cs]] del: concat_append)
    with logged_consistent [OF cs k shift log full ok] r pb show ?case by blast
  qed
qed

section \<open>A formatted device\<close>

lemma blank_consistent:
  assumes be: "shows_bytes m be" and bi: "blank_index m n shift" and few: "length m div (256 * 2 ^ unat shift) \<le> 65535"
  shows "consistent (fresh_fs be n shift) [[]] 0"
proof -
  define ss :: nat where "ss = 256 * 2 ^ unat shift"
  let ?fs = "fresh_fs be n shift"
  have b: "header_at m 0 0 = Some (n, shift, 0)" "2 \<le> unat n" "unat n \<le> 15" "unat shift \<le> 15" "length m mod ss = 0" "unat n * ss \<le> length m"
    and ff: "\<And>i. 8 \<le> i \<Longrightarrow> i < unat n * ss \<Longrightarrow> m ! i = 0xff"
    using bi by (simp_all add: blank_index_def ss_def)
  have ss: "256 \<le> ss" by (simp add: ss_def)
  have f: "fs_sector_size ?fs = ss" "fs_sector_shift ?fs = shift" "fs_sector_count ?fs = length m div ss" "fs_index_sectors ?fs = n"
    "fs_index_sequence_count ?fs = 1" "fs_next_index_offset ?fs = 8" "fs_index_cache ?fs = replicate 2 zero_bucket" "fs_index_hash_table_size ?fs = 2"
    "fs_oldest_index_sector ?fs = 0" "fs_active_index_sector ?fs = 0" "fs_active_index_serial ?fs = 0" "fs_backend ?fs = be"
    by (simp_all add: fresh_fs_def zero_fs_def ss_def shows_size [OF be])
  have mem: "fmem ?fs = m" using be f(12) by (simp add: fmem_def shows_bytes_def)
  have g: "geom ?fs" "healthy ?fs"
    using be f b(5) ss mem by (simp_all add: geom_def healthy_def fdev_def shows_bytes_def dvd_eq_mod_eq_0)
  have er: "sub_bytes a k m = replicate k 0xff" if "8 \<le> a" "a + k \<le> unat n * ss" for a k
    using that b(6) ff by (intro nth_equalityI) (auto simp: sub_bytes_def)
  have "1 * ss \<le> unat n * ss" by (rule mult_le_mono1) (use b(2) in simp)
  then have one: "ss \<le> length m" "8 + 4 \<le> unat n * ss" "8 + (ss - 8) \<le> unat n * ss" using b(6) ss by linarith+
  have "header_at m ss i = map_option (\<lambda>s. (n, shift, s)) (ring (unat n) 0 1 0 i)" if "i < unat n" for i
  proof (cases "i = 0")
    case True
    with b(1,2) show ?thesis by (simp add: header_at_def ring_def)
  next
    case False
    have "(i + 1) * ss \<le> unat n * ss" using that by (intro mult_le_mono1) simp
    then have hi: "i * ss + 8 \<le> unat n * ss" using ss by (simp add: algebra_simps)
    have "ss \<le> i * ss" using False by (cases i) auto
    then have "8 \<le> i * ss" using ss by linarith
    then have "sub_bytes (i * ss) 8 m = replicate 8 0xff" by (rule er [OF _ hi])
    then have "header_at m ss i = None" unfolding header_at_def by (intro valid_header_ff) simp
    with False that b(2) show ?thesis by (simp add: ring_def)
  qed
  then have jh: "journal_headers m n shift 0 1 0" using b by (simp add: journal_headers_def ss_def ring_def Let_def)
  have sq: "found_sequence n shift 0 1 0 = \<lparr>seq_index_sectors = n, seq_sector_shift = shift, seq_active_serial = 0,
      seq_active_sector = 0, seq_oldest_sector = 0, seq_count = 1\<rparr>"
    using b(2) by (simp add: found_sequence_def found_def Let_def)
  have cnt: "0 < length m div ss" using one(1) ss by (simp add: div_greater_zero_iff)
  have log: "log_run ?fs 0 [[]]" using er [OF _ one(2)] cnt by (simp add: f mem)
  have c: "cache_inv ?fs" "cache_map ?fs = Map.empty"
    using empty_table [of 2] by (simp_all add: cache_inv_def cache_map_def f is_power_of_two_def)
  show ?thesis
    unfolding consistent_def f mem
    using g c jh sq log few er [OF _ one(3)] by (simp add: ss_def [symmetric] erased_span_def mem)
qed

lemma format_rule:
  assumes be: "shows_bytes m be" and ok: "format_ok options (length m) (blk (be_ctx be)) n shift"
  shows "wp (fffs_format options) (\<lambda>r be'. r = Inr () \<and> (\<exists>m'. shows_bytes m' be' \<and> blank_index m' n shift \<and>
    length m' = length m \<and> (\<forall>i. 8 \<le> i \<and> i < 8192 \<and> i < length m \<longrightarrow> m' ! i = 0xff))) be"
proof -
  define ss :: nat where "ss = 256 * 2 ^ unat shift"
  define k where "k = min (max (max ss 8192) (ss * unat n)) (length m)"
  have o: "n = (case options of None \<Rightarrow> 2 | Some opts \<Rightarrow> if fo_index_sectors opts \<noteq> 0 then fo_index_sectors opts else 2)"
    "format_sector_shift (case options of None \<Rightarrow> 0 | Some opts \<Rightarrow> fo_sector_size opts) = Inr shift"
    "2 \<le> n" "n \<le> 15" "length m mod ss = 0" "unat n \<le> length m div ss" "length m div ss \<le> 65535" "k mod blk (be_ctx be) = 0"
    using ok unfolding format_ok_def k_def ss_def by blast+
  have n: "2 \<le> unat n" "unat n \<le> 15" using o(3,4) by (simp_all add: word_le_nat_alt)
  have fits: "unat n * ss \<le> length m"
    using mult_le_mono1 [OF o(6), of ss] div_times_less_eq_dividend [of "length m" ss] by linarith
  have nk: "unat n * ss \<le> k" using fits by (simp add: k_def max_def mult.commute)
  have "1 * 256 \<le> unat n * ss" by (rule mult_le_mono) (use n(1) in \<open>simp_all add: ss_def\<close>)
  then have k8: "8 \<le> k" "k \<le> length m" using nk by (simp_all add: k_def)
  have dev: "fuses be" "good (be_ctx be)" "bmem be = m" using be by (simp_all add: shows_bytes_def)
  have valid: "fffs_valid_backend be" using dev(1) by (simp add: fuses_def uses_def)
  have args: "header_args_ok n shift 0" using o(3,4) format_shift [OF o(2)] by (simp add: header_args_ok_def word_le_nat_alt)
  have pure: "bindm (of_res (Inr v)) f = f v" for v :: u8 and f :: "u8 \<Rightarrow> ('c fffs_backend, unit) op"
    by (rule ext) (simp add: bindm_def of_res_def ret_def)
  have nv: "\<not> \<not> fffs_valid_backend be" using valid by simp
  have chk: "\<not> (n < 2 \<or> n > 15 \<or> length m mod ss \<noteq> 0 \<or> length m div ss < unat n \<or> length m div ss > 65535)"
    using o(3-7) by (simp add: not_less)
  have run: "fffs_format options be = seqm (backend_erase 0 k) (fffs_program_index_header 0 n shift 0) be"
    unfolding fffs_format_def bindm_getm id_apply if_not_P [OF nv] Let_def o(1) [symmetric] o(2) pure ss_def [symmetric] shows_size [OF be]
      if_not_P [OF chk] k_def ..
  show ?thesis
  proof (rule wp_eqI, rule run, unfold wp_seqm, rule backend_erase_rule [OF dev(1)], goal_cases)
    case (1 c)
    let ?be = "be\<lparr>be_ctx := c\<rparr>"
    have mc: "mem c = nor_erase 0 k m" "bmem ?be = mem c" using 1(2) dev(3) by (simp_all add: bmem_def)
    have len: "length (mem c) = length m" using mc k8(2) by (simp add: nor_erase_def)
    have ff: "mem c ! i = 0xff" if "i < k" for i using that mc(1) k8(2) by (simp add: nor_erase_def nth_put_bytes)
    have er: "hdr_bytes ?be 0 = replicate 8 0xff"
      unfolding hdr_bytes_def mc(2) using k8 len ff by (intro nth_equalityI) (auto simp: sub_bytes_def)
    have f: "fuses ?be" using fuses_upd [OF dev(1) 1(1)] len dev(3) by simp
    have gc: "good (be_ctx ?be)" using 1(1) dev(2) by (simp add: bstp_def)
    have "wp (fffs_program_index_header 0 n shift 0) (wrote_header ?be 0 (n, shift, 0)) ?be"
      by (rule program_index_header_rule [OF f _ er args]) (use k8 len mc(2) in simp)
    then show ?case
      unfolding sum.case
    proof (rule wp_mono, goal_cases)
      case (1 r be2)
      then obtain d where d: "be2 = ?be\<lparr>be_ctx := d\<rparr>" "bstp d ?be" "length (mem d) = length m"
        "\<And>i. i < length m \<Longrightarrow> 8 \<le> i \<Longrightarrow> mem d ! i = mem c ! i" "r = Inr ()" "fffs_valid_index_header (sub_bytes 0 8 (mem d)) = Some (n, shift, 0)"
        using gc len mc(2) by (cases r) (auto simp: wrote_header_def hdr_bytes_def bmem_def)
      have "shows_bytes (mem d) be2"
        using d(1,2) fuses_upd [OF f d(2)] d(3) len mc(2) gc by (simp add: shows_bytes_def bstp_def bmem_def)
      moreover have "blank_index (mem d) n shift"
        unfolding blank_index_def ss_def [symmetric]
        using d(3,4,6) ff nk fits o(5) n format_shift [OF o(2)] by (auto simp: header_at_def)
      moreover have "mem d ! i = 0xff" if "8 \<le> i" "i < 8192" "i < length m" for i
        using that d(4) ff [of i] by (simp add: k_def)
      ultimately show ?case using d(3,5) by blast
    qed
  next
    case (2 c)
    then show ?case using dev(2,3) k8(2) o(8) by simp
  qed
qed

lemma empty_stores_nothing: "cache_map fs = Map.empty \<Longrightarrow> \<not> stored fs name content"
proof -
  assume c: "cache_map fs = Map.empty"
  have "\<not> resolves fs name n slot s h r payload" for n slot s h r payload
    by (induction n arbitrary: slot) (simp_all add: c)
  then show ?thesis by (auto simp: stored_def)
qed

end

section \<open>Properties\<close>

text \<open>C2: Files survive a power cycle.  When the flash is consistent (its index headers and journal records are those
  of the mounted state), mounting it succeeds whatever the RAM held, for every choice of cache size that has room for
  the slots in the journal: the flash is unchanged, the rebuilt cache maps every slot as before, exactly the same
  files are stored with the same contents, and the state is consistent again.\<close>

theorem remount_keeps_files:
  assumes "emu.consistent fs rss first" and "mountable options (fs_sector_count fs) (log_slots rss)"
  shows "wp (fffs_mount options) (\<lambda>r g. r = Inr () \<and> emu.fmem g = emu.fmem fs \<and> cache_map g = cache_map fs \<and>
    emu.stored g = emu.stored fs \<and> emu.consistent g rss first) (ram\<lparr>fs_backend := fs_backend fs\<rparr>)"
proof (rule wp_mono [OF emu.mount_rule [OF assms]], goal_cases)
  case (2 r g)
  then have c: "cache_map g = cache_map fs" using emu.consistent_facts(4) assms(1) by metis
  with 2 emu.steady_stored [of fs g] show ?case by (simp add: emu.steady_def)
qed simp


text \<open>C6: A formatted device mounts as an empty file system: whatever the flash and the RAM held, format succeeds and the
  mount that follows succeeds, with an empty index and no stored file.\<close>

theorem format_mounts_empty:
  assumes "emu.shows_bytes m be" and "format_ok fopts (length m) (cfg_sector_size (fl_cfg (be_ctx be))) n shift"
    and "mountable options (length m div (256 * 2 ^ unat shift)) {}"
  shows "wp (fffs_format fopts) (\<lambda>r be'. r = Inr () \<and> wp (fffs_mount options) (\<lambda>r g. r = Inr () \<and> cache_map g = Map.empty \<and>
    (\<forall>name content. \<not> emu.stored g name content)) (ram\<lparr>fs_backend := be'\<rparr>)) be"
proof (rule wp_mono [OF emu.format_rule [OF assms(1,2)]], goal_cases)
  case (1 r be')
  then obtain m' where r: "r = Inr ()" and be': "emu.shows_bytes m' be'" and bi: "blank_index m' n shift" and len: "length m' = length m" by blast
  have "length m' div (256 * 2 ^ unat shift) \<le> 65535" using assms(2) len by (simp add: format_ok_def)
  note cs = emu.blank_consistent [OF be' bi this]
  have dev: "fs_backend (fresh_fs be' n shift) = be'" and cnt: "fs_sector_count (fresh_fs be' n shift) = length m div (256 * 2 ^ unat shift)"
    by (simp_all add: fresh_fs_def zero_fs_def emu.shows_size [OF be'] len)
  have mt: "mountable options (fs_sector_count (fresh_fs be' n shift)) (log_slots [[]])" using assms(3) cnt by (simp add: log_slots_def)
  have "wp (fffs_mount options) (\<lambda>r g. r = Inr () \<and> emu.consistent g [[]] 0 \<and> emu.steady (fresh_fs be' n shift) g) (ram\<lparr>fs_backend := be'\<rparr>)"
    by (rule emu.mount_rule [OF cs mt]) (simp add: dev)
  then show ?case
    using r emu.consistent_facts(4) emu.empty_stores_nothing by (auto elim!: wp_mono)
qed

section \<open>Concrete instances\<close>

text \<open>The device of sixteen sectors, formatted, with the state a mount would give it but for the options.\<close>

definition example_format :: "fffs_format_options option" where
  "example_format = Some \<lparr>fo_index_sectors = 0, fo_sector_size = 256\<rparr>"

definition example_options :: fffs_mount_options where
  "example_options = \<lparr>mo_index_cache_size = 16, mo_index_hash_table_size = 4, mo_scratch = replicate 64 0, mo_scratch_size = 64,
     mo_strict = True, mo_alloc_map = Some [0], mo_alloc_map_words = 1\<rparr>"

definition example_device :: "ffsv_flash fffs_backend" where
  "example_device = fffs_host_backend_from_verify_flash example_flash16"

lemma example_device_shows: "emu.shows_bytes (replicate 4096 0xff) example_device"
  "cfg_sector_size (fl_cfg (be_ctx example_device)) = 256"
  using example_flash16_facts
  by (simp_all add: example_device_def emu.shows_bytes_def emu.fuses_def emu.uses_def emu.bmem_def fffs_host_backend_from_verify_flash_def
      fffs_valid_backend_def)

lemma example_format_ok: "format_ok example_format 4096 256 2 0"
  by (simp add: format_ok_def example_format_def format_sector_shift_def Let_def upt_rec)

lemma example_mountable: "mountable example_options 16 {}" "mountable example_options 16 {slot}"
  using card_mono [of "{slot}" "{slot} - {0}"]
  by (simp_all add: mountable_def example_options_def fffs_index_cache_config_valid_def is_power_of_two_def
      fffs_index_cache_required_size_def fffs_alloc_map_config_valid_def map_words_for_sectors_def)

theorem format_mounts_empty_witness:
  "wp (fffs_format example_format) (\<lambda>r be'. r = Inr () \<and> wp (fffs_mount example_options) (\<lambda>r g. r = Inr () \<and> cache_map g = Map.empty \<and>
    (\<forall>name content. \<not> emu.stored g name content)) (example_fs16\<lparr>fs_backend := be'\<rparr>)) example_device"
  by (rule format_mounts_empty [OF example_device_shows(1), where n = 2 and shift = 0])
    (simp_all add: example_device_shows(2) example_format_ok example_mountable)

definition example_ready :: "ffsv_flash fffs" where
  "example_ready = (fresh_fs (snd (the (fffs_format example_format example_device))) 2 0)\<lparr>fs_scratch_size := 64,
     fs_compaction_reserve_count := 5, fs_compaction_reserve_sectors := [11, 12, 13, 14, 15]\<rparr>"

lemma format_frame: "keeps be_layout (fffs_format options)"
  unfolding fffs_format_def fffs_program_index_header_def Let_def by (intro frame; simp)

lemma example_ready_facts:
  "emu.consistent example_ready [[]] 0" "emu.creatable example_ready p [104, 105] 2" "fs_sector_count example_ready = 16"
  "fs_sector_size example_ready = 256" "fs_index_sectors example_ready = 2" "length (emu.fmem example_ready) = 4096"
  "8 \<le> a \<Longrightarrow> a + k \<le> 4096 \<Longrightarrow> emu.erased_span example_ready a k" "emu.journal_room example_ready slot"
proof -
  define be where "be = snd (the (fffs_format example_format example_device))"
  have "wp (fffs_format example_format) (\<lambda>r be'. r = Inr () \<and> (\<exists>m'. emu.shows_bytes m' be' \<and> blank_index m' 2 0 \<and>
      length m' = length (replicate 4096 0xff :: byte list) \<and>
      (\<forall>i. 8 \<le> i \<and> i < 8192 \<and> i < length (replicate 4096 0xff :: byte list) \<longrightarrow> m' ! i = 0xff))) example_device"
    by (rule emu.format_rule [OF example_device_shows(1)]) (simp add: example_device_shows(2) example_format_ok)
  then obtain m where m0: "fffs_format example_format example_device = Some (Inr (), be)" and m: "emu.shows_bytes m be" "blank_index m 2 0" "length m = 4096" "\<And>i. 8 \<le> i \<Longrightarrow> i < 4096 \<Longrightarrow> m ! i = 0xff"
    unfolding wp_iff be_def by auto
  have cs: "emu.consistent (fresh_fs be 2 0) [[]] 0" by (rule emu.blank_consistent [OF m(1,2)]) (simp add: m(3))
  have e: "example_ready = (fresh_fs be 2 0)\<lparr>fs_scratch_size := 64, fs_compaction_reserve_count := 5,
      fs_compaction_reserve_sectors := [11, 12, 13, 14, 15]\<rparr>" by (simp add: example_ready_def be_def)
  show c: "emu.consistent example_ready [[]] 0"
    by (rule emu.consistent_steady [OF cs]) (use emu.consistent_facts [OF cs] in
      \<open>simp_all add: e emu.steady_def emu.kept_def emu.geom_def emu.fdev_def emu.healthy_def emu.fmem_def emu.place_def cache_inv_def cache_map_def\<close>)
  have f: "fs_sector_size example_ready = 256" "fs_open_files example_ready = []" "fs_next_index_offset example_ready = 8"
    "fs_active_index_sector example_ready = 0" "fs_index_sectors example_ready = 2" "fs_sector_count example_ready = 16"
    "fs_index_hash_table_size example_ready = 2" "fs_alloc_cursor example_ready = 0" "fs_alloc_map example_ready = None"
    "fs_compaction_reserve_count example_ready = 5" "fs_compaction_reserve_sectors example_ready = [11, 12, 13, 14, 15]"
    "fs_scratch_size example_ready = 64" "fs_backend example_ready = be"
    by (simp_all add: e fresh_fs_def zero_fs_def emu.shows_size [OF m(1)] m(3))
  show "fs_sector_count example_ready = 16" "fs_sector_size example_ready = 256" "fs_index_sectors example_ready = 2" by (simp_all add: f)
  show "length (emu.fmem example_ready) = 4096" using m(1,3) by (simp add: emu.fmem_def f emu.shows_bytes_def)
  show er: "emu.erased_span example_ready a k" if "8 \<le> a" "a + k \<le> 4096" for a k
    using that m by (auto simp: emu.erased_span_def emu.fmem_def f emu.shows_bytes_def sub_bytes_def intro!: nth_equalityI)
  have "be_layout be = be_layout example_device" using format_frame m0 unfolding keeps_def by blast
  then have gr: "be_program_granule (fs_backend example_ready) = 4"
    using example_fs16_geom(3) by (simp add: f be_layout_def example_device_def example_fs16_def zero_fs_def)
  note k = emu.consistent_facts [OF c]
  show "emu.journal_room example_ready slot"
    using k(3,4) er [of 8 4] f by (simp add: emu.journal_room_def index_full_def)
  show "emu.creatable example_ready p [104, 105] 2"
    by (rule plain_creatable [OF k(1,2) gr k(3)]) (use k(4) er [of 8 4] er [of 512 256] f example_name in simp_all)
qed

definition example_durable :: "ffsv_flash fffs" where
  "example_durable = snd (the (seqm (fffs_open 5 [104, 105] (FFFS_O_WRONLY OR FFFS_O_CREATE))
     (seqm (fffs_write 5 [1, 2, 3, 4, 5]) (fffs_close 5)) example_ready))"

theorem remount_keeps_files_witness:
  "wp (fffs_mount example_options) (\<lambda>r g. r = Inr () \<and> emu.fmem g = emu.fmem example_durable \<and> emu.stored g [104, 105] [1, 2, 3, 4, 5])
    (example_fs16\<lparr>fs_backend := fs_backend example_durable\<rparr>)"
proof -
  have fit: "length [104 :: byte, 105] + 2 + length [1 :: byte, 2, 3, 4, 5] \<le> fs_sector_size example_ready - 26"
    by (simp add: example_ready_facts)
  from emu.create_consistent [OF example_ready_facts(1,2) fit, of 5]
  obtain rss where pb: "emu.published example_ready [104, 105] [1, 2, 3, 4, 5] example_durable"
    and cs: "emu.consistent example_durable rss 0" and sl: "log_slots rss = {fffs_normalize_slot_base (fffs_hash16 [104, 105])}"
    unfolding example_durable_def wp_iff by (auto simp: log_slots_def)
  have "fs_sector_count example_durable = 16" using pb example_ready_facts(3) by (simp add: emu.published_def emu.kept_def)
  then have "mountable example_options (fs_sector_count example_durable) (log_slots rss)" by (simp add: sl example_mountable)
  from remount_keeps_files [OF cs this, of example_fs16] pb show ?thesis by (elim wp_mono) (simp add: emu.published_def)
qed


end
