(* ===== verification/Verify_Flash_Tools.thy ===== *)
theory Verify_Flash_Tools
  imports Verify_Flash
begin

unbundle bit_operations_syntax

text \<open>
  The rest of the emulator \<^verbatim>\<open>src/verify_flash.c\<close>: configuration presets, copy-on-write clones, blank checks, staged
  programs, corruption, snapshots, image files, image views and the accessors of counters and log.

  Host files are byte lists whose reading and writing succeeds once they are open; a dump of the log is the list
  of its lines.  Releasing memory is not modelled.  The arguments \<^verbatim>\<open>SIZE_MAX\<close> and \<^verbatim>\<open>FFSV_OP_COUNT\<close> of
  \<^verbatim>\<open>ffsv_flash_count_matching\<close>, which match everything, are \<open>None\<close>.
\<close>

abbreviation (input) FFSV_ERR_NOT_BLANK :: int where "FFSV_ERR_NOT_BLANK \<equiv> -5"
abbreviation (input) FFSV_ERR_NO_STAGED_MUTATION :: int where "FFSV_ERR_NO_STAGED_MUTATION \<equiv> -8"

section \<open>Configuration\<close>

datatype ffsv_flash_preset = FFSV_PRESET_TARGET_NOR_NOTES | FFSV_PRESET_ESP32S3_MEASURED

definition ffsv_flash_config_preset :: "ffsv_flash_preset \<Rightarrow> nat \<Rightarrow> int + ffsv_flash_config" where
  "ffsv_flash_config_preset preset total_size =
     (if total_size = 0 then Inl FFSV_ERR_INVALID
      else
        let cfg = \<lparr>cfg_total_size = total_size, cfg_sector_size = 4096, cfg_program_granule = 4,
              cfg_erased_value = 0xff, cfg_erase_cycles = 100000,
              cfg_timing = \<lparr>read_fixed_ns = 73676, read_per_byte_ns = 81, program_fixed_ns = 324295,
                program_per_byte_ns = 2143, erase_fixed_ns = 42000000, erase_per_byte_ns = 0,
                blank_check_fixed_ns = 0, blank_check_per_byte_ns = 391\<rparr>,
              cfg_max_log_entries = 4096\<rparr>;
            cfg = (case preset of
                FFSV_PRESET_TARGET_NOR_NOTES \<Rightarrow> cfg
              | FFSV_PRESET_ESP32S3_MEASURED \<Rightarrow> cfg\<lparr>cfg_program_granule := 16,
                  cfg_timing := (cfg_timing cfg)\<lparr>read_fixed_ns := 64522, read_per_byte_ns := 120,
                    program_fixed_ns := 0, program_per_byte_ns := 5937, erase_fixed_ns := 21269000,
                    blank_check_fixed_ns := 0, blank_check_per_byte_ns := 135\<rparr>\<rparr>)
        in if checked_config cfg \<noteq> 0 then Inl (checked_config cfg) else Inr cfg)"

definition ffsv_flash_create_with_preset :: "ffsv_flash_preset \<Rightarrow> nat \<Rightarrow> int + ffsv_flash" where
  "ffsv_flash_create_with_preset preset total_size =
     (case ffsv_flash_config_preset preset total_size of Inl err \<Rightarrow> Inl err | Inr cfg \<Rightarrow> ffsv_flash_create cfg)"

definition ffsv_flash_cow_clone :: "ffsv_flash \<Rightarrow> ffsv_flash" where
  "ffsv_flash_cow_clone flash = emu_branch_create flash"

section \<open>Blank checks\<close>

definition ffsv_flash_blank_check :: "ffsv_flash \<Rightarrow> nat \<Rightarrow> nat \<Rightarrow> int \<times> ffsv_flash" where
  "ffsv_flash_blank_check flash offset sz =
     (let err = check_range flash offset sz in
      case begin_op FFSV_OP_BLANK_CHECK offset sz flash of
        (rec, inject, flash) \<Rightarrow>
          let finish = (\<lambda>result. finish_op rec FFSV_OP_BLANK_CHECK sz result 0 flash) in
          if err \<noteq> 0 then finish err
          else if inject \<and> fi_phase (fl_failure flash) = FFSV_FAIL_BEFORE then finish (injected_status flash)
          else if \<not> list_all (\<lambda>i. ffsv_flash_image flash ! (offset + i) = cfg_erased_value (fl_cfg flash)) [0..<sz]
          then finish FFSV_ERR_NOT_BLANK
          else finish (if inject then injected_status flash else FFSV_OK))"

section \<open>Staged programs\<close>

definition ffsv_flash_stage_program :: "ffsv_flash \<Rightarrow> nat \<Rightarrow> byte list \<Rightarrow> int \<times> ffsv_flash" where
  "ffsv_flash_stage_program flash offset data =
     (if fl_staged_active flash then (FFSV_ERR_STAGED_BUSY, flash)
      else
        let sz = length data;
            err = check_range flash offset sz;
            err = (if err = 0 then check_alignment offset sz (cfg_program_granule (fl_cfg flash)) else err)
        in case begin_op FFSV_OP_STAGE_PROGRAM offset sz flash of
          (rec, inject, flash) \<Rightarrow>
            let finish = (\<lambda>result. finish_op rec FFSV_OP_STAGE_PROGRAM sz result 0) in
            if err \<noteq> 0 then finish err flash
            else if inject \<and> fi_phase (fl_failure flash) = FFSV_FAIL_BEFORE then finish (injected_status flash) flash
            else finish (if inject then injected_status flash else FFSV_OK)
              (flash\<lparr>fl_staged := \<lparr>sg_active = True, sg_offset = offset, sg_size = sz, sg_data = data\<rparr>\<rparr>))"

definition ffsv_flash_commit_staged :: "ffsv_flash \<Rightarrow> int \<times> ffsv_flash" where
  "ffsv_flash_commit_staged flash =
     (let offset = sg_offset (fl_staged flash); sz = sg_size (fl_staged flash); sq = fl_next_sequence flash in
      case begin_op FFSV_OP_COMMIT_STAGED offset sz flash of
        (rec, inject, flash) \<Rightarrow>
          let finish = finish_op rec FFSV_OP_COMMIT_STAGED sz;
              phase = fi_phase (fl_failure flash); data = sg_data (fl_staged flash);
              sampled = run_program_fault_sampler flash FFSV_OP_COMMIT_STAGED sq offset data;
              result = (if inject \<and> phase \<noteq> FFSV_FAIL_BEFORE then injected_status flash else FFSV_OK)
          in if \<not> fl_staged_active flash
             then finish_op rec FFSV_OP_COMMIT_STAGED 0 FFSV_ERR_NO_STAGED_MUTATION 0 flash
             else if inject \<and> phase = FFSV_FAIL_BEFORE then finish (injected_status flash) 0 flash
             else if inject \<and> phase = FFSV_FAIL_MIDDLE
             then finish result (injected_program_partial flash offset sz)
               ((emu_program_injected_middle offset data flash)\<lparr>fl_staged := no_staged\<rparr>)
             else if sz > 0 \<and> \<not> inject \<and> sampled \<noteq> 0 then finish sampled 0 flash
             else finish result sz ((if sz > 0 then emu_program_range offset data flash else flash)\<lparr>fl_staged := no_staged\<rparr>))"

definition ffsv_flash_drop_staged :: "ffsv_flash \<Rightarrow> int \<times> ffsv_flash" where
  "ffsv_flash_drop_staged flash =
     (let sz = sg_size (fl_staged flash) in
      case begin_op FFSV_OP_DROP_STAGED (sg_offset (fl_staged flash)) sz flash of
        (rec, inject, flash) \<Rightarrow>
          if \<not> fl_staged_active flash
          then finish_op rec FFSV_OP_DROP_STAGED 0 FFSV_ERR_NO_STAGED_MUTATION 0 flash
          else if inject \<and> fi_phase (fl_failure flash) = FFSV_FAIL_BEFORE
          then finish_op rec FFSV_OP_DROP_STAGED sz (injected_status flash) 0 flash
          else finish_op rec FFSV_OP_DROP_STAGED sz (if inject then injected_status flash else FFSV_OK) 0
            (flash\<lparr>fl_staged := no_staged\<rparr>))"

section \<open>Corruption\<close>

definition raw_corrupt :: "nat \<Rightarrow> byte list \<Rightarrow> bool \<Rightarrow> ffsv_flash \<Rightarrow> ffsv_flash" where
  "raw_corrupt offset data xor_data flash =
     fold (\<lambda>(block, off, d, n) flash.
         let b = lfs_emubd_mutblock flash block; bytes = sub_bytes d n data in
         set_block block (b\<lparr>blk_data := put_bytes off
           (if xor_data then map2 (\<lambda>x y. x XOR y) (sub_bytes off n (blk_data b)) bytes else bytes) (blk_data b)\<rparr>) flash)
       (sector_pieces (cfg_sector_size (fl_cfg flash)) offset 0 (length data)) flash"

definition corrupt_with_injection :: "ffsv_flash \<Rightarrow> nat \<Rightarrow> byte list \<Rightarrow> bool \<Rightarrow> int \<times> ffsv_flash" where
  "corrupt_with_injection flash offset data xor_data =
     (let sz = length data; err = check_range flash offset sz in
      case begin_op FFSV_OP_CORRUPT offset sz flash of
        (rec, inject, flash) \<Rightarrow>
          let finish = finish_op rec FFSV_OP_CORRUPT sz; phase = fi_phase (fl_failure flash);
              commit = (if inject \<and> phase = FFSV_FAIL_MIDDLE then injected_partial flash sz 1 else sz);
              result = (if inject \<and> phase \<noteq> FFSV_FAIL_BEFORE then injected_status flash else FFSV_OK)
          in if err \<noteq> 0 then finish err 0 flash
             else if inject \<and> phase = FFSV_FAIL_BEFORE then finish (injected_status flash) 0 flash
             else finish result commit
               (if commit > 0 then raw_corrupt offset (take commit data) xor_data flash else flash))"

definition ffsv_flash_corrupt :: "ffsv_flash \<Rightarrow> nat \<Rightarrow> byte list \<Rightarrow> int \<times> ffsv_flash" where
  "ffsv_flash_corrupt flash offset data = corrupt_with_injection flash offset data False"

definition ffsv_flash_xor :: "ffsv_flash \<Rightarrow> nat \<Rightarrow> byte list \<Rightarrow> int \<times> ffsv_flash" where
  "ffsv_flash_xor flash offset msk = corrupt_with_injection flash offset msk True"

section \<open>Images and snapshots\<close>

definition lfs_emubd_wear :: "ffsv_flash \<Rightarrow> nat \<Rightarrow> u32" where
  "lfs_emubd_wear flash block = (case fl_blocks flash ! block of Some b \<Rightarrow> blk_wear b | None \<Rightarrow> 0)"

definition lfs_emubd_setwear :: "nat \<Rightarrow> u32 \<Rightarrow> ffsv_flash \<Rightarrow> ffsv_flash" where
  "lfs_emubd_setwear block wear flash =
     set_block block ((lfs_emubd_mutblock flash block)\<lparr>blk_wear := wear\<rparr>) flash"

definition ffsv_flash_sector_wear :: "ffsv_flash \<Rightarrow> nat \<Rightarrow> u32" where
  "ffsv_flash_sector_wear flash sector =
     (if sector \<ge> fl_sector_count flash then 0 else lfs_emubd_wear flash sector)"

definition load_sector :: "byte list \<Rightarrow> u32 list option \<Rightarrow> nat \<Rightarrow> ffsv_flash \<Rightarrow> ffsv_flash" where
  "load_sector img wear sector flash =
     (let ss = cfg_sector_size (fl_cfg flash);
          flash = lfs_emubd_setwear sector (case wear of Some w \<Rightarrow> w ! sector | None \<Rightarrow> lfs_emubd_wear flash sector) flash
      in set_block sector ((lfs_emubd_mutblock flash sector)\<lparr>blk_data := sub_bytes (sector * ss) ss img\<rparr>) flash)"

definition raw_load_image :: "byte list \<Rightarrow> u32 list option \<Rightarrow> ffsv_flash \<Rightarrow> int \<times> ffsv_flash" where
  "raw_load_image img wear flash =
     (if length img \<noteq> cfg_total_size (fl_cfg flash) then (FFSV_ERR_INVALID, flash)
      else (FFSV_OK, fold (load_sector img wear) [0..<fl_sector_count flash] flash))"

definition ffsv_flash_load_image :: "byte list \<Rightarrow> ffsv_flash \<Rightarrow> int \<times> ffsv_flash" where
  "ffsv_flash_load_image img flash = raw_load_image img None flash"

text \<open>\<open>None\<close>: the file cannot be opened.\<close>

definition ffsv_flash_load_image_file :: "byte list option \<Rightarrow> ffsv_flash \<Rightarrow> int \<times> ffsv_flash" where
  "ffsv_flash_load_image_file file flash = (case file of
       None \<Rightarrow> (FFSV_ERR_IO, flash)
     | Some bytes \<Rightarrow>
         if length bytes \<noteq> cfg_total_size (fl_cfg flash) then (FFSV_ERR_IO, flash)
         else ffsv_flash_load_image bytes flash)"

definition ffsv_flash_dump_image :: "ffsv_flash \<Rightarrow> byte list" where
  "ffsv_flash_dump_image flash = ffsv_flash_image flash"

record ffsv_flash_snapshot =
  ss_cfg :: ffsv_flash_config
  ss_image :: "byte list"
  ss_wear :: "u32 list"
  ss_size :: nat
  ss_sector_count :: nat
  ss_next_sequence :: u64
  ss_time_ns :: u64

definition ffsv_flash_snapshot_create :: "ffsv_flash \<Rightarrow> ffsv_flash_snapshot" where
  "ffsv_flash_snapshot_create flash =
     \<lparr>ss_cfg = fl_cfg flash, ss_image = ffsv_flash_image flash,
      ss_wear = map (ffsv_flash_sector_wear flash) [0..<fl_sector_count flash],
      ss_size = cfg_total_size (fl_cfg flash), ss_sector_count = fl_sector_count flash,
      ss_next_sequence = fl_next_sequence flash, ss_time_ns = fl_time_ns flash\<rparr>"

definition ffsv_flash_reopen_from_snapshot :: "ffsv_flash_snapshot \<Rightarrow> int + ffsv_flash" where
  "ffsv_flash_reopen_from_snapshot snapshot =
     (if checked_config (ss_cfg snapshot) \<noteq> 0 \<or> ss_size snapshot \<noteq> cfg_total_size (ss_cfg snapshot)
      then Inl FFSV_ERR_INVALID
      else if ss_sector_count snapshot \<noteq> cfg_total_size (ss_cfg snapshot) div cfg_sector_size (ss_cfg snapshot)
      then Inl FFSV_ERR_INVALID
      else case ffsv_flash_create (ss_cfg snapshot) of
          Inl err \<Rightarrow> Inl err
        | Inr flash \<Rightarrow>
            case raw_load_image (ss_image snapshot) (Some (ss_wear snapshot)) flash of
              (err, flash) \<Rightarrow>
                if err \<noteq> 0 then Inl err
                else Inr (flash\<lparr>fl_next_sequence := ss_next_sequence snapshot, fl_time_ns := ss_time_ns snapshot\<rparr>))"

section \<open>Accessors\<close>

definition ffsv_flash_size :: "ffsv_flash \<Rightarrow> nat" where
  "ffsv_flash_size flash = cfg_total_size (fl_cfg flash)"

definition ffsv_flash_image_byte :: "ffsv_flash \<Rightarrow> nat \<Rightarrow> byte" where
  "ffsv_flash_image_byte flash offset =
     (if offset \<ge> cfg_total_size (fl_cfg flash) then 0 else ffsv_flash_image flash ! offset)"

definition ffsv_flash_image_span_is_erased :: "ffsv_flash \<Rightarrow> nat \<Rightarrow> nat \<Rightarrow> bool" where
  "ffsv_flash_image_span_is_erased flash offset sz \<longleftrightarrow> check_range flash offset sz = FFSV_OK \<and>
     list_all (\<lambda>i. ffsv_flash_image flash ! (offset + i) = cfg_erased_value (fl_cfg flash)) [0..<sz]"

definition ffsv_flash_count_matching ::
  "ffsv_flash \<Rightarrow> ffsv_op_type option \<Rightarrow> nat option \<Rightarrow> nat option \<Rightarrow> u64" where
  "ffsv_flash_count_matching flash type sz sector =
     of_nat (length (filter (\<lambda>r. (type = None \<or> type = Some (rec_type r)) \<and> (sz = None \<or> sz = Some (rec_size r)) \<and>
       (sector = None \<or> sector = Some (rec_sector r))) (fl_log flash)))"

definition ffsv_image_view_read :: "ffsv_image_view \<Rightarrow> nat \<Rightarrow> nat \<Rightarrow> int + byte list" where
  "ffsv_image_view_read view offset sz =
     (if offset > iv_size view \<or> sz > iv_size view - offset then Inl FFSV_ERR_INVALID
      else Inr (map (\<lambda>pos. case iv_overlay view of
            Some overlay \<Rightarrow>
              if pos \<ge> iv_overlay_offset view \<and> pos - iv_overlay_offset view < iv_overlay_size view
              then overlay ! (pos - iv_overlay_offset view) else iv_base view ! pos
          | None \<Rightarrow> iv_base view ! pos) [offset..<offset + sz]))"

definition ffsv_image_view_byte :: "ffsv_image_view \<Rightarrow> nat \<Rightarrow> byte" where
  "ffsv_image_view_byte view offset = (case ffsv_image_view_read view offset 1 of Inr bs \<Rightarrow> bs ! 0 | Inl _ \<Rightarrow> 0)"

definition ffsv_op_name :: "ffsv_op_type \<Rightarrow> string" where
  "ffsv_op_name type = (case type of FFSV_OP_READ \<Rightarrow> ''read'' | FFSV_OP_PROGRAM \<Rightarrow> ''program''
     | FFSV_OP_ERASE \<Rightarrow> ''erase'' | FFSV_OP_BLANK_CHECK \<Rightarrow> ''blank_check''
     | FFSV_OP_STAGE_PROGRAM \<Rightarrow> ''stage_program'' | FFSV_OP_COMMIT_STAGED \<Rightarrow> ''commit_staged''
     | FFSV_OP_DROP_STAGED \<Rightarrow> ''drop_staged'' | FFSV_OP_CORRUPT \<Rightarrow> ''corrupt'')"

definition ffsv_status_name :: "int \<Rightarrow> string" where
  "ffsv_status_name status =
     (if status = 0 then ''ok'' else if status = -1 then ''invalid'' else if status = -2 then ''nomem''
      else if status = -3 then ''range'' else if status = -4 then ''alignment'' else if status = -5 then ''not_blank''
      else if status = -6 then ''program_transition'' else if status = -7 then ''staged_busy''
      else if status = -8 then ''no_staged_mutation'' else if status = -9 then ''injected''
      else if status = -10 then ''io'' else ''unknown'')"

datatype log_line =
    LogLine u64 string nat nat nat u64 u64 string bool ffsv_failure_phase nat
  | TimeLine u64 u64 u64 string nat nat string nat

definition ffsv_flash_dump_log :: "ffsv_flash \<Rightarrow> log_line list" where
  "ffsv_flash_dump_log flash = map (\<lambda>r. LogLine (rec_sequence r) (ffsv_op_name (rec_type r)) (rec_offset r)
     (rec_size r) (rec_sector r) (rec_time_before_ns r) (rec_time_after_ns r) (ffsv_status_name (rec_result r))
     (rec_injected r) (rec_injected_phase r) (rec_committed_bytes r)) (fl_log flash)"

definition ffsv_flash_dump_timeline :: "ffsv_flash \<Rightarrow> log_line list" where
  "ffsv_flash_dump_timeline flash = map (\<lambda>r. TimeLine (rec_time_before_ns r) (rec_time_after_ns r) (rec_sequence r)
     (ffsv_op_name (rec_type r)) (rec_offset r) (rec_size r) (ffsv_status_name (rec_result r)) (rec_committed_bytes r))
     (fl_log flash)"

section \<open>Snapshots\<close>

lemma image_mem: "fl_sector_count flash = length (fl_blocks flash) \<Longrightarrow> ffsv_flash_image flash = emu_mem flash"
  by (simp add: ffsv_flash_image_def emu_mem_def lfs_emubd_mutblock_def cong: map_cong)
    (auto intro!: arg_cong [where f = concat] split: option.splits)

text \<open>Loading the first \<open>n\<close> sectors of an image.\<close>

lemma load_sectors:
  assumes "n \<le> length (fl_blocks f)" and g: "g = fold (load_sector img (Some wear)) [0..<n] f"
  shows "fl_cfg g = fl_cfg f" "length (fl_blocks g) = length (fl_blocks f)" "fl_failure g = fl_failure f"
    "fl_sector_count g = fl_sector_count f" "fl_staged g = fl_staged f" "fl_sampler g = fl_sampler f"
    "\<forall>i < length (fl_blocks f). fl_blocks g ! i = (if i < n
       then Some \<lparr>blk_wear = wear ! i, blk_data = sub_bytes (i * cfg_sector_size (fl_cfg f)) (cfg_sector_size (fl_cfg f)) img\<rparr>
       else fl_blocks f ! i)"
  using assms(1) unfolding g
  by (induction n)
    (auto simp: load_sector_def Let_def lfs_emubd_setwear_def set_block_def lfs_emubd_mutblock_def nth_list_update)

text \<open>An image cut into sectors and put together again.\<close>

lemma concat_pieces: "length xs = n * k \<Longrightarrow> concat (map (\<lambda>i. sub_bytes (i * k) k xs) [0..<n]) = xs"
proof (induction n arbitrary: xs)
  case (Suc n)
  have "map (\<lambda>i. sub_bytes (i * k) k xs) [0..<n] = map (\<lambda>i. sub_bytes (i * k) k (take (n * k) xs)) [0..<n]"
  proof (rule map_cong [OF refl])
    fix i assume "i \<in> set [0..<n]"
    then have "Suc i * k \<le> n * k" by (intro mult_le_mono1) simp
    then show "sub_bytes (i * k) k xs = sub_bytes (i * k) k (take (n * k) xs)"
      by (simp add: sub_bytes_def drop_take min_def)
  qed
  moreover have "concat (map (\<lambda>i. sub_bytes (i * k) k (take (n * k) xs)) [0..<n]) = take (n * k) xs"
    using Suc.prems by (intro Suc.IH) simp
  ultimately have "concat (map (\<lambda>i. sub_bytes (i * k) k xs) [0..<n]) = take (n * k) xs" by (simp only:)
  moreover have "sub_bytes (n * k) k xs = drop (n * k) xs" using Suc.prems by (simp add: sub_bytes_def)
  ultimately show ?case by simp
qed simp

lemma load_image_mem:
  assumes ok: "emu_ok f" and count: "fl_sector_count f = length (fl_blocks f)" and len: "length img = cfg_total_size (fl_cfg f)"
    and g: "raw_load_image img (Some wear) f = (st, g)"
  shows "st = 0" "emu_ok g" "emu_mem g = img" "fl_cfg g = fl_cfg f" "fl_failure g = fl_failure f" "fl_staged g = fl_staged f"
    "length (fl_blocks g) = length (fl_blocks f)" "fl_sector_count g = fl_sector_count f" "fl_sampler g = fl_sampler f"
    "i < length (fl_blocks f) \<Longrightarrow> lfs_emubd_wear g i = wear ! i"
proof -
  let ?ss = "cfg_sector_size (fl_cfg f)"
  have st: "st = 0" and gf: "g = fold (load_sector img (Some wear)) [0..<length (fl_blocks f)] f"
    using g len count by (simp_all add: raw_load_image_def)
  note l = load_sectors [OF order_refl gf]
  note size = emu_okD(4) [OF ok]
  have len_i: "length (sub_bytes (i * ?ss) ?ss img) = ?ss" if "i < length (fl_blocks f)" for i
  proof -
    have "Suc i * ?ss \<le> length (fl_blocks f) * ?ss" using that by (intro mult_le_mono1) simp
    then show ?thesis using len size by simp
  qed
  have blk: "fl_blocks g ! i = Some \<lparr>blk_wear = wear ! i, blk_data = sub_bytes (i * ?ss) ?ss img\<rparr>"
    if "i < length (fl_blocks f)" for i using l(7) that by simp
  show "emu_ok g"
    using ok l(1,2) blk len_i by (auto simp: emu_ok_def in_set_conv_nth)
  have "emu_mem g = concat (map (\<lambda>i. sub_bytes (i * ?ss) ?ss img) [0..<length (fl_blocks f)])"
    unfolding emu_mem_def l(2)
    by (intro arg_cong [where f = concat] map_cong refl) (simp add: lfs_emubd_mutblock_def blk)
  then show "emu_mem g = img" using concat_pieces [of img "length (fl_blocks f)" ?ss] len size by simp
  show "i < length (fl_blocks f) \<Longrightarrow> lfs_emubd_wear g i = wear ! i" using blk by (simp add: lfs_emubd_wear_def)
  show "st = 0" "fl_cfg g = fl_cfg f" "fl_failure g = fl_failure f" "fl_staged g = fl_staged f"
    "length (fl_blocks g) = length (fl_blocks f)" "fl_sector_count g = fl_sector_count f" "fl_sampler g = fl_sampler f"
    using st l by simp_all
qed

section \<open>Staged programs\<close>

lemma staged_mem [simp]: "emu_mem (f\<lparr>fl_staged := x\<rparr>) = emu_mem f"
  by (rule same_flash_mem) (simp add: same_flash_def)

lemma stage_program_effect:
  assumes ok: "emu_ok f" and st: "ffsv_flash_stage_program f off data = (0, f1)"
  shows "emu_ok f1" "emu_mem f1 = emu_mem f" "fl_cfg f1 = fl_cfg f" "off + length data \<le> cfg_total_size (fl_cfg f)"
    "fl_staged f1 = \<lparr>sg_active = True, sg_offset = off, sg_size = length data, sg_data = data\<rparr>"
proof -
  obtain rec inject f0 where b: "begin_op FFSV_OP_STAGE_PROGRAM off (length data) f = (rec, inject, f0)" by (metis prod_cases3)
  let ?s = "f0\<lparr>fl_staged := \<lparr>sg_active = True, sg_offset = off, sg_size = length data, sg_data = data\<rparr>\<rparr>"
  have range: "check_range f off (length data) = 0" and fin: "finish_op rec FFSV_OP_STAGE_PROGRAM (length data) 0 0 ?s = (0, f1)"
    using st b by (auto simp: ffsv_flash_stage_program_def Let_def finish_op_def split: if_splits)
  then show "off + length data \<le> cfg_total_size (fl_cfg f)" by (simp add: check_range_iff)
  have "same_flash f1 ?s" using finish_op_same [OF fin] by simp
  then have sf: "same_flash f1 f" using begin_op_same [OF b] by (simp add: same_flash_def)
  show "emu_ok f1" "emu_mem f1 = emu_mem f" "fl_cfg f1 = fl_cfg f"
    using same_flash_ok [OF sf] same_flash_mem [OF sf] sf ok by (simp_all add: same_flash_def)
  show "fl_staged f1 = \<lparr>sg_active = True, sg_offset = off, sg_size = length data, sg_data = data\<rparr>"
    using fin by (auto simp: finish_op_def Let_def split: option.splits)
qed

lemma finish_staged:
  assumes "finish_op rec type sz result n f = (st, g)"
  shows "st = result \<and> emu_mem g = emu_mem f \<and> fl_staged g = fl_staged f"
  using finish_op_same [OF assms] same_flash_mem [of g f] assms
  by (auto simp: finish_op_def Let_def split: option.splits)

lemma begin_staged: "begin_op type off sz f = (rec, inject, g) \<Longrightarrow> fl_staged g = fl_staged f"
  by (auto simp: begin_op_def Let_def add_sector_counts_def split: if_splits)

lemma commit_staged_effect:
  assumes ok: "emu_ok f" and staged: "fl_staged f = \<lparr>sg_active = True, sg_offset = off, sg_size = length data, sg_data = data\<rparr>"
    and fit: "off + length data \<le> cfg_total_size (fl_cfg f)" and cm: "ffsv_flash_commit_staged f = (st, g)"
  shows "torn_program off data (emu_mem f) (emu_mem g)"
    "st = 0 \<Longrightarrow> emu_mem g = nor_program off data (emu_mem f) \<and> \<not> fl_staged_active g"
proof -
  obtain rec inject f1 where b: "begin_op FFSV_OP_COMMIT_STAGED off (length data) f = (rec, inject, f1)" by (metis prod_cases3)
  note s1 = begin_op_same [OF b]
  have ok1: "emu_ok f1" and mem1: "emu_mem f1 = emu_mem f" and cfg: "fl_cfg f1 = fl_cfg f"
    using ok same_flash_ok [OF s1] same_flash_mem [OF s1] s1 by (simp_all add: same_flash_def)
  note mid = injected_middle_mem [OF ok1, of off data, unfolded cfg, OF fit]
    and range = emu_program_range_mem [OF ok1, of off data, unfolded cfg, OF fit]
  have fit': "off + length data \<le> length (emu_mem f)" using fit by (simp add: emu_mem_length [OF ok])
  have nil: "data = [] \<Longrightarrow> emu_program_range off data f1 = f1"
    by (simp add: emu_program_range_def sector_pieces.simps)
  have "\<exists>result n f2. finish_op rec FFSV_OP_COMMIT_STAGED (length data) result n f2 = (st, g) \<and>
      (f2 = f1 \<and> result \<noteq> 0 \<or>
       f2 = (emu_program_injected_middle off data f1)\<lparr>fl_staged := no_staged\<rparr> \<and> result \<noteq> 0 \<or>
       f2 = (emu_program_range off data f1)\<lparr>fl_staged := no_staged\<rparr>)"
    using cm b begin_staged [OF b] staged nil
    by (simp add: ffsv_flash_commit_staged_def Let_def split: if_splits) (metis injected_status_nonzero)+
  then obtain result n f2 where fin: "finish_op rec FFSV_OP_COMMIT_STAGED (length data) result n f2 = (st, g)"
    and f2: "f2 = f1 \<and> result \<noteq> 0 \<or> f2 = (emu_program_injected_middle off data f1)\<lparr>fl_staged := no_staged\<rparr> \<and> result \<noteq> 0 \<or>
       f2 = (emu_program_range off data f1)\<lparr>fl_staged := no_staged\<rparr>" by blast
  have g: "st = result" "emu_mem g = emu_mem f2" "fl_staged g = fl_staged f2"
    using finish_staged [OF fin] by simp_all
  show "torn_program off data (emu_mem f) (emu_mem g)"
    using f2 g mid range mem1 torn_program_done [OF fit'] by auto
  show "st = 0 \<Longrightarrow> emu_mem g = nor_program off data (emu_mem f) \<and> \<not> fl_staged_active g"
    using f2 g range mem1 by (auto simp: no_staged_def)
qed

section \<open>Properties\<close>

text \<open>C35: A snapshot keeps what survives a power cycle: reopening it succeeds and gives an emulator with the same bytes,
  the same wear of every sector, the same operation number and time, and no failure, staged program or sampler.\<close>

theorem snapshot_roundtrip:
  assumes "emu_ok f" "fl_sector_count f = length (fl_blocks f)"
  shows "\<exists>g. ffsv_flash_reopen_from_snapshot (ffsv_flash_snapshot_create f) = Inr g \<and> emu_ok g \<and> emu_mem g = emu_mem f \<and>
    (\<forall>i. ffsv_flash_sector_wear g i = ffsv_flash_sector_wear f i) \<and> fl_next_sequence g = fl_next_sequence f \<and>
    fl_time_ns g = fl_time_ns f \<and> fl_failure g = no_failure \<and> \<not> fl_staged_active g"
proof -
  let ?snap = "ffsv_flash_snapshot_create f"
  have chk: "checked_config (fl_cfg f) = 0" and ff: "cfg_erased_value (fl_cfg f) = 0xff"
    and n: "length (fl_blocks f) = cfg_total_size (fl_cfg f) div cfg_sector_size (fl_cfg f)"
    using assms(1) by (simp_all add: emu_ok_def)
  obtain f0 where f0: "ffsv_flash_create (fl_cfg f) = Inr f0" using chk by (simp add: ffsv_flash_create_def Let_def)
  note e = emu_create [OF f0 ff]
  have c: "fl_sector_count f0 = length (fl_blocks f)" "length (fl_blocks f0) = length (fl_blocks f)"
    "fl_failure f0 = no_failure" "\<not> fl_staged_active f0"
    using f0 chk n by (auto simp: ffsv_flash_create_def Let_def no_staged_def)
  have img: "ffsv_flash_image f = emu_mem f" by (rule image_mem [OF assms(2)])
  define wear where "wear = map (ffsv_flash_sector_wear f) [0..<fl_sector_count f]"
  obtain st g where g: "raw_load_image (emu_mem f) (Some wear) f0 = (st, g)" by fastforce
  note l = load_image_mem [OF e(1) _ _ g, unfolded c emu_mem_length [OF assms(1)] e(5), OF refl refl]
  have "ffsv_flash_sector_wear g i = ffsv_flash_sector_wear f i" for i
    using l(8,10) c assms(2) by (simp add: ffsv_flash_sector_wear_def wear_def)
  moreover have "ffsv_flash_sector_wear (g\<lparr>fl_next_sequence := sq, fl_time_ns := t\<rparr>) i = ffsv_flash_sector_wear g i" for sq t i
    by (simp add: ffsv_flash_sector_wear_def lfs_emubd_wear_def)
  moreover have "emu_mem (g\<lparr>fl_next_sequence := sq, fl_time_ns := t\<rparr>) = emu_mem g"
    "emu_ok (g\<lparr>fl_next_sequence := sq, fl_time_ns := t\<rparr>) = emu_ok g" for sq t
    by (rule same_flash_mem same_flash_ok, simp add: same_flash_def)+
  ultimately show ?thesis
    using chk n assms(2) f0 g l c
    by (simp add: ffsv_flash_reopen_from_snapshot_def ffsv_flash_snapshot_create_def img wear_def)
qed

text \<open>C36: A staged program is a program in two phases.  Staging changes no byte and blocks direct programs; committing
  programs the staged bytes or, when a failure is injected, some part of them; dropping changes no byte.\<close>

theorem staged_program_two_phase:
  assumes "emu_ok f" "ffsv_flash_stage_program f off data = (0, f1)"
  shows "emu_mem f1 = emu_mem f \<and> ffsv_flash_program f1 off' data' = (FFSV_ERR_STAGED_BUSY, f1) \<and>
    (case ffsv_flash_commit_staged f1 of (st, f2) \<Rightarrow> torn_program off data (emu_mem f) (emu_mem f2) \<and>
       (st = 0 \<longrightarrow> emu_mem f2 = nor_program off data (emu_mem f) \<and> \<not> fl_staged_active f2)) \<and>
    (case ffsv_flash_drop_staged f1 of (st, f2) \<Rightarrow> emu_mem f2 = emu_mem f \<and> (st = 0 \<longrightarrow> \<not> fl_staged_active f2))"
proof (intro conjI)
  note s = stage_program_effect [OF assms]
  show "emu_mem f1 = emu_mem f" "ffsv_flash_program f1 off' data' = (FFSV_ERR_STAGED_BUSY, f1)"
    using s by (simp_all add: ffsv_flash_program_def)
  show "case ffsv_flash_commit_staged f1 of (st, f2) \<Rightarrow> torn_program off data (emu_mem f) (emu_mem f2) \<and>
       (st = 0 \<longrightarrow> emu_mem f2 = nor_program off data (emu_mem f) \<and> \<not> fl_staged_active f2)"
    using commit_staged_effect [OF s(1,5)] s(2-4) by (auto split: prod.split)
  obtain rec inject f0 where b: "begin_op FFSV_OP_DROP_STAGED off (length data) f1 = (rec, inject, f0)" by (metis prod_cases3)
  show "case ffsv_flash_drop_staged f1 of (st, f2) \<Rightarrow> emu_mem f2 = emu_mem f \<and> (st = 0 \<longrightarrow> \<not> fl_staged_active f2)"
    using b s begin_staged [OF b] same_flash_mem [OF begin_op_same [OF b]]
    by (auto simp: ffsv_flash_drop_staged_def Let_def no_staged_def split: prod.split
        dest!: finish_staged)
qed

section \<open>Witnesses\<close>

lemma example_flash_fields:
  "fl_sector_count example_flash = length (fl_blocks example_flash)" "\<not> fl_staged_active example_flash"
  "fl_failure example_flash = no_failure"
  by (simp_all add: example_flash_def ffsv_flash_create_def checked_config_def example_config_def Let_def no_staged_def)

theorem snapshot_roundtrip_witness:
  "\<exists>g. ffsv_flash_reopen_from_snapshot (ffsv_flash_snapshot_create example_flash) = Inr g \<and>
     emu_mem g = replicate 1024 0xff"
  using snapshot_roundtrip [OF example_flash_facts(1) example_flash_fields(1)] example_flash_facts(2) by auto

definition example_staged :: ffsv_flash where
  "example_staged = snd (ffsv_flash_stage_program example_flash 8 [1, 2, 3, 4])"

lemma stage_succeeds:
  assumes "\<not> fl_staged_active f" "\<not> fi_enabled (fl_failure f)" "check_range f off (length data) = 0"
    and "check_alignment off (length data) (cfg_program_granule (fl_cfg f)) = 0"
  shows "fst (ffsv_flash_stage_program f off data) = 0"
proof -
  obtain rec inject f0 where b: "begin_op FFSV_OP_STAGE_PROGRAM off (length data) f = (rec, inject, f0)" by (metis prod_cases3)
  have "\<not> inject" using begin_op_fields [OF b] assms(2) by (simp add: op_matches_def)
  then show ?thesis using b assms by (simp add: ffsv_flash_stage_program_def Let_def finish_op_def)
qed

lemma example_staged_ok: "ffsv_flash_stage_program example_flash 8 [1, 2, 3, 4] = (0, example_staged)"
proof -
  have "fst (ffsv_flash_stage_program example_flash 8 [1, 2, 3, 4]) = 0"
    using example_flash_facts example_flash_fields
    by (intro stage_succeeds) (simp_all add: check_range_def check_alignment_def no_failure_def)
  then show ?thesis by (simp add: example_staged_def prod_eq_iff)
qed

theorem staged_program_two_phase_witness:
  "emu_mem example_staged = replicate 1024 0xff \<and>
   (case ffsv_flash_commit_staged example_staged of (st, f2) \<Rightarrow> torn_program 8 [1, 2, 3, 4] (replicate 1024 0xff) (emu_mem f2))"
  using staged_program_two_phase [OF example_flash_facts(1) example_staged_ok] example_flash_facts(2)
  by (auto split: prod.splits)

end
