(* ===== verification/Fffs_Recovery.thy ===== *)
theory Fffs_Recovery
  imports Fffs_Remount Verify_Flash_Tools
begin

unbundle bit_operations_syntax

text \<open>
  Power failure while the journal is written.  A record is programmed in two halves, and each may be left torn; mount
  recognises a torn record at the end of the journal and overwrites it with zeros.  \<open>torn\<close> describes the records it
  refuses, \<open>torn_tail\<close> that it clears one of them, \<open>mount_torn\<close> what the mount of a flash with a torn record gives.
\<close>

context reliable_flash
begin

section \<open>Sectors without a root of a slot\<close>

text \<open>The footer is erased, foreign or tombstoned: a lookup does not read records.\<close>

definition footerless :: "'c fffs \<Rightarrow> u16 \<Rightarrow> bool" where
  "footerless fs s \<longleftrightarrow> (let footer = fffs_decode_sector_footer (footer_bytes fs s) in
     ft_erased footer \<or> ft_type footer \<noteq> FFFS_SECTOR_TYPE_FILE \<or> \<not> ft_magic_valid footer \<or>
     \<not> fffs_lifecycle_is_live (ft_valid_bits footer) (ft_tombstone_bits footer))"

definition silent :: "'c fffs \<Rightarrow> u16 \<Rightarrow> u16 \<Rightarrow> bool" where
  "silent fs s slot \<longleftrightarrow> footerless fs s \<or> (\<exists>serial st rs. sector_holds fs s serial st rs \<and>
     md_closed fs (fmem fs) s (fs_sector_size fs - 10) 0 rs \<and>
     find (\<lambda>r. md_record_matches_slot r slot FFFS_MD_MATCH_LIVE) rs = None)"

lemma read_footerless:
  assumes geom: "geom fs" and sector: "data_sector fs s" and none: "footerless fs s"
  shows "wp (read_md_for_slot s slot mt) (\<lambda>r fs'. looked fs fs' \<and> (\<exists>e. r = Inl e)) fs"
proof -
  have ss: "256 \<le> fs_sector_size fs" using geom by (simp add: geom_def)
  have sc: "unat s < fs_sector_count fs" using sector by (simp add: data_sector_def)
  have valid: "\<not> \<not> valid_data_sector fs s" using sector by (auto simp: valid_data_sector_def data_sector_def)
  show ?thesis
    unfolding read_md_for_slot_def wp_bindm wp_getm sum.case id_apply Let_def if_not_P [OF valid]
  proof (rule wp_mono [OF view_rule [OF geom coherent_fresh sc]], goal_cases)
    case (3 res fs1)
    show ?case
    proof (cases res)
      case (Inr x)
      obtain win where x: "x = (footer_bytes fs s, win)" and v: "viewed fs s 128 fs1 win"
        using 3 Inr footer_bytes_eq [OF geom] by (auto simp: sector_reader_def)
      then have "looked fs fs1" by (auto simp: viewed_def)
      then show ?thesis
        unfolding Inr x sum.case prod.case using none by (simp add: footerless_def Let_def wp_simps)
    qed (use 3 in auto)
  qed (use ss in \<open>auto simp: sector_reader_def\<close>)
qed

lemma read_silent:
  assumes "geom fs" "data_sector fs s" "silent fs s slot"
  shows "wp (fffs_read_file_root_md s slot False None) (\<lambda>r fs'. looked fs fs' \<and> (\<exists>e. r = Inl e)) fs"
proof -
  have "wp (fffs_read_md_for_slot s slot) (\<lambda>r fs'. looked fs fs' \<and> (\<exists>e. r = Inl e)) fs"
    unfolding fffs_read_md_for_slot_def
    using assms(3) read_footerless [OF assms(1,2)] read_md_absent [OF assms(1)] by (auto simp: silent_def)
  then show ?thesis
    unfolding fffs_read_file_root_md_def wp_bindm by (rule wp_mono) auto
qed

lemma md_closed_flash:
  assumes "sub_bytes (unat s * fs_sector_size fs) (fs_sector_size fs) m' = sub_bytes (unat s * fs_sector_size fs) (fs_sector_size fs) m"
    and "(unat s + 1) * fs_sector_size fs \<le> length m" "length m' = length m"
  shows "cursor \<le> fs_sector_size fs \<Longrightarrow> md_closed fs m' s cursor claimed rs = md_closed fs m s cursor claimed rs"
proof (induction rs arbitrary: cursor claimed)
  case Nil
  have same: "m' ! (unat s * fs_sector_size fs + i) = m ! (unat s * fs_sector_size fs + i)" if "i < fs_sector_size fs" for i
    using arg_cong [OF assms(1), of "\<lambda>xs. xs ! i"] that assms(2,3) by (simp add: nth_sub_bytes)
  have "10 < cursor \<Longrightarrow> m' ! (unat s * fs_sector_size fs + (cursor - 1)) = m ! (unat s * fs_sector_size fs + (cursor - 1))"
    by (rule same) (use Nil in simp)
  then show ?case unfolding md_closed.simps by metis
qed simp

lemma silent_cong:
  assumes "geom fs" "kept fs fs'" "data_sector fs s" "silent fs s slot"
    and "sub_bytes (unat s * fs_sector_size fs) (fs_sector_size fs) (fmem fs') = sub_bytes (unat s * fs_sector_size fs) (fs_sector_size fs) (fmem fs)"
  shows "silent fs' s slot"
proof -
  have k: "geom fs'" "fs_sector_size fs' = fs_sector_size fs" "length (fmem fs') = length (fmem fs)" using assms(2) by (simp_all add: kept_def)
  have ss: "256 \<le> fs_sector_size fs" using assms(1) by (simp add: geom_def)
  have fit: "(unat s + 1) * fs_sector_size fs \<le> length (fmem fs)"
    using sector_fits [OF assms(1), of "unat s" "fs_sector_size fs" 0] assms(3) by (simp add: data_sector_def)
  have "footer_bytes fs' s = footer_bytes fs s"
    using sub_bytes_sub_bytes [of "fs_sector_size fs - 10" 10 "fs_sector_size fs" "unat s * fs_sector_size fs" "fmem fs'"]
      sub_bytes_sub_bytes [of "fs_sector_size fs - 10" 10 "fs_sector_size fs" "unat s * fs_sector_size fs" "fmem fs"]
      assms(5) ss footer_bytes_eq [OF assms(1)] footer_bytes_eq [OF k(1)] k(2) by simp
  moreover have "md_closed fs' (fmem fs') s (fs_sector_size fs' - 10) 0 rs = md_closed fs (fmem fs) s (fs_sector_size fs - 10) 0 rs" for rs
    using md_closed_cong [OF k(2)] md_closed_flash [OF assms(5) fit k(3)] k(2) by simp
  ultimately show ?thesis
    using assms(4) holds_cong(1) [OF assms(1-3,5)] by (simp add: silent_def footerless_def)
qed

section \<open>A torn record is cleared\<close>

definition torn :: "'c fffs \<Rightarrow> u16 \<times> u16 \<Rightarrow> bool" where
  "torn fs rec \<longleftrightarrow> rec \<noteq> (0, 0) \<and> rec \<noteq> (0xffff, 0xffff) \<and> (fst rec = 0 \<or> fst rec = 0xffff \<or> snd rec = 0xffff \<or>
     snd rec \<noteq> 0 \<and> (\<not> data_sector fs (snd rec) \<or> silent fs (snd rec) (fst rec)))"

text \<open>\<open>fs\<close> after its record at \<open>e\<close> was overwritten with zeros, with the cache \<open>m\<close>.\<close>

definition cleared :: "'c fffs \<Rightarrow> nat \<Rightarrow> (u16 \<Rightarrow> u16 option) \<Rightarrow> 'c fffs \<Rightarrow> bool" where
  "cleared fs e m g \<longleftrightarrow> kept fs g \<and> fmem g = nor_program e [0, 0, 0, 0] (fmem fs) \<and> place g = place fs \<and>
     fs_next_index_offset g = e + 4 \<and> cache_inv g \<and> cache_map g = m"

lemma clear_rule:
  assumes "rebuilt fs m g" "\<not> fs_strict fs" "e + 4 \<le> length (fmem fs)"
  shows "wp (seqm (clobber_or_reject_active_tail e True) (ret (True, t))) (\<lambda>r g'. r = Inr (True, t) \<and> cleared fs e m g') g"
proof -
  note f = rebuilt_facts [OF assms(1)]
  have lax: "\<not> (fs_strict g \<or> \<not> True)" using f(15) assms(2) by simp
  show ?thesis
    unfolding clobber_or_reject_active_tail_def clobber_active_tail_def wp_seqm wp_bindm wp_getm sum.case id_apply if_not_P [OF lax]
  proof (rule program_rule [OF geom_fdev [OF f(1)]], goal_cases)
    case (1 c)
    have "kept g (set_ctx c g)"
      using 1 f(1-3) assms(3) geom_set_ctx [OF f(1)] stp_healthy by (auto simp: kept_def)
    moreover have "kept fs g" using f(6) by (simp add: steady_def)
    ultimately have "kept fs (set_ctx c g)" by (rule kept_trans [rotated])
    then have "kept fs ((set_ctx c g)\<lparr>fs_next_index_offset := e + 4\<rparr>)"
      unfolding kept_def geom_def fdev_def healthy_def fmem_def by simp metis
    then show ?case
      using 1(2) f(3-5,13)
      by (simp add: wp_simps cleared_def fmem_def cache_inv_def cache_map_def place_def) (simp add: set_ctx_def bmem_def)
  next
    case (2 c)
    then show ?case using f(2,3) assms(3) by simp
  qed
qed

lemma torn_tail:
  assumes geom: "geom fs" "healthy fs" and lax: "\<not> fs_strict fs" and rb: "rebuilt fs m g"
    and chunk: "4 dvd stop - off" "off + nread \<le> stop" "stop \<le> length (fmem fs)" "off + 4 * k = e" "4 * k + 4 \<le> nread"
    and rec: "sub_bytes e 4 (fmem fs) = rec_bytes (slot, head)" "torn fs (slot, head)"
    and rest: "fffs_flash_bytes_erased (sub_bytes (e + 4) (stop - (e + 4)) (fmem fs))"
  shows "wp (replay_records (sub_bytes off nread (fmem fs)) nread off stop True (map (\<lambda>i. 4 * i) [k..<nread div 4]) t)
    (\<lambda>r g'. (\<exists>t'. r = Inr (True, t')) \<and> cleared fs e m g') g" (is "wp _ ?Q g")
proof -
  have "k < nread div 4" using chunk(5) by auto
  then have ps: "map (\<lambda>i. 4 * i) [k..<nread div 4] = 4 * k # map (\<lambda>i. 4 * i) [Suc k..<nread div 4]" by (simp add: upt_conv_Cons)
  have bytes: "sub_bytes (4 * k) 4 (sub_bytes off nread (fmem fs)) = rec_bytes (slot, head)"
    using chunk rec(1) by (simp add: sub_bytes_sub_bytes)
  have "4 * k + 4 \<le> length (sub_bytes off nread (fmem fs))" using chunk by simp
  note ld = rec_load [OF bytes this, unfolded fst_conv snd_conv]
  obtain q where "stop - off = 4 * q" using chunk(1) by (auto simp: dvd_def)
  then have end4: "off + 4 * k + 4 = stop \<or> off + 4 * k + 8 \<le> stop" using chunk(2,5) by presburger
  have nf: "\<not> (slot = 0xffff \<and> head = 0xffff)" "\<not> (slot = 0 \<and> head = 0)" using rec(2) by (auto simp: torn_def)
  note f = rebuilt_facts [OF rb]
  have clear: "wp (seqm (clobber_or_reject_active_tail (off + 4 * k) True) (ret (True, t))) ?Q g'" if "rebuilt fs m g'" for g'
    unfolding chunk(4) by (rule wp_mono [OF clear_rule [OF that lax]]) (use chunk in auto)
  show ?thesis
    unfolding ps replay_records.simps Let_def ld if_not_P [OF nf(1)] if_not_P [OF nf(2)] wp_bindm
  proof (rule wp_mono [OF terminal_rule [OF f(1,2), unfolded f(3), OF refl chunk(2,3,5) end4]], goal_cases)
    case (1 r g1)
    then have r: "r = Inr True" and rb1: "rebuilt fs m g1" using rest rebuilt_looked [OF rb] chunk(4) by simp_all
    note f1 = rebuilt_facts [OF rb1]
    show ?case
    proof (cases "slot = 0 \<or> slot = 0xffff \<or> head = 0xffff")
      case True
      show ?thesis unfolding r sum.case if_P [OF True] by (rule clear [OF rb1])
    next
      case False
      then have h: "\<not> head = 0" "\<not> data_sector fs head \<or> silent fs head slot" using rec(2) by (auto simp: torn_def)
      show ?thesis
      proof (cases "data_sector fs head")
        case True
        then have ds: "\<not> (unat head < unat (fs_index_sectors g1) \<or> unat head \<ge> fs_sector_count g1)" "data_sector g1 head"
          using f1(7,8) by (auto simp: data_sector_def)
        have "silent g1 head slot"
          by (rule silent_cong [OF geom(1) _ True]) (use h True f1(3,6) in \<open>auto simp: steady_def\<close>)
        from read_silent [OF f1(1) ds(2) this] show ?thesis
          unfolding r sum.case if_not_P [OF False] if_not_P [OF h(1)] wp_bindm wp_getm id_apply if_not_P [OF ds(1)] if_True wp_trym
          by (rule wp_mono) (use clear rebuilt_looked [OF rb1] in \<open>auto simp: wp_ret\<close>)
      next
        case False2: False
        then have ds: "unat head < unat (fs_index_sectors g1) \<or> unat head \<ge> fs_sector_count g1"
          using f1(7,8) by (auto simp: data_sector_def)
        show ?thesis
          unfolding r sum.case if_not_P [OF False] if_not_P [OF h(1)] wp_bindm wp_getm id_apply if_P [OF ds] by (rule clear [OF rb1])
      qed
    qed
  qed
qed

section \<open>Mounting a flash with a torn record\<close>

lemma rec_bytes_inject: "rec_bytes a = rec_bytes b \<Longrightarrow> a = b"
  using rec_load [of 0 "rec_bytes a" a] rec_load [of 0 "rec_bytes a" b]
  by (simp add: prod_eq_iff sub_bytes_def rec_bytes_def)

lemma recs_at_cong:
  "recs_at fs m off stop rs \<Longrightarrow> (\<And>a. a + 4 \<le> off + 4 * length rs \<Longrightarrow> sub_bytes a 4 m' = sub_bytes a 4 m) \<Longrightarrow>
    (\<And>r. rec_ok fs r \<Longrightarrow> rec_ok fs' r) \<Longrightarrow> recs_at fs' m' off stop rs"
proof (induction rs arbitrary: off)
  case (Cons r rs)
  from Cons.IH [of "off + 4"] Cons.prems show ?case by simp
qed simp

lemma only_index_bytes:
  "only lo hi (fmem fs) (fmem fs') \<Longrightarrow> kept fs fs' \<Longrightarrow> only lo hi (index_bytes fs) (index_bytes fs')"
  by (simp add: only_def kept_def index_bytes_def)

lemma cleared_hint:
  assumes "cleared g e m h" "rebuilt h (cache_map h) h'" "fs_next_index_offset h' = fs_next_index_offset h"
  shows "cleared g e m h'"
  using assms rebuilt_facts [OF assms(2)] kept_trans [of g h h'] by (simp add: cleared_def steady_def)

lemma cleared_logged:
  assumes cl: "cleared g e m h" and k: "kept fs g" and pl: "place g = place fs" and e: "e = fs_next_index_offset fs"
    and only: "only e (e + 4) (fmem fs) (fmem g)" and fit: "e + 4 \<le> unat (fs_index_sectors fs) * fs_sector_size fs"
      "unat (fs_index_sectors fs) * fs_sector_size fs \<le> length (fmem fs)" and m: "m = cache_map fs"
  shows "kept fs h" "only e (e + 4) (fmem fs) (fmem h)" "logged fs (0, 0) h" "fs_sector_shift h = fs_sector_shift fs"
proof -
  have len: "length (fmem g) = length (fmem fs)" using k by (simp add: kept_def)
  show kh: "kept fs h" using cl k kept_trans by (auto simp: cleared_def)
  show o: "only e (e + 4) (fmem fs) (fmem h)"
    using cl only len fit by (auto simp: cleared_def only_def nth_nor_program)
  have f: "fs_oldest_index_sector h = fs_oldest_index_sector fs" "fs_index_sequence_count h = fs_index_sequence_count fs"
    "fs_active_index_sector h = fs_active_index_sector fs" "fs_active_index_serial h = fs_active_index_serial fs"
    "fs_next_index_offset h = e + 4" "cache_map h = cache_map fs" and sh: "fs_sector_shift h = fs_sector_shift fs"
    using cl pl m by (auto simp: cleared_def place_def)
  show "fs_sector_shift h = fs_sector_shift fs" by (rule sh)
  have z: "sub_bytes e 4 (fmem h) = [0, 0, 0, 0]"
    using cl fit len by (intro nth_equalityI) (auto simp: cleared_def nth_sub_bytes nth_nor_program less_Suc_eq numeral_eq_Suc)
  have "4 \<le> unat (fs_index_sectors fs) * fs_sector_size fs - e" using fit by simp
  then have "sub_bytes e 4 (index_bytes h) = rec_bytes (0, 0)"
    using z kh by (simp add: index_bytes_def kept_def sub_bytes_def drop_take rec_bytes_def fffs_store_le16_def)
  then show "logged fs (0, 0) h"
    using f only_index_bytes [OF o kh] cache_map_0 [of fs] slot_upd_0 [of "cache_map fs"] by (simp add: logged_def e)
qed

lemma replay_torn:
  assumes cs: "consistent fs rss first" and k: "kept fs g" and pl: "place g = place fs" and e: "e = fs_next_index_offset fs"
    and only: "only e (e + 4) (fmem fs) (fmem g)" and room: "\<not> index_full fs"
    and rec: "sub_bytes e 4 (fmem g) = rec_bytes (slot, head)" "torn g (slot, head)"
    and ram: "cache_inv g" "cache_map g = Map.empty" "\<not> fs_strict g" "64 \<le> fs_scratch_size g"
      "card (fst ` set (concat rss) - {0}) \<le> fs_index_hash_table_size g - 1"
  shows "wp fffs_replay_index (\<lambda>r h. r = Inr () \<and> cleared g e (cache_map fs) h) g"
proof -
  define m where "m = replay_map (concat rss) Map.empty"
  have c: "cache_map fs = m" "fs_sector_count fs \<le> 65535" "rss \<noteq> []" "length rss = fs_index_sequence_count fs"
    "fs_sector_size fs = 256 * 2 ^ unat (fs_sector_shift fs)"
    using consistent_facts [OF cs] cs by (simp_all add: m_def consistent_def)
  have p: "fs_oldest_index_sector g = fs_oldest_index_sector fs" "fs_index_sequence_count g = fs_index_sequence_count fs"
    "fs_active_index_sector g = fs_active_index_sector fs" using pl by (simp_all add: place_def)
  have g: "geom g" "healthy g" "fs_sector_size g = fs_sector_size fs" "fs_sector_count g = fs_sector_count fs"
    "fs_index_sectors g = fs_index_sectors fs" "length (fmem g) = length (fmem fs)" using k by (simp_all add: kept_def)
  note t = tail_change [OF cs k p(3) only_index_bytes [OF only [unfolded e] k] room, folded e]
  have at: "active_at g = active_at fs" "active_stop g = active_stop fs" using p(3) g(3) by (simp_all add: active_at_def active_stop_def)
  have cat: "concat rss = concat (butlast rss) @ last rss" using c(3) by (metis append_butlast_last_id concat.simps concat_append append_Nil2)
  then have slots: "fst ` set (concat rss) = fst ` set (concat (butlast rss)) \<union> fst ` set (last rss)" by (metis image_Un set_append)
  have er: "fffs_flash_bytes_erased (sub_bytes (e + 4) (active_stop fs - (e + 4)) (fmem g))"
    using t(2) by (simp add: erased_span_def bytes_erased_all)
  have stop: "active_stop fs \<le> length (fmem g)" using t(6,8) g(6) by simp
  have dv: "4 dvd active_stop fs - active_at fs" "active_at fs \<le> active_stop fs"
    using t(7,10) c(5) by (simp_all add: active_stop_def active_at_def dvd_diff_nat)
  have "dom (replay_map (concat (butlast rss)) Map.empty) \<subseteq> fst ` set (concat (butlast rss))"
    using dom_replay_map [of "concat (butlast rss)" Map.empty] by simp
  then have "card ((dom (replay_map (concat (butlast rss)) Map.empty) \<union> fst ` set (last rss)) - {0}) \<le> card (fst ` set (concat rss) - {0})"
    unfolding slots by (intro card_mono) auto
  then have cap: "card ((dom (replay_map (concat (butlast rss)) Map.empty) \<union> fst ` set (last rss)) - {0}) \<le> fs_index_hash_table_size g - 1"
    using ram(5) by simp
  have recs: "recs_at g (fmem g) (active_at fs) (active_stop fs) (last rss)"
    by (rule recs_at_cong [where fs = fs and m = "fmem fs"]) (use t(4,7,9,10) g in \<open>auto simp: log_at_def rec_ok_def\<close>)
  have nend: "\<not> ends_at (fmem g) e (active_stop fs)"
    using rec t(7) rec_bytes_inject [of "(slot, head)" "(0xffff, 0xffff)"] by (auto simp: ends_at_def erased_rec torn_def)
  show ?thesis
    unfolding c(1)
  proof (rule replay_index_via [OF g(1,2) _ _ ram(1,2), where rss = "butlast rss"], goal_cases)
    case 4
    have "0 < fs_index_sequence_count fs" using c(3) unfolding c(4) [symmetric] by simp
    with c(4) p(2) show ?case by simp
  next
    case 5
    have "card (fst ` set (concat (butlast rss)) - {0}) \<le> card (fst ` set (concat rss) - {0})"
      unfolding slots by (intro card_mono) auto
    with ram(5) show ?case by simp
  next
    case (6 g2 u)
    show ?case
      unfolding at
    proof (rule replay_chunks_via [OF g(1,2) stop _ _ _ 6(1) recs cap, where e = e and mf = m and nx = 0], goal_cases)
      case (2 off nread j g3 t3)
      show ?case by (rule torn_tail [OF g(1,2) ram(3) 2(5,1,2) stop 2(3,4) rec er])
    qed (use t(7,10) ram(4) dv nend 6(2) at cat in \<open>auto simp: m_def replay_map_simps\<close>)
  next
    case (7 h)
    then show ?case using c(2) g(4) by (simp add: cleared_def kept_def)
  next
    case (8 h h')
    then show ?case by (rule cleared_hint)
  qed (use t(3) p c(5) ram(4) g(3) in \<open>simp_all add: dvd_mult\<close>)
qed

lemma mount_torn:
  assumes cs: "consistent fs rss first" and k: "kept fs fs1" and pl: "place fs1 = place fs" and e: "e = fs_next_index_offset fs"
    and only: "only e (e + 4) (fmem fs) (fmem fs1)" and room: "\<not> index_full fs"
    and rec: "sub_bytes e 4 (fmem fs1) = rec_bytes (slot, head)" "torn fs1 (slot, head)"
    and ok: "mountable options (fs_sector_count fs) (log_slots rss)" and lax: "\<not> mo_strict options" and dev: "fs_backend fs0 = fs_backend fs1"
  shows "wp (fffs_mount options) (\<lambda>r g. r = Inr () \<and> consistent g (butlast rss @ [last rss @ [(0, 0)]]) first \<and>
    cache_map g = cache_map fs \<and> kept fs g \<and> only e (e + 4) (fmem fs) (fmem g)) fs0"
proof -
  have act: "fs_active_index_sector fs1 = fs_active_index_sector fs" using pl by (simp add: place_def)
  note t = tail_change [OF cs k act only_index_bytes [OF only [unfolded e] k] room, folded e]
  have hd: "headed fs1 first"
    using consistent_headed [OF cs] k t(1) pl by (simp add: headed_def place_def kept_def)
  have cnt: "fs_sector_count fs1 = fs_sector_count fs" using k by (simp add: kept_def)
  have fit: "e + 4 \<le> unat (fs_index_sectors fs) * fs_sector_size fs" using t(7,8) by simp
  show ?thesis
  proof (rule mount_via [OF hd ok [folded cnt] dev])
    fix g
    assume pr: "primed fs1 options g"
    have st: "steady fs1 g" and plg: "place g = place fs" using pr pl by (simp_all add: primed_def)
    have kg: "kept fs g" and mg: "fmem g = fmem fs1" using st kept_trans [OF k] by (auto simp: steady_def)
    have onlyg: "only e (e + 4) (fmem fs) (fmem g)" using only mg by simp
    have "data_sector g s = data_sector fs1 s" for s using st by (simp add: data_sector_def steady_def kept_def)
    moreover have "silent g head slot" if "silent fs1 head slot" "data_sector fs1 head"
      by (rule silent_cong [OF _ _ that(2,1)]) (use k st in \<open>auto simp: kept_def steady_def\<close>)
    ultimately have torn: "torn g (slot, head)" using rec(2) by (auto simp: torn_def)
    show "wp fffs_replay_index (\<lambda>r h. r = Inr () \<and> consistent h (butlast rss @ [last rss @ [(0, 0)]]) first \<and>
        cache_map h = cache_map fs \<and> kept fs h \<and> only e (e + 4) (fmem fs) (fmem h)) g"
    proof (rule wp_mono [OF replay_torn [OF cs kg plg e onlyg room _ torn]], goal_cases)
      case (7 r h)
      then have cl: "cleared g e (cache_map fs) h" by simp
      note l = cleared_logged [OF cl kg plg e onlyg fit t(6) refl]
      have "consistent h (butlast rss @ [last rss @ [(0, 0)]]) first"
        by (rule logged_consistent [OF cs l(1) _ l(4,3) room]) (use cl in \<open>auto simp: cleared_def rec_ok_def readable_def\<close>)
      with 7 l(1,2) cl show ?case by (auto simp: cleared_def)
    qed (use rec(1) mg pr lax ok in \<open>simp_all add: primed_def mountable_def log_slots_def\<close>)
  qed
qed

section \<open>An interrupted append\<close>

text \<open>A torn head has the bits of \<open>head\<close> and more.  No other sector such a head can name has a root of \<open>slot\<close>, but for
  the one that the journal names already.\<close>

definition unambiguous :: "'c fffs \<Rightarrow> u16 \<Rightarrow> u16 \<Rightarrow> bool" where
  "unambiguous fs slot head \<longleftrightarrow> (\<forall>h. h \<noteq> head \<longrightarrow> head AND h = head \<longrightarrow> data_sector fs h \<longrightarrow>
     silent fs h slot \<or> cache_map fs slot = Some h \<and> readable fs (slot, h))"

text \<open>A record that may be appended.\<close>

definition appendable :: "'c fffs \<Rightarrow> u16 \<Rightarrow> u16 \<Rightarrow> bool" where
  "appendable fs slot head \<longleftrightarrow> journal_room fs slot \<and> slot \<noteq> 0 \<and> rec_ok fs (slot, head) \<and> readable fs (slot, head) \<and>
     unambiguous fs slot head"

definition index_only :: "'c fffs \<Rightarrow> 'c fffs \<Rightarrow> bool" where
  "index_only fs fs' \<longleftrightarrow> kept fs fs' \<and> only (fs_next_index_offset fs) (fs_next_index_offset fs + 4) (fmem fs) (fmem fs')"

lemma index_only_sector:
  assumes "geom fs" "journal_room fs slot" "index_only fs fs'" "data_sector fs s"
  shows "sub_bytes (unat s * fs_sector_size fs) (fs_sector_size fs) (fmem fs') = sub_bytes (unat s * fs_sector_size fs) (fs_sector_size fs) (fmem fs)"
proof (rule sub_bytes_only)
  show "unat s * fs_sector_size fs + fs_sector_size fs \<le> length (fmem fs)"
    using sector_fits [OF assms(1), of "unat s" "fs_sector_size fs" 0] assms(4) by (simp add: data_sector_def)
  have "unat (fs_index_sectors fs) * fs_sector_size fs \<le> unat s * fs_sector_size fs"
    using assms(4) by (intro mult_le_mono1) (simp add: data_sector_def)
  then show "unat s * fs_sector_size fs + fs_sector_size fs \<le> fs_next_index_offset fs \<or> fs_next_index_offset fs + 4 \<le> unat s * fs_sector_size fs"
    using journal_fits(1) [OF assms(1,2)] by linarith
qed (use assms(3) in \<open>simp add: index_only_def\<close>)

lemma index_only_readable:
  assumes "geom fs" "journal_room fs slot" "index_only fs fs'" "readable fs rec"
  shows "readable fs' rec"
proof -
  have "finds fs' s x r" if f: "finds fs s x r" for s x r
    using f holds_cong(1) [OF assms(1) _ finds_facts(3) [OF f] index_only_sector [OF assms(1-3) finds_facts(3) [OF f]]] assms(3)
    by (simp add: finds_def index_only_def)
  with assms(4) show ?thesis by (auto simp: readable_def)
qed

lemma index_only_stored:
  assumes "geom fs" "journal_room fs slot" "index_only fs g" "cache_map g = cache_map fs" "healthy fs"
  shows "stored g = stored fs"
proof -
  have k: "kept fs g" "geom g" "kept g fs" using assms(1,3,5) by (auto simp: index_only_def kept_def)
  have ds: "data_sector g s = data_sector fs s" for s using k(1) by (simp add: data_sector_def kept_def)
  have none: "\<not> data_sector fs 0" using assms(2) by (auto simp: data_sector_def journal_room_def)
  have sz: "fs_sector_size g = fs_sector_size fs" using k(1) by (simp add: kept_def)
  have "spares fs 0 g" "spares g 0 fs" "unused fs 0" "unused g 0"
    using index_only_sector [OF assms(1-3)] k none by (auto simp: spares_def unused_def sector_holds_def ds sz)
  then have "retains fs g" "retains g fs"
    using spares_retains [OF assms(1)] spares_retains [OF k(2)] assms(4) by auto
  then show ?thesis by (auto simp: retains_def fun_eq_iff)
qed

lemma only_same:
  assumes "only e (e + n) m m'" "sub_bytes e n m' = sub_bytes e n m" "e + n \<le> length m"
  shows "m' = m"
proof (rule nth_equalityI)
  fix i assume "i < length m'"
  then show "m' ! i = m ! i"
    using assms(1,3) arg_cong [OF assms(2), of "\<lambda>xs. xs ! (i - e)"] by (cases "e \<le> i \<and> i < e + n") (auto simp: only_def)
qed (use assms(1) in \<open>simp add: only_def\<close>)

text \<open>The state of \<open>fs\<close> on another device whose bytes differ in the record behind the journal.\<close>

lemma moved_facts:
  assumes "geom fs" "shows_bytes M be" "only (fs_next_index_offset fs) (fs_next_index_offset fs + 4) (fmem fs) M"
  shows "index_only fs (fs\<lparr>fs_backend := be\<rparr>)" "kept fs (fs\<lparr>fs_backend := be\<rparr>)" "fmem (fs\<lparr>fs_backend := be\<rparr>) = M"
proof -
  show "fmem (fs\<lparr>fs_backend := be\<rparr>) = M" using assms(2) by (simp add: fmem_def shows_bytes_def)
  show io: "index_only fs (fs\<lparr>fs_backend := be\<rparr>)"
    using assms shows_size [OF assms(2)]
    by (auto simp: index_only_def kept_def geom_def fdev_def healthy_def fmem_def shows_bytes_def only_def)
  then show "kept fs (fs\<lparr>fs_backend := be\<rparr>)" by (simp add: index_only_def)
qed

text \<open>Mounting what an append left behind: a whole record is applied.\<close>

lemma mount_whole:
  assumes cs: "consistent fs rss first" and jr: "journal_room fs slot" "slot \<noteq> 0" and e: "e = fs_next_index_offset fs"
    and be: "shows_bytes M be" and only: "only e (e + 4) (fmem fs) M" and rec: "sub_bytes e 4 M = rec_bytes (slot, h)"
    and fine: "rec_ok fs (slot, h)" "readable fs (slot, h)"
    and ok: "mountable options (fs_sector_count fs) (insert slot (log_slots rss))"
  shows "wp (fffs_mount options) (\<lambda>r g. r = Inr () \<and> (\<exists>rss'. consistent g rss' first) \<and>
    cache_map g = slot_upd (slot, h) (cache_map fs) \<and> index_only fs g) (ram\<lparr>fs_backend := be\<rparr>)"
proof -
  note c = consistent_facts [OF cs]
  note mv = moved_facts [OF c(1) be only [unfolded e]]
  have room: "\<not> index_full fs" using jr(1) by (simp add: journal_room_def)
  let ?fs2 = "fs\<lparr>fs_backend := be, fs_next_index_offset := e + 4\<rparr>"
  from cache_set [of ?fs2 slot h] jr obtain t where
    t: "cache_inv (?fs2\<lparr>fs_index_cache := t\<rparr>)" "cache_map (?fs2\<lparr>fs_index_cache := t\<rparr>) = slot_upd (slot, h) (cache_map fs)"
    by (auto simp: journal_room_def cache_inv_def cache_map_def)
  let ?fs3 = "?fs2\<lparr>fs_index_cache := t\<rparr>"
  let ?rss = "butlast rss @ [last rss @ [(slot, h)]]"
  have io3: "index_only fs ?fs3" using mv(1) unfolding index_only_def kept_def geom_def fdev_def healthy_def fmem_def by simp
  have m3: "fmem ?fs3 = M" using mv(3) by (simp add: fmem_def)
  have k3: "kept fs ?fs3" using io3 by (simp add: index_only_def)
  have "4 \<le> unat (fs_index_sectors fs) * fs_sector_size fs - e" using journal_fits(1) [OF c(1) jr(1)] e by simp
  then have "logged fs (slot, h) ?fs3"
    using only_index_bytes [OF _ k3, of e "e + 4"] only m3 rec t(2)
    by (simp add: logged_def e index_bytes_def sub_bytes_def drop_take)
  from logged_consistent [OF cs k3 t(1) _ this room] fine index_only_readable [OF c(1) jr(1) io3]
  have cs3: "consistent ?fs3 ?rss first" by (simp add: rec_ok_def)
  have "log_slots ?rss = insert slot (log_slots rss)" by (simp add: log_slots_def concat_add [OF c(6)] del: concat_append)
  then have ok3: "mountable options (fs_sector_count ?fs3) (log_slots ?rss)" using ok by simp
  show ?thesis
  proof (rule wp_mono [OF mount_rule [OF cs3 ok3]], simp, goal_cases)
    case (1 r g)
    then have cg: "consistent g ?rss first" and st: "steady ?fs3 g" and r: "r = Inr ()" by simp_all
    have "cache_map g = slot_upd (slot, h) (cache_map fs)" using consistent_facts(4) [OF cg] consistent_facts(4) [OF cs3] t(2) by simp
    moreover have "index_only fs g" using io3 st kept_trans [of fs ?fs3 g] by (simp add: index_only_def steady_def)
    ultimately show ?case using cg r by blast
  qed
qed

text \<open>What an interrupted append can leave: nothing, the record, one that mount clears, or one that names the root the slot
  had before.\<close>

lemma left_behind:
  assumes ap: "appendable fs slot head" and geom: "geom fs" and io: "index_only fs fs'"
    and bits: "h = 0xffff \<or> s = slot \<and> head AND h = head"
  obtains (erased) "s = 0xffff" "h = 0xffff" "(s, h) \<noteq> (slot, head)" | (new) "s = slot" "h = head"
    | (torn) "torn fs' (s, h)" "(s, h) \<noteq> (slot, head)"
    | (old) "s = slot" "h \<noteq> head" "cache_map fs slot = Some h" "readable fs (slot, h)" "rec_ok fs (slot, h)" "h \<noteq> 0"
proof -
  have a: "journal_room fs slot" "slot \<noteq> 0" "rec_ok fs (slot, head)" "unambiguous fs slot head"
    using ap by (simp_all add: appendable_def)
  have nf: "slot \<noteq> 0xffff" "head \<noteq> 0xffff" using a(2,3) by (auto simp: rec_ok_def)
  have k: "kept fs fs'" using io by (simp add: index_only_def)
  consider "h = 0xffff" | "s = slot" "h = head" | "s = slot" "head AND h = head" "h \<noteq> head" "h \<noteq> 0xffff" using bits by blast
  then show thesis
  proof cases
    case 1
    then show ?thesis using that(1,3) nf by (cases "s = 0xffff") (auto simp: torn_def)
  next
    case 2
    then show ?thesis by (rule that(2))
  next
    case 3
    then have h0: "h \<noteq> 0" by auto
    have out: "torn fs' (s, h)" if "\<not> data_sector fs' h \<or> silent fs' h slot" using that 3 h0 nf a(2) by (auto simp: torn_def)
    show ?thesis
    proof (cases "data_sector fs h")
      case True
      then have ro: "rec_ok fs (slot, h)" using 3(4) nf a(2) by (auto simp: rec_ok_def data_sector_def)
      from a(4) 3(2,3) True consider "silent fs h slot" | "cache_map fs slot = Some h" "readable fs (slot, h)"
        unfolding unambiguous_def by blast
      then show ?thesis
      proof cases
        case 1
        have "silent fs' h slot" by (rule silent_cong [OF geom k True 1 index_only_sector [OF geom a(1) io True]])
        with out 3 show ?thesis by (intro that(3)) auto
      qed (use that(4) 3 ro h0 in blast)
    next
      case False
      then have "\<not> data_sector fs' h" using k by (simp add: data_sector_def kept_def)
      with out 3 show ?thesis by (intro that(3)) auto
    qed
  qed
qed

lemma recover_rule_tail:
  assumes cs: "consistent fs rss first" and ap: "appendable fs slot head" and e: "e = fs_next_index_offset fs"
    and be: "shows_bytes M be" and only: "only e (e + 4) (fmem fs) M"
    and rec: "sub_bytes e 4 M = rec_bytes (s, h)" "h = 0xffff \<or> s = slot \<and> head AND h = head"
    and ok: "mountable options (fs_sector_count fs) (insert slot (log_slots rss))" and lax: "\<not> mo_strict options"
  shows "wp (fffs_mount options) (\<lambda>r g. r = Inr () \<and> (\<exists>rss'. consistent g rss' first) \<and>
    ((s, h) \<noteq> (slot, head) \<and> cache_map g = cache_map fs \<and> stored g = stored fs \<or>
     cache_map g = slot_upd (slot, head) (cache_map fs))) (ram\<lparr>fs_backend := be\<rparr>)"
proof -
  note c = consistent_facts [OF cs]
  have a: "journal_room fs slot" "slot \<noteq> 0" "rec_ok fs (slot, head)" "readable fs (slot, head)"
    using ap by (simp_all add: appendable_def)
  have room: "\<not> index_full fs" using a(1) by (simp add: journal_room_def)
  let ?fs = "fs\<lparr>fs_backend := be\<rparr>"
  note mv = moved_facts [OF c(1) be only [unfolded e]]
  have "card (log_slots rss - {0}) \<le> card (insert slot (log_slots rss) - {0})" by (intro card_mono) (auto simp: log_slots_def)
  then have ok0: "mountable options (fs_sector_count fs) (log_slots rss)" using ok by (simp add: mountable_def)
  have keep: "stored g = stored fs" if "index_only fs g" "cache_map g = cache_map fs" for g
    by (rule index_only_stored [OF c(1) a(1) that c(2)])
  note whole = mount_whole [OF cs a(1,2) e be only _ _ _ ok, where ram = ram]
  from ap c(1) mv(1) rec(2) show ?thesis
  proof (cases rule: left_behind)
    case erased
    have "sub_bytes e 4 (fmem fs) = rec_bytes (0xffff, 0xffff)"
      using a(1) erased_rec by (simp add: journal_room_def erased_span_def e)
    then have "sub_bytes e 4 M = sub_bytes e 4 (fmem fs)" using rec(1) erased by simp
    then have "M = fmem fs" by (rule only_same [OF only]) (use journal_fits(2) [OF c(1) a(1)] e in simp)
    then have st: "steady fs ?fs" using mv by (simp add: steady_def)
    have cs1: "consistent ?fs rss first"
      by (rule consistent_steady [OF cs st]) (use c(3) in \<open>simp_all add: place_def cache_inv_def cache_map_def\<close>)
    show ?thesis
    proof (rule wp_mono [OF mount_rule [OF cs1, of options]], goal_cases)
      case (3 r g)
      have "cache_map g = cache_map fs" using 3 consistent_facts(4) [of g rss first] c(4) by simp
      moreover have "steady fs g" using steady_trans [OF st] 3 by blast
      ultimately show ?case using 3 steady_stored [of fs g] erased(3) by blast
    qed (use ok0 in simp_all)
  next
    case new
    with whole [of head] rec(1) a(3,4) show ?thesis by (auto elim!: wp_mono)
  next
    case old
    have "slot_upd (slot, h) (cache_map fs) = cache_map fs" using old(3,6) by (auto simp: slot_upd_def)
    with whole [of h] rec(1) old keep show ?thesis by (auto elim!: wp_mono)
  next
    case torn
    show ?thesis
      by (rule wp_mono [OF mount_torn [OF cs mv(2) _ e _ room _ torn(1) ok0 lax]])
        (use only mv(3) rec(1) torn(2) keep in \<open>auto simp: place_def index_only_def e\<close>)
  qed
qed

text \<open>The append itself, on a device that may fail at any point.\<close>

lemma append_crash:
  assumes cs: "consistent fs rss first" and ap: "appendable fs slot head" and dev: "fuses be" "bmem be = fmem fs"
    and ok: "mountable options (fs_sector_count fs) (insert slot (log_slots rss))" and lax: "\<not> mo_strict options"
  shows "wp (fffs_append_index_record slot head) (\<lambda>r fs1. length (fmem fs1) = length (fmem fs) \<and> (\<forall>be' ram. shows_bytes (fmem fs1) be' \<longrightarrow>
    wp (fffs_mount options) (\<lambda>r' g. r' = Inr () \<and> (\<exists>rss'. consistent g rss' first) \<and>
      (r \<noteq> Inr () \<and> cache_map g = cache_map fs \<and> stored g = stored fs \<or> cache_map g = slot_upd (slot, head) (cache_map fs)))
    (ram\<lparr>fs_backend := be'\<rparr>))) (fs\<lparr>fs_backend := be\<rparr>)"
proof -
  define e where "e = fs_next_index_offset fs"
  let ?fs = "fs\<lparr>fs_backend := be\<rparr>"
  note c = consistent_facts [OF cs]
  have a: "journal_room fs slot" "slot \<noteq> 0" using ap by (simp_all add: appendable_def)
  have full: "\<not> index_full ?fs" using a(1) by (simp add: journal_room_def index_full_def)
  have j: "fdev ?fs" "fs_next_index_offset ?fs + 4 \<le> length (fmem ?fs)" "sub_bytes (fs_next_index_offset ?fs) 4 (fmem ?fs) = replicate 4 0xff"
    using dev journal_fits(2) [OF c(1) a(1)] a(1) by (simp_all add: fdev_def fmem_def journal_room_def erased_span_def)
  note tail = recover_rule_tail [OF cs ap refl _ _ _ _ ok lax]
  show ?thesis (is "wp _ ?Q _")
  proof (rule wp_eqI, rule append_not_full [OF full], unfold wp_seqm, rule wp_mono [OF program_index_record_rule [OF j]], goal_cases)
    case (1 r fs1)
    have mf: "fmem ?fs = fmem fs" "fs_next_index_offset ?fs = e" using dev(2) by (simp_all add: fmem_def e_def)
    from 1 obtain d where d: "fs1 = set_ctx d ?fs"
      and len: "length (mem d) = length (fmem fs)" "\<forall>i < length (fmem fs). \<not> (e \<le> i \<and> i < e + 4) \<longrightarrow> mem d ! i = fmem fs ! i"
      and r: "case r of Inr _ \<Rightarrow> sub_bytes e 4 (mem d) = rec_bytes (slot, head)
        | Inl x \<Rightarrow> x = FFFS_ERR_IO \<and> \<not> healthy ?fs \<and> (\<exists>s h. sub_bytes e 4 (mem d) = rec_bytes (s, h) \<and> (h = 0xffff \<or> s = slot \<and> head AND h = head))"
      unfolding wrote_record_def mf rec_bytes_def fst_conv snd_conv by blast
    have only: "only e (e + 4) (fmem fs) (mem d)" using len by (auto simp: only_def)
    show ?case
    proof (cases r)
      case (Inl x)
      then obtain s h where sh: "sub_bytes e 4 (mem d) = rec_bytes (s, h)" "h = 0xffff \<or> s = slot \<and> head AND h = head" using r by auto
      show ?thesis
        unfolding Inl sum.case
        by (intro conjI allI impI, simp add: d len, rule wp_mono [OF tail [OF _ only [unfolded e_def] sh [unfolded e_def]]]) (auto simp: d)
    next
      case (Inr u)
      then have rec: "sub_bytes e 4 (mem d) = rec_bytes (slot, head)" using r by simp
      let ?fs2 = "fs1\<lparr>fs_next_index_offset := fs_next_index_offset fs1 + 4\<rparr>"
      from cache_set [of ?fs2 slot head] a d obtain t where
        t: "fffs_index_set slot head ?fs2 = Some (Inr (), ?fs2\<lparr>fs_index_cache := t\<rparr>)"
        by (auto simp: journal_room_def cache_inv_def cache_map_def set_ctx_def)
      have m: "fmem (?fs2\<lparr>fs_index_cache := t\<rparr>) = mem d" by (simp add: d fmem_def set_ctx_def bmem_def)
      have "?Q (Inr ()) (?fs2\<lparr>fs_index_cache := t\<rparr>)"
        unfolding m by (intro conjI allI impI, rule len, rule wp_mono [OF tail [OF _ only [unfolded e_def] rec [unfolded e_def]]]) auto
      then have "wp (fffs_index_set slot head) ?Q ?fs2" using t unfolding wp_iff by blast
      then show ?thesis unfolding Inr by (simp add: wp_modm)
    qed
  qed
qed

end
section \<open>Properties\<close>


section \<open>Concrete instances\<close>

text \<open>The formatted device with a program failure armed, and the device after power is back, with the bytes that are left.\<close>

definition example_failing :: "ffsv_flash fffs_backend" where
  "example_failing = (fs_backend example_ready)\<lparr>be_ctx := ffsv_flash_set_failure (no_failure\<lparr>fi_enabled := True,
     fi_sequence := fl_next_sequence (be_ctx (fs_backend example_ready)) + 1, fi_op_mask := 0xff, fi_phase := FFSV_FAIL_MIDDLE, fi_status := -5,
     fi_partial_bytes := 1\<rparr>) (be_ctx (fs_backend example_ready))\<rparr>"

definition example_repowered :: "byte list \<Rightarrow> ffsv_flash fffs_backend" where
  "example_repowered bytes = fffs_host_backend_from_verify_flash (snd (raw_load_image bytes (Some (replicate 16 0)) example_flash16))"

lemma example_failing_facts: "emu.fuses example_failing" "emu.bmem example_failing = emu.fmem example_ready"
proof -
  have be: "emu.fuses (fs_backend example_ready)"
    using emu.consistent_facts(1) [OF example_ready_facts(1)] by (simp add: emu.geom_def emu.fdev_def)
  have blk: "lfs_emubd_mutblock (f\<lparr>fl_failure := x\<rparr>) i = lfs_emubd_mutblock f i" for f :: ffsv_flash and x i
    by (simp add: lfs_emubd_mutblock_def split: option.split)
  have same: "emu_ok (ffsv_flash_set_failure x f) = emu_ok f" "emu_mem (ffsv_flash_set_failure x f) = emu_mem f"
    "fl_cfg (ffsv_flash_set_failure x f) = fl_cfg f" for x f
    by (simp_all add: ffsv_flash_set_failure_def emu_ok_def emu_mem_def blk)
  show "emu.fuses example_failing"
    unfolding example_failing_def emu.fuses_def
    using be by (intro conjI emu.uses_upd) (simp_all add: emu.fuses_def emu.uses_def emu.bmem_def same)
  show "emu.bmem example_failing = emu.fmem example_ready"
    by (simp add: emu.bmem_def emu.fmem_def example_failing_def same)
qed

lemma example_repowered_shows: "length bytes = 4096 \<Longrightarrow> emu.shows_bytes bytes (example_repowered bytes)"
proof -
  assume len: "length bytes = 4096"
  obtain st g where g: "raw_load_image bytes (Some (replicate 16 0)) example_flash16 = (st, g)" by fastforce
  have cnt: "fl_sector_count example_flash16 = length (fl_blocks example_flash16)"
    by (simp add: example_flash16_def ffsv_flash_create_def checked_config_def example_config_def Let_def)
  note f = example_flash16_facts
  have "length bytes = cfg_total_size (fl_cfg example_flash16)" using f len by simp
  note l = load_image_mem [OF _ cnt this g]
  have good: "emu_good g" using f l by (simp add: emu_good_def)
  show ?thesis
    using f l good len
    by (simp add: example_repowered_def g emu.shows_bytes_def emu.fuses_def emu.uses_def emu.bmem_def
        fffs_host_backend_from_verify_flash_def fffs_valid_backend_def)
qed

lemma example_appendable: "slot \<noteq> 0 \<Longrightarrow> slot \<noteq> 0xffff \<Longrightarrow> emu.appendable example_ready slot 0"
proof -
  assume s: "slot \<noteq> 0" "slot \<noteq> 0xffff"
  note e = example_ready_facts
  have "emu.silent example_ready h slot" if "data_sector example_ready h" for h
  proof -
    have h: "2 \<le> unat h" "unat h < 16" using that e(3,5) by (simp_all add: data_sector_def)
    have "emu.footer_bytes example_ready h = replicate 10 0xff"
      using e(7) [of "unat h * 256 + 246" 10] h e(4) emu.footer_bytes_eq [OF emu.consistent_facts(1) [OF e(1)], of h]
      by (simp add: emu.erased_span_def)
    then show ?thesis
      by (simp add: emu.silent_def emu.footerless_def Let_def fffs_decode_sector_footer_def bytes_erased_iff)
  qed
  then show ?thesis
    using s e(8) by (simp add: emu.appendable_def rec_ok_def emu.readable_def emu.unambiguous_def)
qed

definition example_lax :: fffs_mount_options where
  "example_lax = example_options\<lparr>mo_strict := False\<rparr>"


end
