(* ===== verification/Fffs_Nocache.thy ===== *)
theory Fffs_Nocache
  imports Fffs_Open_Files
begin

unbundle bit_operations_syntax

text \<open>
  The index backend without a RAM cache, \<^verbatim>\<open>src/fffs_nocache_index.c\<close>
  (\<^verbatim>\<open>FFFS_INDEX_CACHE_NONE\<close>): every query scans the journal through a window in the scratch buffer.
  The newest record of a slot decides.  The functions carry the prefix \<open>nocache_\<close>.

  A directory keeps the position of its window across calls, also when a call fails, so the scan
  functions return their status as a value.
\<close>

section \<open>The scan window\<close>

record index_scan =
  scan_dir :: "(u32 \<times> nat \<times> nat \<times> nat) option"
    \<comment> \<open>\<^verbatim>\<open>scratch_serial\<close>, \<^verbatim>\<open>cached_seq_pos\<close>, \<^verbatim>\<open>cached_offset\<close>, \<^verbatim>\<open>cached_len\<close> of the directory, if there is one\<close>
  scan_window_size :: nat
  scan_window_start :: nat
  scan_window_len :: nat

definition logical_sector :: "'c fffs \<Rightarrow> nat \<Rightarrow> nat" where
  "logical_sector fs seq_pos = (fs_oldest_index_sector fs + seq_pos) mod unat (fs_index_sectors fs)"

definition logical_sector_begin :: "'c fffs \<Rightarrow> nat \<Rightarrow> nat" where
  "logical_sector_begin fs seq_pos = logical_sector fs seq_pos * fs_sector_size fs + FFFS_HEADER_SIZE"

definition logical_sector_end :: "'c fffs \<Rightarrow> nat \<Rightarrow> nat" where
  "logical_sector_end fs seq_pos =
     (let sector = logical_sector fs seq_pos in
      if sector = fs_active_index_sector fs then fs_next_index_offset fs
      else (sector + 1) * fs_sector_size fs)"

fun candidate_offset_loop :: "nat \<Rightarrow> nat \<Rightarrow> u16 \<Rightarrow> u16 \<Rightarrow> nat option" where
  "candidate_offset_loop 0 d candidate slot = None"
| "candidate_offset_loop (Suc left) d candidate slot =
     (if candidate = slot then Some d
      else candidate_offset_loop left (d + 1) (fffs_next_slot candidate) slot)"

definition candidate_offset :: "u16 \<Rightarrow> u16 \<Rightarrow> nat option" where
  "candidate_offset base slot = candidate_offset_loop (FFFS_MAX_PROBE_DISTANCE + 1) 0 base slot"

definition candidate_slot :: "u16 \<Rightarrow> nat \<Rightarrow> u16" where
  "candidate_slot base offset = (fffs_next_slot ^^ offset) base"

definition index_scan_init :: "'c fffs \<Rightarrow> fffs_dir option \<Rightarrow> index_scan" where
  "index_scan_init fs dir =
     (let size = fs_scratch_size fs - fs_scratch_size fs mod 4;
          blank = \<lparr>scan_dir = map_option (\<lambda>d. (dir_scratch_serial d, dir_cached_seq_pos d,
                     dir_cached_offset d, dir_cached_len d)) dir,
                   scan_window_size = size, scan_window_start = 0, scan_window_len = 0\<rparr>
      in case dir of
           None \<Rightarrow> blank
         | Some d \<Rightarrow>
             if dir_scratch_serial d = fs_scratch_serial fs \<and> dir_cached_len d \<noteq> 0
             then blank\<lparr>scan_window_start := dir_cached_offset d, scan_window_len := dir_cached_len d\<rparr>
             else blank)"

definition index_scan_load :: "index_scan \<Rightarrow> nat \<Rightarrow> ('c, index_scan) fsop" where
  "index_scan_load scan offset = bindm (getm id) (\<lambda>fs.
     if offset \<ge> scan_window_start scan \<and>
        offset + 4 \<le> scan_window_start scan + scan_window_len scan then ret scan
     else
       let sector = offset div fs_sector_size fs;
           first = sector * fs_sector_size fs + FFFS_HEADER_SIZE;
           stop = (sector + 1) * fs_sector_size fs;
           rel = offset - first;
           base = first + rel - rel mod scan_window_size scan;
           nread = min (stop - base) (scan_window_size scan);
           nread = nread - nread mod 4
       in if nread < 4 then throw FFFS_ERR_CORRUPT
          else
            bindm (read_scratch base nread) (\<lambda>_.
            seqm (modm fffs_scratch_bump)
            (bindm (getm fs_scratch_serial) (\<lambda>serial.
              ret (scan\<lparr>scan_window_start := base, scan_window_len := nread,
                scan_dir := map_option (\<lambda>_. (serial, sector, base, nread)) (scan_dir scan)\<rparr>)))))"

text \<open>Slot, head and whether the record is erased.\<close>

definition read_index_at :: "index_scan \<Rightarrow> nat \<Rightarrow> ('c, (u16 \<times> u16 \<times> bool) res \<times> index_scan) fsop" where
  "read_index_at scan offset = bindm (trym (index_scan_load scan offset)) (\<lambda>r. case r of
     Inl err \<Rightarrow> ret (Inl err, scan)
   | Inr scan \<Rightarrow> bindm (getm id) (\<lambda>fs.
       let rec = drop (offset - scan_window_start scan) (fs_scratch fs);
           slot = fffs_load_le16 rec; head = fffs_load_le16 (drop 2 rec)
       in ret (Inr (slot, head, slot = 0xffff \<and> head = 0xffff), scan)))"

section \<open>Newer records\<close>

text \<open>The records of one index sector from \<open>off\<close>; \<open>left\<close> counts those before its end.\<close>

fun newer_in_sector :: "nat \<Rightarrow> nat \<Rightarrow> u16 \<Rightarrow> index_scan \<Rightarrow> ('c, bool res \<times> index_scan) fsop" where
  "newer_in_sector 0 off slot scan = ret (Inr False, scan)"
| "newer_in_sector (Suc left) off slot scan = bindm (read_index_at scan off) (\<lambda>(r, scan). case r of
     Inl err \<Rightarrow> ret (Inl err, scan)
   | Inr (rec_slot, head, erased) \<Rightarrow>
       if erased then ret (Inr False, scan)
       else if rec_slot = 0 \<and> head = 0 then newer_in_sector left (off + 4) slot scan
       else if rec_slot = slot then ret (Inr True, scan)
       else newer_in_sector left (off + 4) slot scan)"

fun newer_in_sectors :: "nat \<Rightarrow> nat \<Rightarrow> nat \<Rightarrow> u16 \<Rightarrow> index_scan \<Rightarrow> ('c, bool res \<times> index_scan) fsop" where
  "newer_in_sectors 0 seq_pos off slot scan = ret (Inr False, scan)"
| "newer_in_sectors (Suc left) seq_pos off slot scan = bindm (getm id) (\<lambda>fs.
     bindm (newer_in_sector ((logical_sector_end fs seq_pos - off) div 4) off slot scan) (\<lambda>(r, scan).
       case r of
         Inl err \<Rightarrow> ret (Inl err, scan)
       | Inr newer \<Rightarrow>
           if newer then ret (Inr True, scan)
           else newer_in_sectors left (seq_pos + 1) (logical_sector_begin fs (seq_pos + 1)) slot scan))"

definition newer_record_for_slot ::
  "index_scan \<Rightarrow> nat \<Rightarrow> nat \<Rightarrow> u16 \<Rightarrow> ('c, bool res \<times> index_scan) fsop" where
  "newer_record_for_slot scan seq_pos offset slot = bindm (getm id) (\<lambda>fs.
     newer_in_sectors (fs_index_sequence_count fs - seq_pos) seq_pos (offset + 4) slot scan)"

section \<open>The index interface\<close>

definition resolve_reached_slot :: "'c fffs \<Rightarrow> u16 \<Rightarrow> u32 list \<Rightarrow> u16 res" where
  "resolve_reached_slot fs base occupied =
     (case find (\<lambda>d. \<not> fffs_bitset_get occupied d \<and> \<not> fffs_slot_is_pinned fs (candidate_slot base d))
        [0..<FFFS_MAX_PROBE_DISTANCE + 1] of
        Some d \<Rightarrow> Inr (candidate_slot base d)
      | None \<Rightarrow> Inl FFFS_ERR_NO_SPACE)"

definition nocache_index_cache_config_valid :: "nat \<Rightarrow> bool" where
  "nocache_index_cache_config_valid table_size = True"

definition nocache_index_cache_required_size :: "nat \<Rightarrow> nat" where
  "nocache_index_cache_required_size table_size = 0"

definition nocache_index_insert :: "u16 \<Rightarrow> u16 \<Rightarrow> ('c, unit) fsop" where
  "nocache_index_insert slot head = ret ()"

definition nocache_index_remove :: "u16 \<Rightarrow> ('c, unit) fsop" where
  "nocache_index_remove slot = ret ()"

definition nocache_index_set :: "u16 \<Rightarrow> u16 \<Rightarrow> ('c, unit) fsop" where
  "nocache_index_set slot head = ret ()"

text \<open>Name resolution scans backwards.  \<open>left\<close> counts the records of the sector not yet visited, so
  the next one is at \<open>first + 4 * (left - 1)\<close> from the end.  The occupied and deleted probe positions
  are two bit sets.\<close>

record nocache_found =
  nf_slot :: u16
  nf_head :: u16
  nf_root :: root_md

fun nocache_resolve_sector ::
  "byte list \<Rightarrow> u16 \<Rightarrow> nat \<Rightarrow> nat \<Rightarrow> u32 list \<Rightarrow> u32 list \<Rightarrow> fffs_read_cache_view option \<Rightarrow> index_scan \<Rightarrow>
   ('c, nocache_found + (u32 list \<times> u32 list \<times> fffs_read_cache_view option \<times> index_scan)) fsop" where
  "nocache_resolve_sector name base 0 off occupied deleted cache scan =
     ret (Inr (occupied, deleted, cache, scan))"
| "nocache_resolve_sector name base (Suc left) off occupied deleted cache scan =
     bindm (read_index_at scan (off - 4)) (\<lambda>(r, scan). bindm (of_res r) (\<lambda>(rec_slot, rec_head, erased).
       let go_on = nocache_resolve_sector name base left (off - 4) in
       if erased then go_on occupied deleted cache scan
       else if rec_slot = 0 \<and> rec_head = 0 then go_on occupied deleted cache scan
       else (case candidate_offset base rec_slot of
           None \<Rightarrow> go_on occupied deleted cache scan
         | Some d \<Rightarrow>
             if fffs_bitset_get occupied d \<or> fffs_bitset_get deleted d
             then go_on occupied deleted cache scan
             else if rec_head = 0 then go_on occupied (fffs_bitset_set deleted d) cache scan
             else bindm (getm id) (\<lambda>fs.
               if unat rec_head < unat (fs_index_sectors fs) \<or> unat rec_head \<ge> fs_sector_count fs
               then throw FFFS_ERR_CORRUPT
               else
                 bindm (fffs_read_file_root_md rec_head rec_slot True cache) (\<lambda>root.
                   if map_option st_name (root_st root) = Some name
                   then ret (Inl \<lparr>nf_slot = rec_slot, nf_head = rec_head, nf_root = root\<rparr>)
                   else go_on (fffs_bitset_set occupied d) deleted (root_cache root) scan)))))"

fun nocache_resolve_sectors ::
  "byte list \<Rightarrow> u16 \<Rightarrow> nat \<Rightarrow> u32 list \<Rightarrow> u32 list \<Rightarrow> fffs_read_cache_view option \<Rightarrow> index_scan \<Rightarrow>
   ('c, nocache_found + u32 list) fsop" where
  "nocache_resolve_sectors name base 0 occupied deleted cache scan = ret (Inr occupied)"
| "nocache_resolve_sectors name base (Suc seq_pos) occupied deleted cache scan = bindm (getm id) (\<lambda>fs.
     let first = logical_sector_begin fs seq_pos; off = logical_sector_end fs seq_pos in
     bindm (nocache_resolve_sector name base ((off - first) div 4) off occupied deleted cache scan)
       (\<lambda>r. case r of
          Inl found \<Rightarrow> ret (Inl found)
        | Inr (occupied, deleted, cache, scan) \<Rightarrow>
            nocache_resolve_sectors name base seq_pos occupied deleted cache scan))"

definition nocache_index_resolve ::
  "byte list \<Rightarrow> fffs_read_cache_view option \<Rightarrow> ('c, nocache_found + u16) fsop" where
  "nocache_index_resolve name cache =
     (if name = [] then throw FFFS_ERR_INVALID
      else if length name > FFFS_MAX_NAME then throw FFFS_ERR_NAME_TOO_LONG
      else
        let base = fffs_normalize_slot_base (fffs_hash16 name) in
        bindm (getm id) (\<lambda>fs.
        bindm (nocache_resolve_sectors name base (fs_index_sequence_count fs) [0, 0] [0, 0] cache
                (index_scan_init fs None)) (\<lambda>r. case r of
            Inl found \<Rightarrow> ret (Inl found)
          | Inr occupied \<Rightarrow> bindm (getm id) (\<lambda>fs.
              bindm (of_res (resolve_reached_slot fs base occupied)) (\<lambda>slot. ret (Inr slot))))))"

text \<open>Iteration: the cursor is a sequence position and an offset; an entry is current when no later
  record names its slot.\<close>

record entry_read =
  er_entry :: "(u16 \<times> u16) option"
  er_cursor :: "nat \<times> nat"
  er_status :: "unit res"
  er_scan :: index_scan

text \<open>One sector: \<open>Inl\<close> leaves with a result, \<open>Inr\<close> goes on behind it.\<close>

fun entry_in_sector ::
  "nat \<Rightarrow> nat \<Rightarrow> nat \<Rightarrow> nat \<times> nat \<Rightarrow> index_scan \<Rightarrow> ('c, entry_read + ((nat \<times> nat) \<times> index_scan)) fsop" where
  "entry_in_sector 0 seq_pos off cursor scan = ret (Inr (cursor, scan))"
| "entry_in_sector (Suc left) seq_pos off cursor scan =
     (let cursor = (seq_pos, off + 4); go_on = entry_in_sector left seq_pos (off + 4) cursor;
          failed = (\<lambda>err scan. ret (Inl \<lparr>er_entry = None, er_cursor = cursor, er_status = Inl err,
            er_scan = scan\<rparr>))
      in bindm (read_index_at scan off) (\<lambda>(r, scan). case r of
        Inl err \<Rightarrow> failed err scan
      | Inr (rec_slot, rec_head, erased) \<Rightarrow>
          if erased then ret (Inr (cursor, scan))
          else if rec_slot = 0 \<and> rec_head = 0 then go_on scan
          else if rec_head = 0 then go_on scan
          else
            bindm (newer_record_for_slot scan seq_pos off rec_slot) (\<lambda>(r, scan). case r of
                Inl err \<Rightarrow> failed err scan
              | Inr newer \<Rightarrow>
                  if newer then go_on scan
                  else ret (Inl \<lparr>er_entry = Some (rec_slot, rec_head), er_cursor = cursor,
                    er_status = Inr (), er_scan = scan\<rparr>))))"

fun entry_in_sectors ::
  "nat \<Rightarrow> nat \<Rightarrow> nat \<Rightarrow> nat \<times> nat \<Rightarrow> index_scan \<Rightarrow> ('c, entry_read) fsop" where
  "entry_in_sectors 0 seq_pos off cursor scan =
     ret \<lparr>er_entry = None, er_cursor = cursor, er_status = Inr (), er_scan = scan\<rparr>"
| "entry_in_sectors (Suc left) seq_pos off cursor scan = bindm (getm id) (\<lambda>fs.
     bindm (entry_in_sector ((logical_sector_end fs seq_pos - off) div 4) seq_pos off cursor scan) (\<lambda>r.
       case r of
         Inl result \<Rightarrow> ret result
       | Inr (cursor, scan) \<Rightarrow>
           let next = logical_sector_begin fs (seq_pos + 1) in
           if left = 0 then entry_in_sectors left (seq_pos + 1) off cursor scan
           else entry_in_sectors left (seq_pos + 1) next (seq_pos + 1, next) scan))"

definition current_index_entry_read ::
  "nat \<times> nat \<Rightarrow> fffs_dir option \<Rightarrow> ('c, entry_read) fsop" where
  "current_index_entry_read cursor dir = bindm (getm id) (\<lambda>fs.
     let off = (if cursor = (0, 0) then logical_sector_begin fs 0 else snd cursor) in
     entry_in_sectors (fs_index_sequence_count fs - fst cursor) (fst cursor) off cursor
       (index_scan_init fs dir))"

definition dir_with_scan :: "fffs_dir \<Rightarrow> entry_read \<Rightarrow> fffs_dir" where
  "dir_with_scan dir e =
     (case scan_dir (er_scan e) of
        None \<Rightarrow> dir
      | Some (serial, seq_pos, off, len) \<Rightarrow> dir\<lparr>dir_scratch_serial := serial,
          dir_cached_seq_pos := seq_pos, dir_cached_offset := off, dir_cached_len := len\<rparr>)
     \<lparr>dir_cursor_seq_pos := fst (er_cursor e), dir_cursor_offset := snd (er_cursor e),
      dir_status := er_status e\<rparr>"

partial_function (option) nocache_index_dir_read ::
  "fffs_dir \<Rightarrow> 'c fffs \<Rightarrow> ((fffs_stat option \<times> fffs_dir) res \<times> 'c fffs) option" where
  "nocache_index_dir_read dir fs =
     bindm (current_index_entry_read (dir_cursor_seq_pos dir, dir_cursor_offset dir) (Some dir)) (\<lambda>e.
       case er_entry e of
         None \<Rightarrow> ret (None, dir_with_scan dir e)
       | Some (slot, head) \<Rightarrow>
           bindm (trym (fffs_read_file_root_md head slot True None)) (\<lambda>r. case r of
               Inl err \<Rightarrow> ret (None, (dir_with_scan dir e)\<lparr>dir_status := Inl err\<rparr>)
             | Inr root \<Rightarrow>
                 if dir_prefix_len dir \<noteq> 0 \<and>
                    take (dir_prefix_len dir) (st_name (the (root_st root))) \<noteq>
                    take (dir_prefix_len dir) (dir_prefix dir)
                 then nocache_index_dir_read (dir_with_scan dir e)
                 else ret (Some (the (root_st root)), (dir_with_scan dir e)\<lparr>dir_status := Inr ()\<rparr>))) fs"

definition nocache_index_iter_read :: "nat \<times> nat \<Rightarrow> ('c, entry_read) fsop" where
  "nocache_index_iter_read cursor = current_index_entry_read cursor None"

text \<open>The head of a slot, scanning backwards.\<close>

fun head_in_sector :: "nat \<Rightarrow> nat \<Rightarrow> u16 \<Rightarrow> index_scan \<Rightarrow> ('c, u16 option \<times> index_scan) fsop" where
  "head_in_sector 0 off slot scan = ret (None, scan)"
| "head_in_sector (Suc left) off slot scan =
     bindm (read_index_at scan (off - 4)) (\<lambda>(r, scan). bindm (of_res r) (\<lambda>(rec_slot, rec_head, erased).
       if erased \<or> rec_slot \<noteq> slot then head_in_sector left (off - 4) slot scan
       else ret (Some rec_head, scan)))"

fun head_in_sectors :: "nat \<Rightarrow> u16 \<Rightarrow> index_scan \<Rightarrow> ('c, u16 option) fsop" where
  "head_in_sectors 0 slot scan = ret None"
| "head_in_sectors (Suc seq_pos) slot scan = bindm (getm id) (\<lambda>fs.
     let first = logical_sector_begin fs seq_pos; off = logical_sector_end fs seq_pos in
     bindm (head_in_sector ((off - first) div 4) off slot scan) (\<lambda>(r, scan). case r of
         Some head \<Rightarrow> ret (if head = 0 then None else Some head)
       | None \<Rightarrow> head_in_sectors seq_pos slot scan))"

definition nocache_index_head_for_slot :: "u16 \<Rightarrow> ('c, u16 option) fsop" where
  "nocache_index_head_for_slot slot = bindm (getm id) (\<lambda>fs.
     head_in_sectors (fs_index_sequence_count fs) slot (index_scan_init fs None))"

definition nocache_index_record_is_current :: "nat \<Rightarrow> nat \<Rightarrow> u16 \<Rightarrow> u16 \<Rightarrow> ('c, bool) fsop" where
  "nocache_index_record_is_current seq_pos offset slot head = bindm (getm id) (\<lambda>fs.
     bindm (newer_record_for_slot (index_scan_init fs None) seq_pos offset slot) (\<lambda>(r, _).
       bindm (of_res r) (\<lambda>newer. ret (\<not> newer))))"

end
