(* ===== verification/Fffs_Inspect.thy ===== *)
theory Fffs_Inspect
  imports Fffs_File
begin

unbundle bit_operations_syntax

text \<open>
  The inspection library, \<^verbatim>\<open>src/fffs_inspect.c\<close>: a second, read-only decoder of an image that works on the backend
  alone, with its consistency summary, its map of live pages, its fragmentation statistics and its dumps, and
  the deterministic workload that exercises a mounted file system.

  Allocation of the host's work arrays is assumed to succeed.  The array of heads, indexed by slot, is a
  function; the arrays indexed by sector are lists.  A structure that C leaves uninitialised is \<open>zero_decoded\<close>; it is
  not read.  A dump is the list of its lines, each a constructor applied to the values the line prints; lines
  written before an error are not kept.  The handle of the workload lives at the address \<open>p\<close>.
\<close>

section \<open>Decoding records\<close>

datatype md_state = MD_ERASED | MD_VALID | MD_TOMBSTONED | MD_CORRUPT | MD_UNCOMMITTED

record decoded_md =
  dm_type :: byte
  dm_state :: byte
  dm_slot :: u16
  dm_data_off :: u16
  dm_data_len :: u16
  dm_next :: u16
  dm_span_len :: u16
  dm_size :: u32
  dm_name :: "byte list"

record fffs_inspect_summary =
  sm_sector_size :: nat
  sm_sector_count :: nat
  sm_index_sectors :: u8
  sm_active_index_sector :: nat
  sm_active_index_serial :: u8
  sm_index_records :: nat
  sm_index_deletes :: nat
  sm_index_corrupt_records :: nat
  sm_live_entries :: nat
  sm_live_entries_corrupt :: nat
  sm_data_sectors_erased :: nat
  sm_data_sectors_owned :: nat
  sm_data_sectors_tombstoned :: nat
  sm_data_sectors_corrupt :: nat
  sm_md_live :: nat
  sm_md_obsolete_orphaned :: nat
  sm_md_tombstoned :: nat
  sm_md_corrupt :: nat

definition zero_decoded :: decoded_md where
  "zero_decoded = \<lparr>dm_type = 0, dm_state = 0, dm_slot = 0, dm_data_off = 0, dm_data_len = 0, dm_next = 0,
     dm_span_len = 0, dm_size = 0, dm_name = []\<rparr>"

text \<open>\<^verbatim>\<open>backend_read\<close> of this file, which checks the range first.\<close>

definition inspect_backend_read :: "nat \<Rightarrow> nat \<Rightarrow> ('c fffs_backend, byte list) op" where
  "inspect_backend_read offset sz = bindm (getm id) (\<lambda>be.
     if offset > be_size be \<or> sz > be_size be - offset then throw FFFS_ERR_RANGE
     else backend_read offset sz)"

text \<open>\<^verbatim>\<open>Some serial\<close> is true with \<^verbatim>\<open>*serial\<close>.\<close>

definition valid_footer :: "fffs_sector_footer \<Rightarrow> u32 option" where
  "valid_footer footer =
     (let live = fffs_lifecycle_is_live (ft_valid_bits footer) (ft_tombstone_bits footer);
          tombstoned = (ft_valid_bits footer \<noteq> FFFS_BITMIRROR_MIXED \<and>
            ft_tombstone_bits footer = FFFS_BITMIRROR_CLEARED)
      in if ft_type footer \<noteq> FFFS_SECTOR_TYPE_FILE \<or> \<not> ft_magic_valid footer \<or> \<not> live \<and> \<not> tombstoned
         then None else Some (ft_serial footer))"

text \<open>\<open>out\<close> is \<^verbatim>\<open>*out\<close> before the call.\<close>

definition decode_md :: "byte list \<Rightarrow> nat \<Rightarrow> decoded_md \<Rightarrow> md_state \<times> decoded_md" where
  "decode_md md data_limit out =
     (if fffs_flash_bytes_erased (take FFFS_MD_FILE_RECORD_SIZE md) then (MD_ERASED, out)
      else
        let valid = fffs_lifecycle_valid_pair (md ! 0);
            tombstone = fffs_lifecycle_tombstone_pair (md ! 0);
            uncommitted = (md ! 0 = 0xff);
            live = fffs_lifecycle_is_live valid tombstone;
            tombstoned = (valid \<noteq> FFFS_BITMIRROR_MIXED \<and>
              (tombstone = FFFS_BITMIRROR_CLEARED \<or> tombstone = FFFS_BITMIRROR_MIXED))
        in if md ! 15 \<noteq> FFFS_MD_TYPE_FILE_ROOT_V1 \<and> md ! 15 \<noteq> FFFS_MD_TYPE_FILE_CONT_V1 then (MD_CORRUPT, out)
           else if \<not> live \<and> \<not> tombstoned \<and> \<not> uncommitted then (MD_CORRUPT, out)
           else
             let data_off = fffs_load_le16 (drop 7 md); data_len = fffs_load_le16 (drop 9 md);
                 span_len = fffs_load_le16 (drop 5 md)
             in if unat data_off + unat data_len > data_limit \<or> \<not> uncommitted \<and> span_len = 0
                then (MD_CORRUPT, out)
                else (if uncommitted then MD_UNCOMMITTED else if tombstoned then MD_TOMBSTONED else MD_VALID,
                  \<lparr>dm_type = md ! 15, dm_state = md ! 0, dm_slot = fffs_load_le16 (drop 1 md),
                   dm_data_off = data_off, dm_data_len = data_len, dm_next = fffs_load_le16 (drop 3 md),
                   dm_span_len = span_len,
                   dm_size = (if md ! 15 = FFFS_MD_TYPE_FILE_ROOT_V1 then fffs_load_le32 (drop 11 md) else 0),
                   dm_name = []\<rparr>))"

definition read_root_name_for_decoded ::
  "fffs_inspect_summary \<Rightarrow> nat \<Rightarrow> decoded_md \<Rightarrow> md_state \<Rightarrow> ('c fffs_backend, decoded_md \<times> md_state) op" where
  "read_root_name_for_decoded summary sector decoded state =
     (if state \<noteq> MD_VALID \<or> dm_type decoded \<noteq> FFFS_MD_TYPE_FILE_ROOT_V1 then ret (decoded, state)
      else
        let base = sector * sm_sector_size summary + unat (dm_data_off decoded) in
        bindm (inspect_backend_read base 1) (\<lambda>b.
          let name_len = unat (b ! 0) in
          if name_len = 0 \<or> name_len > FFFS_MAX_NAME \<or> 1 + name_len + 1 > unat (dm_data_len decoded)
          then ret (decoded, MD_CORRUPT)
          else bindm (inspect_backend_read (base + 1) name_len) (\<lambda>name.
            ret (decoded\<lparr>dm_name := name\<rparr>, state))))"

text \<open>The result is \<^verbatim>\<open>*decoded\<close>, \<^verbatim>\<open>*state\<close> and \<^verbatim>\<open>*record_start\<close>, which every caller has set to 0.\<close>

definition read_record_before ::
  "fffs_inspect_summary \<Rightarrow> nat \<Rightarrow> nat \<Rightarrow> decoded_md \<Rightarrow> ('c fffs_backend, decoded_md \<times> md_state \<times> nat) op" where
  "read_record_before summary sector cursor decoded =
     (if cursor < FFFS_MD_FILE_RECORD_SIZE then ret (decoded, MD_CORRUPT, 0)
      else bindm (inspect_backend_read (sector * sm_sector_size summary + cursor - 1) 1) (\<lambda>t.
        if t ! 0 = 0xff then ret (decoded, MD_ERASED, 0)
        else
          let start = cursor - FFFS_MD_FILE_RECORD_SIZE in
          bindm (inspect_backend_read (sector * sm_sector_size summary + start) FFFS_MD_FILE_RECORD_SIZE) (\<lambda>md.
            case decode_md md start decoded of (state, decoded) \<Rightarrow>
              bindm (read_root_name_for_decoded summary sector decoded state) (\<lambda>(decoded, state).
                ret (decoded, state, start)))))"

section \<open>The journal\<close>

definition discover :: "('c fffs_backend, fffs_inspect_summary) op" where
  "discover = bindm (getm id) (\<lambda>be.
     if be_size be = 0 then throw FFFS_ERR_INVALID
     else bindm fffs_find_index_sequence (\<lambda>sequence.
       let sector_size = 256 * 2 ^ unat (seq_sector_shift sequence) in
       if be_size be mod sector_size \<noteq> 0 \<or> be_size be div sector_size > 0xffff then throw FFFS_ERR_CORRUPT
       else ret \<lparr>sm_sector_size = sector_size, sm_sector_count = be_size be div sector_size,
         sm_index_sectors = seq_index_sectors sequence, sm_active_index_sector = seq_active_sector sequence,
         sm_active_index_serial = seq_active_serial sequence, sm_index_records = 0, sm_index_deletes = 0,
         sm_index_corrupt_records = 0, sm_live_entries = 0, sm_live_entries_corrupt = 0,
         sm_data_sectors_erased = 0, sm_data_sectors_owned = 0, sm_data_sectors_tombstoned = 0,
         sm_data_sectors_corrupt = 0, sm_md_live = 0, sm_md_obsolete_orphaned = 0, sm_md_tombstoned = 0,
         sm_md_corrupt = 0\<rparr>))"

type_synonym live_heads = "u16 \<Rightarrow> u16"

text \<open>The offsets of the records of the active index sector.\<close>

definition active_index_offsets :: "fffs_inspect_summary \<Rightarrow> nat list" where
  "active_index_offsets summary =
     (let off = sm_active_index_sector summary * sm_sector_size summary + FFFS_HEADER_SIZE;
          stop = (sm_active_index_sector summary + 1) * sm_sector_size summary
      in map (\<lambda>i. off + 4 * i) [0..<(stop - off) div 4])"

definition head_out_of_range :: "fffs_inspect_summary \<Rightarrow> u16 \<Rightarrow> bool" where
  "head_out_of_range summary head \<longleftrightarrow>
     unat head < unat (sm_index_sectors summary) \<or> unat head \<ge> sm_sector_count summary"

fun replay_active_loop ::
  "fffs_inspect_summary \<Rightarrow> nat list \<Rightarrow> live_heads \<Rightarrow> ('c fffs_backend, live_heads) op" where
  "replay_active_loop summary [] heads = ret heads"
| "replay_active_loop summary (off # offs) heads = bindm (inspect_backend_read off 4) (\<lambda>rec.
     let slot = fffs_load_le16 rec; head = fffs_load_le16 (drop 2 rec) in
     if slot = 0xffff \<and> head = 0xffff then ret heads
     else if slot = 0 \<and> head = 0 then replay_active_loop summary offs heads
     else if head = 0 then replay_active_loop summary offs (heads(slot := 0))
     else if head_out_of_range summary head then throw FFFS_ERR_CORRUPT
     else replay_active_loop summary offs (heads(slot := head)))"

definition replay_active_index :: "fffs_inspect_summary \<Rightarrow> live_heads \<Rightarrow> ('c fffs_backend, live_heads) op" where
  "replay_active_index summary heads = replay_active_loop summary (active_index_offsets summary) heads"

fun inspect_index_loop :: "nat list \<Rightarrow> fffs_inspect_summary \<Rightarrow> live_heads \<Rightarrow>
    ('c fffs_backend, fffs_inspect_summary \<times> live_heads) op" where
  "inspect_index_loop [] summary heads = ret (summary, heads)"
| "inspect_index_loop (off # offs) summary heads = bindm (inspect_backend_read off 4) (\<lambda>rec.
     let slot = fffs_load_le16 rec; head = fffs_load_le16 (drop 2 rec);
         counted = summary\<lparr>sm_index_records := sm_index_records summary + 1\<rparr>
     in if slot = 0xffff \<and> head = 0xffff then ret (summary, heads)
        else if slot = 0 \<and> head = 0 then inspect_index_loop offs summary heads
        else if head = 0
        then inspect_index_loop offs (counted\<lparr>sm_index_deletes := sm_index_deletes counted + 1\<rparr>) (heads(slot := 0))
        else if head_out_of_range summary head
        then inspect_index_loop offs
          (counted\<lparr>sm_index_corrupt_records := sm_index_corrupt_records counted + 1\<rparr>) heads
        else inspect_index_loop offs counted (heads(slot := head)))"

definition inspect_index :: "fffs_inspect_summary \<Rightarrow> live_heads \<Rightarrow>
    ('c fffs_backend, fffs_inspect_summary \<times> live_heads) op" where
  "inspect_index summary heads =
     bindm (inspect_index_loop (active_index_offsets summary) summary heads) (\<lambda>(summary, heads).
       ret (summary\<lparr>sm_live_entries := sm_live_entries summary +
         length (filter (\<lambda>slot. heads (of_nat slot) \<noteq> 0) [0..<FFFS_SLOT_COUNT])\<rparr>, heads))"

section \<open>Chains\<close>

definition sector_footer_view :: "fffs_inspect_summary \<Rightarrow> nat \<Rightarrow> ('c fffs_backend, fffs_sector_footer) op" where
  "sector_footer_view summary sector =
     bindm (inspect_backend_read (sector * sm_sector_size summary + sm_sector_size summary - FFFS_SECTOR_FOOTER_SIZE)
       FFFS_SECTOR_FOOTER_SIZE) (\<lambda>footer. ret (fffs_decode_sector_footer footer))"

definition claim_end :: "nat \<Rightarrow> decoded_md \<Rightarrow> nat" where
  "claim_end claimed_data_end decoded = max claimed_data_end (unat (dm_data_off decoded) + unat (dm_data_len decoded))"

partial_function (option) read_decoded_loop :: "fffs_inspect_summary \<Rightarrow> nat \<Rightarrow> u16 \<Rightarrow> nat \<Rightarrow> nat \<Rightarrow> decoded_md \<Rightarrow>
    md_state \<Rightarrow> 'c fffs_backend \<Rightarrow> ((decoded_md \<times> md_state) res \<times> 'c fffs_backend) option" where
  "read_decoded_loop summary sector want_slot cursor claimed decoded state be =
     (if \<not> cursor > FFFS_SECTOR_FOOTER_SIZE then ret (decoded, state) be
      else bindm (read_record_before summary sector cursor decoded) (\<lambda>(decoded, state, start).
        if state = MD_ERASED \<or> state = MD_CORRUPT then ret (decoded, state)
        else if state = MD_TOMBSTONED \<or> state = MD_UNCOMMITTED \<or> dm_slot decoded \<noteq> want_slot
        then if start \<le> claim_end claimed decoded then ret (decoded, state)
          else read_decoded_loop summary sector want_slot start (claim_end claimed decoded) decoded state
        else ret (decoded, state)) be)"

definition read_decoded_md :: "fffs_inspect_summary \<Rightarrow> nat \<Rightarrow> u16 \<Rightarrow> ('c fffs_backend, decoded_md \<times> md_state) op" where
  "read_decoded_md summary sector want_slot = bindm (sector_footer_view summary sector) (\<lambda>view.
     if valid_footer view = None then ret (zero_decoded, MD_CORRUPT)
     else read_decoded_loop summary sector want_slot (sm_sector_size summary - FFFS_SECTOR_FOOTER_SIZE) 0
       zero_decoded MD_CORRUPT)"

text \<open>\<open>left\<close> is how many more extents the depth limit allows.\<close>

fun record_reachable_loop ::
  "fffs_inspect_summary \<Rightarrow> u16 \<Rightarrow> nat \<Rightarrow> nat \<Rightarrow> u16 \<Rightarrow> ('c fffs_backend, bool) op" where
  "record_reachable_loop summary slot sector 0 current = ret False"
| "record_reachable_loop summary slot sector (Suc left) current =
     (if current = 0 \<or> head_out_of_range summary current then ret False
      else bindm (read_decoded_md summary (unat current) slot) (\<lambda>(decoded, state).
        if state \<noteq> MD_VALID \<or> dm_slot decoded \<noteq> slot then ret False
        else if sector \<ge> unat current \<and> sector < unat current + unat (dm_span_len decoded) then ret True
        else record_reachable_loop summary slot sector left (dm_next decoded)))"

definition record_reachable_for_slot ::
  "fffs_inspect_summary \<Rightarrow> live_heads \<Rightarrow> u16 \<Rightarrow> nat \<Rightarrow> ('c fffs_backend, bool) op" where
  "record_reachable_for_slot summary heads slot sector =
     record_reachable_loop summary slot sector (sm_sector_count summary) (heads slot)"

text \<open>The sectors of one span, up to the end of the device; the flag is \<^verbatim>\<open>corrupt\<close>.\<close>

fun mark_span :: "fffs_inspect_summary \<Rightarrow> nat \<Rightarrow> nat list \<Rightarrow> bool list \<Rightarrow> bool \<times> bool list" where
  "mark_span summary current [] reachable = (False, reachable)"
| "mark_span summary current (i # is) reachable =
     (if current + i \<ge> sm_sector_count summary then (True, reachable)
      else mark_span summary current is (reachable[current + i := True]))"

record chain_marks =
  cm_reachable :: "bool list"
  cm_span_heads :: "bool list"
  cm_seen_root :: "u16 \<Rightarrow> bool"

fun mark_chain_loop :: "fffs_inspect_summary \<Rightarrow> u16 \<Rightarrow> u16 \<Rightarrow> nat \<Rightarrow> u16 \<Rightarrow> chain_marks \<Rightarrow>
    ('c fffs_backend, bool \<times> chain_marks) op" where
  "mark_chain_loop summary slot head 0 current marks = ret (False, marks)"
| "mark_chain_loop summary slot head (Suc left) current marks =
     (if current = 0 then ret (False, marks)
      else if head_out_of_range summary current then ret (True, marks)
      else bindm (read_decoded_md summary (unat current) slot) (\<lambda>(decoded, state).
        if state \<noteq> MD_VALID \<or> dm_slot decoded \<noteq> slot then ret (True, marks)
        else
          case mark_span summary (unat current) [0..<unat (dm_span_len decoded)] (cm_reachable marks) of
            (corrupt, reachable) \<Rightarrow>
              let marks = marks\<lparr>cm_span_heads := (cm_span_heads marks)[unat current := True], cm_reachable := reachable\<rparr> in
              if corrupt then ret (True, marks)
              else mark_chain_loop summary slot head left (dm_next decoded)
                (if current = head then marks\<lparr>cm_seen_root := (cm_seen_root marks)(slot := True)\<rparr> else marks)))"

fun mark_live_loop :: "live_heads \<Rightarrow> nat list \<Rightarrow> fffs_inspect_summary \<Rightarrow> chain_marks \<Rightarrow>
    ('c fffs_backend, fffs_inspect_summary \<times> chain_marks) op" where
  "mark_live_loop heads [] summary marks = ret (summary, marks)"
| "mark_live_loop heads (slot # slots) summary marks =
     (let head = heads (of_nat slot) in
      if head = 0 then mark_live_loop heads slots summary marks
      else bindm (mark_chain_loop summary (of_nat slot) head (sm_sector_count summary) head marks) (\<lambda>(corrupt, marks).
        mark_live_loop heads slots
          (if corrupt \<or> \<not> cm_seen_root marks (of_nat slot)
           then summary\<lparr>sm_live_entries_corrupt := sm_live_entries_corrupt summary + 1\<rparr> else summary) marks))"

definition mark_live_chains :: "fffs_inspect_summary \<Rightarrow> live_heads \<Rightarrow> ('c fffs_backend, fffs_inspect_summary \<times> chain_marks) op" where
  "mark_live_chains summary heads = mark_live_loop heads [0..<FFFS_SLOT_COUNT] summary
     \<lparr>cm_reachable = replicate (sm_sector_count summary) False, cm_span_heads = replicate (sm_sector_count summary) False,
      cm_seen_root = (\<lambda>_. False)\<rparr>"

definition is_span_tail :: "chain_marks \<Rightarrow> nat \<Rightarrow> bool" where
  "is_span_tail marks sector \<longleftrightarrow> cm_reachable marks ! sector \<and> \<not> cm_span_heads marks ! sector"

section \<open>The consistency summary\<close>

partial_function (option) inspect_records :: "live_heads \<Rightarrow> nat \<Rightarrow> nat \<Rightarrow> nat \<Rightarrow> fffs_inspect_summary \<Rightarrow>
    'c fffs_backend \<Rightarrow> (fffs_inspect_summary res \<times> 'c fffs_backend) option" where
  "inspect_records heads sector cursor claimed summary be =
     (if \<not> cursor > FFFS_SECTOR_FOOTER_SIZE then ret summary be
      else bindm (read_record_before summary sector cursor zero_decoded) (\<lambda>(decoded, state, start).
        if state = MD_ERASED then ret summary
        else if state = MD_CORRUPT then ret (summary\<lparr>sm_md_corrupt := sm_md_corrupt summary + 1\<rparr>)
        else
          bindm (if state = MD_TOMBSTONED then ret (summary\<lparr>sm_md_tombstoned := sm_md_tombstoned summary + 1\<rparr>)
                 else if state = MD_UNCOMMITTED
                 then ret (summary\<lparr>sm_md_obsolete_orphaned := sm_md_obsolete_orphaned summary + 1\<rparr>)
                 else bindm (record_reachable_for_slot summary heads (dm_slot decoded) sector) (\<lambda>record_live.
                   ret (if record_live then summary\<lparr>sm_md_live := sm_md_live summary + 1\<rparr>
                     else summary\<lparr>sm_md_obsolete_orphaned := sm_md_obsolete_orphaned summary + 1\<rparr>)))
            (\<lambda>summary.
              if start \<le> claim_end claimed decoded then ret summary
              else inspect_records heads sector start (claim_end claimed decoded) summary)) be)"

fun inspect_sector_loop :: "live_heads \<Rightarrow> chain_marks \<Rightarrow> nat list \<Rightarrow> fffs_inspect_summary \<Rightarrow>
    ('c fffs_backend, fffs_inspect_summary) op" where
  "inspect_sector_loop heads marks [] summary = ret summary"
| "inspect_sector_loop heads marks (sector # sectors) summary =
     bindm (sector_footer_view summary sector) (\<lambda>view.
       if ft_erased view
       then inspect_sector_loop heads marks sectors (summary\<lparr>sm_data_sectors_erased := sm_data_sectors_erased summary + 1\<rparr>)
       else if valid_footer view = None then inspect_sector_loop heads marks sectors summary
       else if ft_tombstone_bits view = FFFS_BITMIRROR_CLEARED
       then inspect_sector_loop heads marks sectors
         (summary\<lparr>sm_data_sectors_tombstoned := sm_data_sectors_tombstoned summary + 1,
            sm_md_tombstoned := sm_md_tombstoned summary + 1\<rparr>)
       else
         let summary = summary\<lparr>sm_data_sectors_owned := sm_data_sectors_owned summary + 1\<rparr> in
         if is_span_tail marks sector then inspect_sector_loop heads marks sectors summary
         else bindm (inspect_records heads sector (sm_sector_size summary - FFFS_SECTOR_FOOTER_SIZE) 0 summary)
           (inspect_sector_loop heads marks sectors))"

definition data_sector_list :: "fffs_inspect_summary \<Rightarrow> nat list" where
  "data_sector_list summary = [unat (sm_index_sectors summary)..<sm_sector_count summary]"

definition inspect_data_sectors ::
  "fffs_inspect_summary \<Rightarrow> live_heads \<Rightarrow> chain_marks \<Rightarrow> ('c fffs_backend, fffs_inspect_summary) op" where
  "inspect_data_sectors summary heads marks = inspect_sector_loop heads marks (data_sector_list summary) summary"

definition fffs_inspect_check :: "('c fffs_backend, fffs_inspect_summary) op" where
  "fffs_inspect_check = bindm discover (\<lambda>summary.
     bindm (inspect_index summary (\<lambda>_. 0)) (\<lambda>(summary, heads).
     bindm (mark_live_chains summary heads) (\<lambda>(summary, marks).
       inspect_data_sectors summary heads marks)))"

section \<open>The map of live pages\<close>

definition livemap_mark :: "nat \<Rightarrow> nat \<Rightarrow> nat \<Rightarrow> byte \<Rightarrow> byte list \<Rightarrow> byte list" where
  "livemap_mark page_size base len val page_state =
     (if len = 0 then page_state
      else fold (\<lambda>p page_state. if val > page_state ! p then page_state[p := val] else page_state)
        (filter (\<lambda>p. p < length page_state) [base div page_size..<(base + len - 1) div page_size + 1]) page_state)"

partial_function (option) live_map_records :: "live_heads \<Rightarrow> fffs_inspect_summary \<Rightarrow> nat \<Rightarrow> nat \<Rightarrow> nat \<Rightarrow> nat \<Rightarrow> byte list \<Rightarrow>
    'c fffs_backend \<Rightarrow> (byte list res \<times> 'c fffs_backend) option" where
  "live_map_records heads summary page_size sector cursor claimed pages be =
     (if \<not> cursor > FFFS_SECTOR_FOOTER_SIZE then ret pages be
      else bindm (read_record_before summary sector cursor zero_decoded) (\<lambda>(decoded, state, start).
        if state = MD_ERASED \<or> state = MD_CORRUPT then ret pages
        else
          bindm (if state = MD_TOMBSTONED \<or> state = MD_UNCOMMITTED then ret 2
                 else bindm (record_reachable_for_slot summary heads (dm_slot decoded) sector) (\<lambda>live.
                   ret (if live then 3 else 2))) (\<lambda>dval.
            let base = sector * sm_sector_size summary;
                pages = livemap_mark page_size (base + start) (cursor - start) 1 pages;
                pages = livemap_mark page_size (base + unat (dm_data_off decoded)) (unat (dm_data_len decoded)) dval pages
            in if start \<le> claim_end claimed decoded then ret pages
               else live_map_records heads summary page_size sector start (claim_end claimed decoded) pages)) be)"

fun live_map_sectors :: "live_heads \<Rightarrow> fffs_inspect_summary \<Rightarrow> nat \<Rightarrow> nat list \<Rightarrow> byte list \<Rightarrow> ('c fffs_backend, byte list) op" where
  "live_map_sectors heads summary page_size [] pages = ret pages"
| "live_map_sectors heads summary page_size (sector # sectors) pages =
     bindm (sector_footer_view summary sector) (\<lambda>view.
       let base = sector * sm_sector_size summary in
       if ft_erased view then live_map_sectors heads summary page_size sectors pages
       else if valid_footer view = None then live_map_sectors heads summary page_size sectors pages
       else if ft_tombstone_bits view = FFFS_BITMIRROR_CLEARED
       then live_map_sectors heads summary page_size sectors (livemap_mark page_size base (sm_sector_size summary) 2 pages)
       else bindm (live_map_records heads summary page_size sector (sm_sector_size summary - FFFS_SECTOR_FOOTER_SIZE) 0
             (livemap_mark page_size (base + sm_sector_size summary - FFFS_SECTOR_FOOTER_SIZE) FFFS_SECTOR_FOOTER_SIZE 1 pages))
         (live_map_sectors heads summary page_size sectors))"

definition fffs_inspect_live_map :: "nat \<Rightarrow> nat \<Rightarrow> ('c fffs_backend, byte list) op" where
  "fffs_inspect_live_map page_count page_size =
     (if page_size = 0 then throw FFFS_ERR_INVALID
      else bindm discover (\<lambda>summary.
        bindm (inspect_index summary (\<lambda>_. 0)) (\<lambda>(summary, heads).
        bindm (mark_live_chains summary heads) (\<lambda>(summary, marks).
          live_map_sectors heads summary page_size (data_sector_list summary)
            (fold (\<lambda>s. livemap_mark page_size (s * sm_sector_size summary) (sm_sector_size summary) 1)
              [0..<unat (sm_index_sectors summary)] (replicate page_count 0))))))"

section \<open>Fragmentation\<close>

datatype frag_pin_class = FRAG_ROOT_ONLY | FRAG_CONTINUATION_ONLY | FRAG_MIXED | FRAG_NO_LIVE

record frag_class_summary =
  fc_sectors :: nat
  fc_reclaimable_bytes :: nat
  fc_live_bytes :: nat
  fc_immediate_free_bytes :: nat

record fragstats_summary =
  fr_data_sectors :: nat
  fr_erased_sectors :: nat
  fr_owned_sectors :: nat
  fr_tombstoned_sectors :: nat
  fr_corrupt_sectors :: nat
  fr_span_tail_sectors :: nat
  fr_full_hint_sectors :: nat
  fr_immediate_free_sectors :: nat
  fr_immediate_free_bytes :: nat
  fr_class_summary :: "frag_pin_class \<Rightarrow> frag_class_summary"

definition mark_range :: "nat \<Rightarrow> nat \<Rightarrow> bool list \<Rightarrow> bool list" where
  "mark_range off len msk =
     (if off > length msk then msk
      else fold (\<lambda>i msk. msk[off + i := True]) [0..<min len (length msk - off)] msk)"

definition count_marked :: "bool list \<Rightarrow> nat" where
  "count_marked msk = length (filter id msk)"

fun range_erased :: "nat \<Rightarrow> nat \<Rightarrow> ('c fffs_backend, bool) op" where
  "range_erased off len =
     (if len = 0 then ret True
      else let n = (if len < 64 then len else 64) in
        bindm (inspect_backend_read off n) (\<lambda>buf.
          if \<not> list_all (\<lambda>b. b = 0xff) buf then ret False else range_erased (off + n) (len - n)))"

declare range_erased.simps [simp del]

definition pin_class_for_sector :: "bool \<Rightarrow> bool \<Rightarrow> frag_pin_class" where
  "pin_class_for_sector has_root has_continuation =
     (if has_root \<and> has_continuation then FRAG_MIXED
      else if has_continuation then FRAG_CONTINUATION_ONLY
      else if has_root then FRAG_ROOT_ONLY else FRAG_NO_LIVE)"

definition frag_class_name :: "frag_pin_class \<Rightarrow> string" where
  "frag_class_name cls = (case cls of FRAG_ROOT_ONLY \<Rightarrow> ''root-only'' | FRAG_CONTINUATION_ONLY \<Rightarrow> ''continuation-only''
     | FRAG_MIXED \<Rightarrow> ''mixed'' | FRAG_NO_LIVE \<Rightarrow> ''erase-only'')"

text \<open>The locals of the record loop of \<^verbatim>\<open>inspect_fragstats_sector\<close>.\<close>

record frag_walk =
  fw_cursor :: nat
  fw_claimed :: nat
  fw_metadata_start :: nat
  fw_has_root :: bool
  fw_has_continuation :: bool
  fw_parsed_live :: bool
  fw_live_mask :: "bool list"
  fw_corrupt :: nat

partial_function (option) frag_records :: "live_heads \<Rightarrow> fffs_inspect_summary \<Rightarrow> nat \<Rightarrow> frag_walk \<Rightarrow>
    'c fffs_backend \<Rightarrow> (frag_walk res \<times> 'c fffs_backend) option" where
  "frag_records heads summary sector w be =
     (if \<not> fw_cursor w > FFFS_SECTOR_FOOTER_SIZE then ret w be
      else bindm (read_record_before summary sector (fw_cursor w) zero_decoded) (\<lambda>(decoded, state, start).
        if state = MD_ERASED then ret w
        else if state = MD_CORRUPT then ret (w\<lparr>fw_corrupt := fw_corrupt w + 1\<rparr>)
        else
          bindm (if state = MD_VALID then record_reachable_for_slot summary heads (dm_slot decoded) sector else ret False)
            (\<lambda>record_live.
              let w = w\<lparr>fw_cursor := start, fw_metadata_start := start, fw_claimed := claim_end (fw_claimed w) decoded\<rparr>;
                  w = (if \<not> record_live then w
                    else w\<lparr>fw_parsed_live := True,
                      fw_live_mask := mark_range start FFFS_MD_FILE_RECORD_SIZE
                        (mark_range (unat (dm_data_off decoded)) (unat (dm_data_len decoded)) (fw_live_mask w)),
                      fw_has_root := fw_has_root w \<or> dm_type decoded = FFFS_MD_TYPE_FILE_ROOT_V1,
                      fw_has_continuation := fw_has_continuation w \<or> dm_type decoded \<noteq> FFFS_MD_TYPE_FILE_ROOT_V1\<rparr>)
              in if start \<le> fw_claimed w then ret w else frag_records heads summary sector w)) be)"

definition inspect_fragstats_sector :: "fffs_inspect_summary \<Rightarrow> live_heads \<Rightarrow> chain_marks \<Rightarrow> nat \<Rightarrow> fragstats_summary \<Rightarrow>
    ('c fffs_backend, fragstats_summary) op" where
  "inspect_fragstats_sector summary heads marks sector stats =
     bindm (sector_footer_view summary sector) (\<lambda>view.
       let ss = sm_sector_size summary; stats = stats\<lparr>fr_data_sectors := fr_data_sectors stats + 1\<rparr> in
       if ft_erased view then ret (stats\<lparr>fr_erased_sectors := fr_erased_sectors stats + 1\<rparr>)
       else if valid_footer view = None then ret (stats\<lparr>fr_corrupt_sectors := fr_corrupt_sectors stats + 1\<rparr>)
       else if ft_tombstone_bits view = FFFS_BITMIRROR_CLEARED
       then ret (stats\<lparr>fr_tombstoned_sectors := fr_tombstoned_sectors stats + 1\<rparr>)
       else
         let span_tail = is_span_tail marks sector;
             stats = stats\<lparr>fr_owned_sectors := fr_owned_sectors stats + 1,
               fr_full_hint_sectors := fr_full_hint_sectors stats + (if ft_full_bits view = FFFS_BITMIRROR_CLEARED then 1 else 0),
               fr_span_tail_sectors := fr_span_tail_sectors stats + (if span_tail then 1 else 0)\<rparr>;
             start = ss - FFFS_SECTOR_FOOTER_SIZE
         in bindm (frag_records heads summary sector \<lparr>fw_cursor = start, fw_claimed = 0, fw_metadata_start = start,
               fw_has_root = False, fw_has_continuation = False, fw_parsed_live = False,
               fw_live_mask = mark_range start FFFS_SECTOR_FOOTER_SIZE (replicate ss False), fw_corrupt = 0\<rparr>) (\<lambda>w.
           let live_mask = (if span_tail \<and> \<not> fw_parsed_live w then mark_range 0 start (fw_live_mask w) else fw_live_mask w);
               gap = fw_metadata_start w - fw_claimed w;
               stats = stats\<lparr>fr_corrupt_sectors := fr_corrupt_sectors stats + fw_corrupt w\<rparr>
           in bindm (if fw_metadata_start w > fw_claimed w then range_erased (sector * ss + fw_claimed w) gap else ret False)
             (\<lambda>erased.
               let free_mask = (if erased then mark_range (fw_claimed w) gap (replicate ss False) else replicate ss False);
                   immediate_free = (if erased then gap else 0);
                   stats = (if immediate_free = 0 then stats
                     else stats\<lparr>fr_immediate_free_sectors := fr_immediate_free_sectors stats + 1,
                       fr_immediate_free_bytes := fr_immediate_free_bytes stats + immediate_free\<rparr>);
                   reclaimable = length (filter (\<lambda>i. \<not> live_mask ! i \<and> \<not> free_mask ! i) [0..<ss]);
                   cls = pin_class_for_sector (fw_has_root w) (fw_has_continuation w \<or> span_tail);
                   c = fr_class_summary stats cls
               in ret (stats\<lparr>fr_class_summary := (fr_class_summary stats)(cls := c\<lparr>fc_sectors := fc_sectors c + 1,
                    fc_reclaimable_bytes := fc_reclaimable_bytes c + reclaimable,
                    fc_live_bytes := fc_live_bytes c + count_marked live_mask,
                    fc_immediate_free_bytes := fc_immediate_free_bytes c + count_marked free_mask\<rparr>)\<rparr>))))"

fun fragstats_loop :: "fffs_inspect_summary \<Rightarrow> live_heads \<Rightarrow> chain_marks \<Rightarrow> nat list \<Rightarrow> fragstats_summary \<Rightarrow>
    ('c fffs_backend, fragstats_summary) op" where
  "fragstats_loop summary heads marks [] stats = ret stats"
| "fragstats_loop summary heads marks (sector # sectors) stats =
     bindm (inspect_fragstats_sector summary heads marks sector stats) (fragstats_loop summary heads marks sectors)"

definition zero_fragstats :: fragstats_summary where
  "zero_fragstats = \<lparr>fr_data_sectors = 0, fr_erased_sectors = 0, fr_owned_sectors = 0, fr_tombstoned_sectors = 0,
     fr_corrupt_sectors = 0, fr_span_tail_sectors = 0, fr_full_hint_sectors = 0, fr_immediate_free_sectors = 0,
     fr_immediate_free_bytes = 0,
     fr_class_summary = (\<lambda>_. \<lparr>fc_sectors = 0, fc_reclaimable_bytes = 0, fc_live_bytes = 0, fc_immediate_free_bytes = 0\<rparr>)\<rparr>"

section \<open>Dumps\<close>

datatype dump_line =
    FragHeader fffs_inspect_summary
  | FragSectors fragstats_summary
  | FragFree nat nat
  | FragClass string frag_class_summary
  | ImageHeader fffs_inspect_summary
  | ImageSummary fffs_inspect_summary
  | IndexSector nat u8 bool
  | IndexErased nat
  | IndexInvalid nat
  | IndexRecord u16 u16
  | InvalidFooter nat
  | SpanTail nat u32
  | MdLine nat u32 string "(u16 \<times> u32 \<times> byte list) option"

definition fffs_inspect_fragstats_dump :: "('c fffs_backend, dump_line list) op" where
  "fffs_inspect_fragstats_dump = bindm fffs_inspect_check (\<lambda>summary.
     bindm (replay_active_index summary (\<lambda>_. 0)) (\<lambda>heads.
     bindm (mark_live_chains summary heads) (\<lambda>(summary, marks).
     bindm (fragstats_loop summary heads marks (data_sector_list summary) zero_fragstats) (\<lambda>stats.
       ret ([FragHeader summary, FragSectors stats, FragFree (fr_immediate_free_sectors stats) (fr_immediate_free_bytes stats)] @
         map (\<lambda>cls. FragClass (frag_class_name cls) (fr_class_summary stats cls))
           [FRAG_ROOT_ONLY, FRAG_CONTINUATION_ONLY, FRAG_MIXED, FRAG_NO_LIVE])))))"

definition md_state_name :: "md_state \<Rightarrow> bool \<Rightarrow> string" where
  "md_state_name state live = (case state of MD_ERASED \<Rightarrow> ''orphaned-empty-md''
     | MD_VALID \<Rightarrow> if live then ''live'' else ''obsolete-orphaned'' | MD_TOMBSTONED \<Rightarrow> ''tombstoned''
     | MD_CORRUPT \<Rightarrow> ''corrupt'' | MD_UNCOMMITTED \<Rightarrow> ''uncommitted'')"

fun dump_index_headers :: "fffs_inspect_summary \<Rightarrow> nat list \<Rightarrow> ('c fffs_backend, dump_line list) op" where
  "dump_index_headers summary [] = ret []"
| "dump_index_headers summary (sector # sectors) =
     bindm (inspect_backend_read (sector * sm_sector_size summary) FFFS_HEADER_SIZE) (\<lambda>hdr.
       let line = (case fffs_valid_index_header hdr of
             Some (n, shift, serial) \<Rightarrow> IndexSector sector serial (sector = sm_active_index_sector summary)
           | None \<Rightarrow> if fffs_flash_bytes_erased hdr then IndexErased sector else IndexInvalid sector)
       in bindm (dump_index_headers summary sectors) (\<lambda>lines. ret (line # lines)))"

fun dump_active_loop :: "nat list \<Rightarrow> ('c fffs_backend, dump_line list) op" where
  "dump_active_loop [] = ret []"
| "dump_active_loop (off # offs) = bindm (inspect_backend_read off 4) (\<lambda>rec.
     let slot = fffs_load_le16 rec; head = fffs_load_le16 (drop 2 rec) in
     if slot = 0xffff \<and> head = 0xffff then ret []
     else bindm (dump_active_loop offs) (\<lambda>lines. ret (IndexRecord slot head # lines)))"

definition dump_active_index :: "fffs_inspect_summary \<Rightarrow> ('c fffs_backend, dump_line list) op" where
  "dump_active_index summary = dump_active_loop (active_index_offsets summary)"

partial_function (option) dump_records :: "live_heads \<Rightarrow> fffs_inspect_summary \<Rightarrow> nat \<Rightarrow> u32 \<Rightarrow> nat \<Rightarrow> nat \<Rightarrow> dump_line list \<Rightarrow>
    'c fffs_backend \<Rightarrow> (dump_line list res \<times> 'c fffs_backend) option" where
  "dump_records heads summary sector serial cursor claimed lines be =
     (if \<not> cursor > FFFS_SECTOR_FOOTER_SIZE then ret lines be
      else bindm (read_record_before summary sector cursor zero_decoded) (\<lambda>(decoded, state, start).
        if state = MD_ERASED then ret lines
        else
          bindm (if state = MD_VALID then record_reachable_for_slot summary heads (dm_slot decoded) sector else ret False)
            (\<lambda>live.
              let lines = lines @ [MdLine sector serial (md_state_name state live)
                    (if state = MD_CORRUPT then None else Some (dm_slot decoded, dm_size decoded, dm_name decoded))]
              in if state = MD_CORRUPT \<or> start \<le> claim_end claimed decoded then ret lines
                 else dump_records heads summary sector serial start (claim_end claimed decoded) lines)) be)"

fun dump_data_sectors :: "fffs_inspect_summary \<Rightarrow> live_heads \<Rightarrow> chain_marks \<Rightarrow> nat list \<Rightarrow> ('c fffs_backend, dump_line list) op" where
  "dump_data_sectors summary heads marks [] = ret []"
| "dump_data_sectors summary heads marks (sector # sectors) =
     bindm (sector_footer_view summary sector) (\<lambda>view.
       bindm (if ft_erased view then ret []
         else case valid_footer view of
             None \<Rightarrow> ret [InvalidFooter sector]
           | Some serial \<Rightarrow>
               if is_span_tail marks sector then ret [SpanTail sector serial]
               else bindm (dump_records heads summary sector serial (sm_sector_size summary - FFFS_SECTOR_FOOTER_SIZE) 0 [])
                 (\<lambda>lines. ret (if lines = [] then [MdLine sector serial (md_state_name MD_ERASED False) None] else lines)))
         (\<lambda>lines. bindm (dump_data_sectors summary heads marks sectors) (\<lambda>more. ret (lines @ more))))"

definition fffs_inspect_dump :: "('c fffs_backend, dump_line list) op" where
  "fffs_inspect_dump = bindm fffs_inspect_check (\<lambda>summary.
     bindm (replay_active_index summary (\<lambda>_. 0)) (\<lambda>heads.
     bindm (mark_live_chains summary heads) (\<lambda>(summary, marks).
     bindm (dump_index_headers summary [0..<unat (sm_index_sectors summary)]) (\<lambda>headers.
     bindm (dump_active_index summary) (\<lambda>records.
     bindm (dump_data_sectors summary heads marks (data_sector_list summary)) (\<lambda>sectors.
       ret ([ImageHeader summary, ImageSummary summary] @ headers @ records @ sectors)))))))"

section \<open>The workload\<close>

record fffs_workload_options =
  wo_seed :: u32
  wo_rounds :: nat
  wo_file_count :: nat
  wo_max_file_size :: nat

record fffs_workload_summary =
  ws_writes :: nat
  ws_deletes :: nat
  ws_reads :: nat
  ws_lists :: nat

text \<open>The new state, which is also the number drawn.\<close>

definition next_rand :: "u32 \<Rightarrow> u32" where
  "next_rand state =
     (let x = (if state \<noteq> 0 then state else 1);
          x = x XOR push_bit 13 x;
          x = x XOR drop_bit 17 x
      in x XOR push_bit 5 x)"

definition fill_pattern :: "nat \<Rightarrow> byte \<Rightarrow> byte list" where
  "fill_pattern sz pattern = map (\<lambda>i. pattern + of_nat i) [0..<sz]"

definition sectors_for_file :: "'c fffs \<Rightarrow> nat \<Rightarrow> nat" where
  "sectors_for_file fs sz =
     (let extent = fffs_max_file_data_size fs in (sz + extent - 1) div extent)"

text \<open>An error returns without closing the handle.\<close>

definition workload_write_file :: "nat \<Rightarrow> byte list \<Rightarrow> nat \<Rightarrow> byte \<Rightarrow> ('c, unit) fsop" where
  "workload_write_file p name sz pattern =
     seqm (fffs_open p name (FFFS_O_WRONLY OR FFFS_O_CREATE OR FFFS_O_TRUNC))
       (seqm (fffs_write p (fill_pattern sz pattern)) (fffs_close p))"

partial_function (option) workload_read_loop ::
  "nat \<Rightarrow> nat \<Rightarrow> byte list \<Rightarrow> 'c fffs \<Rightarrow> (byte list res \<times> 'c fffs) option" where
  "workload_read_loop p sz readback fs =
     (if \<not> length readback < sz then ret readback fs
      else bindm (fffs_read p (sz - length readback)) (\<lambda>piece.
        if piece = [] then throw FFFS_ERR_CORRUPT
        else workload_read_loop p sz (readback @ piece)) fs)"

definition workload_read_verify :: "nat \<Rightarrow> byte list \<Rightarrow> nat \<Rightarrow> byte \<Rightarrow> ('c, unit) fsop" where
  "workload_read_verify p name sz pattern =
     seqm (fffs_open p name FFFS_O_RDONLY)
       (bindm (workload_read_loop p sz []) (\<lambda>readback.
         seqm (fffs_close p)
           (if fill_pattern sz pattern = readback then ret () else throw FFFS_ERR_CORRUPT)))"

text \<open>\<^verbatim>\<open>snprintf\<close> with \<^verbatim>\<open>%03zu\<close> and \<^verbatim>\<open>%02zu\<close>: the decimal digits of a number, filled up with zeros.\<close>

fun decimal :: "nat \<Rightarrow> byte list" where
  "decimal n = (if n < 10 then [of_nat (48 + n)] else decimal (n div 10) @ [of_nat (48 + n mod 10)])"

declare decimal.simps [simp del]

definition padded :: "nat \<Rightarrow> nat \<Rightarrow> byte list" where
  "padded width n = replicate (width - length (decimal n)) 48 @ decimal n"

definition ascii :: "string \<Rightarrow> byte list" where
  "ascii s = map of_char s"

definition tiny_name :: "nat \<Rightarrow> byte list" where
  "tiny_name i = ascii ''tiny/'' @ padded 3 i"

definition medium_name :: "nat \<Rightarrow> byte list" where
  "medium_name i = ascii ''medium/'' @ padded 2 i"

text \<open>Writing a list of files; the counter is \<^verbatim>\<open>tmp.writes\<close>.\<close>

fun workload_fill :: "nat \<Rightarrow> (byte list \<times> nat \<times> byte) list \<Rightarrow> fffs_workload_summary \<Rightarrow> ('c, fffs_workload_summary) fsop" where
  "workload_fill p [] tmp = ret tmp"
| "workload_fill p ((name, sz, pattern) # files) tmp =
     seqm (workload_write_file p name sz pattern) (workload_fill p files (tmp\<lparr>ws_writes := ws_writes tmp + 1\<rparr>))"

definition workload_round :: "nat \<Rightarrow> nat \<Rightarrow> nat \<Rightarrow> nat \<Rightarrow> nat \<Rightarrow> u32 \<Rightarrow> fffs_workload_summary \<Rightarrow>
    ('c, fffs_workload_summary) fsop" where
  "workload_round p max_alloc tiny_count medium_count medium_size r tmp =
     (let id = (if tiny_count \<noteq> 0 then unat r mod tiny_count else 0);
          name = tiny_name id; kind = drop_bit 8 r AND 3
      in if kind = 0 then
           let sz = 16 + unat (drop_bit 10 r) mod 240; sz = (if sz > max_alloc then max_alloc else sz) in
           seqm (workload_write_file p name sz (ucast (drop_bit 18 r))) (ret (tmp\<lparr>ws_writes := ws_writes tmp + 1\<rparr>))
         else if kind = 1 then
           bindm (trym (fffs_delete_file name)) (\<lambda>res. case res of
               Inl err \<Rightarrow> if err \<noteq> FFFS_ERR_NOT_FOUND then throw err else ret (tmp\<lparr>ws_deletes := ws_deletes tmp + 1\<rparr>)
             | Inr _ \<Rightarrow> ret (tmp\<lparr>ws_deletes := ws_deletes tmp + 1\<rparr>))
         else if kind = 2 then
           if medium_count > 0 then
             let mid = unat (drop_bit 16 r) mod medium_count in
             seqm (workload_read_verify p (medium_name mid) medium_size (0x40 + of_nat mid))
               (ret (tmp\<lparr>ws_reads := ws_reads tmp + 1\<rparr>))
           else ret tmp
         else bindm (fffs_list 0) (\<lambda>_. ret (tmp\<lparr>ws_lists := ws_lists tmp + 1\<rparr>)))"

fun workload_rounds :: "nat \<Rightarrow> nat \<Rightarrow> nat \<Rightarrow> nat \<Rightarrow> nat \<Rightarrow> nat \<Rightarrow> u32 \<Rightarrow> fffs_workload_summary \<Rightarrow>
    ('c, fffs_workload_summary) fsop" where
  "workload_rounds p max_alloc tiny_count medium_count medium_size 0 rng tmp = ret tmp"
| "workload_rounds p max_alloc tiny_count medium_count medium_size (Suc left) rng tmp =
     (let r = next_rand rng in
      bindm (workload_round p max_alloc tiny_count medium_count medium_size r tmp)
        (workload_rounds p max_alloc tiny_count medium_count medium_size left r))"

definition fffs_workload_run :: "nat \<Rightarrow> fffs_workload_options option \<Rightarrow> ('c, fffs_workload_summary) fsop" where
  "fffs_workload_run p options = bindm (getm id) (\<lambda>fs.
     let field = (\<lambda>f d. case options of None \<Rightarrow> d | Some opts \<Rightarrow> if f opts \<noteq> 0 then f opts else d);
         rounds = field wo_rounds 100; file_count = field wo_file_count 224;
         max_file_size = field wo_max_file_size (350 * 1024)
     in if file_count = 0 \<or> file_count > 1000 \<or> max_file_size = 0 then throw FFFS_ERR_INVALID
        else
          let max_alloc = (if max_file_size < 350 * 1024 then max_file_size else 350 * 1024);
              rng = (case options of None \<Rightarrow> 1 | Some opts \<Rightarrow> wo_seed opts);
              rng = (if rng = 0 then 1 else rng);
              data_sectors = (if fs_sector_count fs > unat (fs_index_sectors fs)
                then fs_sector_count fs - unat (fs_index_sectors fs) else 0);
              budget = data_sectors * 2 div 3;
              tiny_count = (if file_count < 192 then file_count else 192);
              tiny_count = (if tiny_count > budget div 4 then budget div 4 else tiny_count);
              medium_size = (if max_alloc < 50 * 1024 then max_alloc else 50 * 1024);
              medium_size = (if medium_size < 512 then max_alloc else medium_size);
              medium_sectors = sectors_for_file fs medium_size;
              medium_budget = (if budget > tiny_count then budget - tiny_count else 0);
              medium_count = (if medium_sectors \<noteq> 0 then medium_budget div medium_sectors div 2 else 0);
              medium_count = (if medium_count > 16 then 16 else medium_count);
              used = tiny_count + medium_count * medium_sectors;
              large_size = max_alloc;
              have_large = (large_size \<ge> 16 * 1024 \<and> used + sectors_for_file fs large_size < budget);
              tiny_size = (if max_alloc < 64 then max_alloc else 64)
          in bindm (workload_fill p
               (map (\<lambda>i. (tiny_name i, tiny_size, of_nat i)) [0..<tiny_count] @
                map (\<lambda>i. (medium_name i, medium_size, 0x40 + of_nat i)) [0..<medium_count] @
                (if have_large then [(ascii ''large/blob'', large_size, 0xa5)] else []))
               \<lparr>ws_writes = 0, ws_deletes = 0, ws_reads = 0, ws_lists = 0\<rparr>)
             (workload_rounds p max_alloc tiny_count medium_count medium_size rounds rng))"

end
