(* ===== verification/Fffs_Fsck.thy ===== *)
theory Fffs_Fsck
  imports Fffs_Inspect Fffs_Lookup
begin

unbundle bit_operations_syntax

text \<open>
  Properties of the inspection library of \<^verbatim>\<open>Fffs_Inspect\<close>.  The locale \<open>read_invariant\<close> is its interface to the
  device: a property of the backend that reads keep.  Every inspection keeps it and returns; interpreted with the
  bytes of the emulated flash this says that inspecting never changes an image.  The second part relates the
  inspector's decoder to the runtime's on the sectors \<open>sector_holds\<close> describes.
\<close>

section \<open>The inspector only reads\<close>

text \<open>An invariant of the backend that reads keep is kept by every inspection, and every inspection returns.\<close>

locale read_invariant =
  fixes I :: "'c fffs_backend \<Rightarrow> bool"
  assumes read: "runs I (backend_read off n)"
begin

lemma inspect_read: "runs I (inspect_backend_read off n)"
  unfolding inspect_backend_read_def by (intro frame read)

lemma scan_headers: "runs I (scan_index_headers off hdr ss n shift is best serials)"
  by (induction "is" arbitrary: best serials) (simp_all only: scan_index_headers.simps Let_def, (intro frame read; simp)+)

lemma probe_sectors: "runs I (probe_index_sectors shift ss)"
  by (induction ss) (simp_all only: probe_index_sectors.simps Let_def, (intro frame read scan_headers; simp)+)

lemma sequence_probes: "runs I (find_sequence_probes ps)"
  by (induction ps) (simp_all only: find_sequence_probes.simps, (intro frame probe_sectors; simp)+)

lemma discovers: "runs I discover"
  unfolding discover_def fffs_find_index_sequence_def Let_def by (intro frame sequence_probes)

lemma root_name: "runs I (read_root_name_for_decoded summary sector decoded state)"
  unfolding read_root_name_for_decoded_def Let_def by (intro frame inspect_read)

lemma record_before: "runs I (read_record_before summary sector cursor decoded)"
  unfolding read_record_before_def Let_def by (intro frame inspect_read root_name)

lemma footer_view: "runs I (sector_footer_view summary sector)"
  unfolding sector_footer_view_def by (intro frame inspect_read)

lemma replays: "runs I (replay_active_loop summary offs heads)"
  by (induction offs arbitrary: heads) (simp_all only: replay_active_loop.simps Let_def, (intro frame inspect_read; simp)+)

lemma index_loop: "runs I (inspect_index_loop offs summary heads)"
  by (induction offs arbitrary: summary heads) (simp_all only: inspect_index_loop.simps Let_def, (intro frame inspect_read; simp)+)

lemma index: "runs I (inspect_index summary heads)"
  unfolding inspect_index_def by (intro frame index_loop)

end

text \<open>A record that was decoded starts below the cursor.\<close>

lemma record_start_below:
  assumes "read_record_before summary sector cursor decoded be = Some (Inr (decoded', state, start), be')"
    and "state \<noteq> MD_ERASED" "state \<noteq> MD_CORRUPT"
  shows "start < cursor"
  using assms
  by (auto simp: read_record_before_def bindm_def ret_def Let_def split: if_splits option.splits sum.splits prod.splits)

text \<open>A loop over the records of a sector: what it does with a record is \<open>body\<close>, and it goes on below it.\<close>

context read_invariant
begin

lemma record_loop:
  assumes unfold: "\<And>cursor x be. loop cursor x be = (if \<not> cursor > FFFS_SECTOR_FOOTER_SIZE then ret (final cursor x) be
      else bindm (read_record_before (summ x) sector cursor (dec x)) (body cursor x) be)"
    and body: "\<And>cursor x decoded state start. state = MD_ERASED \<or> state = MD_CORRUPT \<or> start < cursor \<Longrightarrow>
      (\<And>start x. start < cursor \<Longrightarrow> runs I (loop start x)) \<Longrightarrow> runs I (body cursor x (decoded, state, start))"
  shows "runs I (loop cursor x)"
proof (induction cursor arbitrary: x rule: less_induct)
  case (less cursor)
  show ?case
  proof (rule runs_at)
    fix be assume be: "I be"
    show "wp (loop cursor x) (\<lambda>_. I) be"
    proof (cases "cursor > FFFS_SECTOR_FOOTER_SIZE")
      case True
      have "wp (bindm (read_record_before (summ x) sector cursor (dec x)) (body cursor x)) (\<lambda>_. I) be"
        unfolding wp_bindm
      proof (rule wp_mono [OF runs_wp_result [OF record_before be]], goal_cases)
        case (1 r be1)
        show ?case
        proof (cases r)
          case (Inr v)
          obtain d st start where v: "v = (d, st, start)" by (cases v)
          have "st = MD_ERASED \<or> st = MD_CORRUPT \<or> start < cursor"
            using record_start_below 1 Inr v by blast
          from runs_wp [OF body [OF this less.IH]] 1 Inr v show ?thesis by simp
        qed (use 1 in simp)
      qed
      then show ?thesis using True by (simp add: wp_def unfold)
    qed (use be in \<open>simp add: wp_def unfold ret_def\<close>)
  qed
qed

lemma decoded_loop: "runs I (read_decoded_loop summary sector slot cursor claimed decoded state)"
proof -
  let ?loop = "\<lambda>cursor (claimed, decoded, state). read_decoded_loop summary sector slot cursor claimed decoded state"
  let ?body = "\<lambda>(cursor :: nat) (claimed, _, _) (decoded, state, start).
        if state = MD_ERASED \<or> state = MD_CORRUPT then ret (decoded, state)
        else if state = MD_TOMBSTONED \<or> state = MD_UNCOMMITTED \<or> dm_slot decoded \<noteq> slot
        then if start \<le> claim_end claimed decoded then ret (decoded, state)
          else read_decoded_loop summary sector slot start (claim_end claimed decoded) decoded state
        else ret (decoded, state)"
  have "runs I (?loop cursor (claimed, decoded, state))"
  proof (rule record_loop [where summ = "\<lambda>_. summary" and dec = "\<lambda>(_, d, _). d" and sector = sector
        and final = "\<lambda>_ (_, d, s). (d, s)" and body = ?body], goal_cases)
    case (1 cursor x be)
    show ?case by (cases x) (simp add: read_decoded_loop.simps split_def)
  next
    case (2 cursor x decoded state start)
    obtain c d s where x: "x = (c, d, s)" by (cases x)
    from 2(1) 2(2) [of start "(claim_end c decoded, decoded, state)"] show ?case
      by (auto simp: x intro!: frame)
  qed
  then show ?thesis by simp
qed

lemma decoded_md: "runs I (read_decoded_md summary sector slot)"
  unfolding read_decoded_md_def by (intro frame footer_view decoded_loop)

lemma reachable_loop: "runs I (record_reachable_loop summary slot sector left current)"
  by (induction left arbitrary: current) (simp_all only: record_reachable_loop.simps, (intro frame decoded_md; simp)+)

lemma reachable: "runs I (record_reachable_for_slot summary heads slot sector)"
  unfolding record_reachable_for_slot_def by (rule reachable_loop)

lemma chain_loop: "runs I (mark_chain_loop summary slot head left current marks)"
  by (induction left arbitrary: current marks) (simp_all only: mark_chain_loop.simps Let_def, (intro frame decoded_md; simp)+)

lemma live_loop: "runs I (mark_live_loop heads slots summary marks)"
  by (induction slots arbitrary: summary marks) (simp_all only: mark_live_loop.simps Let_def, (intro frame chain_loop; simp)+)

lemma live_chains: "runs I (mark_live_chains summary heads)"
  unfolding mark_live_chains_def by (rule live_loop)

lemma records: "runs I (inspect_records heads sector cursor claimed summary)"
proof -
  let ?loop = "\<lambda>cursor (claimed, summary). inspect_records heads sector cursor claimed summary"
  let ?body = "\<lambda>(cursor :: nat) (claimed, summary) (decoded, state, start).
        if state = MD_ERASED then ret summary
        else if state = MD_CORRUPT then ret (summary\<lparr>sm_md_corrupt := sm_md_corrupt summary + 1\<rparr>)
        else
          bindm (if state = MD_TOMBSTONED then ret (summary\<lparr>sm_md_tombstoned := sm_md_tombstoned summary + 1\<rparr>)
                 else if state = MD_UNCOMMITTED
                 then ret (summary\<lparr>sm_md_obsolete_orphaned := sm_md_obsolete_orphaned summary + 1\<rparr>)
                 else bindm (record_reachable_for_slot summary heads (dm_slot decoded) sector) (\<lambda>record_live.
                   ret (if record_live then summary\<lparr>sm_md_live := sm_md_live summary + 1\<rparr>
                     else summary\<lparr>sm_md_obsolete_orphaned := sm_md_obsolete_orphaned summary + 1\<rparr>)))
            (\<lambda>summary.
              if start \<le> claim_end claimed decoded then ret summary
              else inspect_records heads sector start (claim_end claimed decoded) summary)"
  have "runs I (?loop cursor (claimed, summary))"
  proof (rule record_loop [where summ = snd and dec = "\<lambda>_. zero_decoded" and sector = sector and final = "\<lambda>_. snd" and body = ?body], goal_cases)
    case (1 cursor x be)
    show ?case by (cases x) (simp add: inspect_records.simps split_def)
  next
    case (2 cursor x decoded state start)
    obtain c s where x: "x = (c, s)" by (cases x)
    have "start < cursor \<Longrightarrow> runs I (inspect_records heads sector start (claim_end c decoded) s')" for s'
      using 2(2) [of start "(claim_end c decoded, s')"] by simp
    with 2(1) show ?case unfolding x prod.case by (intro frame reachable) auto
  qed
  then show ?thesis by simp
qed

lemma sector_loop: "runs I (inspect_sector_loop heads marks ss summary)"
  by (induction ss arbitrary: summary)
    (simp_all only: inspect_sector_loop.simps Let_def, (intro frame footer_view records; simp)+)

lemma check: "runs I fffs_inspect_check"
  unfolding fffs_inspect_check_def inspect_data_sectors_def by (intro frame discovers index live_chains sector_loop)

lemma map_records: "runs I (live_map_records heads summary ps sector cursor claimed pages)"
proof -
  let ?loop = "\<lambda>cursor (claimed, pages). live_map_records heads summary ps sector cursor claimed pages"
  let ?body = "\<lambda>(cursor :: nat) (claimed, pages) (decoded, state, start).
        if state = MD_ERASED \<or> state = MD_CORRUPT then ret pages
        else
          bindm (if state = MD_TOMBSTONED \<or> state = MD_UNCOMMITTED then ret 2
                 else bindm (record_reachable_for_slot summary heads (dm_slot decoded) sector) (\<lambda>live.
                   ret (if live then 3 else 2))) (\<lambda>dval.
            let base = sector * sm_sector_size summary;
                pages = livemap_mark ps (base + start) (cursor - start) 1 pages;
                pages = livemap_mark ps (base + unat (dm_data_off decoded)) (unat (dm_data_len decoded)) dval pages
            in if start \<le> claim_end claimed decoded then ret pages
               else live_map_records heads summary ps sector start (claim_end claimed decoded) pages)"
  have "runs I (?loop cursor (claimed, pages))"
  proof (rule record_loop [where summ = "\<lambda>_. summary" and dec = "\<lambda>_. zero_decoded" and sector = sector and final = "\<lambda>_. snd" and body = ?body], goal_cases)
    case (1 cursor x be)
    show ?case by (cases x) (simp add: live_map_records.simps split_def)
  next
    case (2 cursor x decoded state start)
    obtain c s where x: "x = (c, s)" by (cases x)
    have "start < cursor \<Longrightarrow> runs I (live_map_records heads summary ps sector start (claim_end c decoded) s')" for s'
      using 2(2) [of start "(claim_end c decoded, s')"] by simp
    with 2(1) show ?case unfolding x prod.case Let_def by (intro frame reachable) auto
  qed
  then show ?thesis by simp
qed

lemma map_sectors: "runs I (live_map_sectors heads summary ps ss pages)"
  by (induction ss arbitrary: pages)
    (simp_all only: live_map_sectors.simps Let_def, (intro frame footer_view map_records; simp)+)

lemma live_map: "runs I (fffs_inspect_live_map n ps)"
  unfolding fffs_inspect_live_map_def by (intro frame discovers index live_chains map_sectors)

lemma erased_range: "runs I (range_erased off len)"
proof (induction len arbitrary: off rule: less_induct)
  case (less len)
  show ?case
    by (subst range_erased.simps, unfold Let_def) (intro frame inspect_read less, auto)
qed

lemma frag_walk: "runs I (frag_records heads summary sector w)"
proof -
  let ?body = "\<lambda>cursor w (decoded, state, start).
        let w = w\<lparr>fw_cursor := cursor\<rparr> in
        if state = MD_ERASED then ret w
        else if state = MD_CORRUPT then ret (w\<lparr>fw_corrupt := fw_corrupt w + 1\<rparr>)
        else
          bindm (if state = MD_VALID then record_reachable_for_slot summary heads (dm_slot decoded) sector else ret False)
            (\<lambda>record_live.
              let w = w\<lparr>fw_cursor := start, fw_metadata_start := start, fw_claimed := claim_end (fw_claimed w) decoded\<rparr>;
                  w = (if \<not> record_live then w
                    else w\<lparr>fw_parsed_live := True,
                      fw_live_mask := mark_range start FFFS_MD_FILE_RECORD_SIZE
                        (mark_range (unat (dm_data_off decoded)) (unat (dm_data_len decoded)) (fw_live_mask w)),
                      fw_has_root := fw_has_root w \<or> dm_type decoded = FFFS_MD_TYPE_FILE_ROOT_V1,
                      fw_has_continuation := fw_has_continuation w \<or> dm_type decoded \<noteq> FFFS_MD_TYPE_FILE_ROOT_V1\<rparr>)
              in if start \<le> fw_claimed w then ret w else frag_records heads summary sector w)"
  let ?loop = "\<lambda>cursor w. frag_records heads summary sector (w\<lparr>fw_cursor := cursor\<rparr>)"
  have "runs I (?loop (fw_cursor w) w)"
  proof (rule record_loop [where loop = ?loop and summ = "\<lambda>_. summary" and dec = "\<lambda>_. zero_decoded" and sector = sector
      and final = "\<lambda>c w. w\<lparr>fw_cursor := c\<rparr>" and body = ?body], goal_cases)
    case (1 cursor x be)
    show ?case using frag_records.simps [of heads summary sector "x\<lparr>fw_cursor := cursor\<rparr>" be]
      by (simp add: split_def Let_def)
  next
    case (2 cursor x decoded state start)
    have "start < cursor \<Longrightarrow> fw_cursor w = start \<Longrightarrow> runs I (frag_records heads summary sector w)" for w
      using 2(2) [of "fw_cursor w" w] by auto
    with 2(1) show ?case unfolding prod.case Let_def by (intro frame reachable) auto
  qed
  then show ?thesis by simp
qed

lemma frag_sector: "runs I (inspect_fragstats_sector summary heads marks sector stats)"
  unfolding inspect_fragstats_sector_def Let_def by (intro frame footer_view frag_walk erased_range)

lemma frag_loop: "runs I (fragstats_loop summary heads marks ss stats)"
  by (induction ss arbitrary: stats) (simp_all only: fragstats_loop.simps, (intro frame frag_sector; simp)+)

lemma fragstats_dump: "runs I fffs_inspect_fragstats_dump"
  unfolding fffs_inspect_fragstats_dump_def replay_active_index_def by (intro frame check replays live_chains frag_loop)

lemma dump_headers: "runs I (dump_index_headers summary ss)"
  by (induction ss) (simp_all only: dump_index_headers.simps Let_def, (intro frame inspect_read; simp)+)

lemma dump_active: "runs I (dump_active_loop offs)"
  by (induction offs) (simp_all only: dump_active_loop.simps Let_def, (intro frame inspect_read; simp)+)

lemma dump_walk: "runs I (dump_records heads summary sector serial cursor claimed lines)"
proof -
  let ?loop = "\<lambda>cursor (claimed, lines). dump_records heads summary sector serial cursor claimed lines"
  let ?body = "\<lambda>(cursor :: nat) (claimed, lines) (decoded, state, start).
        if state = MD_ERASED then ret lines
        else
          bindm (if state = MD_VALID then record_reachable_for_slot summary heads (dm_slot decoded) sector else ret False)
            (\<lambda>live.
              let lines = lines @ [MdLine sector serial (md_state_name state live)
                    (if state = MD_CORRUPT then None else Some (dm_slot decoded, dm_size decoded, dm_name decoded))]
              in if state = MD_CORRUPT \<or> start \<le> claim_end claimed decoded then ret lines
                 else dump_records heads summary sector serial start (claim_end claimed decoded) lines)"
  have "runs I (?loop cursor (claimed, lines))"
  proof (rule record_loop [where summ = "\<lambda>_. summary" and dec = "\<lambda>_. zero_decoded" and sector = sector and final = "\<lambda>_. snd" and body = ?body], goal_cases)
    case (1 cursor x be)
    show ?case by (cases x) (simp add: dump_records.simps split_def)
  next
    case (2 cursor x decoded state start)
    obtain c s where x: "x = (c, s)" by (cases x)
    have "start < cursor \<Longrightarrow> runs I (dump_records heads summary sector serial start (claim_end c decoded) s')" for s'
      using 2(2) [of start "(claim_end c decoded, s')"] by simp
    with 2(1) show ?case unfolding x prod.case Let_def by (intro frame reachable) auto
  qed
  then show ?thesis by simp
qed

lemma dump_sectors: "runs I (dump_data_sectors summary heads marks ss)"
  by (induction ss) (simp_all only: dump_data_sectors.simps, (intro frame footer_view dump_walk; simp)+)

lemma dump: "runs I fffs_inspect_dump"
  unfolding fffs_inspect_dump_def replay_active_index_def dump_active_index_def
  by (intro frame check replays live_chains dump_headers dump_active dump_sectors)

end

text \<open>The bytes of the emulated flash are such an invariant.\<close>

definition image_is :: "byte list \<Rightarrow> ffsv_flash fffs_backend \<Rightarrow> bool" where
  "image_is m be \<longleftrightarrow> emu.fuses be \<and> emu.bmem be = m"

interpretation inspect: read_invariant "image_is m" for m
proof
  show "runs (image_is m) (backend_read off n)" for off n
  proof (rule runs_at)
    fix be assume be: "image_is m be"
    then have f: "emu.fuses be" by (simp add: image_is_def)
    show "wp (backend_read off n) (\<lambda>_. image_is m) be"
      by (rule emu.backend_read_rule [OF f])
        (use be in \<open>auto simp: image_is_def emu.bmem_def intro!: emu.fuses_upd\<close>)
  qed
qed

lemma image_kept:
  assumes "runs (image_is (emu.bmem be)) m" "emu.fuses be"
  shows "wp m (\<lambda>r be'. emu.bmem be' = emu.bmem be) be"
  by (rule wp_mono [OF runs_wp [OF assms(1)]]) (use assms(2) in \<open>simp_all add: image_is_def\<close>)

section \<open>The inspector and the runtime read the same records\<close>

text \<open>What the inspector's structure holds of a record, and how it classifies it.\<close>

definition decoded_of :: "fffs_md_record \<Rightarrow> byte list \<Rightarrow> decoded_md" where
  "decoded_of r name = \<lparr>dm_type = md_type r, dm_state = md_state r, dm_slot = md_slot r, dm_data_off = md_data_off r,
     dm_data_len = md_data_len r, dm_next = md_next r, dm_span_len = md_span_len r,
     dm_size = (if md_type r = FFFS_MD_TYPE_FILE_ROOT_V1 then md_size_or_offset r else 0), dm_name = name\<rparr>"

definition md_class :: "fffs_md_record \<Rightarrow> md_state" where
  "md_class r = (if md_state r = 0xff then MD_UNCOMMITTED else if md_live r then MD_VALID else MD_TOMBSTONED)"

lemma decode_md_wf:
  assumes "md_wf fs sector start r"
  shows "decode_md (md_bytes r) start out = (md_class r, decoded_of r [])"
proof -
  have "md_type r \<noteq> 0xff" using assms by (auto simp: md_wf_def)
  then have ne: "(fffs_flash_bytes_erased (take 16 (md_bytes r))) = False"
    using md_bytes_load(2) [of r] by (auto simp: bytes_erased_iff dest: arg_cong [where f = "\<lambda>xs. xs ! 15"])
  show ?thesis
    unfolding decode_md_def Let_def md_bytes_load ne if_False
    using assms
    by (cases "fffs_lifecycle_tombstone_pair (md_state r)")
      (auto simp: md_wf_def decoded_of_def md_class_def state_live_def fffs_lifecycle_is_live_def)
qed

context reliable_flash
begin

lemma inspect_read_ok:
  assumes "shows_bytes m be" "off + n \<le> length m"
  shows "wp (inspect_backend_read off n) (\<lambda>r be'. r = Inr (sub_bytes off n m) \<and> shows_bytes m be') be"
proof -
  have "\<not> (off > be_size be \<or> n > be_size be - off)" using assms(2) shows_size [OF assms(1)] by auto
  with shows_read [OF assms] show ?thesis
    unfolding inspect_backend_read_def wp_bindm wp_getm sum.case id_apply by (simp only: if_False)
qed

text \<open>The name the inspector reports for a record: only committed roots have one.\<close>

definition titled :: "'c fffs \<Rightarrow> u16 \<Rightarrow> fffs_md_record \<Rightarrow> byte list \<Rightarrow> bool" where
  "titled fs s r name \<longleftrightarrow> (if md_class r = MD_VALID \<and> md_type r = FFFS_MD_TYPE_FILE_ROOT_V1
     then file_name name \<and> (\<exists>payload. extent_data fs (s, r) = root_prefix name @ payload) else name = [])"

lemma root_name_rule:
  assumes be: "shows_bytes (fmem fs) be" and geom: "geom fs" "unat s < fs_sector_count fs"
    and size: "sm_sector_size summary = fs_sector_size fs"
    and room: "unat (md_data_off r) + unat (md_data_len r) \<le> fs_sector_size fs" and name: "titled fs s r name"
  shows "wp (read_root_name_for_decoded summary (unat s) (decoded_of r []) (md_class r))
    (\<lambda>res be'. res = Inr (decoded_of r name, md_class r) \<and> shows_bytes (fmem fs) be') be"
proof (cases "md_class r = MD_VALID \<and> md_type r = FFFS_MD_TYPE_FILE_ROOT_V1")
  case True
  then obtain payload where nm: "file_name name" and data: "extent_data fs (s, r) = root_prefix name @ payload"
    using name by (auto simp: titled_def)
  define base where "base = unat s * fs_sector_size fs + unat (md_data_off r)"
  have nl: "0 < length name" "length name \<le> 32" using nm by (simp_all add: file_name_def)
  have fit: "base + unat (md_data_len r) \<le> length (fmem fs)" using sector_fits [OF geom room] by (simp add: base_def)
  have len: "unat (md_data_len r) = length name + 2 + length payload"
    using arg_cong [OF data, of length] fit by (simp add: extent_data_def base_def)
  have sub: "sub_bytes (base + i) n (fmem fs) = take n (drop i (root_prefix name @ payload))" if "i + n \<le> unat (md_data_len r)" for i n
    unfolding data [symmetric] using that by (simp add: extent_data_def base_def sub_bytes_def drop_take min_def add.commute)
  have b: "sub_bytes base 1 (fmem fs) = [of_nat (length name)]" "sub_bytes (base + 1) (length name) (fmem fs) = name"
    using sub [of 0 1] sub [of 1 "length name"] len by (simp_all add: root_prefix_def)
  have n: "unat (of_nat (length name) :: byte) = length name" using nl by (simp add: unat_of_nat)
  have d: "\<not> (md_class r \<noteq> MD_VALID \<or> dm_type (decoded_of r []) \<noteq> FFFS_MD_TYPE_FILE_ROOT_V1)"
    using True by (simp add: decoded_of_def)
  have ok: "\<not> (length name = 0 \<or> length name > FFFS_MAX_NAME \<or> 1 + length name + 1 > unat (md_data_len r))"
    using nl len by auto
  have base: "unat s * sm_sector_size summary + unat (dm_data_off (decoded_of r [])) = base"
    "dm_data_len (decoded_of r []) = md_data_len r"
    by (simp_all add: base_def size decoded_of_def)
  show ?thesis
    unfolding read_root_name_for_decoded_def if_not_P [OF d] Let_def base wp_bindm
  proof (rule wp_mono [OF inspect_read_ok [OF be]], goal_cases)
    case (2 res be1)
    then have res: "res = Inr [of_nat (length name)]" and be1: "shows_bytes (fmem fs) be1" unfolding b by simp_all
    have "base + 1 + length name \<le> length (fmem fs)" using fit len by simp
    then show ?case
      unfolding res sum.case nth_Cons_0 n if_not_P [OF ok] wp_bindm
      using b(2) by (intro wp_mono [OF inspect_read_ok [OF be1]]) (auto simp: wp_ret decoded_of_def)
  qed (use fit len in simp)
next
  case False
  with name be show ?thesis
    by (auto simp: read_root_name_for_decoded_def titled_def decoded_of_def wp_ret)
qed

lemma record_before_rule:
  assumes be: "shows_bytes (fmem fs) be" and geom: "geom fs" "unat s < fs_sector_count fs"
    and size: "sm_sector_size summary = fs_sector_size fs"
    and cursor: "26 \<le> cursor" "cursor \<le> fs_sector_size fs"
    and bytes: "sub_bytes (unat s * fs_sector_size fs + (cursor - 16)) 16 (fmem fs) = md_bytes r"
    and wf: "md_wf fs s (cursor - 16) r" and name: "titled fs s r name"
  shows "wp (read_record_before summary (unat s) cursor d)
    (\<lambda>res be'. res = Inr (decoded_of r name, md_class r, cursor - 16) \<and> shows_bytes (fmem fs) be') be"
proof -
  let ?base = "unat s * fs_sector_size fs"
  have fit: "?base + cursor \<le> length (fmem fs)" using sector_fits [OF geom, of cursor 0] cursor by simp
  have t: "sub_bytes (?base + cursor - 1) 1 (fmem fs) ! 0 = md_type r"
  proof -
    have "sub_bytes (?base + (cursor - 16)) 16 (fmem fs) ! 15 = md_type r" unfolding bytes by (rule md_bytes_load)
    then show ?thesis using fit cursor by (simp add: sub_bytes_def)
  qed
  have type: "\<not> md_type r = 0xff" and room: "unat (md_data_off r) + unat (md_data_len r) \<le> fs_sector_size fs"
    using wf cursor by (auto simp: md_wf_def)
  have c: "\<not> cursor < FFFS_MD_FILE_RECORD_SIZE" using cursor by simp
  show ?thesis
    unfolding read_record_before_def if_not_P [OF c] size wp_bindm
  proof (rule wp_mono [OF inspect_read_ok [OF be]], goal_cases)
    case (2 res be1)
    then have res: "res = Inr (sub_bytes (?base + cursor - 1) 1 (fmem fs))" and be1: "shows_bytes (fmem fs) be1" by simp_all
    show ?case
      unfolding res sum.case t if_not_P [OF type] Let_def wp_bindm
    proof (rule wp_mono [OF inspect_read_ok [OF be1]], goal_cases)
      case (2 res be2)
      then have res: "res = Inr (md_bytes r)" and be2: "shows_bytes (fmem fs) be2" by (simp_all add: bytes)
      show ?case
        unfolding res sum.case
        by (simp add: decode_md_wf [OF wf] wp_bindm)
          (rule wp_mono [OF root_name_rule [OF be2 geom size room name]], auto simp: wp_ret)
    qed (use fit cursor in simp)
  qed (use fit cursor in simp)
qed

lemma inspect_find_rule:
  assumes "shows_bytes (fmem fs) be" "geom fs" "unat s < fs_sector_count fs" "sm_sector_size summary = fs_sector_size fs"
    and "cursor \<le> fs_sector_size fs" "md_stored fs (fmem fs) s cursor claimed rs"
    and "\<forall>q \<in> set rs. \<exists>name. titled fs s q name"
    and "find (\<lambda>r. md_record_matches_slot r slot FFFS_MD_MATCH_LIVE) rs = Some r"
  shows "wp (read_decoded_loop summary (unat s) slot cursor claimed d st) (\<lambda>res be'. shows_bytes (fmem fs) be' \<and>
    (\<exists>name. titled fs s r name \<and> res = Inr (decoded_of r name, MD_VALID))) be"
  using assms
proof (induction rs arbitrary: cursor claimed d st be)
  case (Cons q rs)
  obtain name where name: "titled fs s q name" using Cons.prems(7) by auto
  have q: "26 \<le> cursor" "sub_bytes (unat s * fs_sector_size fs + (cursor - 16)) 16 (fmem fs) = md_bytes q"
    "md_wf fs s (cursor - 16) q" "md_stored fs (fmem fs) s (cursor - 16) (max claimed (md_data_end q)) rs"
    using Cons.prems(6) unfolding md_stored.simps by blast+
  have cls: "md_class q = MD_UNCOMMITTED \<or> md_class q = MD_TOMBSTONED \<or> md_class q = MD_VALID"
    by (simp add: md_class_def)
  have live: "md_live q \<longleftrightarrow> md_class q = MD_VALID"
    using q(3) by (auto simp: md_class_def md_wf_def state_live_def fffs_lifecycle_is_live_def fffs_lifecycle_valid_pair_def
        fffs_lifecycle_tombstone_pair_def fffs_bitmirror_state_def)
  have cl: "claim_end claimed (decoded_of q name) = max claimed (md_data_end q)"
    by (simp add: claim_end_def decoded_of_def md_data_end_def)
  have ds: "dm_slot (decoded_of q name) = md_slot q" by (simp add: decoded_of_def)
  have c: "cursor > FFFS_SECTOR_FOOTER_SIZE" using q(1) by simp
  have "wp (bindm (read_record_before summary (unat s) cursor d) (\<lambda>(decoded, state, start).
        if state = MD_ERASED \<or> state = MD_CORRUPT then ret (decoded, state)
        else if state = MD_TOMBSTONED \<or> state = MD_UNCOMMITTED \<or> dm_slot decoded \<noteq> slot
        then if start \<le> claim_end claimed decoded then ret (decoded, state)
          else read_decoded_loop summary (unat s) slot start (claim_end claimed decoded) decoded state
        else ret (decoded, state))) (\<lambda>res be'. shows_bytes (fmem fs) be' \<and>
    (\<exists>name. titled fs s r name \<and> res = Inr (decoded_of r name, MD_VALID))) be"
    unfolding wp_bindm
  proof (rule wp_mono [OF record_before_rule [OF Cons.prems(1-4) q(1) Cons.prems(5) q(2,3) name]], goal_cases)
    case (1 res be1)
    then have res: "res = Inr (decoded_of q name, md_class q, cursor - 16)" and be1: "shows_bytes (fmem fs) be1" by simp_all
    show ?case
    proof (cases "md_record_matches_slot q slot FFFS_MD_MATCH_LIVE")
      case True
      then have "md_slot q = slot" "md_class q = MD_VALID" "r = q"
        using Cons.prems(8) live by (auto simp: md_record_matches_slot_def split: if_splits)
      with be1 name show ?thesis by (auto simp: res ds wp_ret)
    next
      case False
      then have f: "find (\<lambda>r. md_record_matches_slot r slot FFFS_MD_MATCH_LIVE) rs = Some r" using Cons.prems(8) by simp
      then have "rs \<noteq> []" by auto
      then have room: "\<not> cursor - 16 \<le> max claimed (md_data_end q)" using Cons.prems(6) by auto
      have skip: "md_class q = MD_TOMBSTONED \<or> md_class q = MD_UNCOMMITTED \<or> md_slot q \<noteq> slot"
        using False cls live by (auto simp: md_record_matches_slot_def)
      have go: "\<not> (md_class q = MD_ERASED \<or> md_class q = MD_CORRUPT)" using cls by auto
      have "wp (read_decoded_loop summary (unat s) slot (cursor - 16) (max claimed (md_data_end q)) (decoded_of q name) (md_class q))
          (\<lambda>res be'. shows_bytes (fmem fs) be' \<and> (\<exists>name. titled fs s r name \<and> res = Inr (decoded_of r name, MD_VALID))) be1"
        by (rule Cons.IH [OF be1 Cons.prems(2-4) _ q(4) _ f]) (use Cons.prems(5,7) in auto)
      then show ?thesis
        unfolding res sum.case prod.case ds cl if_not_P [OF go] if_P [OF skip] if_not_P [OF room] .
    qed
  qed
  then show ?case using c by (simp add: wp_def read_decoded_loop.simps)
qed simp

lemma read_decoded_md_rule:
  assumes geom: "geom fs" "healthy fs" and size: "sm_sector_size summary = fs_sector_size fs"
    and holds: "sector_holds fs s serial st rs" and names: "\<forall>q \<in> set rs. \<exists>name. titled fs s q name"
    and found: "find (\<lambda>r. md_record_matches_slot r slot FFFS_MD_MATCH_LIVE) rs = Some r"
  shows "wp (read_decoded_md summary (unat s) slot) (\<lambda>res be'. shows_bytes (fmem fs) be' \<and>
    (\<exists>name. titled fs s r name \<and> res = Inr (decoded_of r name, MD_VALID))) (fs_backend fs)"
proof -
  have be: "shows_bytes (fmem fs) (fs_backend fs)"
    using geom by (simp add: shows_bytes_def geom_def fdev_def healthy_def fmem_def)
  have h: "unat s < fs_sector_count fs" "footer_bytes fs s = footer_with_state serial st" "state_live st"
    "md_stored fs (fmem fs) s (fs_sector_size fs - 10) 0 rs"
    using holds by (auto simp: sector_holds_def data_sector_def)
  have ss: "256 \<le> fs_sector_size fs" using geom by (simp add: geom_def)
  have foot: "sub_bytes (unat s * fs_sector_size fs + fs_sector_size fs - 10) 10 (fmem fs) = footer_with_state serial st"
    using h(2) ss by (simp add: footer_bytes_eq [OF geom(1)])
  have valid: "\<not> valid_footer (fffs_decode_sector_footer (footer_with_state serial st)) = None"
    using live_footer_decode [OF h(3), of serial] by (simp add: valid_footer_def Let_def)
  show ?thesis
    unfolding read_decoded_md_def sector_footer_view_def size wp_bindm
  proof (rule wp_mono [OF inspect_read_ok [OF be]], goal_cases)
    case (2 res be1)
    then have res: "res = Inr (footer_with_state serial st)" and be1: "shows_bytes (fmem fs) be1" by (simp_all add: foot)
    show ?case
      unfolding res sum.case wp_ret if_not_P [OF valid]
      by (rule inspect_find_rule [OF be1 geom(1) h(1) size _ _ names found]) (use h(4) in simp_all)
  qed (use sector_fits [OF geom(1) h(1), of "fs_sector_size fs - 10" 10] ss in simp)
qed

end

section \<open>Properties\<close>

text \<open>C18: Inspecting an image always returns and never changes it: the summary, the map of live pages, the
  fragmentation statistics and the dump terminate on every flash content, whatever reads fail, and the bytes
  of the flash are the same afterwards.\<close>

theorem inspection_is_read_only:
  assumes "emu.fuses be"
  shows "wp fffs_inspect_check (\<lambda>r be'. emu.bmem be' = emu.bmem be) be \<and>
    wp (fffs_inspect_live_map page_count page_size) (\<lambda>r be'. emu.bmem be' = emu.bmem be) be \<and>
    wp fffs_inspect_fragstats_dump (\<lambda>r be'. emu.bmem be' = emu.bmem be) be \<and>
    wp fffs_inspect_dump (\<lambda>r be'. emu.bmem be' = emu.bmem be) be"
  using assms by (intro conjI image_kept inspect.check inspect.live_map inspect.fragstats_dump inspect.dump)

text \<open>C17: The inspector agrees with the runtime: for a slot with a committed record in a sector, \<open>fffs_read_md_for_slot\<close>
  and the inspector's \<open>read_decoded_md\<close> find the same record, with the same type, state, extent, span, link and size;
  the inspector reports it valid, with its name when it is a root.\<close>

theorem inspector_agrees:
  assumes "emu.geom fs" "emu.healthy fs" "sm_sector_size summary = fs_sector_size fs"
    and "emu.sector_holds fs s serial st rs" "\<forall>q \<in> set rs. \<exists>name. emu.titled fs s q name"
    and "find (\<lambda>r. md_record_matches_slot r slot FFFS_MD_MATCH_LIVE) rs = Some r"
  shows "wp (fffs_read_md_for_slot s slot) (\<lambda>res fs'. res = Inr r) fs \<and>
    wp (read_decoded_md summary (unat s) slot) (\<lambda>res be'. emu.bmem be' = emu.fmem fs \<and>
      (\<exists>name. emu.titled fs s r name \<and> res = Inr (decoded_of r name, MD_VALID))) (fs_backend fs)"
proof
  have "emu.finds fs s slot r" using assms(4,6) by (auto simp: emu.finds_def)
  from emu.look_rule [OF assms(1,2) this] show "wp (fffs_read_md_for_slot s slot) (\<lambda>res fs'. res = Inr r) fs"
    by (rule wp_mono) simp
  from emu.read_decoded_md_rule [OF assms] show "wp (read_decoded_md summary (unat s) slot) (\<lambda>res be'. emu.bmem be' = emu.fmem fs \<and>
      (\<exists>name. emu.titled fs s r name \<and> res = Inr (decoded_of r name, MD_VALID))) (fs_backend fs)"
    by (rule wp_mono) (simp add: emu.shows_bytes_def)
qed

section \<open>Witnesses\<close>

theorem inspection_is_read_only_witness:
  "wp fffs_inspect_check (\<lambda>r be'. emu.bmem be' = emu.bmem example_backend) example_backend \<and>
   wp fffs_inspect_dump (\<lambda>r be'. emu.bmem be' = emu.bmem example_backend) example_backend"
  using inspection_is_read_only [OF example_backend_uses(1)] by simp

definition example_summary :: fffs_inspect_summary where
  "example_summary = \<lparr>sm_sector_size = 256, sm_sector_count = 4, sm_index_sectors = 2, sm_active_index_sector = 0,
     sm_active_index_serial = 0, sm_index_records = 0, sm_index_deletes = 0, sm_index_corrupt_records = 0,
     sm_live_entries = 0, sm_live_entries_corrupt = 0, sm_data_sectors_erased = 0, sm_data_sectors_owned = 0,
     sm_data_sectors_tombstoned = 0, sm_data_sectors_corrupt = 0, sm_md_live = 0, sm_md_obsolete_orphaned = 0,
     sm_md_tombstoned = 0, sm_md_corrupt = 0\<rparr>"

text \<open>The sector of \<open>example_fs_root\<close> with the name \<^verbatim>\<open>hi\<close> in front of the payload.\<close>

definition example_named :: "ffsv_flash fffs" where
  "example_named = snd (the (fffs_flash_program_aligned 768 [2, 104, 105, 0] example_fs_root))"

lemma example_named_facts:
  "emu.geom example_named" "emu.healthy example_named" "fs_sector_size example_named = 256"
  "\<exists>serial st. emu.sector_holds example_named 3 serial st [example_root]"
  "emu.titled example_named 3 example_root [104, 105]"
proof -
  note f = example_fs_root_facts
  let ?m = "emu.fmem example_fs_root" and ?d = "[2, 104, 105, 0] :: byte list"
  have len: "length ?m = 1024" using f(6) by (simp add: only_def)
  have "wp (fffs_flash_program_aligned 768 ?d) (\<lambda>r fs'. r = Inr () \<and> emu.kept example_fs_root fs' \<and>
      emu.fmem fs' = nor_program 768 ?d ?m) example_fs_root"
    by (rule emu.program_ok [OF f(1,2)]) (simp add: len)
  then have k: "emu.kept example_fs_root example_named" and m: "emu.fmem example_named = nor_program 768 ?d ?m"
    unfolding wp_iff example_named_def by auto
  show "emu.geom example_named" "emu.healthy example_named" "fs_sector_size example_named = 256"
    using k f(7) by (simp_all add: emu.kept_def)
  show "\<exists>serial st. emu.sector_holds example_named 3 serial st [example_root]"
  proof -
    from f(3) obtain serial st where h: "emu.sector_holds example_fs_root 3 serial st [example_root]" by blast
    have part: "sub_bytes a n (emu.fmem example_named) = sub_bytes a n ?m" if "772 \<le> a" "a + n \<le> 1024" for a n
      unfolding m using that len by (intro sub_bytes_nor_program_disjoint) auto
    have "emu.footer_bytes example_named 3 = emu.footer_bytes example_fs_root 3"
      using part [of 1014 10] k f(7) by (simp add: emu.footer_bytes_def fffs_sector_footer_offset_def emu.kept_def)
    with h part [of 998 16] k f(7) have "emu.sector_holds example_named 3 serial st [example_root]"
      by (simp add: emu.sector_holds_def emu.kept_def data_sector_def md_wf_def)
    then show ?thesis by blast
  qed
  have "sub_bytes 768 4 ?m = replicate 4 0xff" "sub_bytes 772 21 ?m = replicate 21 0xff"
    using f(6) by (intro nth_equalityI; auto simp: only_def)+
  then have "sub_bytes 768 4 (emu.fmem example_named) = ?d" "sub_bytes 772 21 (emu.fmem example_named) = replicate 21 0xff"
    unfolding m using sub_bytes_nor_program_same [of 768 ?d ?m] sub_bytes_nor_program_disjoint [of 768 ?d ?m 772 21] len
    by (simp_all add: numeral_eq_Suc)
  then have "sub_bytes 768 25 (emu.fmem example_named) = ?d @ replicate 21 0xff"
    using sub_bytes_append [of 768 4 21 "emu.fmem example_named"] by simp
  then show "emu.titled example_named 3 example_root [104, 105]"
    using k f(7) by (simp add: emu.titled_def file_name_def root_prefix_def emu.extent_data_def emu.kept_def example_root_def
        extent_md_def md_class_def)
qed

theorem inspector_agrees_witness:
  "wp (read_decoded_md example_summary 3 7) (\<lambda>res be'. \<exists>name. res = Inr (decoded_of example_root name, MD_VALID))
     (fs_backend example_named)"
proof -
  from example_named_facts(4) obtain serial st
    where h: "emu.sector_holds example_named 3 serial st [example_root]" by blast
  have "md_slot example_root = 7" "md_live example_root" by (simp_all add: example_root_def extent_md_def)
  then have "wp (read_decoded_md example_summary (unat (3 :: u16)) 7) (\<lambda>res be'. emu.bmem be' = emu.fmem example_named \<and>
      (\<exists>name. emu.titled example_named 3 example_root name \<and> res = Inr (decoded_of example_root name, MD_VALID)))
     (fs_backend example_named)"
    using example_named_facts
    by (intro inspector_agrees [OF _ _ _ h, THEN conjunct2])
      (auto simp: md_record_matches_slot_def example_summary_def)
  then show ?thesis by (simp add: wp_def split: option.splits prod.splits) blast
qed

end
