(* ===== verification/Spec2Isabelle.thy ===== *)
theory Spec2Isabelle
  imports Fffs_Recovery Fffs_Nocache Fffs_Fsck
begin

text \<open>
  \<^bold>\<open>Verification of FASTFFS\<close>, a file system for NOR flash.  Paths are relative to the repository root.

  \<^bold>\<open>The program.\<close>  A FASTFFS image is an array of sectors.  The first few (2 to 15) are index sectors: a ring
  that holds the namespace journal, four-byte records that bind a 16-bit slot to the sector of a file's root.
  The others are data sectors: file data grows from the bottom, sixteen-byte metadata records (one per extent)
  grow down from a ten-byte footer.  A file is a chain of extents that starts at its root record.  NOR flash
  can only clear bits until a sector is erased, so every state change is a bit that is cleared: records are
  written uncommitted, then made valid, then marked full or tombstoned.  A RAM cache of the journal maps slots
  to roots; an allocation map holds hints about used sectors; a collector erases sectors without live records
  and compacts sectors of small roots.  An emulator of the flash, with failure injection, stands in for the
  device on the host.

  \<^bold>\<open>Style.\<close>  An operation is a function from the state to \<open>Some (result, state)\<close>, or \<open>None\<close> when it does not
  return (\<open>Fffs_Prelude\<close>); the result is an error or a value.  \<open>bindm\<close>, \<open>seqm\<close>, \<open>trym\<close>, \<open>throw\<close> follow the calls,
  checks and early returns of the C functions.  \<^verbatim>\<open>size_t\<close> is \<open>nat\<close>, integers of fixed width are words, structs are
  records, enums are datatypes.  Pointers to caller memory are values; the handles of open files are numbers
  (addresses) into \<open>fs_files\<close>.  The backend of a file system is a record of the device's functions and of an
  opaque device state \<open>'c\<close>, as the C struct holds function pointers and a context.  Loops that follow data on
  flash are partial functions, so that not returning is a value; loops with a counter recurse on it, and no
  fuel is invented.

  \<^bold>\<open>Theories and sources.\<close>
  \<^item> \<open>Fffs_Prelude\<close>: the monad, \<open>wp\<close> and \<open>wlp\<close>, the frames \<open>keeps\<close> (a part of the state never changes), \<open>runs\<close>
    (it returns and keeps an invariant) and \<open>ensures\<close>, byte lists, NOR programming and torn programs.
  \<^item> \<open>Fffs_State\<close>: \<^verbatim>\<open>include/fastffs/fastffs.h\<close>, \<^verbatim>\<open>src/fffs_internal.h\<close>, \<^verbatim>\<open>src/fffs_bitmirror.h\<close>.
  \<^item> \<open>Fffs_Flash\<close>: \<^verbatim>\<open>src/fffs_flash.c\<close>, and the locales \<open>flash_device\<close> and \<open>reliable_flash\<close> that state what a device
    promises; \<open>Verify_Flash\<close>: the emulator \<^verbatim>\<open>src/verify_flash.c\<close> over \<^verbatim>\<open>lfs_emubd.c\<close>, interpreted as such a device, with
    failure injection and the fault sampler; \<open>Verify_Flash_Tools\<close>: its staged programs, snapshots, images, reports.
  \<^item> \<open>Fffs_Sector\<close>: \<^verbatim>\<open>src/fffs_sector.c\<close>, \<^verbatim>\<open>src/fffs_sector_reader.c\<close>.  \<open>Fffs_Alloc_Map\<close>: \<^verbatim>\<open>src/fffs_alloc_map.c\<close>,
    \<^verbatim>\<open>src/fffs_bitset.c\<close>, with the interface of a bit array as a locale.
  \<^item> \<open>Fffs_Hash_Index\<close>: \<^verbatim>\<open>src/fffs_hashtable_index.c\<close> and \<^verbatim>\<open>src/fffs_ram_index.c\<close>, both interpretations of one locale
    of slot maps.  \<open>Fffs_Nocache\<close>: \<^verbatim>\<open>src/fffs_nocache_index.c\<close>.
  \<^item> \<open>Fffs_Index_Log\<close> and \<open>Fffs_Mount\<close>: \<^verbatim>\<open>src/fffs_index_log.c\<close> (headers, discovery, append, rotation, compaction;
    replay at mount).  \<open>Fffs_Fsinfo\<close>, \<open>Fffs_Namespace\<close>, \<open>Fffs_Mount\<close>: \<^verbatim>\<open>src/fastffs.c\<close>.
  \<^item> \<open>Fffs_Metadata\<close>: \<^verbatim>\<open>src/fffs_file_md.c\<close>.  \<open>Fffs_Open_Files\<close>, \<open>Fffs_File\<close>: \<^verbatim>\<open>src/fffs_file.c\<close>.  \<open>Fffs_Alloc\<close>:
    \<^verbatim>\<open>src/fffs_alloc.c\<close>.  \<open>Fffs_Gc\<close>: \<^verbatim>\<open>src/fffs_gc.c\<close>.
  \<^item> \<open>Fffs_Inspect\<close>: \<^verbatim>\<open>src/fffs_inspect.c\<close>, the read-only second decoder with its summaries and dumps, and the workload.

  \<^bold>\<open>What is shown.\<close>
  \<^item> Flash.  Aligned programming clears exactly the requested bits, or a part of them when the device fails
    (\<open>Verify_Flash\<close>).  Everything below is proved from the laws of the device locales and holds of the emulator
    by interpretation, for every injected failure.
  \<^item> Crash safety.  A torn footer or index header is never taken for a different one; lifecycle states only
    move forward (\<open>Fffs_Sector\<close>, \<open>Fffs_Index_Log\<close>); a root is invisible until its second phase (\<open>Fffs_Extent\<close>).
  \<^item> Index.  Both RAM caches refine a finite map, so replaying a journal gives each slot its last record;
    appending is exact.
  \<^item> Durability.  \<open>Fffs_Discovery\<close> says what mount makes of the index headers on the flash: it finds the geometry and the
    run of index sectors, except for a wrapped run of ten or more sectors, which it cuts off.  \<open>Fffs_Replay\<close> follows the
    replay of the journal record by record and shows that the cache becomes the map the records describe.
    \<open>Fffs_Remount\<close> puts them together with format, mount and the creation of a file: the invariant \<open>consistent\<close> between
    flash and RAM holds after format and mount, is kept by creating a file, and lets a mount with arbitrary RAM give back
    exactly the stored files.  \<open>Fffs_Recovery\<close> lets the device fail while a journal record is written: the next non-strict
    mount clears what is torn and finds the old index or the new one, provided no sector that a torn head may name holds
    another root of the slot.
  \<^item> Metadata.  \<open>Fffs_Extent\<close> gives a sector an abstract content, a list of records, and shows that lookups,
    appends and commits act on it as on that list; \<open>Fffs_Windows\<close> that the free window found is the gap it leaves.
  \<^item> Files.  \<open>Fffs_Stream\<close> relates a handle to the bytes before and after its position, for chains of any length;
    \<open>Fffs_Lookup\<close> defines what it means that a name is stored with a content and shows that opening finds it;
    \<open>Fffs_Publish\<close> shows that closing publishes what was written and keeps every other stored file; \<open>Fffs_Create\<close>
    puts the life of a file together: opened, written and closed it is stored, and every other file still is.  Creation
    is shown for the case that the next sector is blank and the journal has room, and a content of one extent.
  \<^item> Inspection.  \<open>Fffs_Fsck\<close> shows that inspecting an image returns on every flash content and changes nothing, and
    that the inspector's decoder finds the same record as the runtime's.
  \<^item> Frames and termination.  \<open>Fffs_Frame\<close> bounds what each operation can change in RAM, \<open>Fffs_Confine\<close> what a
    collector step can change on flash, and \<open>Fffs_Total\<close> shows that queries and bounded collection return on
    every flash content.  \<open>Fffs_Handles\<close> has the contracts of flush, seek and close.

  \<^bold>\<open>Choices.\<close>  The build options are the defaults: hash-table index, full-bitmap allocation map, four reserved
  sectors per writer, five compaction reserves, no profiling, \<^verbatim>\<open>FFFS_GC_PARANOID_REACHABILITY\<close> off.  The two other
  index backends are modelled beside the default one.  \<^verbatim>\<open>NULL\<close> checks of arguments are not modelled.

  \<^bold>\<open>Not modelled.\<close>  The tools, benchmarks and tests: they parse arguments, print, and drive the library.  Host files and
  host memory: opening a file may fail, reading, writing and allocating do not.  The call-site labels of the
  emulator's log.  The profiling hooks, which the default build leaves empty.
\<close>

end
